(* ===== verification/Rb_Tree.thy ===== *)
theory Rb_Tree
  imports Main "HOL-Library.Monad_Syntax"
begin

text \<open>
  The red-black trees of \<^verbatim>\<open>lib/rbtree.c\<close>, \<^verbatim>\<open>lib/rbtree.h\<close> and \<^verbatim>\<open>lib/rbtree_augmented.h\<close> at the level of
  pointers: memory maps addresses to nodes, the operations read and write it, and \<open>None\<close> is an access
  through a pointer that is null or does not point to a node, or a loop that does not end.  The trees of
  the server are not augmented, the callbacks do nothing and are left out.

  The code for a left and for a right child are mirror images of each other; they are one definition
  that takes the side.
\<close>

type_synonym ptr = nat

datatype rb_color = RB_RED | RB_BLACK

datatype side = Lft | Rgt

fun opp :: "side \<Rightarrow> side" where
  "opp Lft = Rgt"
| "opp Rgt = Lft"

text \<open>\<open>__rb_parent_color\<close> packs the address of the father and, in its lowest bit, the colour.\<close>

record rb_node =
  pc_parent :: ptr
  pc_color :: rb_color
  rb_right :: ptr
  rb_left :: ptr

record rb_mem =
  nodes :: "ptr \<rightharpoonup> rb_node"
  rb_root :: ptr

subsection \<open>Access to memory\<close>

definition deref :: "rb_mem \<Rightarrow> ptr \<Rightarrow> rb_node option" where
  "deref m p = (if p = 0 then None else nodes m p)"

definition upd_node :: "ptr \<Rightarrow> (rb_node \<Rightarrow> rb_node) \<Rightarrow> rb_mem \<Rightarrow> rb_mem option" where
  "upd_node p f m =
     (case deref m p of None \<Rightarrow> None | Some n \<Rightarrow> Some (m\<lparr>nodes := (nodes m)(p \<mapsto> f n)\<rparr>))"

definition rb_parent :: "rb_mem \<Rightarrow> ptr \<Rightarrow> ptr option" where
  "rb_parent m p = map_option pc_parent (deref m p)"

definition rb_is_red :: "rb_mem \<Rightarrow> ptr \<Rightarrow> bool option" where
  "rb_is_red m p = map_option (\<lambda>n. pc_color n = RB_RED) (deref m p)"

definition rb_is_black :: "rb_mem \<Rightarrow> ptr \<Rightarrow> bool option" where
  "rb_is_black m p = map_option (\<lambda>n. pc_color n = RB_BLACK) (deref m p)"

definition child :: "side \<Rightarrow> rb_mem \<Rightarrow> ptr \<Rightarrow> ptr option" where
  "child d m p = map_option (\<lambda>n. case d of Lft \<Rightarrow> rb_left n | Rgt \<Rightarrow> rb_right n) (deref m p)"

definition set_child :: "side \<Rightarrow> ptr \<Rightarrow> ptr \<Rightarrow> rb_mem \<Rightarrow> rb_mem option" where
  "set_child d p q m = upd_node p (\<lambda>n. case d of Lft \<Rightarrow> n\<lparr>rb_left := q\<rparr> | Rgt \<Rightarrow> n\<lparr>rb_right := q\<rparr>) m"

definition rb_set_parent :: "ptr \<Rightarrow> ptr \<Rightarrow> rb_mem \<Rightarrow> rb_mem option" where
  "rb_set_parent p par m = upd_node p (\<lambda>n. n\<lparr>pc_parent := par\<rparr>) m"

definition rb_set_parent_color :: "ptr \<Rightarrow> ptr \<Rightarrow> rb_color \<Rightarrow> rb_mem \<Rightarrow> rb_mem option" where
  "rb_set_parent_color p par c m = upd_node p (\<lambda>n. n\<lparr>pc_parent := par, pc_color := c\<rparr>) m"

definition rb_set_black :: "ptr \<Rightarrow> rb_mem \<Rightarrow> rb_mem option" where
  "rb_set_black p m = upd_node p (\<lambda>n. n\<lparr>pc_color := RB_BLACK\<rparr>) m"

text \<open>An upd_node of \<open>p\<close> that is only done if \<open>p\<close> is not null.\<close>

definition unless_null :: "ptr \<Rightarrow> (rb_mem \<Rightarrow> rb_mem option) \<Rightarrow> rb_mem \<Rightarrow> rb_mem option" where
  "unless_null p f m = (if p \<noteq> 0 then f m else Some m)"

text \<open>A node without mark or that is not there, \<open>!tmp || rb_is_black(tmp)\<close>.\<close>

definition null_or_black :: "rb_mem \<Rightarrow> ptr \<Rightarrow> bool option" where
  "null_or_black m p = (if p = 0 then Some True else rb_is_black m p)"

definition RB_EMPTY_NODE :: "rb_mem \<Rightarrow> ptr \<Rightarrow> bool option" where
  "RB_EMPTY_NODE m p = map_option (\<lambda>n. pc_parent n = p \<and> pc_color n = RB_RED) (deref m p)"

definition RB_CLEAR_NODE :: "ptr \<Rightarrow> rb_mem \<Rightarrow> rb_mem option" where
  "RB_CLEAR_NODE p m = rb_set_parent_color p p RB_RED m"

text \<open>The link a new node is hung into: the root, or a child of a node.\<close>

datatype link = Root | Child ptr side

definition read_link :: "rb_mem \<Rightarrow> link \<Rightarrow> ptr option" where
  "read_link m l = (case l of Root \<Rightarrow> Some (rb_root m) | Child p d \<Rightarrow> child d m p)"

definition write_link :: "link \<Rightarrow> ptr \<Rightarrow> rb_mem \<Rightarrow> rb_mem option" where
  "write_link l q m = (case l of Root \<Rightarrow> Some (m\<lparr>rb_root := q\<rparr>) | Child p d \<Rightarrow> set_child d p q m)"

definition rb_link_node :: "ptr \<Rightarrow> ptr \<Rightarrow> link \<Rightarrow> rb_mem \<Rightarrow> rb_mem option" where
  "rb_link_node node parent rb_link m = do {
     m \<leftarrow> rb_set_parent_color node parent RB_RED m;
     m \<leftarrow> set_child Rgt node 0 m;
     m \<leftarrow> set_child Lft node 0 m;
     write_link rb_link node m }"

definition rb_change_child :: "ptr \<Rightarrow> ptr \<Rightarrow> ptr \<Rightarrow> rb_mem \<Rightarrow> rb_mem option" where
  "rb_change_child old new parent m =
     (if parent \<noteq> 0 then do {
        l \<leftarrow> child Lft m parent;
        if l = old then set_child Lft parent new m else set_child Rgt parent new m }
      else Some (m\<lparr>rb_root := new\<rparr>))"

definition rb_rotate_set_parents :: "ptr \<Rightarrow> ptr \<Rightarrow> rb_color \<Rightarrow> rb_mem \<Rightarrow> rb_mem option" where
  "rb_rotate_set_parents old new color m = do {
     n \<leftarrow> deref m old;
     let parent = pc_parent n;
     m \<leftarrow> rb_set_parent_color new parent (pc_color n) m;
     m \<leftarrow> rb_set_parent_color old new color m;
     rb_change_child old new parent m }"

subsection \<open>Insertion\<close>

text \<open>Cases 2 and 3: \<open>parent\<close> is the child on side \<open>d\<close> of \<open>gparent\<close>.\<close>

definition insert_rotate :: "side \<Rightarrow> ptr \<Rightarrow> ptr \<Rightarrow> ptr \<Rightarrow> rb_mem \<Rightarrow> rb_mem option" where
  "insert_rotate d node parent gparent m = do {
     tmp \<leftarrow> child (opp d) m parent;
     (parent, tmp, m) \<leftarrow>
       (if node = tmp then do {
          tmp \<leftarrow> child d m node;
          m \<leftarrow> set_child (opp d) parent tmp m;
          m \<leftarrow> set_child d node parent m;
          m \<leftarrow> unless_null tmp (rb_set_parent_color tmp parent RB_BLACK) m;
          m \<leftarrow> rb_set_parent_color parent node RB_RED m;
          tmp \<leftarrow> child (opp d) m node;
          Some (node, tmp, m) }
        else Some (parent, tmp, m));
     m \<leftarrow> set_child d gparent tmp m;
     m \<leftarrow> set_child (opp d) parent gparent m;
     m \<leftarrow> unless_null tmp (rb_set_parent_color tmp gparent RB_BLACK) m;
     rb_rotate_set_parents gparent parent RB_RED m }"

text \<open>One round of the loop: \<open>Inl\<close> leaves it, \<open>Inr\<close> goes on with another node.\<close>

definition insert_round :: "side \<Rightarrow> ptr \<Rightarrow> ptr \<Rightarrow> ptr \<Rightarrow> rb_mem \<Rightarrow> (rb_mem + ptr \<times> ptr \<times> rb_mem) option" where
  "insert_round d node parent gparent m = do {
     tmp \<leftarrow> child (opp d) m gparent;
     black \<leftarrow> null_or_black m tmp;
     if \<not> black then do {
       m \<leftarrow> rb_set_parent_color tmp gparent RB_BLACK m;
       m \<leftarrow> rb_set_parent_color parent gparent RB_BLACK m;
       parent \<leftarrow> rb_parent m gparent;
       m \<leftarrow> rb_set_parent_color gparent parent RB_RED m;
       Some (Inr (gparent, parent, m)) }
     else map_option Inl (insert_rotate d node parent gparent m) }"

definition insert_step :: "ptr \<Rightarrow> ptr \<Rightarrow> rb_mem \<Rightarrow> (rb_mem + ptr \<times> ptr \<times> rb_mem) option" where
  "insert_step node parent m =
     (if parent = 0 then map_option Inl (rb_set_parent_color node 0 RB_BLACK m)
      else do {
        black \<leftarrow> rb_is_black m parent;
        if black then Some (Inl m)
        else do {
          gparent \<leftarrow> rb_parent m parent;
          tmp \<leftarrow> child Rgt m gparent;
          if parent \<noteq> tmp then insert_round Lft node parent gparent m
          else insert_round Rgt node parent gparent m } })"

partial_function (option) rb_insert_loop :: "ptr \<Rightarrow> ptr \<Rightarrow> rb_mem \<Rightarrow> rb_mem option" where
  "rb_insert_loop node parent m =
     (case insert_step node parent m of
        None \<Rightarrow> None
      | Some (Inl m) \<Rightarrow> Some m
      | Some (Inr (node, parent, m)) \<Rightarrow> rb_insert_loop node parent m)"

definition rb_insert_color :: "ptr \<Rightarrow> rb_mem \<Rightarrow> rb_mem option" where
  "rb_insert_color node m = do {
     parent \<leftarrow> rb_parent m node;
     rb_insert_loop node parent m }"

subsection \<open>Removal\<close>

text \<open>Case 1: a red sibling is rotated above \<open>parent\<close>; the new sibling is returned.\<close>

definition erase_red_sibling :: "side \<Rightarrow> ptr \<Rightarrow> ptr \<Rightarrow> rb_mem \<Rightarrow> (ptr \<times> rb_mem) option" where
  "erase_red_sibling d parent sibling m = do {
     tmp1 \<leftarrow> child d m sibling;
     m \<leftarrow> set_child (opp d) parent tmp1 m;
     m \<leftarrow> set_child d sibling parent m;
     m \<leftarrow> rb_set_parent_color tmp1 parent RB_BLACK m;
     m \<leftarrow> rb_rotate_set_parents parent sibling RB_RED m;
     Some (tmp1, m) }"

text \<open>Case 3: the sibling is rotated below its child \<open>tmp2\<close>.\<close>

definition erase_rotate_sibling :: "side \<Rightarrow> ptr \<Rightarrow> ptr \<Rightarrow> ptr \<Rightarrow> rb_mem \<Rightarrow> rb_mem option" where
  "erase_rotate_sibling d parent sibling tmp2 m = do {
     tmp1 \<leftarrow> child (opp d) m tmp2;
     m \<leftarrow> set_child d sibling tmp1 m;
     m \<leftarrow> set_child (opp d) tmp2 sibling m;
     m \<leftarrow> set_child (opp d) parent tmp2 m;
     unless_null tmp1 (rb_set_parent_color tmp1 sibling RB_BLACK) m }"

text \<open>Case 4: the sibling is rotated above \<open>parent\<close>; \<open>tmp1\<close> is its outer child.\<close>

definition erase_rotate_parent :: "side \<Rightarrow> ptr \<Rightarrow> ptr \<Rightarrow> ptr \<Rightarrow> rb_mem \<Rightarrow> rb_mem option" where
  "erase_rotate_parent d parent sibling tmp1 m = do {
     tmp2 \<leftarrow> child d m sibling;
     m \<leftarrow> set_child (opp d) parent tmp2 m;
     m \<leftarrow> set_child d sibling parent m;
     m \<leftarrow> rb_set_parent_color tmp1 sibling RB_BLACK m;
     m \<leftarrow> unless_null tmp2 (rb_set_parent tmp2 parent) m;
     rb_rotate_set_parents parent sibling RB_BLACK m }"

text \<open>Case 2: the sibling becomes red, and the loop goes on above unless \<open>parent\<close> can become black.\<close>

definition erase_flip :: "ptr \<Rightarrow> ptr \<Rightarrow> rb_mem \<Rightarrow> (rb_mem + ptr \<times> ptr \<times> rb_mem) option" where
  "erase_flip parent sibling m = do {
     m \<leftarrow> rb_set_parent_color sibling parent RB_RED m;
     red \<leftarrow> rb_is_red m parent;
     if red then map_option Inl (rb_set_black parent m)
     else do {
       up \<leftarrow> rb_parent m parent;
       if up \<noteq> 0 then Some (Inr (parent, up, m)) else Some (Inl m) } }"

text \<open>The cases 2, 3 and 4 with a black sibling.\<close>

definition erase_black_sibling :: "side \<Rightarrow> ptr \<Rightarrow> ptr \<Rightarrow> rb_mem \<Rightarrow> (rb_mem + ptr \<times> ptr \<times> rb_mem) option" where
  "erase_black_sibling d parent sibling m = do {
     tmp1 \<leftarrow> child (opp d) m sibling;
     black1 \<leftarrow> null_or_black m tmp1;
     if black1 then do {
       tmp2 \<leftarrow> child d m sibling;
       black2 \<leftarrow> null_or_black m tmp2;
       if black2 then erase_flip parent sibling m
       else do {
         m \<leftarrow> erase_rotate_sibling d parent sibling tmp2 m;
         map_option Inl (erase_rotate_parent d parent tmp2 sibling m) } }
     else map_option Inl (erase_rotate_parent d parent sibling tmp1 m) }"

definition erase_round :: "side \<Rightarrow> ptr \<Rightarrow> rb_mem \<Rightarrow> (rb_mem + ptr \<times> ptr \<times> rb_mem) option" where
  "erase_round d parent m = do {
     sibling \<leftarrow> child (opp d) m parent;
     red \<leftarrow> rb_is_red m sibling;
     (sibling, m) \<leftarrow> (if red then erase_red_sibling d parent sibling m else Some (sibling, m));
     erase_black_sibling d parent sibling m }"

definition erase_step :: "ptr \<Rightarrow> ptr \<Rightarrow> rb_mem \<Rightarrow> (rb_mem + ptr \<times> ptr \<times> rb_mem) option" where
  "erase_step node parent m = do {
     sibling \<leftarrow> child Rgt m parent;
     if node \<noteq> sibling then erase_round Lft parent m else erase_round Rgt parent m }"

partial_function (option) erase_color_loop :: "ptr \<Rightarrow> ptr \<Rightarrow> rb_mem \<Rightarrow> rb_mem option" where
  "erase_color_loop node parent m =
     (case erase_step node parent m of
        None \<Rightarrow> None
      | Some (Inl m) \<Rightarrow> Some m
      | Some (Inr (node, parent, m)) \<Rightarrow> erase_color_loop node parent m)"

definition rb_erase_color :: "ptr \<Rightarrow> rb_mem \<Rightarrow> rb_mem option" where
  "rb_erase_color parent m = erase_color_loop 0 parent m"

text \<open>The way to the leftmost node below \<open>successor\<close>, whose left child is \<open>tmp\<close>, with its father.\<close>

partial_function (option) leftmost :: "rb_mem \<Rightarrow> ptr \<Rightarrow> ptr \<Rightarrow> (ptr \<times> ptr) option" where
  "leftmost m successor tmp = do {
     let parent = successor;
     let successor = tmp;
     tmp \<leftarrow> child Lft m tmp;
     if tmp \<noteq> 0 then leftmost m successor tmp else Some (parent, successor) }"

text \<open>A node with at most one child; the result is the node to rebalance from.\<close>

definition erase_easy :: "ptr \<Rightarrow> ptr \<Rightarrow> rb_node \<Rightarrow> rb_mem \<Rightarrow> (ptr \<times> rb_mem) option" where
  "erase_easy node ch n m = do {
     let parent = pc_parent n;
     m \<leftarrow> rb_change_child node ch parent m;
     if ch \<noteq> 0 then do {
       m \<leftarrow> rb_set_parent_color ch parent (pc_color n) m;
       Some (0, m) }
     else Some (if pc_color n = RB_BLACK then parent else 0, m) }"

text \<open>A node with two children, \<open>l\<close> and \<open>r\<close>: its successor takes its place.\<close>

definition erase_successor :: "ptr \<Rightarrow> ptr \<Rightarrow> ptr \<Rightarrow> rb_mem \<Rightarrow> (ptr \<times> rb_mem) option" where
  "erase_successor node l r m = do {
     tmp \<leftarrow> child Lft m r;
     (parent, successor, child2, m) \<leftarrow>
       (if tmp = 0 then do {
          child2 \<leftarrow> child Rgt m r;
          Some (r, r, child2, m) }
        else do {
          (parent, successor) \<leftarrow> leftmost m r tmp;
          child2 \<leftarrow> child Rgt m successor;
          m \<leftarrow> set_child Lft parent child2 m;
          m \<leftarrow> set_child Rgt successor r m;
          m \<leftarrow> rb_set_parent r successor m;
          Some (parent, successor, child2, m) });
     m \<leftarrow> set_child Lft successor l m;
     m \<leftarrow> rb_set_parent l successor m;
     n \<leftarrow> deref m node;
     m \<leftarrow> rb_change_child node successor (pc_parent n) m;
     n2 \<leftarrow> deref m successor;
     m \<leftarrow> rb_set_parent_color successor (pc_parent n) (pc_color n) m;
     if child2 \<noteq> 0 then do {
       m \<leftarrow> rb_set_parent_color child2 parent RB_BLACK m;
       Some (0, m) }
     else Some (if pc_color n2 = RB_BLACK then parent else 0, m) }"

definition rb_erase :: "ptr \<Rightarrow> rb_mem \<Rightarrow> rb_mem option" where
  "rb_erase node m = do {
     n \<leftarrow> deref m node;
     (rebalance, m) \<leftarrow>
       (if rb_left n = 0 then erase_easy node (rb_right n) n m
        else if rb_right n = 0 then erase_easy node (rb_left n) n m
        else erase_successor node (rb_left n) (rb_right n) m);
     if rebalance \<noteq> 0 then rb_erase_color rebalance m else Some m }"

subsection \<open>Walking\<close>

text \<open>As far as possible to one side.\<close>

partial_function (option) outermost :: "side \<Rightarrow> rb_mem \<Rightarrow> ptr \<Rightarrow> ptr option" where
  "outermost d m n = do {
     c \<leftarrow> child d m n;
     if c \<noteq> 0 then outermost d m c else Some n }"

definition rb_first :: "rb_mem \<Rightarrow> ptr option" where
  "rb_first m = (if rb_root m = 0 then Some 0 else outermost Lft m (rb_root m))"

definition rb_last :: "rb_mem \<Rightarrow> ptr option" where
  "rb_last m = (if rb_root m = 0 then Some 0 else outermost Rgt m (rb_root m))"

text \<open>Up while the node is the child on side \<open>d\<close> of its father.\<close>

partial_function (option) climb :: "side \<Rightarrow> rb_mem \<Rightarrow> ptr \<Rightarrow> ptr option" where
  "climb d m node = do {
     parent \<leftarrow> rb_parent m node;
     if parent = 0 then Some 0
     else do {
       c \<leftarrow> child d m parent;
       if node = c then climb d m parent else Some parent } }"

text \<open>\<open>rb_next\<close> for the side \<open>Rgt\<close>, \<open>rb_prev\<close> for the side \<open>Lft\<close>.\<close>

definition neighbour :: "side \<Rightarrow> rb_mem \<Rightarrow> ptr \<Rightarrow> ptr option" where
  "neighbour d m node = do {
     empty \<leftarrow> RB_EMPTY_NODE m node;
     if empty then Some 0
     else do {
       c \<leftarrow> child d m node;
       if c \<noteq> 0 then outermost (opp d) m c else climb d m node } }"

definition rb_next :: "rb_mem \<Rightarrow> ptr \<Rightarrow> ptr option" where
  "rb_next m node = neighbour Rgt m node"

definition rb_prev :: "rb_mem \<Rightarrow> ptr \<Rightarrow> ptr option" where
  "rb_prev m node = neighbour Lft m node"

definition rb_replace_node :: "ptr \<Rightarrow> ptr \<Rightarrow> rb_mem \<Rightarrow> rb_mem option" where
  "rb_replace_node victim new m = do {
     parent \<leftarrow> rb_parent m victim;
     m \<leftarrow> rb_change_child victim new parent m;
     l \<leftarrow> child Lft m victim;
     m \<leftarrow> unless_null l (rb_set_parent l new) m;
     r \<leftarrow> child Rgt m victim;
     m \<leftarrow> unless_null r (rb_set_parent r new) m;
     v \<leftarrow> deref m victim;
     upd_node new (\<lambda>_. v) m }"

end
