(* ===== verification/Rb_Zipper.thy ===== *)
theory Rb_Zipper
  imports Rb_Tree
begin

text \<open>
  The abstract side of the red-black trees: trees whose labels are the addresses of their nodes, and
  the way from a node to the root.  Rebalancing works on such a way, and keeps the order of the
  labels and the invariants of red-black trees.
\<close>

datatype rtree = Tip | Nd rb_color rtree ptr rtree

fun here :: "rtree \<Rightarrow> ptr" where
  "here Tip = 0"
| "here (Nd c l a r) = a"

fun labels :: "rtree \<Rightarrow> ptr list" where
  "labels Tip = []"
| "labels (Nd c l a r) = labels l @ a # labels r"

fun color :: "rtree \<Rightarrow> rb_color" where
  "color Tip = RB_BLACK"
| "color (Nd c l a r) = c"

fun paint :: "rb_color \<Rightarrow> rtree \<Rightarrow> rtree" where
  "paint c Tip = Tip"
| "paint c (Nd c' l a r) = Nd c l a r"

text \<open>A node with a subtree \<open>x\<close> on side \<open>d\<close> and \<open>y\<close> on the other.\<close>

definition mk :: "side \<Rightarrow> rb_color \<Rightarrow> rtree \<Rightarrow> ptr \<Rightarrow> rtree \<Rightarrow> rtree" where
  "mk d c x a y = (case d of Lft \<Rightarrow> Nd c x a y | Rgt \<Rightarrow> Nd c y a x)"

text \<open>A step of the way up: we are on side \<open>d\<close> of the node \<open>a\<close> of colour \<open>c\<close>, whose other subtree is \<open>s\<close>.\<close>

type_synonym frame = "side \<times> rb_color \<times> ptr \<times> rtree"

fun fill :: "frame list \<Rightarrow> rtree \<Rightarrow> rtree" where
  "fill [] t = t"
| "fill ((d, c, a, s) # \<pi>) t = fill \<pi> (mk d c t a s)"

fun up :: "frame list \<Rightarrow> ptr" where
  "up [] = 0"
| "up ((d, c, a, s) # \<pi>) = a"

text \<open>The labels left and right of the hole.\<close>

fun before :: "frame list \<Rightarrow> ptr list" where
  "before [] = []"
| "before ((Lft, c, a, s) # \<pi>) = before \<pi>"
| "before ((Rgt, c, a, s) # \<pi>) = before \<pi> @ labels s @ [a]"

fun after :: "frame list \<Rightarrow> ptr list" where
  "after [] = []"
| "after ((Lft, c, a, s) # \<pi>) = a # labels s @ after \<pi>"
| "after ((Rgt, c, a, s) # \<pi>) = after \<pi>"

lemma labels_mk: "labels (mk d c x a y) = (case d of Lft \<Rightarrow> labels x @ a # labels y | Rgt \<Rightarrow> labels y @ a # labels x)"
  by (simp add: mk_def split: side.split)

lemma top_mk [simp]: "here (mk d c x a y) = a"
  by (simp add: mk_def split: side.split)

lemma color_mk [simp]: "color (mk d c x a y) = c"
  by (simp add: mk_def split: side.split)

lemma paint_mk [simp]: "paint c (mk d c' x a y) = mk d c x a y"
  by (simp add: mk_def split: side.split)

lemma mk_opp: "mk (opp d) c x a y = mk d c y a x"
  by (cases d) (simp_all add: mk_def)

lemma mk_not_Tip [simp]: "mk d c x a y \<noteq> Tip" "Tip \<noteq> mk d c x a y"
  by (simp_all add: mk_def split: side.split)

lemma mk_inject [simp]: "mk d c x a y = mk d c' x' a' y' \<longleftrightarrow> c = c' \<and> x = x' \<and> a = a' \<and> y = y'"
  by (auto simp: mk_def split: side.split)

lemma opp_opp [simp]: "opp (opp d) = d"
  by (cases d) simp_all

lemma opp_neq [simp]: "opp d \<noteq> d" "d \<noteq> opp d"
  by (cases d; simp)+

lemma rtree_mk_cases: "t = Tip \<or> (\<exists>c x a y. t = mk d c x a y)"
  by (cases t; cases d) (auto simp: mk_def)

lemma labels_Nil [simp]: "labels t = [] \<longleftrightarrow> t = Tip"
  by (cases t) auto

lemma labels_paint [simp]: "labels (paint c t) = labels t"
  by (cases t) auto

lemma top_paint [simp]: "here (paint c t) = here t"
  by (cases t) auto

lemma paint_same: "color t = c \<Longrightarrow> paint c t = t"
  by (cases t) auto

lemma labels_fill [simp]: "labels (fill \<pi> t) = before \<pi> @ labels t @ after \<pi>"
  by (induction \<pi> t rule: fill.induct) (simp_all add: labels_mk split: side.split)

lemma fill_append: "fill (\<rho> @ \<pi>) t = fill \<pi> (fill \<rho> t)"
  by (induction \<rho> t rule: fill.induct) auto

lemma before_append: "before (\<rho> @ \<pi>) = before \<pi> @ before \<rho>"
  by (induction \<rho> rule: before.induct) auto

lemma after_append: "after (\<rho> @ \<pi>) = after \<rho> @ after \<pi>"
  by (induction \<rho> rule: after.induct) auto

subsection \<open>The invariant\<close>

fun height :: "rtree \<Rightarrow> nat" where
  "height Tip = 0"
| "height (Nd c l a r) = height l + (if c = RB_BLACK then 1 else 0)"

text \<open>The rules 4 and 5 of the comment in \<^verbatim>\<open>lib/rbtree.c\<close>.\<close>

fun rb_inv :: "rtree \<Rightarrow> bool" where
  "rb_inv Tip \<longleftrightarrow> True"
| "rb_inv (Nd c l a r) \<longleftrightarrow> rb_inv l \<and> rb_inv r \<and> height l = height r \<and>
     (c = RB_RED \<longrightarrow> color l = RB_BLACK \<and> color r = RB_BLACK)"

definition rbt :: "rtree \<Rightarrow> bool" where
  "rbt t \<longleftrightarrow> rb_inv t \<and> color t = RB_BLACK"

text \<open>What a way to the root demands of a tree of height \<open>n\<close> at its end.\<close>

fun ctx :: "frame list \<Rightarrow> nat \<Rightarrow> bool" where
  "ctx [] n \<longleftrightarrow> True"
| "ctx ((d, c, a, s) # \<pi>) n \<longleftrightarrow> rb_inv s \<and> height s = n \<and>
     (c = RB_RED \<longrightarrow> color s = RB_BLACK \<and> \<pi> \<noteq> [] \<and> fst (snd (hd \<pi>)) = RB_BLACK) \<and>
     ctx \<pi> (n + (if c = RB_BLACK then 1 else 0))"

fun allows_red :: "frame list \<Rightarrow> bool" where
  "allows_red [] \<longleftrightarrow> False"
| "allows_red ((d, c, a, s) # \<pi>) \<longleftrightarrow> c = RB_BLACK"

lemma inv_mk [simp]: "rb_inv (mk d c x a y) \<longleftrightarrow> rb_inv x \<and> rb_inv y \<and> height x = height y \<and>
     (c = RB_RED \<longrightarrow> color x = RB_BLACK \<and> color y = RB_BLACK)"
  by (auto simp: mk_def split: side.split)

lemma height_mk: "rb_inv (mk d c x a y) \<Longrightarrow> height (mk d c x a y) = height x + (if c = RB_BLACK then 1 else 0)"
  by (simp add: mk_def split: side.splits)

lemma height_mk2: "height x = height y \<Longrightarrow> height (mk d c x a y) = height x + (if c = RB_BLACK then 1 else 0)"
  by (simp add: mk_def split: side.splits)

lemma inv_paint_black [simp]: "rb_inv t \<Longrightarrow> rb_inv (paint RB_BLACK t)"
  by (cases t) auto

lemma color_paint [simp]: "color (paint RB_BLACK t) = RB_BLACK"
  by (cases t) auto

lemma color_neq [simp]: "c \<noteq> RB_RED \<longleftrightarrow> c = RB_BLACK" "c \<noteq> RB_BLACK \<longleftrightarrow> c = RB_RED"
  by (cases c; simp)+

lemma allows_red_iff: "allows_red \<pi> \<longleftrightarrow> \<pi> \<noteq> [] \<and> fst (snd (hd \<pi>)) = RB_BLACK"
  by (cases \<pi> rule: allows_red.cases) auto

lemma rbt_fill: "rbt (fill \<pi> t) \<longleftrightarrow> rb_inv t \<and> ctx \<pi> (height t) \<and> (color t = RB_RED \<longrightarrow> allows_red \<pi>)"
proof (induction \<pi> t rule: fill.induct)
  case (1 t) then show ?case by (cases "color t") (auto simp: rbt_def)
next
  case (2 d c a s \<pi> t)
  show ?case
    using 2 by (cases c; cases "color t") (auto simp: height_mk2 allows_red_iff)
qed

subsection \<open>Rebalancing after insertion\<close>

fun ins_fix :: "frame list \<Rightarrow> rtree \<Rightarrow> rtree" where
  "ins_fix [] t = paint RB_BLACK t"
| "ins_fix ((d', RB_RED, p, s) # (d, c, g, u) # \<pi>) t =
     (if color u = RB_RED then ins_fix \<pi> (mk d RB_RED (mk d' RB_BLACK t p s) g (paint RB_BLACK u))
      else if d' = d then fill \<pi> (mk d c t p (mk d RB_RED s g u))
      else (case t of
              Tip \<Rightarrow> Tip
            | Nd c' l n r \<Rightarrow>
                (let (x, y) = (if d = Lft then (l, r) else (r, l))
                 in fill \<pi> (mk d c (mk d RB_RED s p x) n (mk d RB_RED y g u)))))"
| "ins_fix \<pi> t = fill \<pi> t"

lemma labels_ins_fix: "t \<noteq> Tip \<Longrightarrow> labels (ins_fix \<pi> t) = before \<pi> @ labels t @ after \<pi>"
proof (induction \<pi> t rule: ins_fix.induct)
  case (2 d' p s d c g u \<pi> t)
  then show ?case by (cases t; cases d; cases d') (auto simp: labels_mk)
qed auto

lemma rbt_ins_fix:
  assumes "rb_inv t" "ctx \<pi> (height t)" "color t = RB_RED"
  shows "rbt (ins_fix \<pi> t)"
  using assms
proof (induction \<pi> t rule: ins_fix.induct[case_names 1 2 black single])
  case (1 t) then show ?case by (cases t) (auto simp: rbt_def)
next
  case (2 d' p s d c g u \<pi> t)
  then show ?case
    by (cases t; cases u; cases d; cases "d' = d") (auto simp: rbt_fill height_mk2)
next
  case (black d e \<pi> t) then show ?case by (cases e) (auto simp: rbt_fill height_mk2)
next
  case (single f t) then show ?case by (cases f) (auto simp: rbt_def)
qed

subsection \<open>Rebalancing after removal\<close>

definition sub :: "side \<Rightarrow> rtree \<Rightarrow> rtree" where
  "sub d t = (case t of Tip \<Rightarrow> Tip | Nd c l a r \<Rightarrow> (case d of Lft \<Rightarrow> l | Rgt \<Rightarrow> r))"

lemma sub_mk [simp]: "sub d (mk d c x a y) = x" "sub (opp d) (mk d c x a y) = y"
  by (cases d; simp add: sub_def mk_def)+

lemma sub_mk_sides [simp]: "sub Rgt (mk Lft c x a y) = y" "sub Lft (mk Rgt c x a y) = y"
  by (simp_all add: sub_def mk_def)

lemma mk_sub: "t \<noteq> Tip \<Longrightarrow> t = mk d (color t) (sub d t) (here t) (sub (opp d) t)"
  by (cases t; cases d) (auto simp: mk_def sub_def)

text \<open>The cases that end the loop: a black sibling with a red child, or below a red father.\<close>

definition del_end :: "side \<Rightarrow> rb_color \<Rightarrow> ptr \<Rightarrow> rtree \<Rightarrow> frame list \<Rightarrow> rtree \<Rightarrow> rtree" where
  "del_end d c p s \<pi> t =
     (let near = sub d s; a = here s; far = sub (opp d) s in
      if color far = RB_RED then fill \<pi> (mk d c (mk d RB_BLACK t p near) a (paint RB_BLACK far))
      else if color near = RB_RED then
        fill \<pi> (mk d c (mk d RB_BLACK t p (sub d near)) (here near) (mk d RB_BLACK (sub (opp d) near) a far))
      else fill \<pi> (mk d RB_BLACK t p (mk d RB_RED near a far)))"

fun del_fix :: "frame list \<Rightarrow> rtree \<Rightarrow> rtree" where
  "del_fix [] t = t"
| "del_fix ((d, c, p, s) # \<pi>) t =
     (let near = sub d s; a = here s; far = sub (opp d) s in
      if color s = RB_RED then del_end d RB_RED p near ((d, c, a, far) # \<pi>) t
      else if color near = RB_BLACK \<and> color far = RB_BLACK \<and> c = RB_BLACK then
        del_fix \<pi> (mk d RB_BLACK t p (mk d RB_RED near a far))
      else del_end d c p s \<pi> t)"

lemma mk_cases:
  obtains "t = Tip" | c x a y where "t = mk d c x a y"
  using rtree_mk_cases[where t = t and d = d] by blast

lemma not_black_Tip: "color t = RB_RED \<Longrightarrow> t \<noteq> Tip"
  by auto

lemma height_Suc: "height t = Suc n \<Longrightarrow> t \<noteq> Tip"
  by auto

lemma height_red: "color t = RB_BLACK \<Longrightarrow> height t = 0 \<Longrightarrow> t = Tip"
  by (cases t) auto

lemma labels_del_end:
  assumes "s \<noteq> Tip"
  shows "labels (del_end d c p s \<pi> t) = labels (fill \<pi> (mk d c t p s))"
proof -
  obtain cs x a y where s: "s = mk d cs x a y" using assms mk_cases[where t = s and d = d] by metis
  show ?thesis
    by (rule mk_cases[where t = x and d = d]; cases d) (auto simp: s del_end_def labels_mk Let_def)
qed

lemma rbt_del_end:
  assumes "rb_inv t" "color t = RB_BLACK" "rb_inv s" "color s = RB_BLACK" "height s = Suc (height t)"
    and "c = RB_RED \<longrightarrow> allows_red \<pi>" "ctx \<pi> (Suc (height t) + (if c = RB_BLACK then 1 else 0))"
    and "c = RB_BLACK \<longrightarrow> color (sub d s) = RB_RED \<or> color (sub (opp d) s) = RB_RED"
  shows "rbt (del_end d c p s \<pi> t)"
proof -
  obtain x a y where s: "s = mk d RB_BLACK x a y"
    using assms(4,5) mk_cases[where t = s and d = d] by (metis color_mk height_Suc)
  have h: "height x = height t" "height y = height t" "rb_inv x" "rb_inv y"
    using assms(3,5) by (auto simp: s height_mk2)
  consider "color y = RB_RED" | "color y = RB_BLACK" "color x = RB_RED" | "color y = RB_BLACK" "color x = RB_BLACK"
    using rb_color.exhaust by metis
  then show ?thesis
  proof cases
    case 1
    then obtain cy y1 b y2 where y: "y = mk d RB_RED y1 b y2" using mk_cases[where t = y and d = d] by (metis color_mk not_black_Tip)
    show ?thesis using assms h by (cases c) (auto simp: s y del_end_def rbt_fill height_mk2)
  next
    case 2
    then obtain x1 b x2 where x: "x = mk d RB_RED x1 b x2" using mk_cases[where t = x and d = d] by (metis color_mk not_black_Tip)
    show ?thesis using assms h 2 by (cases c) (auto simp: s x del_end_def rbt_fill height_mk2)
  next
    case 3
    then show ?thesis using assms h by (cases c) (auto simp: s del_end_def rbt_fill height_mk2)
  qed
qed

lemma del_fix_correct:
  assumes "rb_inv t" "color t = RB_BLACK" "ctx \<pi> (Suc (height t))"
  shows "rbt (del_fix \<pi> t) \<and> labels (del_fix \<pi> t) = before \<pi> @ labels t @ after \<pi>"
  using assms
proof (induction \<pi> t rule: del_fix.induct)
  case (1 t) then show ?case by (simp add: rbt_def)
next
  case (2 d c p s \<pi> t)
  obtain cs x a y where s: "s = mk d cs x a y" using 2(4) mk_cases[where t = s and d = d] by (metis ctx.simps(2) height_Suc)
  show ?case
  proof (cases cs)
    case RB_RED
    have c: "c = RB_BLACK" using 2(4) by (cases c) (simp_all add: s RB_RED)
    have x: "rb_inv x" "height x = Suc (height t)" "color x = RB_BLACK" "rb_inv y" "height y = Suc (height t)"
      "ctx \<pi> (Suc (Suc (height t)))"
      using 2(4) height_mk2[of x y d RB_RED a] by (auto simp: s RB_RED c)
    from x(2) have "x \<noteq> Tip" by auto
    from labels_del_end[OF this] have "labels (del_fix ((d, c, p, s) # \<pi>) t) = before ((d, c, p, s) # \<pi>) @ labels t @ after ((d, c, p, s) # \<pi>)"
      by (cases d) (simp_all add: s RB_RED labels_mk)
    moreover have "rbt (del_fix ((d, c, p, s) # \<pi>) t)"
      using rbt_del_end[of t x RB_RED "(d, c, a, y) # \<pi>" d p] 2(2,3) x by (simp add: s RB_RED c)
    ultimately show ?thesis by simp
  next
    case RB_BLACK
    show ?thesis
    proof (cases "color x = RB_BLACK \<and> color y = RB_BLACK \<and> c = RB_BLACK")
      case True
      then have "rb_inv (mk d RB_BLACK t p (mk d RB_RED x a y))" "ctx \<pi> (Suc (Suc (height t)))"
        "height (mk d RB_BLACK t p (mk d RB_RED x a y)) = Suc (height t)"
        using 2(2-4) height_mk2[of x y d RB_BLACK a] by (auto simp: s RB_BLACK height_mk2)
      then show ?thesis using 2(1)[OF refl refl refl] True by (cases d) (simp_all add: s RB_BLACK labels_mk)
    next
      case False
      then show ?thesis
        using 2(2-4) labels_del_end[of s d c p \<pi> t] rbt_del_end[of t s c \<pi> d p]
        by (cases c; cases d) (auto simp: s RB_BLACK labels_mk allows_red_iff)
    qed
  qed
qed

end
