(* ===== verification/Rb_Heap.thy ===== *)
theory Rb_Heap
  imports Rb_Zipper
begin

text \<open>
  What it means that memory holds a tree, or the way from a node to the root, and how the updates of
  single nodes change this.  The rules peel the updates off one by one.
\<close>

definition node :: "side \<Rightarrow> ptr \<Rightarrow> rb_color \<Rightarrow> ptr \<Rightarrow> ptr \<Rightarrow> rb_node" where
  "node d par c x y = \<lparr>pc_parent = par, pc_color = c,
     rb_right = (case d of Lft \<Rightarrow> y | Rgt \<Rightarrow> x), rb_left = (case d of Lft \<Rightarrow> x | Rgt \<Rightarrow> y)\<rparr>"

text \<open>The tree \<open>t\<close> is in memory, and its topmost node has the father \<open>par\<close>.\<close>

fun tree_at :: "(ptr \<rightharpoonup> rb_node) \<Rightarrow> ptr \<Rightarrow> rtree \<Rightarrow> bool" where
  "tree_at h par Tip \<longleftrightarrow> True"
| "tree_at h par (Nd c l a r) \<longleftrightarrow>
     a \<noteq> 0 \<and> h a = Some (node Lft par c (here l) (here r)) \<and> tree_at h a l \<and> tree_at h a r"

text \<open>The way up from a hole that holds the pointer \<open>q\<close>.\<close>

fun path_at :: "(ptr \<rightharpoonup> rb_node) \<Rightarrow> ptr \<Rightarrow> ptr \<Rightarrow> frame list \<Rightarrow> bool" where
  "path_at h root q [] \<longleftrightarrow> root = q"
| "path_at h root q ((d, c, a, s) # \<pi>) \<longleftrightarrow>
     a \<noteq> 0 \<and> h a = Some (node d (up \<pi>) c q (here s)) \<and> tree_at h a s \<and> path_at h root a \<pi>"

definition rep :: "rb_mem \<Rightarrow> rtree \<Rightarrow> bool" where
  "rep m t \<longleftrightarrow> tree_at (nodes m) 0 t \<and> rb_root m = here t \<and> distinct (labels t)"

text \<open>The same, but whatever father and colour the topmost node has, and whatever the hole holds.\<close>

fun inner :: "(ptr \<rightharpoonup> rb_node) \<Rightarrow> rtree \<Rightarrow> bool" where
  "inner h Tip \<longleftrightarrow> True"
| "inner h (Nd c l a r) \<longleftrightarrow>
     a \<noteq> 0 \<and> (\<exists>par c'. h a = Some (node Lft par c' (here l) (here r))) \<and> tree_at h a l \<and> tree_at h a r"

fun path_in :: "(ptr \<rightharpoonup> rb_node) \<Rightarrow> ptr \<Rightarrow> frame list \<Rightarrow> bool" where
  "path_in h root [] \<longleftrightarrow> True"
| "path_in h root ((d, c, a, s) # \<pi>) \<longleftrightarrow>
     a \<noteq> 0 \<and> (\<exists>q. h a = Some (node d (up \<pi>) c q (here s))) \<and> tree_at h a s \<and> path_at h root a \<pi>"

abbreviation around :: "frame list \<Rightarrow> ptr set" where
  "around \<pi> \<equiv> set (before \<pi>) \<union> set (after \<pi>)"

subsection \<open>Nodes\<close>

lemma node_opp: "node (opp d) par c x y = node d par c y x"
  by (cases d) (simp_all add: node_def)

lemma node_Rgt: "node Rgt par c x y = node Lft par c y x"
  by (simp add: node_def)

lemma node_inject [simp]: "node d par c x y = node d par' c' x' y' \<longleftrightarrow> par = par' \<and> c = c' \<and> x = x' \<and> y = y'"
  by (cases d) (auto simp: node_def)

lemma node_fields [simp]: "pc_parent (node d par c x y) = par" "pc_color (node d par c x y) = c"
  "rb_left (node Lft par c x y) = x" "rb_right (node Lft par c x y) = y"
  by (simp_all add: node_def)

lemma tree_at_mk [simp]:
  "tree_at h par (mk d c x a y) \<longleftrightarrow> a \<noteq> 0 \<and> h a = Some (node d par c (here x) (here y)) \<and> tree_at h a x \<and> tree_at h a y"
  by (cases d) (auto simp: mk_def node_Rgt)

lemma inner_mk [simp]:
  "inner h (mk d c x a y) \<longleftrightarrow>
   a \<noteq> 0 \<and> (\<exists>par c'. h a = Some (node d par c' (here x) (here y))) \<and> tree_at h a x \<and> tree_at h a y"
  by (cases d) (auto simp: mk_def node_Rgt)

lemma tree_at_inner: "tree_at h par t \<Longrightarrow> inner h t"
  by (cases t) auto

lemma path_at_in: "path_at h root q \<pi> \<Longrightarrow> path_in h root \<pi>"
  by (cases \<pi> rule: up.cases) auto

lemma up_around: "\<pi> \<noteq> [] \<Longrightarrow> up \<pi> \<in> around \<pi>"
  by (cases \<pi> rule: before.cases) auto

lemma here_in_labels: "t \<noteq> Tip \<Longrightarrow> here t \<in> set (labels t)"
  by (cases t) auto

lemma fill_at:
  "tree_at h 0 (fill \<pi> t) \<and> root = here (fill \<pi> t) \<longleftrightarrow> tree_at h (up \<pi>) t \<and> path_at h root (here t) \<pi>"
  by (induction \<pi> t rule: fill.induct) auto

lemma rep_fill:
  "rep m (fill \<pi> t) \<longleftrightarrow> tree_at (nodes m) (up \<pi>) t \<and> path_at (nodes m) (rb_root m) (here t) \<pi> \<and>
     distinct (before \<pi> @ labels t @ after \<pi>)"
  using fill_at[of "nodes m" \<pi> t "rb_root m"] by (auto simp: rep_def)

lemma set_labels_mk [simp]: "set (labels (mk d c x a y)) = insert a (set (labels x) \<union> set (labels y))"
  by (cases d) (auto simp: labels_mk)

lemma distinct_labels_mk [simp]:
  "distinct (labels (mk d c x a y)) \<longleftrightarrow> distinct (labels x) \<and> distinct (labels y) \<and>
     a \<notin> set (labels x) \<and> a \<notin> set (labels y) \<and> set (labels x) \<inter> set (labels y) = {}"
  by (cases d) (auto simp: labels_mk)

lemma here_neq: "x \<noteq> Tip \<Longrightarrow> set (labels x) \<inter> set (labels y) = {} \<Longrightarrow> inner h x \<Longrightarrow> here x \<noteq> here y"
  by (cases x; cases y) auto

subsection \<open>Updates\<close>

text \<open>A new father and colour, or only a new father, for the node at \<open>p\<close>, which may be null.\<close>

definition recol :: "ptr \<Rightarrow> ptr \<Rightarrow> rb_color \<Rightarrow> (ptr \<rightharpoonup> rb_node) \<Rightarrow> (ptr \<rightharpoonup> rb_node)" where
  "recol p par c h = (if p = 0 then h else h(p := map_option (\<lambda>n. n\<lparr>pc_parent := par, pc_color := c\<rparr>) (h p)))"

definition repar :: "ptr \<Rightarrow> ptr \<Rightarrow> (ptr \<rightharpoonup> rb_node) \<Rightarrow> (ptr \<rightharpoonup> rb_node)" where
  "repar p par h = (if p = 0 then h else h(p := map_option (\<lambda>n. n\<lparr>pc_parent := par\<rparr>) (h p)))"

text \<open>A new pointer in the hole.\<close>

fun relink :: "frame list \<Rightarrow> ptr \<Rightarrow> rb_mem \<Rightarrow> rb_mem" where
  "relink [] q m = m\<lparr>rb_root := q\<rparr>"
| "relink ((d, c, a, s) # \<pi>) q m = m\<lparr>nodes := (nodes m)(a \<mapsto> node d (up \<pi>) c q (here s))\<rparr>"

definition ok_ptr :: "(ptr \<rightharpoonup> rb_node) \<Rightarrow> ptr \<Rightarrow> bool" where
  "ok_ptr h p \<longleftrightarrow> p = 0 \<or> h p \<noteq> None"

named_theorems heap_rules

lemma ok_ptr_top [heap_rules]: "inner h t \<Longrightarrow> ok_ptr h (here t)"
  by (cases t) (auto simp: ok_ptr_def)

lemma tree_at_upd [heap_rules]: "a \<notin> set (labels t) \<Longrightarrow> tree_at (h(a := v)) par t = tree_at h par t"
  by (induction t arbitrary: par) auto

lemma inner_upd [heap_rules]: "a \<notin> set (labels t) \<Longrightarrow> inner (h(a := v)) t = inner h t"
  by (cases t) (auto simp: tree_at_upd)

lemma tree_at_cong: "(\<And>a. a \<in> set (labels t) \<Longrightarrow> h' a = h a) \<Longrightarrow> tree_at h' par t = tree_at h par t"
  by (induction t arbitrary: par) auto

lemma path_at_cong: "(\<And>a. a \<in> around \<pi> \<Longrightarrow> h' a = h a) \<Longrightarrow> path_at h' root q \<pi> = path_at h root q \<pi>"
proof (induction \<pi> arbitrary: q rule: before.induct)
  case (2 c b s \<pi>)
  have "path_at h' root b \<pi> = path_at h root b \<pi>" by (rule 2(1)) (auto intro: 2(2))
  moreover have "tree_at h' b s = tree_at h b s" by (rule tree_at_cong) (auto intro: 2(2))
  ultimately show ?case by (simp add: 2(2))
next
  case (3 c b s \<pi>)
  have "path_at h' root b \<pi> = path_at h root b \<pi>" by (rule 3(1)) (auto intro: 3(2))
  moreover have "tree_at h' b s = tree_at h b s" by (rule tree_at_cong) (auto intro: 3(2))
  ultimately show ?case by (simp add: 3(2))
qed simp

lemma path_at_upd [heap_rules]:
  "a \<notin> set (before \<pi>) \<Longrightarrow> a \<notin> set (after \<pi>) \<Longrightarrow> path_at (h(a := v)) root q \<pi> = path_at h root q \<pi>"
  by (rule path_at_cong) auto

lemma path_in_upd [heap_rules]:
  "a \<notin> set (before \<pi>) \<Longrightarrow> a \<notin> set (after \<pi>) \<Longrightarrow> path_in (h(a := v)) root \<pi> = path_in h root \<pi>"
  by (cases \<pi> rule: before.cases) (simp_all add: tree_at_upd path_at_upd)

text \<open>The topmost node of a tree gets another father.\<close>

lemma recol_cases:
  obtains "recol (here t) par c h = h" | v where "t \<noteq> Tip" "recol (here t) par c h = h(here t := v)"
  by (cases t; cases "here t = 0") (simp_all add: recol_def)

lemma repar_cases:
  obtains "repar (here t) par h = h" | v where "t \<noteq> Tip" "repar (here t) par h = h(here t := v)"
  by (cases t; cases "here t = 0") (simp_all add: repar_def)

lemma here_notin: "t \<noteq> Tip \<Longrightarrow> set (labels t) \<inter> A = {} \<Longrightarrow> here t \<notin> A"
  "t \<noteq> Tip \<Longrightarrow> A \<inter> set (labels t) = {} \<Longrightarrow> here t \<notin> A"
  using here_in_labels by blast+

lemma recol_other [heap_rules]: "a \<notin> set (labels t) \<Longrightarrow> recol (here t) par c h a = h a"
  using here_in_labels[of t] by (cases t) (auto simp: recol_def)

lemma repar_other [heap_rules]: "a \<notin> set (labels t) \<Longrightarrow> repar (here t) par h a = h a"
  using here_in_labels[of t] by (cases t) (auto simp: repar_def)

lemma tree_at_recol_other [heap_rules]:
  "set (labels t) \<inter> set (labels x) = {} \<Longrightarrow> tree_at (recol (here x) par c h) par' t = tree_at h par' t"
  "set (labels x) \<inter> set (labels t) = {} \<Longrightarrow> tree_at (recol (here x) par c h) par' t = tree_at h par' t"
  by (rule recol_cases[of x par c h]; simp add: tree_at_upd here_notin)+

lemma tree_at_repar_other [heap_rules]:
  "set (labels t) \<inter> set (labels x) = {} \<Longrightarrow> tree_at (repar (here x) par h) par' t = tree_at h par' t"
  "set (labels x) \<inter> set (labels t) = {} \<Longrightarrow> tree_at (repar (here x) par h) par' t = tree_at h par' t"
  by (rule repar_cases[of x par h]; simp add: tree_at_upd here_notin)+

lemma inner_recol_other [heap_rules]:
  "set (labels t) \<inter> set (labels x) = {} \<Longrightarrow> inner (recol (here x) par c h) t = inner h t"
  "set (labels x) \<inter> set (labels t) = {} \<Longrightarrow> inner (recol (here x) par c h) t = inner h t"
  by (rule recol_cases[of x par c h]; simp add: inner_upd here_notin)+

lemma inner_repar_other [heap_rules]:
  "set (labels t) \<inter> set (labels x) = {} \<Longrightarrow> inner (repar (here x) par h) t = inner h t"
  "set (labels x) \<inter> set (labels t) = {} \<Longrightarrow> inner (repar (here x) par h) t = inner h t"
  by (rule repar_cases[of x par h]; simp add: inner_upd here_notin)+

lemma path_at_recol [heap_rules]:
  "set (before \<pi>) \<inter> set (labels x) = {} \<Longrightarrow> set (labels x) \<inter> set (after \<pi>) = {} \<Longrightarrow>
   path_at (recol (here x) par c h) root q \<pi> = path_at h root q \<pi>"
  by (rule recol_cases[of x par c h]; simp add: path_at_upd here_notin)

lemma path_at_repar [heap_rules]:
  "set (before \<pi>) \<inter> set (labels x) = {} \<Longrightarrow> set (labels x) \<inter> set (after \<pi>) = {} \<Longrightarrow>
   path_at (repar (here x) par h) root q \<pi> = path_at h root q \<pi>"
  by (rule repar_cases[of x par h]; simp add: path_at_upd here_notin)

lemma path_in_recol [heap_rules]:
  "set (before \<pi>) \<inter> set (labels x) = {} \<Longrightarrow> set (labels x) \<inter> set (after \<pi>) = {} \<Longrightarrow>
   path_in (recol (here x) par c h) root \<pi> = path_in h root \<pi>"
  by (rule recol_cases[of x par c h]; simp add: path_in_upd here_notin)

lemma path_in_repar [heap_rules]:
  "set (before \<pi>) \<inter> set (labels x) = {} \<Longrightarrow> set (labels x) \<inter> set (after \<pi>) = {} \<Longrightarrow>
   path_in (repar (here x) par h) root \<pi> = path_in h root \<pi>"
  by (rule repar_cases[of x par h]; simp add: path_in_upd here_notin)

lemma node_update [simp]: "(node d par c x y)\<lparr>pc_parent := par', pc_color := c'\<rparr> = node d par' c' x y"
  "(node d par c x y)\<lparr>pc_parent := par'\<rparr> = node d par' c x y"
  "(node d par c x y)\<lparr>pc_color := c'\<rparr> = node d par c' x y"
  by (simp_all add: node_def)

lemma tree_at_recol [heap_rules]:
  "distinct (labels t) \<Longrightarrow> inner h t \<Longrightarrow> color t = c \<Longrightarrow> tree_at (recol (here t) par c h) par t"
  by (cases t) (auto simp: recol_def tree_at_upd)

lemma tree_at_recol_paint [heap_rules]:
  "distinct (labels t) \<Longrightarrow> inner h t \<Longrightarrow> tree_at (recol (here t) par c h) par (paint c t)"
  by (cases t) (auto simp: recol_def tree_at_upd)

lemma tree_at_repar [heap_rules]:
  "distinct (labels t) \<Longrightarrow> \<exists>par'. tree_at h par' t \<Longrightarrow> tree_at (repar (here t) par h) par t"
  by (cases t) (auto simp: repar_def tree_at_upd)

lemma inner_recol [heap_rules]: "distinct (labels t) \<Longrightarrow> inner h t \<Longrightarrow> inner (recol (here t) par c h) t"
  by (cases t) (auto simp: recol_def tree_at_upd)

lemma inner_repar [heap_rules]: "distinct (labels t) \<Longrightarrow> inner h t \<Longrightarrow> inner (repar (here t) par h) t"
  by (cases t) (auto simp: repar_def tree_at_upd)

subsection \<open>The operations on single nodes\<close>

definition get :: "side \<Rightarrow> rb_node \<Rightarrow> ptr" where
  "get d n = (case d of Lft \<Rightarrow> rb_left n | Rgt \<Rightarrow> rb_right n)"

definition put :: "side \<Rightarrow> ptr \<Rightarrow> rb_node \<Rightarrow> rb_node" where
  "put d q n = (case d of Lft \<Rightarrow> n\<lparr>rb_left := q\<rparr> | Rgt \<Rightarrow> n\<lparr>rb_right := q\<rparr>)"

lemma get_node [simp]: "get d (node d par c x y) = x" "get (opp d) (node d par c x y) = y"
  by (cases d; simp add: get_def node_def)+

lemma put_node [simp]: "put d q (node d par c x y) = node d par c q y" "put (opp d) q (node d par c x y) = node d par c x q"
  by (cases d; simp add: put_def node_def)+

lemma get_sides [simp]: "get Rgt (node Lft par c x y) = y" "get Lft (node Rgt par c x y) = y"
  by (simp_all add: get_def node_def)

lemma put_sides [simp]: "put Rgt q (node Lft par c x y) = node Lft par c x q" "put Lft q (node Rgt par c x y) = node Rgt par c x q"
  by (simp_all add: put_def node_def)

lemma child_get: "child d m p = map_option (get d) (deref m p)"
  by (simp add: child_def get_def[abs_def])

lemma set_child_put: "set_child d p q m = upd_node p (put d q) m"
  by (simp add: set_child_def put_def[abs_def])

lemmas exec = child_get set_child_put deref_def upd_node_def rb_parent_def rb_is_red_def rb_is_black_def
  rb_set_parent_def rb_set_parent_color_def rb_set_black_def rb_rotate_set_parents_def node_opp Let_def

lemma set_parent_color_here [heap_rules]:
  "ok_ptr (nodes m) (here t) \<Longrightarrow>
   unless_null (here t) (rb_set_parent_color (here t) par c) m = Some (m\<lparr>nodes := recol (here t) par c (nodes m)\<rparr>)"
  by (auto simp: ok_ptr_def unless_null_def exec recol_def)

lemma set_parent_here [heap_rules]:
  "ok_ptr (nodes m) (here t) \<Longrightarrow>
   unless_null (here t) (rb_set_parent (here t) par) m = Some (m\<lparr>nodes := repar (here t) par (nodes m)\<rparr>)"
  by (auto simp: ok_ptr_def unless_null_def exec repar_def)

lemma null_or_black_here [heap_rules]: "\<exists>par. tree_at (nodes m) par t \<Longrightarrow> null_or_black m (here t) = Some (color t = RB_BLACK)"
  by (cases t) (auto simp: null_or_black_def exec)

lemma change_child [heap_rules]:
  assumes "path_at (nodes m) (rb_root m) old \<pi>" "old \<noteq> 0" "old \<notin> around \<pi>"
  shows "rb_change_child old new (up \<pi>) m = Some (relink \<pi> new m)"
proof (cases \<pi> rule: before.cases)
  case (3 c a s \<pi>')
  then have "here s \<noteq> old" using assms here_in_labels[of s] by (cases s) auto
  with 3 assms show ?thesis by (simp add: rb_change_child_def exec)
qed (use assms in \<open>simp_all add: rb_change_child_def exec\<close>)

lemma rb_root_relink [simp]: "\<pi> \<noteq> [] \<Longrightarrow> rb_root (relink \<pi> q m) = rb_root m"
  by (cases \<pi> rule: up.cases) auto

lemma relink_other [heap_rules]: "a \<notin> set (before \<pi>) \<Longrightarrow> a \<notin> set (after \<pi>) \<Longrightarrow> nodes (relink \<pi> q m) a = nodes m a"
  by (cases \<pi> rule: before.cases) auto

lemma tree_at_relink [heap_rules]:
  "set (before \<pi>) \<inter> set (labels t) = {} \<Longrightarrow> set (labels t) \<inter> set (after \<pi>) = {} \<Longrightarrow>
   tree_at (nodes (relink \<pi> q m)) par t = tree_at (nodes m) par t"
  by (rule tree_at_cong, rule relink_other) auto

lemma inner_relink [heap_rules]:
  "set (before \<pi>) \<inter> set (labels t) = {} \<Longrightarrow> set (labels t) \<inter> set (after \<pi>) = {} \<Longrightarrow>
   inner (nodes (relink \<pi> q m)) t = inner (nodes m) t"
  by (cases t) (simp_all add: relink_other tree_at_relink Int_Un_distrib Int_Un_distrib2)

lemma path_at_relink [heap_rules]:
  "distinct (before \<pi> @ after \<pi>) \<Longrightarrow> path_in (nodes m) (rb_root m) \<pi> \<Longrightarrow>
   path_at (nodes (relink \<pi> q m)) (rb_root (relink \<pi> q m)) q \<pi>"
  by (cases \<pi> rule: before.cases) (auto simp: tree_at_upd path_at_upd)

text \<open>Memory now holds \<open>t\<close>, and nodes that are not in \<open>t\<close> were not touched.\<close>

definition becomes :: "rb_mem \<Rightarrow> rb_mem \<Rightarrow> rtree \<Rightarrow> bool" where
  "becomes m m' t \<longleftrightarrow> rep m' t \<and> (\<forall>a. a \<notin> set (labels t) \<longrightarrow> nodes m' a = nodes m a)"

lemma becomes_refl: "rep m t \<Longrightarrow> becomes m m t"
  by (simp add: becomes_def)

lemma becomes_trans:
  "becomes m m1 t1 \<Longrightarrow> becomes m1 m2 t2 \<Longrightarrow> set (labels t1) = set (labels t2) \<Longrightarrow> becomes m m2 t2"
  by (simp add: becomes_def)

lemma becomes_rep: "becomes m m' t \<Longrightarrow> rep m' t"
  by (simp add: becomes_def)

end
