(* ===== verification/Rb_Insert.thy ===== *)
theory Rb_Insert
  imports Rb_Heap
begin

text \<open>Insertion into the tree in memory follows the rebalancing of the abstract tree.\<close>

lemmas disjoint = Int_Un_distrib Int_Un_distrib2

lemma insert_rotate_outer:
  assumes "rep m (fill ((d, RB_RED, p, s) # (d, c, g, u) # \<pi>) t)" "color s = RB_BLACK" "t \<noteq> Tip"
  shows "\<exists>m'. insert_rotate d (here t) p g m = Some m' \<and> becomes m m' (fill \<pi> (mk d c t p (mk d RB_RED s g u)))"
proof -
  have h: "tree_at (nodes m) p t" "p \<noteq> 0" "nodes m p = Some (node d g RB_RED (here t) (here s))"
    "tree_at (nodes m) p s" "g \<noteq> 0" "nodes m g = Some (node d (up \<pi>) c p (here u))" "tree_at (nodes m) g u"
    "path_at (nodes m) (rb_root m) g \<pi>"
    using assms(1) by (simp_all add: rep_fill)
  have ds: "distinct (before \<pi> @ labels (mk d c (mk d RB_RED t p s) g u) @ after \<pi>)"
    using assms(1) by (simp add: rep_fill)
  have "here t \<noteq> here s"
    using here_neq[OF assms(3) _ tree_at_inner[OF h(1)], of s] ds by simp
  then show ?thesis
    using h ds assms(2,3) tree_at_inner[OF h(4)] path_at_in[OF h(8)]
    by (simp add: insert_rotate_def exec heap_rules rep_fill disjoint becomes_def)
qed

lemma insert_rotate_inner:
  assumes "rep m (fill ((opp d, RB_RED, p, s) # (d, c, g, u) # \<pi>) (mk d RB_RED x n y))"
    "color x = RB_BLACK" "color y = RB_BLACK"
  shows "\<exists>m'. insert_rotate d n p g m = Some m' \<and>
    becomes m m' (fill \<pi> (mk d c (mk d RB_RED s p x) n (mk d RB_RED y g u)))"
proof -
  have h: "nodes m n = Some (node d p RB_RED (here x) (here y))" "n \<noteq> 0" "tree_at (nodes m) n x" "tree_at (nodes m) n y"
    "p \<noteq> 0" "nodes m p = Some (node d g RB_RED (here s) n)"
    "tree_at (nodes m) p s" "g \<noteq> 0" "nodes m g = Some (node d (up \<pi>) c p (here u))" "tree_at (nodes m) g u"
    "path_at (nodes m) (rb_root m) g \<pi>"
    using assms(1) by (simp_all add: rep_fill mk_opp node_opp)
  have ds: "distinct (before \<pi> @ labels (mk d c (mk d RB_RED s p (mk d RB_RED x n y)) g u) @ after \<pi>)"
    using assms(1) by (simp add: rep_fill mk_opp)
  show ?thesis
    using h ds assms(2,3) tree_at_inner[OF h(3)] tree_at_inner[OF h(4)] path_at_in[OF h(11)]
    by (simp add: insert_rotate_def exec heap_rules rep_fill disjoint becomes_def)
qed

lemma insert_round_red:
  assumes "rep m (fill ((d', RB_RED, p, s) # (d, c, g, u) # \<pi>) t)" "color u = RB_RED"
  shows "\<exists>m'. insert_round d (here t) p g m = Some (Inr (g, up \<pi>, m')) \<and>
    becomes m m' (fill \<pi> (mk d RB_RED (mk d' RB_BLACK t p s) g (paint RB_BLACK u)))"
proof -
  obtain v w b where u: "u = mk d RB_RED v b w"
    using assms(2) mk_cases[where t = u and d = d] by (metis color_mk not_black_Tip)
  have h: "tree_at (nodes m) p t" "p \<noteq> 0" "nodes m p = Some (node d' g RB_RED (here t) (here s))"
    "tree_at (nodes m) p s" "g \<noteq> 0" "nodes m g = Some (node d (up \<pi>) c p b)"
    "nodes m b = Some (node d g RB_RED (here v) (here w))" "b \<noteq> 0" "tree_at (nodes m) b v" "tree_at (nodes m) b w"
    "path_at (nodes m) (rb_root m) g \<pi>"
    using assms(1) by (simp_all add: rep_fill u)
  have ds: "distinct (before \<pi> @ labels (mk d c (mk d' RB_RED t p s) g u) @ after \<pi>)"
    using assms(1) by (simp add: rep_fill)
  show ?thesis
    using h ds by (simp add: insert_round_def null_or_black_def exec heap_rules rep_fill disjoint u becomes_def)
qed

lemma insert_round_black:
  assumes "rep m (fill ((d', RB_RED, p, s) # (d, c, g, u) # \<pi>) t)" "color u = RB_BLACK"
  shows "insert_round d n p g m = map_option Inl (insert_rotate d n p g m)"
proof -
  have "\<exists>par. tree_at (nodes m) par u" "g \<noteq> 0" "nodes m g = Some (node d (up \<pi>) c p (here u))"
    using assms(1) by (auto simp: rep_fill)
  with assms(2) show ?thesis by (simp add: insert_round_def exec heap_rules)
qed

text \<open>One round of the loop on the way from a red node to the root.\<close>

lemma insert_step_red:
  assumes "rep m (fill ((d', RB_RED, p, s) # (d, c, g, u) # \<pi>) t)"
  shows "insert_step (here t) p m = insert_round d (here t) p g m"
proof -
  have h: "p \<noteq> 0" "nodes m p = Some (node d' g RB_RED (here t) (here s))" "g \<noteq> 0"
    "nodes m g = Some (node d (up \<pi>) c p (here u))" "p \<notin> set (labels u)"
    using assms by (simp_all add: rep_fill)
  from h(1,5) have "p \<noteq> here u" using here_in_labels[of u] by (cases u) auto
  with h show ?thesis by (cases d) (simp_all add: insert_step_def exec)
qed

lemma insert_loop_black:
  assumes "rep m (fill ((d, RB_BLACK, p, s) # \<pi>) t)"
  shows "rb_insert_loop n p m = Some m"
proof -
  have "p \<noteq> 0" "nodes m p = Some (node d (up \<pi>) RB_BLACK (here t) (here s))"
    using assms by (simp_all add: rep_fill)
  then show ?thesis by (subst rb_insert_loop.simps) (simp add: insert_step_def exec)
qed

lemma insert_loop_correct:
  assumes "rep m (fill \<pi> t)" "color t = RB_RED" "rb_inv t" "ctx \<pi> (height t)"
  shows "\<exists>m'. rb_insert_loop (here t) (up \<pi>) m = Some m' \<and> becomes m m' (ins_fix \<pi> t)"
  using assms
proof (induction \<pi> t arbitrary: m rule: ins_fix.induct[case_names 1 2 black single])
  case (1 t)
  then obtain l a r where t: "t = Nd RB_RED l a r" by (cases t) auto
  with 1(1) show ?case
    by (simp add: rb_insert_loop.simps insert_step_def exec rep_def tree_at_upd becomes_def)
next
  case (2 d' p s d c g u \<pi> t)
  from 2(4) have "t \<noteq> Tip" and s: "color s = RB_BLACK" using 2 by auto
  have step: "rb_insert_loop (here t) p m =
    (case insert_round d (here t) p g m of None \<Rightarrow> None | Some (Inl m) \<Rightarrow> Some m
     | Some (Inr (n, q, m)) \<Rightarrow> rb_insert_loop n q m)"
    by (subst rb_insert_loop.simps) (simp add: insert_step_red[OF 2(2)])
  show ?case
  proof (cases "color u = RB_RED")
    case True
    from insert_round_red[OF 2(2) True] obtain m1 where m1: "insert_round d (here t) p g m = Some (Inr (g, up \<pi>, m1))"
      "becomes m m1 (fill \<pi> (mk d RB_RED (mk d' RB_BLACK t p s) g (paint RB_BLACK u)))" by blast
    have "\<exists>m'. rb_insert_loop g (up \<pi>) m1 = Some m' \<and>
        becomes m1 m' (ins_fix \<pi> (mk d RB_RED (mk d' RB_BLACK t p s) g (paint RB_BLACK u)))"
    proof -
      have "color s = RB_BLACK" "c = RB_BLACK" "rb_inv s" "rb_inv u" "height s = height t" "height u = height t"
        "ctx \<pi> (Suc (height t))" using 2(5) by auto
      moreover have "height (paint RB_BLACK u) = Suc (height u)" using True by (cases u) auto
      ultimately show ?thesis
        using 2(1)[OF True becomes_rep[OF m1(2)]] 2(4) by (simp add: height_mk2)
    qed
    then show ?thesis
      by (auto simp: step m1(1) True labels_ins_fix intro!: becomes_trans[OF m1(2)])
  next
    case False
    then have u: "color u = RB_BLACK" by simp
    have rotate: "rb_insert_loop (here t) p m = insert_rotate d (here t) p g m"
      by (simp add: step insert_round_black[OF 2(2) u] split: option.split)
    show ?thesis
    proof (cases "d' = d")
      case True
      from insert_rotate_outer[OF 2(2)[unfolded True] s \<open>t \<noteq> Tip\<close>] show ?thesis
        by (auto simp: rotate u True)
    next
      case False
      then have d': "d' = opp d" by (cases d; cases d') auto
      obtain x n y where t: "t = mk d RB_RED x n y"
        using 2(3) mk_cases[where t = t and d = d] by (metis color_mk not_black_Tip)
      from 2(4) have "color x = RB_BLACK" "color y = RB_BLACK" by (simp_all add: t)
      from insert_rotate_inner[OF 2(2)[unfolded d' t] this] rotate show ?thesis
        by (cases d) (auto simp: u d' t mk_def)
    qed
  qed
next
  case (black d e \<pi> t)
  obtain p s where e: "e = (p, s)" by fastforce
  from black(1) insert_loop_black[OF black(1)[unfolded e]] show ?case by (simp add: e becomes_refl)
next
  case (single f t)
  then obtain d p s where f: "f = (d, RB_BLACK, p, s)" by (cases f) (auto split: if_splits)
  from single(1) insert_loop_black[OF single(1)[unfolded f]] show ?case by (simp add: f becomes_refl)
qed

subsection \<open>A new node\<close>

fun link_of :: "frame list \<Rightarrow> link" where
  "link_of [] = Root"
| "link_of ((d, c, a, s) # \<pi>) = Child a d"

lemma link_node:
  assumes "rep m (fill \<pi> Tip)" "a \<noteq> 0" "a \<notin> around \<pi>" "nodes m a \<noteq> None"
  shows "\<exists>m'. rb_link_node a (up \<pi>) (link_of \<pi>) m = Some m' \<and> becomes m m' (fill \<pi> (Nd RB_RED Tip a Tip)) \<and>
    rb_parent m' a = Some (up \<pi>)"
proof -
  obtain n where n: "nodes m a = Some n" using assms(4) by auto
  have new: "n\<lparr>pc_parent := q, pc_color := RB_RED, rb_right := 0, rb_left := 0\<rparr> = node Lft q RB_RED 0 0" for q
    by (simp add: node_def)
  note defs = rb_link_node_def write_link_def rb_set_parent_color_def rb_parent_def set_child_def upd_node_def
    deref_def becomes_def new
  show ?thesis
  proof (cases \<pi> rule: before.cases)
    case 1
    with assms n show ?thesis by (auto simp: defs rep_def)
  next
    case (2 c b s \<pi>')
    with assms n show ?thesis by (auto simp: defs rep_fill tree_at_upd path_at_upd node_def mk_def labels_mk)
  next
    case (3 c b s \<pi>')
    with assms n show ?thesis by (auto simp: defs rep_fill tree_at_upd path_at_upd node_def mk_def labels_mk)
  qed
qed

lemma rb_insert_correct:
  assumes "rep m (fill \<pi> Tip)" "rbt (fill \<pi> Tip)" "a \<noteq> 0" "a \<notin> around \<pi>" "nodes m a \<noteq> None"
  shows "\<exists>m1 m' t. rb_link_node a (up \<pi>) (link_of \<pi>) m = Some m1 \<and> rb_insert_color a m1 = Some m' \<and>
    becomes m m' t \<and> rbt t \<and> labels t = before \<pi> @ a # after \<pi>"
proof -
  obtain m1 where m1: "rb_link_node a (up \<pi>) (link_of \<pi>) m = Some m1" "rb_parent m1 a = Some (up \<pi>)"
    "becomes m m1 (fill \<pi> (Nd RB_RED Tip a Tip))"
    using link_node[OF assms(1,3-5)] by blast
  from assms(2) have c: "ctx \<pi> (height (Nd RB_RED Tip a Tip))" by (simp add: rbt_fill)
  from insert_loop_correct[OF becomes_rep[OF m1(3)] _ _ c] obtain m' where
    m': "rb_insert_loop a (up \<pi>) m1 = Some m'" "becomes m1 m' (ins_fix \<pi> (Nd RB_RED Tip a Tip))" by auto
  have "becomes m m' (ins_fix \<pi> (Nd RB_RED Tip a Tip))"
    by (rule becomes_trans[OF m1(3) m'(2)]) (simp add: labels_ins_fix)
  moreover have "rbt (ins_fix \<pi> (Nd RB_RED Tip a Tip))" using rbt_ins_fix[OF _ c] by simp
  ultimately show ?thesis using m1(1,2) m'(1) by (auto simp: rb_insert_color_def labels_ins_fix)
qed

end
