(* ===== verification/Rb_Erase.thy ===== *)
theory Rb_Erase
  imports Rb_Insert
begin

text \<open>Removal from the tree in memory follows the rebalancing of the abstract tree.\<close>

lemma erase_red_sibling:
  assumes "rep m (fill ((d, c, p, mk d RB_RED near a far) # \<pi>) t)" "near = mk d RB_BLACK x b y"
  shows "\<exists>m'. erase_red_sibling d p a m = Some (b, m') \<and>
    becomes m m' (fill ((d, RB_RED, p, near) # (d, c, a, far) # \<pi>) t)"
proof -
  have h: "tree_at (nodes m) p t" "p \<noteq> 0" "nodes m p = Some (node d (up \<pi>) c (here t) a)"
    "a \<noteq> 0" "nodes m a = Some (node d p RB_RED b (here far))" "tree_at (nodes m) a far"
    "b \<noteq> 0" "nodes m b = Some (node d a RB_BLACK (here x) (here y))" "tree_at (nodes m) b x" "tree_at (nodes m) b y"
    "path_at (nodes m) (rb_root m) p \<pi>"
    using assms by (simp_all add: rep_fill)
  have ds: "distinct (before \<pi> @ labels (mk d c t p (mk d RB_RED near a far)) @ after \<pi>)"
    using assms(1) by (simp add: rep_fill)
  show ?thesis
    using h ds path_at_in[OF h(11)]
    by (simp add: erase_red_sibling_def exec heap_rules rep_fill disjoint becomes_def assms(2))
qed

lemma erase_rotate_parent:
  assumes "rep m (fill ((d, c, p, mk d RB_BLACK near a far) # \<pi>) t)" "far = mk d RB_RED x b y"
  shows "\<exists>m'. erase_rotate_parent d p a b m = Some m' \<and>
    becomes m m' (fill \<pi> (mk d c (mk d RB_BLACK t p near) a (paint RB_BLACK far)))"
proof -
  have h: "tree_at (nodes m) p t" "p \<noteq> 0" "nodes m p = Some (node d (up \<pi>) c (here t) a)"
    "a \<noteq> 0" "nodes m a = Some (node d p RB_BLACK (here near) b)" "tree_at (nodes m) a near"
    "b \<noteq> 0" "nodes m b = Some (node d a RB_RED (here x) (here y))" "tree_at (nodes m) b x" "tree_at (nodes m) b y"
    "path_at (nodes m) (rb_root m) p \<pi>"
    using assms by (simp_all add: rep_fill)
  have ds: "distinct (before \<pi> @ labels (mk d c t p (mk d RB_BLACK near a far)) @ after \<pi>)"
    using assms(1) by (simp add: rep_fill)
  have ex: "\<exists>par. tree_at (nodes m) par near" using h(6) by blast
  show ?thesis
    using h ds path_at_in[OF h(11)] tree_at_inner[OF h(6)] ex
    by (simp add: erase_rotate_parent_def exec heap_rules rep_fill disjoint becomes_def assms(2))
qed

lemma erase_rotate_both:
  assumes "rep m (fill ((d, c, p, mk d RB_BLACK near a far) # \<pi>) t)" "near = mk d RB_RED x b y"
    and "color y = RB_BLACK"
  shows "\<exists>m'. do { m \<leftarrow> erase_rotate_sibling d p a b m; erase_rotate_parent d p b a m } = Some m' \<and>
    becomes m m' (fill \<pi> (mk d c (mk d RB_BLACK t p x) b (mk d RB_BLACK y a far)))"
proof -
  have h: "tree_at (nodes m) p t" "p \<noteq> 0" "nodes m p = Some (node d (up \<pi>) c (here t) a)"
    "a \<noteq> 0" "nodes m a = Some (node d p RB_BLACK b (here far))" "tree_at (nodes m) a far"
    "b \<noteq> 0" "nodes m b = Some (node d a RB_RED (here x) (here y))" "tree_at (nodes m) b x" "tree_at (nodes m) b y"
    "path_at (nodes m) (rb_root m) p \<pi>"
    using assms by (simp_all add: rep_fill)
  have ds: "distinct (before \<pi> @ labels (mk d c t p (mk d RB_BLACK near a far)) @ after \<pi>)"
    using assms(1) by (simp add: rep_fill)
  have ex: "\<exists>par. tree_at (nodes m) par x" using h(9) by blast
  show ?thesis
    using h ds path_at_in[OF h(11)] tree_at_inner[OF h(9)] tree_at_inner[OF h(10)] ex assms(3)
    by (simp add: erase_rotate_sibling_def erase_rotate_parent_def exec heap_rules rep_fill disjoint becomes_def assms(2))
qed

lemma erase_flip:
  assumes "rep m (fill ((d, c, p, mk d RB_BLACK near a far) # \<pi>) t)"
  shows "\<exists>m'. erase_flip p a m =
      Some (if c = RB_RED \<or> \<pi> = [] then Inl m' else Inr (p, up \<pi>, m')) \<and>
    becomes m m' (fill \<pi> (mk d RB_BLACK t p (mk d RB_RED near a far)))"
proof -
  have h: "tree_at (nodes m) p t" "p \<noteq> 0" "nodes m p = Some (node d (up \<pi>) c (here t) a)"
    "a \<noteq> 0" "nodes m a = Some (node d p RB_BLACK (here near) (here far))" "tree_at (nodes m) a near" "tree_at (nodes m) a far"
    "path_at (nodes m) (rb_root m) p \<pi>"
    using assms by (simp_all add: rep_fill)
  have ds: "distinct (before \<pi> @ labels (mk d c t p (mk d RB_BLACK near a far)) @ after \<pi>)"
    using assms(1) by (simp add: rep_fill)
  have up: "up \<pi> = 0 \<longleftrightarrow> \<pi> = []" using h(8) by (cases \<pi> rule: up.cases) auto
  show ?thesis
  proof (cases "\<pi> = []")
    case True
    with h ds show ?thesis
      by (cases c) (simp_all add: erase_flip_def exec heap_rules rep_def disjoint becomes_def)
  next
    case False
    with h ds up show ?thesis
      by (cases c) (simp_all add: erase_flip_def exec heap_rules rep_fill disjoint becomes_def)
  qed
qed

lemma up_null: "rep m (fill \<pi> t) \<Longrightarrow> up \<pi> = 0 \<longleftrightarrow> \<pi> = []"
  by (cases \<pi> rule: up.cases) (auto simp: rep_fill)

text \<open>The sibling is not null, so that the side of the node is recognised.\<close>

lemma erase_step_side:
  assumes "rep m (fill ((d, c, p, s) # \<pi>) t)" "s \<noteq> Tip"
  shows "erase_step (here t) p m = erase_round d p m"
proof -
  have h: "p \<noteq> 0" "nodes m p = Some (node d (up \<pi>) c (here t) (here s))" "inner (nodes m) s"
    using assms by (auto simp: rep_fill intro: tree_at_inner)
  have "set (labels s) \<inter> set (labels t) = {}" using assms(1) by (auto simp: rep_fill)
  from here_neq[OF assms(2) this h(3)] h(1,2) show ?thesis
    by (cases d) (auto simp: erase_step_def exec)
qed

text \<open>The cases with a black sibling.\<close>

lemma erase_black_sibling:
  assumes "rep m (fill ((d, c, p, s) # \<pi>) t)" "s = mk d RB_BLACK near a far"
    and "color near = RB_RED \<longrightarrow> color (sub (opp d) near) = RB_BLACK"
    and "c = RB_BLACK \<and> color near = RB_BLACK \<longrightarrow> color far = RB_RED"
  shows "\<exists>m'. erase_black_sibling d p a m = Some (Inl m') \<and> becomes m m' (del_end d c p s \<pi> t)"
proof -
  have h: "a \<noteq> 0" "nodes m a = Some (node d p RB_BLACK (here near) (here far))"
    "\<exists>par. tree_at (nodes m) par near" "\<exists>par. tree_at (nodes m) par far"
    using assms(1,2) by (auto simp: rep_fill)
  have eq: "erase_black_sibling d p a m =
      (if color far = RB_BLACK then
         if color near = RB_BLACK then erase_flip p a m
         else do { m \<leftarrow> erase_rotate_sibling d p a (here near) m;
                   map_option Inl (erase_rotate_parent d p (here near) a m) }
       else map_option Inl (erase_rotate_parent d p a (here far) m))"
    using h by (simp add: erase_black_sibling_def exec heap_rules)
  note start = eq del_end_def assms(2)
  consider "color far = RB_RED" | "color far = RB_BLACK" "color near = RB_RED" | "color far = RB_BLACK" "color near = RB_BLACK"
    using rb_color.exhaust by metis
  then show ?thesis
  proof cases
    case 1
    then obtain x b y where far: "far = mk d RB_RED x b y"
      using mk_cases[where t = far and d = d] by (metis color_mk not_black_Tip)
    from erase_rotate_parent[OF assms(1)[unfolded assms(2)] far] h 1 show ?thesis by (auto simp: start far)
  next
    case 2
    then obtain x b y where near: "near = mk d RB_RED x b y"
      using mk_cases[where t = near and d = d] by (metis color_mk not_black_Tip)
    with assms(3) have y: "color y = RB_BLACK" by simp
    obtain m' where m': "do { m \<leftarrow> erase_rotate_sibling d p a b m; erase_rotate_parent d p b a m } = Some m'"
      "becomes m m' (fill \<pi> (mk d c (mk d RB_BLACK t p x) b (mk d RB_BLACK y a far)))"
      using erase_rotate_both[OF assms(1)[unfolded assms(2)] near y] by blast
    then obtain m1 where "erase_rotate_sibling d p a b m = Some m1" "erase_rotate_parent d p b a m1 = Some m'"
      by (auto simp: bind_eq_Some_conv)
    with m'(2) h 2 show ?thesis by (auto simp: start near)
  next
    case 3
    with assms(4) have c: "c = RB_RED" by (cases c) auto
    from erase_flip[OF assms(1)[unfolded assms(2)]] h 3 show ?thesis by (auto simp: start c)
  qed
qed

lemma erase_loop_correct:
  assumes "rep m (fill \<pi> t)" "rb_inv t" "color t = RB_BLACK" "ctx \<pi> (Suc (height t))" "\<pi> \<noteq> []"
  shows "\<exists>m'. erase_color_loop (here t) (up \<pi>) m = Some m' \<and> becomes m m' (del_fix \<pi> t)"
  using assms
proof (induction \<pi> t arbitrary: m rule: del_fix.induct)
  case (2 d c p s \<pi> t)
  have sne: "s \<noteq> Tip" using 2(5) by auto
  obtain cs near a far where s: "s = mk d cs near a far" using sne mk_cases[where t = s and d = d] by metis
  have h: "p \<noteq> 0" "nodes m p = Some (node d (up \<pi>) c (here t) a)" "a \<noteq> 0" "nodes m a = Some (node d p cs (here near) (here far))"
    using 2(2) by (simp_all add: rep_fill s)
  have inv: "rb_inv near" "rb_inv far" "height far = height near" using 2(5) by (auto simp: s)
  have step: "erase_color_loop (here t) p m =
    (case erase_round d p m of None \<Rightarrow> None | Some (Inl m) \<Rightarrow> Some m | Some (Inr (n, q, m)) \<Rightarrow> erase_color_loop n q m)"
    by (subst erase_color_loop.simps) (simp add: erase_step_side[OF 2(2) sne])
  show ?case
  proof (cases cs)
    case RB_RED
    have c: "c = RB_BLACK" using 2(5) by (cases c) (auto simp: s RB_RED)
    have n: "color near = RB_BLACK" "height near = Suc (height t)"
      using 2(5) height_mk2[of near far d RB_RED a] by (auto simp: s RB_RED)
    obtain x b y where near: "near = mk d RB_BLACK x b y"
      using n mk_cases[where t = near and d = d] by (metis color_mk height_Suc)
    obtain m1 where m1: "erase_red_sibling d p a m = Some (b, m1)"
      "becomes m m1 (fill ((d, RB_RED, p, near) # (d, c, a, far) # \<pi>) t)"
      using erase_red_sibling[OF 2(2)[unfolded s RB_RED] near] by blast
    have "color x = RB_RED \<longrightarrow> color (sub (opp d) x) = RB_BLACK"
      using inv(1) by (cases x rule: mk_cases[where d = d]) (auto simp: near)
    from erase_black_sibling[OF becomes_rep[OF m1(2)] near this] obtain m' where
      m': "erase_black_sibling d p b m1 = Some (Inl m')" "becomes m1 m' (del_end d RB_RED p near ((d, c, a, far) # \<pi>) t)"
      by auto
    have "becomes m m' (del_end d RB_RED p near ((d, c, a, far) # \<pi>) t)"
      using labels_del_end[of near d RB_RED p "(d, c, a, far) # \<pi>" t]
      by (intro becomes_trans[OF m1(2) m'(2)]) (simp add: near)
    then show ?thesis
      using h m1(1) m'(1) by (simp add: step erase_round_def exec RB_RED s)
  next
    case RB_BLACK
    have round: "erase_round d p m = erase_black_sibling d p a m"
      using h by (simp add: erase_round_def exec RB_BLACK)
    show ?thesis
    proof (cases "color near = RB_BLACK \<and> color far = RB_BLACK \<and> c = RB_BLACK")
      case True
      have e: "erase_black_sibling d p a m = erase_flip p a m"
      proof -
        have "\<exists>par. tree_at (nodes m) par near" "\<exists>par. tree_at (nodes m) par far" using 2(2) by (auto simp: rep_fill s)
        with h True show ?thesis by (simp add: erase_black_sibling_def exec heap_rules)
      qed
      obtain m1 where m1: "erase_flip p a m = Some (if \<pi> = [] then Inl m1 else Inr (p, up \<pi>, m1))"
        "becomes m m1 (fill \<pi> (mk d RB_BLACK t p (mk d RB_RED near a far)))"
        using erase_flip[OF 2(2)[unfolded s RB_BLACK]] True by auto
      show ?thesis
      proof (cases "\<pi> = []")
        case pi: True
        with m1 True show ?thesis by (simp add: step round e s RB_BLACK)
      next
        case pi: False
        let ?t = "mk d RB_BLACK t p (mk d RB_RED near a far)"
        have inv': "rb_inv ?t" "height ?t = Suc (height t)" "ctx \<pi> (Suc (height ?t))"
          using 2(3,4,5) height_mk2[of near far d RB_BLACK a] True by (auto simp: s RB_BLACK height_mk2)
        have "\<exists>m'. erase_color_loop (here ?t) (up \<pi>) m1 = Some m' \<and> becomes m1 m' (del_fix \<pi> ?t)"
          using 2(1)[OF refl refl refl _ _ _ _ _ _ pi, of m1] True inv' becomes_rep[OF m1(2)] by (simp add: s RB_BLACK)
        then obtain m' where m': "erase_color_loop p (up \<pi>) m1 = Some m'" "becomes m1 m' (del_fix \<pi> ?t)" by auto
        have "becomes m m' (del_fix \<pi> ?t)"
          using del_fix_correct[OF inv'(1) _ inv'(3)] by (intro becomes_trans[OF m1(2) m'(2)]) simp
        then show ?thesis using m1(1) m'(1) True pi by (simp add: step round e s RB_BLACK)
      qed
    next
      case False
      have "color near = RB_RED \<longrightarrow> color (sub (opp d) near) = RB_BLACK"
        using inv(1) by (cases near rule: mk_cases[where d = d]) auto
      from erase_black_sibling[OF 2(2) s[unfolded RB_BLACK] this] False show ?thesis
        by (auto simp: step round s RB_BLACK)
    qed
  qed
qed simp

end
