(* ===== verification/Rb_Tree_Correct.thy ===== *)
theory Rb_Tree_Correct
  imports Rb_Erase
begin

text \<open>
  Removal of a node, walking over the tree, and the contract of the red-black trees: the operations on
  memory insert into and remove from the list of nodes, and keep the tree balanced.
\<close>

subsection \<open>The successor of a node with two children\<close>

fun split_min :: "rtree \<Rightarrow> frame list \<times> rb_color \<times> ptr \<times> rtree" where
  "split_min Tip = ([], RB_BLACK, 0, Tip)"
| "split_min (Nd c Tip a r) = ([], c, a, r)"
| "split_min (Nd c l a r) = (let (\<rho>, s) = split_min l in (\<rho> @ [(Lft, c, a, r)], s))"

lemma split_min_fill: "t \<noteq> Tip \<Longrightarrow> split_min t = (\<rho>, c, b, x) \<Longrightarrow> t = fill \<rho> (Nd c Tip b x) \<and> before \<rho> = []"
  by (induction t arbitrary: \<rho> rule: split_min.induct)
    (auto simp: fill_append before_append mk_def split: prod.splits)

lemma split_min_Nil: "split_min (Nd c l a r) = (\<rho>, s) \<Longrightarrow> \<rho> = [] \<longleftrightarrow> l = Tip"
  by (cases l) (auto split: prod.splits)

lemma up_append: "\<rho> \<noteq> [] \<Longrightarrow> up (\<rho> @ \<pi>) = up \<rho>"
  by (cases \<rho> rule: up.cases) auto

lemma leftmost_min:
  assumes "tree_at (nodes m) par (Nd c l a r)" "l \<noteq> Tip" "split_min (Nd c l a r) = (\<rho>, c2, b, x)"
  shows "leftmost m a (here l) = Some (up \<rho>, b)"
  using assms
proof (induction l arbitrary: par c a r \<rho>)
  case (Nd cl ll al rl)
  show ?case
  proof (cases "ll = Tip")
    case True
    with Nd(3,5) show ?thesis by (subst leftmost.simps) (auto simp: exec)
  next
    case False
    obtain \<rho>1 where r: "split_min (Nd cl ll al rl) = (\<rho>1, c2, b, x)" "\<rho> = \<rho>1 @ [(Lft, c, a, r)]"
      using Nd(5) by (auto split: prod.splits)
    with False have "\<rho>1 \<noteq> []" using split_min_Nil by blast
    moreover have "here ll \<noteq> 0" using Nd(3) False by (cases ll) auto
    moreover have "leftmost m al (here ll) = Some (up \<rho>1, b)" using Nd(1)[of a cl al rl \<rho>1] Nd(3) r(1) False by simp
    ultimately show ?thesis using Nd(3) r(2) by (subst leftmost.simps) (simp add: exec up_append)
  qed
qed simp

subsection \<open>A part of the way up\<close>

text \<open>Like \<open>path_at\<close>, but the topmost node has the father \<open>par\<close>.\<close>

fun up_to :: "ptr \<Rightarrow> frame list \<Rightarrow> ptr" where
  "up_to par [] = par"
| "up_to par ((d, c, a, s) # \<pi>) = a"

fun seg_at :: "(ptr \<rightharpoonup> rb_node) \<Rightarrow> ptr \<Rightarrow> ptr \<Rightarrow> frame list \<Rightarrow> bool" where
  "seg_at h par q [] \<longleftrightarrow> True"
| "seg_at h par q ((d, c, a, s) # \<pi>) \<longleftrightarrow>
     a \<noteq> 0 \<and> h a = Some (node d (up_to par \<pi>) c q (here s)) \<and> tree_at h a s \<and> seg_at h par a \<pi>"

lemma tree_at_fill: "tree_at h par (fill \<rho> x) \<longleftrightarrow> seg_at h par (here x) \<rho> \<and> tree_at h (up_to par \<rho>) x"
  by (induction \<rho> x rule: fill.induct) auto

lemma seg_at_cong: "(\<And>a. a \<in> around \<pi> \<Longrightarrow> h' a = h a) \<Longrightarrow> seg_at h' par q \<pi> = seg_at h par q \<pi>"
proof (induction \<pi> arbitrary: q rule: before.induct)
  case (2 c b s \<pi>)
  have "seg_at h' par b \<pi> = seg_at h par b \<pi>" by (rule 2(1)) (auto intro: 2(2))
  moreover have "tree_at h' b s = tree_at h b s" by (rule tree_at_cong) (auto intro: 2(2))
  ultimately show ?case by (simp add: 2(2))
next
  case (3 c b s \<pi>)
  have "seg_at h' par b \<pi> = seg_at h par b \<pi>" by (rule 3(1)) (auto intro: 3(2))
  moreover have "tree_at h' b s = tree_at h b s" by (rule tree_at_cong) (auto intro: 3(2))
  ultimately show ?case by (simp add: 3(2))
qed simp

lemma up_to_append: "up (\<rho> @ \<pi>) = up_to (up \<pi>) \<rho>"
  by (cases \<rho> rule: up.cases) auto

lemma here_fill_cong: "here x = here y \<Longrightarrow> here (fill \<rho> x) = here (fill \<rho> y)"
proof (induction \<rho> arbitrary: x y)
  case (Cons f \<rho>) then show ?case by (cases f) simp
qed simp

lemma here_fill: "\<rho> \<noteq> [] \<Longrightarrow> here (fill \<rho> x) = here (fill \<rho> y)"
  by (cases \<rho> rule: up.cases) (auto intro: here_fill_cong)

lemma path_at_append:
  "path_at h root q (\<rho> @ \<pi>) \<longleftrightarrow> seg_at h (up \<pi>) q \<rho> \<and> path_at h root (if \<rho> = [] then q else here (fill \<rho> Tip)) \<pi>"
proof (induction \<rho> arbitrary: q)
  case (Cons f \<rho>)
  obtain d c a s where f: "f = (d, c, a, s)" by (cases f)
  have "here (fill \<rho> (mk d c Tip a s)) = (if \<rho> = [] then a else here (fill \<rho> Tip))"
    using here_fill[of \<rho> "mk d c Tip a s" Tip] by auto
  then show ?case using Cons[of a] by (auto simp: up_to_append f)
qed simp

lemma seg_at_upd [heap_rules]:
  "a \<notin> set (before \<rho>) \<Longrightarrow> a \<notin> set (after \<rho>) \<Longrightarrow> seg_at (h(a := v)) par q \<rho> = seg_at h par q \<rho>"
  by (rule seg_at_cong) auto

lemma seg_at_recol [heap_rules]:
  "set (before \<rho>) \<inter> set (labels x) = {} \<Longrightarrow> set (labels x) \<inter> set (after \<rho>) = {} \<Longrightarrow>
   seg_at (recol (here x) p c h) par q \<rho> = seg_at h par q \<rho>"
  by (rule seg_at_cong, rule recol_other) auto

lemma seg_at_repar_other [heap_rules]:
  "set (before \<rho>) \<inter> set (labels x) = {} \<Longrightarrow> set (labels x) \<inter> set (after \<rho>) = {} \<Longrightarrow>
   seg_at (repar (here x) p h) par q \<rho> = seg_at h par q \<rho>"
  by (rule seg_at_cong, rule repar_other) auto

lemma seg_at_relink [heap_rules]:
  "around \<rho> \<inter> around \<pi> = {} \<Longrightarrow> seg_at (nodes (relink \<pi> n m)) par q \<rho> = seg_at (nodes m) par q \<rho>"
  by (rule seg_at_cong, rule relink_other) auto

lemma top_around: "\<rho> \<noteq> [] \<Longrightarrow> here (fill \<rho> x) \<in> around \<rho>"
proof (induction \<rho> arbitrary: x rule: before.induct)
  case (2 c a s \<rho>) then show ?case by (cases "\<rho> = []") auto
next
  case (3 c a s \<rho>) then show ?case by (cases "\<rho> = []") auto
qed simp

lemma repar_neq: "a \<noteq> p \<Longrightarrow> repar p par h a = h a"
  by (simp add: repar_def)

text \<open>The topmost node of the way gets another father.\<close>

lemma seg_at_repar:
  assumes "seg_at h par q \<rho>" "\<rho> \<noteq> []" "distinct (before \<rho> @ after \<rho>)"
  shows "seg_at (repar (here (fill \<rho> x)) par' h) par' q \<rho>"
  using assms
proof (induction \<rho> arbitrary: q x)
  case (Cons f \<rho>)
  obtain d c a s where f: "f = (d, c, a, s)" by (cases f)
  have ds: "distinct (before \<rho> @ after \<rho>)" "a \<notin> around \<rho>" "a \<notin> set (labels s)" "set (labels s) \<inter> around \<rho> = {}"
    using Cons(4) by (cases d; auto simp: f)+
  show ?case
  proof (cases "\<rho> = []")
    case True
    have "tree_at (repar a par' h) a s = tree_at h a s" using ds(3) by (auto intro!: repar_neq tree_at_cong)
    moreover have "repar a par' h a = Some (node d par' c q (here s))" using Cons(2) True by (simp add: repar_def f)
    ultimately show ?thesis using Cons(2) True by (simp add: f)
  next
    case False
    let ?h = "repar (here (fill \<rho> (mk d c x a s))) par' h"
    have neq: "b \<noteq> here (fill \<rho> (mk d c x a s))" if "b \<in> insert a (set (labels s))" for b
      using top_around[OF False, of "mk d c x a s"] that ds by auto
    have "?h a = h a" by (rule repar_neq) (simp add: neq)
    moreover have "tree_at ?h a s = tree_at h a s" by (intro tree_at_cong repar_neq neq) simp
    moreover have "up_to par' \<rho> = up_to par \<rho>" using False by (cases \<rho> rule: up.cases) auto
    ultimately show ?thesis using Cons(2) Cons(1)[OF _ False ds(1), of a "mk d c x a s"] by (simp add: f)
  qed
qed simp

subsection \<open>Taking a node out\<close>

lemma set_parent_ok [heap_rules]:
  "p \<noteq> 0 \<Longrightarrow> ok_ptr (nodes m) p \<Longrightarrow> rb_set_parent p q m = Some (m\<lparr>nodes := repar p q (nodes m)\<rparr>)"
  by (auto simp: rb_set_parent_def upd_node_def deref_def repar_def ok_ptr_def)

lemma set_parent_color_ok:
  "p \<noteq> 0 \<Longrightarrow> ok_ptr (nodes m) p \<Longrightarrow> rb_set_parent_color p q c m = Some (m\<lparr>nodes := recol p q c (nodes m)\<rparr>)"
  by (auto simp: rb_set_parent_color_def upd_node_def deref_def recol_def ok_ptr_def)

lemma here_null: "inner h t \<Longrightarrow> here t = 0 \<longleftrightarrow> t = Tip"
  by (cases t) auto

lemma here_null_at: "tree_at h par t \<Longrightarrow> here t = 0 \<longleftrightarrow> t = Tip"
  by (cases t) auto

lemma inner_cong: "(\<And>a. a \<in> set (labels t) \<Longrightarrow> h' a = h a) \<Longrightarrow> inner h' t = inner h t"
  by (cases t) (auto cong: tree_at_cong)

lemma path_in_cong: "(\<And>a. a \<in> around \<pi> \<Longrightarrow> h' a = h a) \<Longrightarrow> path_in h' root \<pi> = path_in h root \<pi>"
proof (cases \<pi> rule: up.cases)
  case (2 d c b s \<pi>')
  assume *: "\<And>a. a \<in> around \<pi> \<Longrightarrow> h' a = h a"
  have "around \<pi>' \<subseteq> around \<pi>" "set (labels s) \<subseteq> around \<pi>" "b \<in> around \<pi>" using 2 by (cases d; auto)+
  then have "path_at h' root b \<pi>' = path_at h root b \<pi>'" "tree_at h' b s = tree_at h b s" "h' b = h b"
    using * by (auto intro!: path_at_cong tree_at_cong)
  then show ?thesis by (simp add: 2)
qed simp

lemma erase_easy_correct:
  assumes "rep m (fill \<pi> (Nd c l a r))" "l = Tip \<and> s = r \<or> r = Tip \<and> s = l"
  shows "\<exists>m'. erase_easy a (here s) (node Lft (up \<pi>) c (here l) (here r)) m =
      Some (if s = Tip \<and> c = RB_BLACK then up \<pi> else 0, m') \<and> becomes m m' (fill \<pi> (paint c s))"
proof -
  have h: "tree_at (nodes m) a s" "a \<noteq> 0" "path_at (nodes m) (rb_root m) a \<pi>" "a \<notin> around \<pi>"
    using assms by (auto simp: rep_fill)
  have ds: "distinct (before \<pi> @ labels s @ after \<pi>)"
    using assms by (auto simp: rep_fill)
  have s: "inner (nodes m) s" using h(1) by (rule tree_at_inner)
  show ?thesis
  proof (cases "s = Tip")
    case True
    with h ds path_at_in[OF h(3)] show ?thesis
      by (simp add: erase_easy_def Let_def heap_rules becomes_def rep_fill)
  next
    case False
    with here_null[OF s] have "here s \<noteq> 0" by simp
    then show ?thesis
      using False h ds path_at_in[OF h(3)] s
      by (simp add: erase_easy_def Let_def heap_rules set_parent_color_ok becomes_def rep_fill disjoint)
  qed
qed

lemma erase_successor_alt:
  "erase_successor e l r m = do {
     tmp \<leftarrow> child Lft m r;
     (parent, successor, child2, m) \<leftarrow>
       (if tmp = 0 then do { child2 \<leftarrow> child Rgt m r; Some (r, r, child2, m) }
        else do {
          (parent, successor) \<leftarrow> leftmost m r tmp;
          child2 \<leftarrow> child Rgt m successor;
          m \<leftarrow> set_child Lft parent child2 m;
          m \<leftarrow> set_child Rgt successor r m;
          m \<leftarrow> rb_set_parent r successor m;
          Some (parent, successor, child2, m) });
     m \<leftarrow> set_child Lft successor l m;
     m \<leftarrow> rb_set_parent l successor m;
     n \<leftarrow> deref m e;
     m \<leftarrow> rb_change_child e successor (pc_parent n) m;
     n2 \<leftarrow> deref m successor;
     m \<leftarrow> rb_set_parent_color successor (pc_parent n) (pc_color n) m;
     m \<leftarrow> unless_null child2 (rb_set_parent_color child2 parent RB_BLACK) m;
     Some (if child2 = 0 \<and> pc_color n2 = RB_BLACK then parent else 0, m) }"
proof -
  have tail: "(if q \<noteq> 0 then do { m \<leftarrow> rb_set_parent_color q p RB_BLACK m; Some (0, m) } else Some (if c then p else 0, m)) =
      do { m \<leftarrow> unless_null q (rb_set_parent_color q p RB_BLACK) m; Some (if q = 0 \<and> c then p else 0, m) }" for q p c m
    by (simp add: unless_null_def)
  show ?thesis unfolding erase_successor_def tail ..
qed

lemmas exec_successor = child_get set_child_put deref_def upd_node_def rb_set_parent_color_def

text \<open>The successor is the right child.\<close>

lemma erase_successor_child:
  assumes "rep m (fill \<pi> (Nd c l a (Nd c2 Tip b x)))" "l \<noteq> Tip"
  shows "\<exists>m'. erase_successor a (here l) b m =
      Some (if x = Tip \<and> c2 = RB_BLACK then b else 0, m') \<and>
    becomes m m' (fill ((Rgt, c, b, l) # \<pi>) (paint RB_BLACK x))"
proof -
  have h: "a \<noteq> 0" "nodes m a = Some (node Lft (up \<pi>) c (here l) b)" "tree_at (nodes m) a l"
    "b \<noteq> 0" "nodes m b = Some (node Lft a c2 0 (here x))" "tree_at (nodes m) b x" "path_at (nodes m) (rb_root m) a \<pi>"
    using assms by (auto simp: rep_fill)
  have ds: "distinct (before \<pi> @ labels (Nd c l a (Nd c2 Tip b x)) @ after \<pi>)" using assms by (simp add: rep_fill)
  have l: "inner (nodes m) l" "here l \<noteq> 0" "\<exists>par. tree_at (nodes m) par l"
    using h(3) assms(2) here_null[OF tree_at_inner[OF h(3)]] tree_at_inner[OF h(3)] by auto
  have x: "inner (nodes m) x" "here x = 0 \<longleftrightarrow> x = Tip" using h(6) by (auto simp: tree_at_inner here_null_at)
  have "set (labels x) \<inter> set (labels l) = {}" using ds by auto
  then show ?thesis
    using h ds l x path_at_in[OF h(7)]
    by (simp add: erase_successor_alt exec_successor heap_rules becomes_def rep_fill disjoint node_Rgt)
qed

text \<open>The successor is further down, at the end of the way \<open>\<rho>\<close>.\<close>

lemma erase_successor_deep:
  assumes "rep m (fill \<pi> (Nd c l a r))" "l \<noteq> Tip" "split_min r = (\<rho>, c2, b, x)" "\<rho> \<noteq> []" "r \<noteq> Tip"
  shows "\<exists>m'. erase_successor a (here l) (here r) m =
      Some (if x = Tip \<and> c2 = RB_BLACK then up \<rho> else 0, m') \<and>
    becomes m m' (fill (\<rho> @ (Rgt, c, b, l) # \<pi>) (paint RB_BLACK x))"
proof -
  have r: "r = fill \<rho> (Nd c2 Tip b x)" "before \<rho> = []" using split_min_fill[OF assms(5,3)] by auto
  obtain c3 p s \<rho>' where \<rho>: "\<rho> = (Lft, c3, p, s) # \<rho>'" "before \<rho>' = []"
    using assms(4) r(2) by (cases \<rho> rule: before.cases) auto
  have h: "a \<noteq> 0" "nodes m a = Some (node Lft (up \<pi>) c (here l) (here r))" "tree_at (nodes m) a l" "tree_at (nodes m) a r"
    "path_at (nodes m) (rb_root m) a \<pi>"
    using assms by (auto simp: rep_fill)
  have seg: "p \<noteq> 0" "nodes m p = Some (node Lft (up_to a \<rho>') c3 b (here s))" "tree_at (nodes m) p s" "seg_at (nodes m) a p \<rho>'"
    "b \<noteq> 0" "nodes m b = Some (node Lft p c2 0 (here x))" "tree_at (nodes m) b x"
    using h(4) by (auto simp: r(1) \<rho>(1) tree_at_fill simp del: fill.simps)
  have ds: "distinct (before \<pi> @ labels (Nd c l a r) @ after \<pi>)" using assms by (simp add: rep_fill)
  have labels_r: "labels r = b # labels x @ p # labels s @ after \<rho>'" by (simp add: r(1) \<rho> del: fill.simps)
  obtain cr lr ar rr where rN: "r = Nd cr lr ar rr" using assms(5) by (cases r) auto
  have lr: "lr \<noteq> Tip" using assms(3,4) split_min_Nil unfolding rN by blast
  have low: "leftmost m (here r) (here lr) = Some (p, b)"
    using leftmost_min[OF h(4)[unfolded rN] lr assms(3)[unfolded rN]] by (simp add: rN \<rho>)
  have first: "here r \<noteq> 0" "nodes m (here r) = Some (node Lft a cr (here lr) (here rr))" "tree_at (nodes m) (here r) lr"
    using h(4) lr by (auto simp: rN)
  have lr0: "here lr \<noteq> 0" using here_null_at[OF first(3)] lr by simp
  have l: "inner (nodes m) l" "here l \<noteq> 0" "\<exists>par. tree_at (nodes m) par l"
    using h(3) assms(2) here_null[OF tree_at_inner[OF h(3)]] tree_at_inner[OF h(3)] by auto
  have x: "inner (nodes m) x" "here x = 0 \<longleftrightarrow> x = Tip" using seg(7) by (auto simp: tree_at_inner here_null_at)
  have top: "here r = here (fill \<rho> Tip)" using here_fill[OF assms(4)] by (simp add: r(1))
  define h1 where "h1 = (nodes m)(p \<mapsto> node Lft (up_to a \<rho>') c3 (here x) (here s))"
  define h2 where "h2 = repar (here r) b (h1(b \<mapsto> node Lft p c2 0 (here r)))"
  have s1: "seg_at (h1(b \<mapsto> node Lft p c2 0 (here r))) a (here x) \<rho>"
    using seg ds by (simp add: h1_def \<rho> heap_rules labels_r)
  have "distinct (before \<rho> @ after \<rho>)" using ds by (simp add: labels_r \<rho> disjoint)
  from seg_at_repar[OF s1 assms(4) this, of "Nd c2 Tip b x" b] have s2: "seg_at h2 b (here x) \<rho>"
    unfolding h2_def r(1)[symmetric] .
  have around: "here r \<in> around \<rho>" using top_around[OF assms(4)] by (simp add: r(1))
  have other: "h2 z = nodes m z" if "z \<notin> around \<rho>" "z \<noteq> b" for z
  proof -
    from that around have "z \<noteq> here r" "z \<noteq> p" by (auto simp: \<rho>)
    with that(2) show ?thesis by (simp add: h2_def h1_def repar_neq)
  qed
  have b: "h2 b = Some (node Lft p c2 0 (here r))"
  proof -
    have "b \<noteq> here r" using around ds by (auto simp: \<rho> labels_r)
    then show ?thesis by (simp add: h2_def repar_neq)
  qed
  have dx: "around \<rho> \<inter> set (labels x) = {}" "b \<notin> set (labels x)" "around \<rho> \<inter> set (labels l) = {}" "b \<notin> set (labels l)"
    "around \<rho> \<inter> around \<pi> = {}" "b \<notin> around \<pi>" "a \<notin> around \<rho>" "a \<noteq> b" "b \<notin> around \<rho>"
    using ds by (auto simp: \<rho> labels_r)
  have old: "h2 a = nodes m a" "inner h2 x = inner (nodes m) x" "inner h2 l = inner (nodes m) l"
    "\<And>par. tree_at h2 par l = tree_at (nodes m) par l" "\<And>root q. path_at h2 root q \<pi> = path_at (nodes m) root q \<pi>"
    "\<And>root. path_in h2 root \<pi> = path_in (nodes m) root \<pi>"
    using dx by (auto intro!: other tree_at_cong path_at_cong path_in_cong inner_cong)
  have pre: "child Lft m (here r) = Some (here lr)" "child Rgt m b = Some (here x)"
    "set_child Lft p (here x) m = Some (m\<lparr>nodes := h1\<rparr>)"
    "set_child Rgt b (here r) (m\<lparr>nodes := h1\<rparr>) = Some (m\<lparr>nodes := h1(b \<mapsto> node Lft p c2 0 (here r))\<rparr>)"
    "rb_set_parent (here r) b (m\<lparr>nodes := h1(b \<mapsto> node Lft p c2 0 (here r))\<rparr>) = Some (m\<lparr>nodes := h2\<rparr>)"
    subgoal using first by (simp add: child_get deref_def)
    subgoal using seg by (simp add: child_get deref_def)
    subgoal using seg by (simp add: set_child_put upd_node_def deref_def h1_def)
    subgoal using seg ds by (auto simp: set_child_put upd_node_def deref_def h1_def labels_r)
    subgoal using first by (simp add: set_parent_ok ok_ptr_def h1_def h2_def)
    done
  have dl: "set (labels x) \<inter> set (labels l) = {}" "distinct (labels x)" "distinct (labels l)" "distinct (before \<pi> @ after \<pi>)"
    "set (before \<pi>) \<inter> set (labels x) = {}" "set (labels x) \<inter> set (after \<pi>) = {}"
    "set (before \<pi>) \<inter> set (labels l) = {}" "set (labels l) \<inter> set (after \<pi>) = {}"
    "a \<notin> set (labels x)" "a \<notin> set (labels l)" "a \<notin> around \<pi>"
    "set (before \<rho>) \<inter> set (labels x) = {}" "set (labels x) \<inter> set (after \<rho>) = {}"
    "set (before \<rho>) \<inter> set (labels l) = {}" "set (labels l) \<inter> set (after \<rho>) = {}"
    using ds by (auto simp: labels_r \<rho>)
  have r0: "up \<rho> = p" "up_to b \<rho> = p" by (simp_all add: \<rho>)
  have run: "erase_successor a (here l) (here r) m = do {
      m \<leftarrow> set_child Lft b (here l) (m\<lparr>nodes := h2\<rparr>);
      m \<leftarrow> rb_set_parent (here l) b m;
      n \<leftarrow> deref m a;
      m \<leftarrow> rb_change_child a b (pc_parent n) m;
      n2 \<leftarrow> deref m b;
      m \<leftarrow> rb_set_parent_color b (pc_parent n) (pc_color n) m;
      m \<leftarrow> unless_null (here x) (rb_set_parent_color (here x) p RB_BLACK) m;
      Some (if here x = 0 \<and> pc_color n2 = RB_BLACK then p else 0, m) }"
    by (simp add: erase_successor_alt pre low lr0 split del: if_split)
  have df: "distinct (before \<rho>)" "distinct (after \<rho>)" "set (before \<rho>) \<inter> set (after \<rho>) = {}"
    "set (labels l) \<inter> set (before \<rho>) = {}" "set (labels l) \<inter> set (labels x) = {}" "b \<notin> around \<rho>"
    "set (before \<pi>) \<inter> set (before \<rho>) = {}" "set (before \<pi>) \<inter> set (after \<rho>) = {}"
    "set (before \<rho>) \<inter> set (after \<pi>) = {}" "set (after \<rho>) \<inter> set (after \<pi>) = {}"
    using ds by (auto simp: labels_r \<rho>)
  show ?thesis
    unfolding r0(1)
    using h(1-3,5) l x path_at_in[OF h(5)] dl dx df seg(5) assms(4) s2
    by (simp add: run exec_successor heap_rules rep_fill disjoint node_Rgt old b path_at_append
        r0 becomes_def top[symmetric] up_append before_append after_append other split del: if_split)
qed

subsection \<open>Removal\<close>

lemma find_node: "a \<in> set (labels t) \<Longrightarrow> \<exists>\<pi> c l r. t = fill \<pi> (Nd c l a r)"
proof (induction t)
  case (Nd c l b r)
  then consider "a = b" | \<pi> c' l' r' where "l = fill \<pi> (Nd c' l' a r')" | \<pi> c' l' r' where "r = fill \<pi> (Nd c' l' a r')"
    by auto
  then show ?case
  proof cases
    case 1 then have "Nd c l b r = fill [] (Nd c l a r)" by simp
    then show ?thesis by blast
  next
    case 2 then have "Nd c l b r = fill (\<pi> @ [(Lft, c, b, r)]) (Nd c' l' a r')" by (simp add: fill_append mk_def)
    then show ?thesis by blast
  next
    case 3 then have "Nd c l b r = fill (\<pi> @ [(Rgt, c, b, l)]) (Nd c' l' a r')" by (simp add: fill_append mk_def)
    then show ?thesis by blast
  qed
qed simp

lemma ctx_relabel: "ctx (\<rho> @ (d, c, a, s) # \<pi>) n \<longleftrightarrow> ctx (\<rho> @ (d, c, b, s) # \<pi>) n"
proof (induction \<rho> arbitrary: n)
  case (Cons f \<rho>) then show ?case by (cases f; cases \<rho>) auto
qed simp

lemma allows_red_relabel: "allows_red (\<rho> @ (d, c, a, s) # \<pi>) \<longleftrightarrow> allows_red (\<rho> @ (d, c, b, s) # \<pi>)"
  by (cases \<rho> rule: up.cases) auto

lemma rbt_Tip: "rbt Tip"
  by (simp add: rbt_def)

text \<open>A node without a left child was taken out, and its right child took its place.\<close>

lemma rebalance:
  assumes "rep m (fill \<pi> (paint RB_BLACK x))" "rb_inv (Nd c Tip b x)" "ctx \<pi> (height (Nd c Tip b x))"
    and "c = RB_RED \<longrightarrow> allows_red \<pi>"
  shows "\<exists>m' t. (if (if x = Tip \<and> c = RB_BLACK then up \<pi> else 0) \<noteq> 0 then rb_erase_color (up \<pi>) m else Some m) = Some m' \<and>
    becomes m m' t \<and> rbt t \<and> labels t = before \<pi> @ labels x @ after \<pi>"
proof (cases "x = Tip \<and> c = RB_BLACK \<and> \<pi> \<noteq> []")
  case True
  then obtain m' where "erase_color_loop 0 (up \<pi>) m = Some m'" "becomes m m' (del_fix \<pi> Tip)"
    using erase_loop_correct[of m \<pi> Tip] assms by auto
  then show ?thesis
    using True up_null[OF assms(1)] del_fix_correct[of Tip \<pi>] assms(3)
    by (auto simp: rb_erase_color_def)
next
  case False
  have "rbt (fill \<pi> (paint RB_BLACK x))"
  proof (cases x)
    case Tip
    with assms False show ?thesis by (cases c; cases "\<pi> = []") (auto simp: rbt_fill rbt_Tip)
  next
    case (Nd cx l a r)
    with assms(2) have "cx = RB_RED" "c = RB_BLACK" by (cases cx; cases c; auto)+
    with Nd assms show ?thesis by (auto simp: rbt_fill)
  qed
  then show ?thesis using False assms(1) up_null[OF assms(1)] by (auto intro!: becomes_refl)
qed

text \<open>Nodes that are not in the tree any more are not touched, so memory outside of the old tree is kept.\<close>

lemma rb_erase_correct:
  assumes "rep m t" "rbt t" "a \<in> set (labels t)"
  shows "\<exists>m' t'. rb_erase a m = Some m' \<and> becomes m m' t' \<and> rbt t' \<and> labels t' = remove1 a (labels t)"
proof -
  obtain \<pi> c l r where t: "t = fill \<pi> (Nd c l a r)" using find_node[OF assms(3)] by blast
  have h: "a \<noteq> 0" "nodes m a = Some (node Lft (up \<pi>) c (here l) (here r))" "tree_at (nodes m) a l" "tree_at (nodes m) a r"
    using assms(1) by (auto simp: t rep_fill)
  have inv: "rb_inv (Nd c l a r)" "ctx \<pi> (height (Nd c l a r))" "c = RB_RED \<longrightarrow> allows_red \<pi>"
    using assms(2) by (auto simp: t rbt_fill)
  have rem: "remove1 a (labels t) = before \<pi> @ labels l @ labels r @ after \<pi>"
    using assms(1) by (simp add: t rep_fill remove1_append)
  have start: "rb_erase a m = do {
      (rebalance, m) \<leftarrow>
        (if l = Tip then erase_easy a (here r) (node Lft (up \<pi>) c (here l) (here r)) m
         else if r = Tip then erase_easy a (here l) (node Lft (up \<pi>) c (here l) (here r)) m
         else erase_successor a (here l) (here r) m);
      if rebalance \<noteq> 0 then rb_erase_color rebalance m else Some m }"
    using h by (simp add: rb_erase_def deref_def here_null_at)
  consider "l = Tip" | "l \<noteq> Tip" "r = Tip" | "l \<noteq> Tip" "r \<noteq> Tip" by blast
  then show ?thesis
  proof cases
    case 1
    obtain m1 where m1: "erase_easy a (here r) (node Lft (up \<pi>) c (here l) (here r)) m =
        Some (if r = Tip \<and> c = RB_BLACK then up \<pi> else 0, m1)" "becomes m m1 (fill \<pi> (paint c r))"
      using erase_easy_correct[OF assms(1)[unfolded t], of r] 1 by auto
    have "paint c r = paint RB_BLACK r" using inv(1) 1 by (cases r; cases c) (auto split: if_splits)
    with rebalance[of m1 \<pi> r c a] becomes_rep[OF m1(2)] inv 1
    obtain m' t' where m': "(if (if r = Tip \<and> c = RB_BLACK then up \<pi> else 0) \<noteq> 0 then rb_erase_color (up \<pi>) m1 else Some m1) = Some m'"
      "becomes m1 m' t'" "rbt t'" "labels t' = before \<pi> @ labels r @ after \<pi>" by auto
    have "becomes m m' t'" by (rule becomes_trans[OF m1(2) m'(2)]) (simp add: m'(4))
    then show ?thesis using m1(1) m'(1,3,4) 1 by (auto simp: start rem split: if_splits)
  next
    case 2
    obtain m1 where m1: "erase_easy a (here l) (node Lft (up \<pi>) c (here l) (here r)) m = Some (0, m1)"
        "becomes m m1 (fill \<pi> (paint c l))"
      using erase_easy_correct[OF assms(1)[unfolded t], of l] 2 by auto
    have "rbt (fill \<pi> (paint c l))" using inv 2 by (cases l; cases c) (auto simp: rbt_fill split: if_splits)
    then show ?thesis using m1 2 by (auto simp: start rem)
  next
    case 3
    obtain \<rho> c2 b x where sm: "split_min r = (\<rho>, c2, b, x)" by (cases "split_min r") auto
    have r: "r = fill \<rho> (Nd c2 Tip b x)" "before \<rho> = []" using split_min_fill[OF 3(2) sm] by auto
    let ?\<pi> = "\<rho> @ (Rgt, c, b, l) # \<pi>"
    obtain m1 where m1: "erase_successor a (here l) (here r) m = Some (if x = Tip \<and> c2 = RB_BLACK then up ?\<pi> else 0, m1)"
      "becomes m m1 (fill ?\<pi> (paint RB_BLACK x))"
    proof (cases "\<rho> = []")
      case True
      with erase_successor_child[of m \<pi> c l a c2 b x] assms(1) 3 r t that show ?thesis by auto
    next
      case False
      with erase_successor_deep[OF assms(1)[unfolded t] 3(1) sm False 3(2)] that show ?thesis by (auto simp: up_append)
    qed
    have "t = fill (\<rho> @ (Rgt, c, a, l) # \<pi>) (Nd c2 Tip b x)" by (simp add: t r(1) fill_append mk_def)
    with assms(2) have "rb_inv (Nd c2 Tip b x)" "ctx ?\<pi> (height (Nd c2 Tip b x))" "c2 = RB_RED \<longrightarrow> allows_red ?\<pi>"
      using ctx_relabel[of \<rho> Rgt c a l \<pi> "height (Nd c2 Tip b x)" b] allows_red_relabel[of \<rho> Rgt c a l \<pi> b] by (auto simp: rbt_fill)
    from rebalance[OF becomes_rep[OF m1(2)] this] obtain m' t' where
      m': "(if (if x = Tip \<and> c2 = RB_BLACK then up ?\<pi> else 0) \<noteq> 0 then rb_erase_color (up ?\<pi>) m1 else Some m1) = Some m'"
      "becomes m1 m' t'" "rbt t'" "labels t' = before ?\<pi> @ labels x @ after ?\<pi>" by blast
    have "becomes m m' t'" by (rule becomes_trans[OF m1(2) m'(2)]) (simp add: m'(4))
    then show ?thesis
      using m1(1) m'(1,3,4) 3 by (auto simp: start rem r before_append after_append split: if_splits)
  qed
qed

subsection \<open>Walking\<close>

definition outer :: "side \<Rightarrow> ptr list \<Rightarrow> ptr" where
  "outer d xs = (case d of Lft \<Rightarrow> hd xs | Rgt \<Rightarrow> last xs)"

lemma outermost_correct:
  assumes "tree_at (nodes m) par t" "t \<noteq> Tip"
  shows "outermost d m (here t) = Some (outer d (labels t))"
  using assms
proof (induction t arbitrary: par)
  case (Nd c l a r)
  show ?case
  proof (cases d)
    case Lft
    with Nd show ?thesis
      by (cases "l = Tip"; subst outermost.simps) (auto simp: child_get deref_def here_null_at outer_def)
  next
    case Rgt
    with Nd show ?thesis
      by (cases "r = Tip"; subst outermost.simps) (auto simp: child_get deref_def here_null_at outer_def node_Rgt)
  qed
qed simp

lemma first_last_correct:
  assumes "rep m t"
  shows "rb_first m = Some (if labels t = [] then 0 else hd (labels t))"
    "rb_last m = Some (if labels t = [] then 0 else last (labels t))"
proof -
  have *: "tree_at (nodes m) 0 t" "rb_root m = here t" using assms by (simp_all add: rep_def)
  from * outermost_correct[OF *(1), of Lft] outermost_correct[OF *(1), of Rgt]
  show "rb_first m = Some (if labels t = [] then 0 else hd (labels t))"
    "rb_last m = Some (if labels t = [] then 0 else last (labels t))"
    by (auto simp: rb_first_def rb_last_def here_null_at outer_def)
qed

text \<open>Climbing ends at the next node to the other side of the way.\<close>

definition beyond :: "side \<Rightarrow> frame list \<Rightarrow> ptr" where
  "beyond d \<pi> = (case d of
     Lft \<Rightarrow> if before \<pi> = [] then 0 else last (before \<pi>)
   | Rgt \<Rightarrow> if after \<pi> = [] then 0 else hd (after \<pi>))"

lemma climb_correct:
  assumes "rep m (fill \<pi> t)" "t \<noteq> Tip"
  shows "climb d m (here t) = Some (beyond d \<pi>)"
  using assms
proof (induction \<pi> t rule: fill.induct)
  case (1 t)
  then obtain c l a r where t: "t = Nd c l a r" by (cases t) auto
  with 1(1) show ?case
    by (subst climb.simps) (simp add: rb_parent_def deref_def rep_def beyond_def split: side.split)
next
  case (2 e c a s \<pi> t)
  have h: "a \<noteq> 0" "nodes m a = Some (node e (up \<pi>) c (here t) (here s))" "here t \<noteq> 0" "rb_parent m (here t) = Some a"
    "here s \<noteq> here t"
    using 2(2,3) by (cases t; cases s; auto simp: rep_fill rb_parent_def deref_def)+
  have up: "climb d m a = Some (beyond d \<pi>)" using 2(1)[OF 2(2)[simplified]] by simp
  show ?case
    using h up by (cases d; cases e; subst climb.simps) (auto simp: child_get deref_def beyond_def)
qed

lemma not_empty_node:
  assumes "rep m (fill \<pi> (Nd c l a r))"
  shows "RB_EMPTY_NODE m a = Some False"
proof -
  have "a \<noteq> 0" "nodes m a = Some (node Lft (up \<pi>) c (here l) (here r))" "a \<notin> around \<pi>"
    using assms by (auto simp: rep_fill)
  moreover from this have "up \<pi> \<noteq> a" using up_around[of \<pi>] by (cases "\<pi> = []") auto
  ultimately show ?thesis by (simp add: RB_EMPTY_NODE_def deref_def)
qed

lemma neighbour_correct:
  assumes "rep m (fill \<pi> (Nd c l a r))"
  shows "rb_next m a = Some (case labels r @ after \<pi> of [] \<Rightarrow> 0 | b # _ \<Rightarrow> b)"
    "rb_prev m a = Some (case rev (before \<pi> @ labels l) of [] \<Rightarrow> 0 | b # _ \<Rightarrow> b)"
proof -
  have h: "a \<noteq> 0" "nodes m a = Some (node Lft (up \<pi>) c (here l) (here r))" "tree_at (nodes m) a l" "tree_at (nodes m) a r"
    using assms by (auto simp: rep_fill)
  have first: "(case xs of [] \<Rightarrow> 0 | b # _ \<Rightarrow> b) = (if xs = [] then 0 else hd xs)" for xs :: "ptr list"
    by (cases xs) auto
  have eq: "neighbour d m a = (if get d (node Lft (up \<pi>) c (here l) (here r)) \<noteq> 0
      then outermost (opp d) m (get d (node Lft (up \<pi>) c (here l) (here r))) else climb d m a)" for d
    using h by (simp add: neighbour_def not_empty_node[OF assms] child_get deref_def)
  have climb: "climb d m a = Some (beyond d \<pi>)" for d using climb_correct[OF assms, of d] by simp
  show "rb_next m a = Some (case labels r @ after \<pi> of [] \<Rightarrow> 0 | b # _ \<Rightarrow> b)"
    using h climb[of Rgt] outermost_correct[OF h(4), of Lft]
    by (auto simp: rb_next_def eq first here_null_at outer_def beyond_def)
  show "rb_prev m a = Some (case rev (before \<pi> @ labels l) of [] \<Rightarrow> 0 | b # _ \<Rightarrow> b)"
    using h climb[of Lft] outermost_correct[OF h(3), of Rgt]
    by (auto simp: rb_prev_def eq first here_null_at outer_def beyond_def hd_rev)
qed

text \<open>Walking over the whole tree visits its nodes in order.\<close>

lemma rb_walk:
  assumes "rep m t" "labels t = xs @ a # ys"
  shows "rb_next m a = Some (case ys of [] \<Rightarrow> 0 | b # _ \<Rightarrow> b)"
    "rb_prev m a = Some (case rev xs of [] \<Rightarrow> 0 | b # _ \<Rightarrow> b)"
proof -
  have "a \<in> set (labels t)" by (simp add: assms(2))
  from find_node[OF this] obtain \<pi> c l r where t: "t = fill \<pi> (Nd c l a r)" by blast
  have d: "distinct (labels t)" using assms(1) by (simp add: rep_def)
  have "(before \<pi> @ labels l) @ a # (labels r @ after \<pi>) = xs @ a # ys" using assms(2) by (simp add: t)
  then have "before \<pi> @ labels l = xs" "labels r @ after \<pi> = ys"
    using d by (auto simp: t append_eq_append_conv2 append_eq_Cons_conv Cons_eq_append_conv)
  with neighbour_correct[OF assms(1)[unfolded t]] show "rb_next m a = Some (case ys of [] \<Rightarrow> 0 | b # _ \<Rightarrow> b)"
    "rb_prev m a = Some (case rev xs of [] \<Rightarrow> 0 | b # _ \<Rightarrow> b)" by auto
qed

end
