(* ===== verification/Rb_Properties.thy ===== *)
theory Rb_Properties
  imports Rb_Tree_Correct
begin

text \<open>
  What the red-black trees of \<^verbatim>\<open>lib/rbtree.c\<close> promise to the caches that use them, stated over the
  pointer operations, with examples.
\<close>

subsection \<open>Depth\<close>

text \<open>The number of nodes on the longest way down.\<close>

fun depth :: "rtree \<Rightarrow> nat" where
  "depth Tip = 0"
| "depth (Nd c l a r) = Suc (max (depth l) (depth r))"

lemma depth_height: "rb_inv t \<Longrightarrow> depth t \<le> 2 * height t + (if color t = RB_RED then 1 else 0)"
proof (induction t)
  case (Nd c l a r)
  then show ?case by (cases c; cases "color l"; cases "color r") auto
qed simp

lemma height_size: "rb_inv t \<Longrightarrow> 2 ^ height t \<le> Suc (length (labels t))"
  by (induction t) auto

lemma depth_bound:
  assumes "rbt t"
  shows "2 ^ (depth t div 2) \<le> length (labels t) + 1"
proof -
  have "depth t div 2 \<le> height t" using depth_height[of t] assms by (auto simp: rbt_def)
  then have "(2 :: nat) ^ (depth t div 2) \<le> 2 ^ height t" by simp
  also have "\<dots> \<le> length (labels t) + 1" using height_size[of t] assms by (simp add: rbt_def)
  finally show ?thesis .
qed

subsection \<open>Properties\<close>

text \<open>
  C24: Linking a node that is not in the tree at a free place of a red-black tree in memory and calling
  \<open>rb_insert_color\<close> never follows a null pointer and ends; the memory then holds a red-black tree with the new node
  between those left and right of the place, no node outside of the tree is written, and no
  way down is longer than twice the logarithm of the number of nodes.
\<close>

theorem rb_insert_balanced:
  assumes "rep m (fill \<pi> Tip)" "rbt (fill \<pi> Tip)" "a \<noteq> 0" "a \<notin> around \<pi>" "nodes m a \<noteq> None"
  shows "\<exists>m1 m' t. rb_link_node a (up \<pi>) (link_of \<pi>) m = Some m1 \<and> rb_insert_color a m1 = Some m' \<and>
    rep m' t \<and> rbt t \<and> labels t = before \<pi> @ a # after \<pi> \<and> (\<forall>p. p \<notin> set (labels t) \<longrightarrow> nodes m' p = nodes m p) \<and>
    2 ^ (depth t div 2) \<le> length (labels t) + 1"
proof -
  obtain m1 m' t where m: "rb_link_node a (up \<pi>) (link_of \<pi>) m = Some m1" "rb_insert_color a m1 = Some m'"
    "becomes m m' t" "rbt t" "labels t = before \<pi> @ a # after \<pi>"
    using rb_insert_correct[OF assms] by blast
  then show ?thesis using depth_bound[OF m(4)] by (intro exI[of _ m1] exI[of _ m'] exI[of _ t]) (simp add: becomes_def)
qed

text \<open>A root with a node to its left, and a third node that is in no tree.\<close>

definition example_mem :: rb_mem where
  "example_mem = \<lparr>nodes = [1 \<mapsto> \<lparr>pc_parent = 0, pc_color = RB_BLACK, rb_right = 0, rb_left = 2\<rparr>,
     2 \<mapsto> \<lparr>pc_parent = 1, pc_color = RB_RED, rb_right = 0, rb_left = 0\<rparr>,
     3 \<mapsto> \<lparr>pc_parent = 3, pc_color = RB_RED, rb_right = 0, rb_left = 0\<rparr>], rb_root = 1\<rparr>"

lemma example_rep: "rep example_mem (Nd RB_BLACK (Nd RB_RED Tip 2 Tip) 1 Tip)"
  by (simp add: example_mem_def rep_def node_def)

lemma example_rbt: "rbt (Nd RB_BLACK (Nd RB_RED Tip 2 Tip) 1 Tip)"
  by (simp add: rbt_def)

text \<open>The new node goes to the left of node 2, so that the tree has to be rotated.\<close>

theorem rb_insert_balanced_witness:
  "\<exists>m1 m' t. rb_link_node 3 2 (Child 2 Lft) example_mem = Some m1 \<and> rb_insert_color 3 m1 = Some m' \<and>
    rep m' t \<and> rbt t \<and> labels t = [3, 2, 1]"
  using rb_insert_balanced[of example_mem "[(Lft, RB_RED, 2, Tip), (Lft, RB_BLACK, 1, Tip)]" 3] example_rep example_rbt
  by (auto simp: mk_def example_mem_def)

text \<open>
  C23: \<open>rb_erase\<close> of a node of a red-black tree in memory never follows a null pointer and ends; the
  memory then holds a red-black tree of the other nodes in the same order, and no node outside of
  the tree is written, nor is the erased one.
\<close>

theorem rb_erase_balanced:
  assumes "rep m t" "rbt t" "a \<in> set (labels t)"
  shows "\<exists>m' t'. rb_erase a m = Some m' \<and> rep m' t' \<and> rbt t' \<and> labels t' = remove1 a (labels t) \<and>
    (\<forall>p. p \<notin> set (labels t') \<longrightarrow> nodes m' p = nodes m p) \<and> 2 ^ (depth t' div 2) \<le> length (labels t)"
proof -
  obtain m' t' where m: "rb_erase a m = Some m'" "becomes m m' t'" "rbt t'" "labels t' = remove1 a (labels t)"
    using rb_erase_correct[OF assms] by blast
  have "length (labels t') + 1 = length (labels t)"
    using assms(3) by (cases "labels t" rule: rev_cases) (auto simp: m(4) length_remove1)
  with depth_bound[OF m(3)] m show ?thesis by (intro exI[of _ m'] exI[of _ t']) (simp add: becomes_def)
qed

theorem rb_erase_balanced_witness:
  "\<exists>m' t'. rb_erase 1 example_mem = Some m' \<and> rep m' t' \<and> rbt t' \<and> labels t' = [2]"
  using rb_erase_balanced[OF example_rep example_rbt, of 1] by auto

text \<open>
  Walking: \<open>rb_first\<close> and \<open>rb_last\<close> give the ends of the tree, and \<open>rb_next\<close> and \<open>rb_prev\<close> the
  neighbours of a node in the order of the tree, null at the ends.
\<close>

theorem rb_walk_in_order:
  assumes "rep m t" "labels t = xs @ a # ys"
  shows "rb_first m = Some (hd (xs @ [a])) \<and> rb_last m = Some (last (a # ys)) \<and>
    rb_next m a = Some (case ys of [] \<Rightarrow> 0 | b # _ \<Rightarrow> b) \<and> rb_prev m a = Some (case rev xs of [] \<Rightarrow> 0 | b # _ \<Rightarrow> b)"
  using first_last_correct[OF assms(1)] rb_walk[OF assms] by (cases xs) (auto simp: assms(2))

theorem rb_walk_in_order_witness:
  "rb_first example_mem = Some 2 \<and> rb_next example_mem 2 = Some 1 \<and> rb_last example_mem = Some 1"
  using rb_walk_in_order[OF example_rep, of "[]" 2 "[1]"] by simp

end
