(* ===== verification/G2_Prelude.thy ===== *)
theory G2_Prelude
  imports Main "HOL-Library.Word" "HOL-Library.Monad_Syntax"
begin

text \<open>
  Shared ground of the g2cd development.

  \<^item> The machine types of the C code: \<open>uint8_t\<close>, \<open>uint16_t\<close>, \<open>uint32_t\<close>, \<open>uint64_t\<close> are
    words; a \<open>size_t\<close> is a \<open>nat\<close> whose subtraction wraps at \<open>2 ^ 64\<close> as the C operator does
    (\<open>size_sub\<close>).
  \<^item> The control flow of C: a \<open>switch\<close> with fall-through is a list of labelled cases that is
    entered at a label and run downwards (\<open>switch\<close>), and a \<open>while\<close> around it is \<open>c_while\<close>.
    The value \<open>None\<close> stands for undefined behaviour (an access outside of an object) or for a
    loop that does not return; \<open>Some\<close> is a defined result.
  \<^item> Little and big endian byte sequences of a number.
  \<^item> The collections of simplification rules the component theories fill.
\<close>

unbundle bit_operations_syntax

subsection \<open>Machine types\<close>

type_synonym byte = "8 word"
type_synonym u16 = "16 word"
type_synonym u32 = "32 word"
type_synonym u64 = "64 word"

named_theorems buff_simps \<open>unfolding the buffer macros\<close>
named_theorems ctl_simps \<open>running C control flow\<close>
named_theorems frame_simps \<open>fields an operation leaves alone\<close>

definition SIZE_MAX :: nat where
  "SIZE_MAX = 18446744073709551615"

text \<open>Dividing and always rounding up.\<close>

definition DIV_ROUNDUP :: "nat \<Rightarrow> nat \<Rightarrow> nat" where
  "DIV_ROUNDUP a b = (a + b - 1) div b"

text \<open>Subtraction of two \<open>size_t\<close> values: exact if it does not go below zero, else it wraps.\<close>

definition size_sub :: "nat \<Rightarrow> nat \<Rightarrow> nat" where
  "size_sub a b = (if b \<le> a then a - b else a + (SIZE_MAX + 1) - b)"

lemma size_sub_le [simp]: "b \<le> a \<Longrightarrow> size_sub a b = a - b"
  by (simp add: size_sub_def)

lemma size_sub_self [simp]: "size_sub a a = 0"
  by (simp add: size_sub_def)

lemma size_sub_0 [simp]: "size_sub a 0 = a"
  by (simp add: size_sub_def)

lemma size_sub_mod:
  assumes "a \<le> SIZE_MAX" and "b \<le> SIZE_MAX"
  shows "int (size_sub a b) = (int a - int b) mod (int SIZE_MAX + 1)"
proof (cases "b \<le> a")
  case True
  then have "int (size_sub a b) = int a - int b" by (simp add: of_nat_diff)
  moreover have "0 \<le> int a - int b" "int a - int b < int SIZE_MAX + 1"
    using True assms by auto
  ultimately show ?thesis by simp
next
  case False
  then have "int (size_sub a b) = (int a - int b) + (int SIZE_MAX + 1)"
    using assms by (simp add: size_sub_def of_nat_diff)
  moreover have "0 \<le> (int a - int b) + (int SIZE_MAX + 1)"
      "(int a - int b) + (int SIZE_MAX + 1) < int SIZE_MAX + 1"
    using False assms by auto
  ultimately show ?thesis
    by (metis mod_add_self2 mod_pos_pos_trivial)
qed

subsection \<open>C control flow\<close>

text \<open>
  What a piece of C code inside a \<open>switch\<close> inside a loop does: it falls through to the code of
  the next label, leaves the switch, or returns from the function.
\<close>

datatype ('s, 'r) ctl = Fall 's | Brk 's | Ret 'r 's

type_synonym ('s, 'r) code = "'s \<Rightarrow> ('s, 'r) ctl option"

fun run_cases :: "('s, 'r) code list \<Rightarrow> ('s, 'r) code" where
  "run_cases [] s = Some (Brk s)"
| "run_cases (c # cs) s =
     (case c s of
        None \<Rightarrow> None
      | Some (Fall s') \<Rightarrow> run_cases cs s'
      | Some (Brk s') \<Rightarrow> Some (Brk s')
      | Some (Ret r s') \<Rightarrow> Some (Ret r s'))"

definition switch :: "'l \<Rightarrow> ('l \<times> ('s, 'r) code) list \<Rightarrow> ('s, 'r) code" where
  "switch l cases s = run_cases (map snd (dropWhile (\<lambda>c. fst c \<noteq> l) cases)) s"

text \<open>
  \<open>while(cond) body\<close>, where the body is a switch: leaving the switch starts the next round.
  \<open>fin\<close> is the code behind the loop.
\<close>

partial_function (option) c_while ::
    "('s \<Rightarrow> bool) \<Rightarrow> ('s, 'r) code \<Rightarrow> ('s \<Rightarrow> 'r) \<Rightarrow> 's \<Rightarrow> ('r \<times> 's) option" where
  "c_while cond body fin s =
     (if cond s then
        Option.bind (body s)
          (\<lambda>c. case c of
                 Fall s' \<Rightarrow> c_while cond body fin s'
               | Brk s' \<Rightarrow> c_while cond body fin s'
               | Ret r s' \<Rightarrow> Some (r, s'))
      else Some (fin s, s))"

lemma c_while_stop [ctl_simps]: "\<not> cond s \<Longrightarrow> c_while cond body fin s = Some (fin s, s)"
  by (simp add: c_while.simps)

lemma c_while_ret [ctl_simps]:
  "cond s \<Longrightarrow> body s = Some (Ret r s') \<Longrightarrow> c_while cond body fin s = Some (r, s')"
  by (simp add: c_while.simps)

lemma c_while_brk:
  "cond s \<Longrightarrow> body s = Some (Brk s') \<Longrightarrow>
   c_while cond body fin s = c_while cond body fin s'"
  by (simp add: c_while.simps[of cond body fin s])

lemma c_while_brk_stop [ctl_simps]:
  "cond s \<Longrightarrow> body s = Some (Brk s') \<Longrightarrow> \<not> cond s' \<Longrightarrow>
   c_while cond body fin s = Some (fin s', s')"
  by (simp add: c_while_brk c_while_stop)

lemma c_while_fault [ctl_simps]: "cond s \<Longrightarrow> body s = None \<Longrightarrow> c_while cond body fin s = None"
  by (simp add: c_while.simps)

subsection \<open>Numbers as byte sequences\<close>

fun le_bytes :: "nat \<Rightarrow> nat \<Rightarrow> byte list" where
  "le_bytes 0 n = []"
| "le_bytes (Suc k) n = word_of_nat (n mod 256) # le_bytes k (n div 256)"

fun le_value :: "byte list \<Rightarrow> nat" where
  "le_value [] = 0"
| "le_value (b # bs) = unat b + 256 * le_value bs"

definition be_bytes :: "nat \<Rightarrow> nat \<Rightarrow> byte list" where
  "be_bytes k n = rev (le_bytes k n)"

definition be_value :: "byte list \<Rightarrow> nat" where
  "be_value bs = le_value (rev bs)"

lemma length_le_bytes [simp]: "length (le_bytes k n) = k"
  by (induction k arbitrary: n) auto

lemma length_be_bytes [simp]: "length (be_bytes k n) = k"
  by (simp add: be_bytes_def)

lemma unat_byte_of_nat [simp]: "unat (word_of_nat (n mod 256) :: byte) = n mod 256"
  by (simp add: unat_of_nat take_bit_eq_mod)

lemma unat_byte_lt [simp]: "unat (b :: byte) < 256"
  using unsigned_less[of b] by simp

lemma unat_byte_le [simp]: "unat (b :: byte) \<le> 255"
  using unat_byte_lt[of b] by linarith

lemma le_value_bytes: "n < 256 ^ k \<Longrightarrow> le_value (le_bytes k n) = n"
proof (induction k arbitrary: n)
  case 0
  then show ?case by simp
next
  case (Suc k)
  from Suc.prems have "n div 256 < 256 ^ k"
    by (simp add: less_mult_imp_div_less mult.commute)
  with Suc.IH show ?case by (simp add: algebra_simps)
qed

lemma le_value_bound: "le_value bs < 256 ^ length bs"
proof (induction bs)
  case Nil
  then show ?case by simp
next
  case (Cons b bs)
  have "unat b + 256 * le_value bs < 256 + 256 * le_value bs" by simp
  also have "\<dots> \<le> 256 * 256 ^ length bs" using Cons by simp
  finally show ?case by simp
qed

lemma be_value_bytes: "n < 256 ^ k \<Longrightarrow> be_value (be_bytes k n) = n"
  by (simp add: be_value_def be_bytes_def le_value_bytes)

lemma be_value_bound: "be_value bs < 256 ^ length bs"
  using le_value_bound[of "rev bs"] by (simp add: be_value_def)

subsection \<open>Words\<close>

lemma nat_or_push_bit:
  fixes a b :: nat
  assumes "a < 2 ^ k"
  shows "a OR push_bit k b = a + push_bit k b"
proof -
  have "bit a n \<Longrightarrow> n < k" for n
    using assms by (metis bit_take_bit_iff take_bit_nat_eq_self)
  then have "a + push_bit k b = a OR push_bit k b"
    by (intro disjunctive_add) (metis bit_push_bit_iff leD)
  then show ?thesis by simp
qed

lemma unat_or_push:
  fixes x y :: "'a::len word"
  assumes "unat x < 2 ^ k" and "unat y * 2 ^ k < 2 ^ LENGTH('a)"
  shows "unat (x OR push_bit k y) = unat x + unat y * 2 ^ k"
proof -
  have "unat (push_bit k y) = push_bit k (unat y)"
    unfolding unsigned_push_bit_eq using assms(2)
    by (intro take_bit_nat_eq_self) (simp add: push_bit_eq_mult)
  then show ?thesis
    using nat_or_push_bit[OF assms(1), of "unat y"] by (simp add: unsigned_or_eq push_bit_eq_mult)
qed

lemma unat_push_or:
  fixes x y :: "'a::len word"
  assumes "unat y < 2 ^ k" and "unat x * 2 ^ k < 2 ^ LENGTH('a)"
  shows "unat (push_bit k x OR y) = unat x * 2 ^ k + unat y"
  using unat_or_push[OF assms] by (simp add: or.commute)

subsection \<open>Lists\<close>

lemma take_drop_append_mid:
  "i + n \<le> length xs \<Longrightarrow> take n (drop i xs) @ drop (i + n) xs = drop i xs"
  by (metis add.commute append_take_drop_id drop_drop)

lemma nth_drop_0: "i < length xs \<Longrightarrow> drop i xs = xs ! i # drop (Suc i) xs"
  by (simp add: Cons_nth_drop_Suc)

end
