(* ===== verification/Timed_Cache.thy ===== *)
theory Timed_Cache
  imports Rb_Tree_Correct G2_Prelude
begin

text \<open>
  What the GUID cache (\<^verbatim>\<open>G2GUIDCache.c\<close>), the cache of query keys (\<^verbatim>\<open>G2QueryKey.c\<close>) and the known hub
  cache (\<^verbatim>\<open>G2KHL.c\<close>) have in common:
  an array of entries that are either on a free list or both in a chain of a hash table and in a
  red-black tree ordered by age.  The three files have the same code for it; an address of an entry is
  its index plus one.
\<close>

record 'e cache =
  free_list :: "ptr list"
  tree :: rb_mem
  ht :: "ptr list list"
  entrys :: "ptr \<Rightarrow> 'e"
  ht_seed :: u32

subsection \<open>Operations\<close>

text \<open>
  \<open>hlist_del\<close> takes an entry out of the chain it is in.  On an entry that is in no chain it would
  follow a null or poisoned pointer.
\<close>

definition hlist_del :: "ptr \<Rightarrow> 'e cache \<Rightarrow> 'e cache option" where
  "hlist_del p c =
     (if p \<in> set (free_list c) \<or> (\<exists>l\<in>set (ht c). p \<in> set l)
      then Some (c\<lparr>free_list := removeAll p (free_list c), ht := map (removeAll p) (ht c)\<rparr>)
      else None)"

text \<open>\<open>guid_cache_entry_alloc\<close> and \<open>qk_cache_entry_alloc\<close>: null if the free list is empty.\<close>

definition cache_entry_alloc :: "'e cache \<Rightarrow> (ptr \<times> 'e cache) option" where
  "cache_entry_alloc c =
     (case free_list c of
        [] \<Rightarrow> Some (0, c)
      | e # _ \<Rightarrow> do {
          c \<leftarrow> hlist_del e c;
          m \<leftarrow> RB_CLEAR_NODE e (tree c);
          Some (e, c\<lparr>tree := m\<rparr>) })"

text \<open>\<open>guid_cache_entry_free\<close> and \<open>qk_cache_entry_free\<close>; \<open>zero\<close> is an entry of zero bytes.\<close>

definition cache_entry_free :: "'e \<Rightarrow> ptr \<Rightarrow> 'e cache \<Rightarrow> 'e cache option" where
  "cache_entry_free zero e c = do {
     m \<leftarrow> upd_node e (\<lambda>_. \<lparr>pc_parent = 0, pc_color = RB_RED, rb_right = 0, rb_left = 0\<rparr>) (tree c);
     Some (c\<lparr>tree := m, entrys := (entrys c)(e := zero), free_list := e # free_list c\<rparr>) }"

text \<open>The first entry of a chain with a property, null if there is none.\<close>

definition chain_find :: "('e \<Rightarrow> bool) \<Rightarrow> nat \<Rightarrow> 'e cache \<Rightarrow> ptr" where
  "chain_find P h c = (case find (\<lambda>p. P (entrys c p)) (ht c ! h) of None \<Rightarrow> 0 | Some p \<Rightarrow> p)"

definition cache_ht_add :: "ptr \<Rightarrow> nat \<Rightarrow> 'e cache \<Rightarrow> 'e cache" where
  "cache_ht_add e h c = c\<lparr>ht := (ht c)[h := e # ht c ! h]\<rparr>"

text \<open>
  The way down the tree to the place of a new entry.  \<open>None\<close> within the result: an equal entry was
  found.
\<close>

partial_function (option) descend :: "(ptr \<Rightarrow> int) \<Rightarrow> rb_mem \<Rightarrow> ptr \<Rightarrow> link \<Rightarrow> (ptr \<times> link) option option" where
  "descend cmp m parent p = do {
     q \<leftarrow> read_link m p;
     if q = 0 then Some (Some (parent, p))
     else if cmp q < 0 then descend cmp m q (Child q Lft)
     else if cmp q > 0 then descend cmp m q (Child q Rgt)
     else Some None }"

definition rb_cache_insert :: "('e \<Rightarrow> 'e \<Rightarrow> int) \<Rightarrow> ptr \<Rightarrow> 'e cache \<Rightarrow> (bool \<times> 'e cache) option" where
  "rb_cache_insert cmp e c = do {
     place \<leftarrow> descend (\<lambda>n. cmp (entrys c n) (entrys c e)) (tree c) 0 Root;
     (case place of
        None \<Rightarrow> Some (False, c)
      | Some (parent, p) \<Rightarrow> do {
          m \<leftarrow> rb_link_node e parent p (tree c);
          m \<leftarrow> rb_insert_color e m;
          Some (True, c\<lparr>tree := m\<rparr>) }) }"

definition rb_cache_remove :: "ptr \<Rightarrow> 'e cache \<Rightarrow> (bool \<times> 'e cache) option" where
  "rb_cache_remove e c = do {
     empty \<leftarrow> RB_EMPTY_NODE (tree c) e;
     if empty then Some (False, c)
     else do {
       m \<leftarrow> rb_erase e (tree c);
       m \<leftarrow> RB_CLEAR_NODE e m;
       c \<leftarrow> hlist_del e (c\<lparr>tree := m\<rparr>);
       Some (True, c) } }"

definition cache_last :: "'e cache \<Rightarrow> ptr option" where
  "cache_last c = rb_last (tree c)"

text \<open>
  The three functions that add an entry have the same shape.  The end of all of them: the entry in hand gets its value and goes
  into the tree and the hash table.
\<close>

definition cache_put :: "('e \<Rightarrow> 'e \<Rightarrow> int) \<Rightarrow> 'e \<Rightarrow> ptr \<Rightarrow> nat \<Rightarrow> 'e \<Rightarrow> 'e cache \<Rightarrow> 'e cache option" where
  "cache_put cmp zero e h v c = do {
     (inserted, c) \<leftarrow> rb_cache_insert cmp e (c\<lparr>entrys := (entrys c)(e := v)\<rparr>);
     if \<not> inserted then cache_entry_free zero e c
     else Some (cache_ht_add e h c) }"

text \<open>The entry for a new key: the oldest one if there is no free one and it may be replaced, else a free one.\<close>

definition cache_take :: "('e \<Rightarrow> bool) \<Rightarrow> 'e cache \<Rightarrow> (ptr \<times> 'e cache) option" where
  "cache_take replace c = do {
     e \<leftarrow> cache_last c;
     if e \<noteq> 0 \<and> replace (entrys c e) \<and> free_list c = []
     then do {
       (removed, c) \<leftarrow> rb_cache_remove e c;
       Some (if removed then e else 0, c) }
     else cache_entry_alloc c }"

text \<open>
  The whole function: \<open>test\<close> recognises the key in chain \<open>h\<close>, \<open>stale\<close> entries are refreshed.  The result
  tells whether the key was found.
\<close>

definition cache_add :: "('e \<Rightarrow> 'e \<Rightarrow> int) \<Rightarrow> 'e \<Rightarrow> nat \<Rightarrow> ('e \<Rightarrow> bool) \<Rightarrow> ('e \<Rightarrow> bool) \<Rightarrow> ('e \<Rightarrow> bool) \<Rightarrow>
    ('e \<Rightarrow> 'e) \<Rightarrow> ('e \<Rightarrow> 'e) \<Rightarrow> 'e cache \<Rightarrow> (bool \<times> 'e cache) option" where
  "cache_add cmp zero h test stale replace refresh fresh c =
     (let e = chain_find test h c
      in if e \<noteq> 0 then
           (if \<not> stale (entrys c e) then Some (True, c)
            else do {
              (removed, c) \<leftarrow> rb_cache_remove e c;
              c \<leftarrow> (if \<not> removed then cache_entry_free zero e c else cache_put cmp zero e h (refresh (entrys c e)) c);
              Some (True, c) })
         else do {
           (e, c) \<leftarrow> cache_take replace c;
           c \<leftarrow> (if e = 0 then Some c else cache_put cmp zero e h (fresh (entrys c e)) c);
           Some (False, c) })"

subsection \<open>The way down\<close>

text \<open>The comparisons on the way from a place up to the root.\<close>

fun came_by :: "(ptr \<Rightarrow> int) \<Rightarrow> frame list \<Rightarrow> bool" where
  "came_by cmp [] \<longleftrightarrow> True"
| "came_by cmp ((Lft, c, a, s) # \<pi>) \<longleftrightarrow> cmp a < 0 \<and> came_by cmp \<pi>"
| "came_by cmp ((Rgt, c, a, s) # \<pi>) \<longleftrightarrow> cmp a > 0 \<and> came_by cmp \<pi>"

lemma read_link_of: "rep m (fill \<pi> t) \<Longrightarrow> read_link m (link_of \<pi>) = Some (here t)"
proof (cases \<pi> rule: link_of.cases)
  case 1
  assume "rep m (fill \<pi> t)"
  with 1 show ?thesis by (simp add: read_link_def Rb_Heap.rep_def)
next
  case (2 d c a s \<pi>')
  assume "rep m (fill \<pi> t)"
  with 2 show ?thesis by (simp add: read_link_def rep_fill child_get deref_def)
qed

lemma descend_correct:
  assumes "rep m (fill \<pi> t)" "came_by cmp \<pi>"
  shows "(\<exists>q\<in>set (labels t). cmp q = 0 \<and> descend cmp m (up \<pi>) (link_of \<pi>) = Some None) \<or>
    (\<exists>\<rho>. fill \<rho> Tip = fill \<pi> t \<and> came_by cmp \<rho> \<and> descend cmp m (up \<pi>) (link_of \<pi>) = Some (Some (up \<rho>, link_of \<rho>)))"
  using assms
proof (induction t arbitrary: \<pi>)
  case Tip
  then show ?case by (subst (1 2) descend.simps) (auto simp: read_link_of)
next
  case (Nd c l a r)
  have step: "descend cmp m (up \<pi>) (link_of \<pi>) =
      (if cmp a < 0 then descend cmp m a (Child a Lft) else if cmp a > 0 then descend cmp m a (Child a Rgt) else Some None)"
  proof -
    have "read_link m (link_of \<pi>) = Some a" using read_link_of[OF Nd(3)] by simp
    moreover have "a \<noteq> 0" using Nd(3) by (simp add: rep_fill)
    ultimately show ?thesis by (subst descend.simps) simp
  qed
  consider "cmp a < 0" | "cmp a > 0" | "cmp a = 0" by linarith
  then show ?case
  proof cases
    case 1
    have "fill ((Lft, c, a, r) # \<pi>) l = fill \<pi> (Nd c l a r)" by (simp add: mk_def)
    with Nd(1)[of "(Lft, c, a, r) # \<pi>"] Nd(3,4) 1 show ?thesis by (auto simp: step)
  next
    case 2
    have "fill ((Rgt, c, a, l) # \<pi>) r = fill \<pi> (Nd c l a r)" by (simp add: mk_def)
    with Nd(2)[of "(Rgt, c, a, l) # \<pi>"] Nd(3,4) 2 show ?thesis by (auto simp: step)
  next
    case 3
    then show ?thesis by (simp add: step)
  qed
qed

subsection \<open>Order by age\<close>

text \<open>
  The comparison functions of the caches are only used to find a place in the tree.  They need not be
  transitive, as long as they agree with the age.
\<close>

definition newest_first :: "(ptr \<Rightarrow> int) \<Rightarrow> ptr list \<Rightarrow> bool" where
  "newest_first time xs \<longleftrightarrow> sorted_wrt (\<lambda>a b. time b \<le> time a) xs"

lemma newest_first_append:
  "newest_first time (xs @ ys) \<longleftrightarrow> newest_first time xs \<and> newest_first time ys \<and> (\<forall>x\<in>set xs. \<forall>y\<in>set ys. time y \<le> time x)"
  by (simp add: newest_first_def sorted_wrt_append)

lemma newest_first_Cons:
  "newest_first time (x # ys) \<longleftrightarrow> newest_first time ys \<and> (\<forall>y\<in>set ys. time y \<le> time x)"
  by (auto simp: newest_first_def)

lemma place_of:
  assumes "came_by cmp \<rho>" "newest_first time (before \<rho> @ after \<rho>)"
    and "\<And>a. a \<in> around \<rho> \<Longrightarrow> cmp a < 0 \<Longrightarrow> time a \<le> T" "\<And>a. a \<in> around \<rho> \<Longrightarrow> cmp a > 0 \<Longrightarrow> T \<le> time a"
  shows "(\<forall>x\<in>set (before \<rho>). T \<le> time x) \<and> (\<forall>x\<in>set (after \<rho>). time x \<le> T)"
  using assms
proof (induction cmp \<rho> rule: came_by.induct)
  case (2 cmp c a s \<pi>)
  have "newest_first time (before \<pi> @ after \<pi>)" using 2(3) by (auto simp: newest_first_append newest_first_Cons)
  with 2 have *: "(\<forall>x\<in>set (before \<pi>). T \<le> time x) \<and> (\<forall>x\<in>set (after \<pi>). time x \<le> T)" by auto
  have "time a \<le> T" using 2(2) 2(4)[of a] by auto
  with * 2(3) show ?case by (auto simp: newest_first_append newest_first_Cons intro: order.trans)
next
  case (3 cmp c a s \<pi>)
  have "newest_first time (before \<pi> @ after \<pi>)" using 3(3) by (auto simp: newest_first_append newest_first_Cons)
  with 3 have *: "(\<forall>x\<in>set (before \<pi>). T \<le> time x) \<and> (\<forall>x\<in>set (after \<pi>). time x \<le> T)" by auto
  have "T \<le> time a" using 3(2) 3(5)[of a] by auto
  with * 3(3) show ?case by (auto simp: newest_first_append newest_first_Cons intro: order.trans)
qed simp

lemma bind_if: "Option.bind (if b then x else y) f = (if b then Option.bind x f else Option.bind y f)"
  by simp

text \<open>Forgetting the result.\<close>

lemma drop_result:
  "map_option snd (Option.bind x (\<lambda>c. Some (b, c))) = x"
  "map_option snd (Option.bind y (\<lambda>(a, c). f a c)) = Option.bind y (\<lambda>(a, c). map_option snd (f a c))"
  "map_option snd (if p then u else v) = (if p then map_option snd u else map_option snd v)"
  by (cases x; cases y; auto)+

lemma cache_put_again: "cache_put cmp zero e h v (c\<lparr>entrys := (entrys c)(e := w)\<rparr>) = cache_put cmp zero e h v c"
  by (simp add: cache_put_def)

lemma option_eqI: "(\<And>v. x = Some v \<longleftrightarrow> y = Some v) \<Longrightarrow> x = y"
  by (cases x; cases y) auto

subsection \<open>The invariant\<close>

text \<open>
  The entries \<open>xs\<close> are in the tree in this order, newest first, and in the chain of their key; the
  entries \<open>H\<close> are in the hands of the caller, and all others are free.
\<close>

definition cache_inv :: "('e \<Rightarrow> int) \<Rightarrow> ('e \<Rightarrow> bool) \<Rightarrow> ('e \<Rightarrow> 'k) \<Rightarrow> ('k \<Rightarrow> nat) \<Rightarrow> nat \<Rightarrow> nat \<Rightarrow>
    ptr set \<Rightarrow> ptr list \<Rightarrow> 'e cache \<Rightarrow> bool" where
  "cache_inv time fine key idx slots htsize H xs c \<longleftrightarrow>
     (\<exists>t. rep (tree c) t \<and> rbt t \<and> labels t = xs) \<and>
     set xs \<union> set (free_list c) \<union> H = {1..slots} \<and>
     set xs \<inter> set (free_list c) = {} \<and> H \<inter> (set xs \<union> set (free_list c)) = {} \<and> distinct (free_list c) \<and>
     (\<forall>p\<in>{1..slots}. nodes (tree c) p \<noteq> None) \<and>
     length (ht c) = htsize \<and>
     (\<forall>h<htsize. set (ht c ! h) = {p \<in> set xs. idx (key (entrys c p)) = h}) \<and>
     inj_on (\<lambda>p. key (entrys c p)) (set xs) \<and>
     newest_first (\<lambda>p. time (entrys c p)) xs \<and> (\<forall>p\<in>set xs. fine (entrys c p))"

text \<open>The cache as a map from keys to entries, by way of the hash table.\<close>

definition cache_find :: "('e \<Rightarrow> 'k) \<Rightarrow> ('k \<Rightarrow> nat) \<Rightarrow> 'e cache \<Rightarrow> 'k \<Rightarrow> 'e option" where
  "cache_find key idx c k =
     (let e = chain_find (\<lambda>v. key v = k) (idx k) c in if e = 0 then None else Some (entrys c e))"

text \<open>
  What adding does to the map: a known entry is refreshed if it is stale; a new one takes a free place, or that of
  an oldest entry if there is none and that entry may be replaced.
\<close>

definition add_spec :: "('e \<Rightarrow> int) \<Rightarrow> 'k \<Rightarrow> ('e \<Rightarrow> bool) \<Rightarrow> ('e \<Rightarrow> bool) \<Rightarrow> ('e \<Rightarrow> 'e) \<Rightarrow> 'e \<Rightarrow> bool \<Rightarrow>
    ('k \<rightharpoonup> 'e) \<Rightarrow> ('k \<rightharpoonup> 'e) \<Rightarrow> bool" where
  "add_spec time k stale replace refresh new full M M' \<longleftrightarrow>
     (case M k of
        Some e \<Rightarrow> M' = (if stale e then M(k \<mapsto> refresh e) else M)
      | None \<Rightarrow>
          if \<not> full then M' = M(k \<mapsto> new)
          else (\<exists>v ev. M v = Some ev \<and> (\<forall>k' e'. M k' = Some e' \<longrightarrow> time ev \<le> time e') \<and>
            M' = (if replace ev then (M(v := None))(k \<mapsto> new) else M)))"

lemma add_spec_full:
  assumes "M k = None" "M v = Some ev" "\<forall>k' e'. M k' = Some e' \<longrightarrow> time ev \<le> time e'"
    and "M' = (if replace ev then (M(v := None))(k \<mapsto> new) else M)"
  shows "add_spec time k stale replace refresh new True M M'"
proof -
  have "\<exists>v ev. M v = Some ev \<and> (\<forall>k' e'. M k' = Some e' \<longrightarrow> time ev \<le> time e') \<and>
    M' = (if replace ev then (M(v := None))(k \<mapsto> new) else M)"
    using assms(2-4) by blast
  then show ?thesis using assms(1) by (simp only: add_spec_def option.case simp_thms if_False)
qed

text \<open>Nodes in and outside of the tree.\<close>

lemma rep_nodes: "rep m t \<Longrightarrow> p \<in> set (labels t) \<Longrightarrow> nodes m p \<noteq> None"
  using find_node[of p t] by (auto simp: rep_fill)

lemma clear_node: "nodes m e \<noteq> None \<Longrightarrow> e \<noteq> 0 \<Longrightarrow> e \<notin> set (labels t) \<Longrightarrow> rep m t \<Longrightarrow>
    \<exists>m'. RB_CLEAR_NODE e m = Some m' \<and> rep m' t \<and> (\<forall>p. nodes m' p \<noteq> None \<longleftrightarrow> nodes m p \<noteq> None)"
  by (auto simp: RB_CLEAR_NODE_def rb_set_parent_color_def upd_node_def deref_def Rb_Heap.rep_def tree_at_upd)

text \<open>
  The contract of an entry type: \<open>cmp\<close> agrees with the age on entries that are \<open>fine\<close>, only entries
  with the same key are equal, and \<open>idx\<close> gives the chain of a key.
\<close>

locale timed_entries =
  fixes cmp :: "'e \<Rightarrow> 'e \<Rightarrow> int" and time :: "'e \<Rightarrow> int" and fine :: "'e \<Rightarrow> bool"
    and key :: "'e \<Rightarrow> 'k" and idx :: "'k \<Rightarrow> nat" and slots htsize :: nat
  assumes older: "fine a \<Longrightarrow> fine b \<Longrightarrow> cmp a b < 0 \<Longrightarrow> time a \<le> time b"
    and newer: "fine a \<Longrightarrow> fine b \<Longrightarrow> cmp a b > 0 \<Longrightarrow> time b \<le> time a"
    and same: "fine a \<Longrightarrow> fine b \<Longrightarrow> cmp a b = 0 \<Longrightarrow> key a = key b"
    and idx_bound: "idx k < htsize"
begin

abbreviation "ok \<equiv> cache_inv time fine key idx slots htsize"

abbreviation "found \<equiv> cache_find key idx"

lemma okD:
  assumes "ok H xs c"
  shows "set xs \<union> set (free_list c) \<union> H = {1..slots}" "set xs \<inter> set (free_list c) = {}"
    "H \<inter> (set xs \<union> set (free_list c)) = {}" "distinct (free_list c)"
    "\<And>p. p \<in> {1..slots} \<Longrightarrow> nodes (tree c) p \<noteq> None" "length (ht c) = htsize"
    "\<And>h. h < htsize \<Longrightarrow> set (ht c ! h) = {p \<in> set xs. idx (key (entrys c p)) = h}"
    "inj_on (\<lambda>p. key (entrys c p)) (set xs)" "newest_first (\<lambda>p. time (entrys c p)) xs"
    "\<And>p. p \<in> set xs \<Longrightarrow> fine (entrys c p)"
  using assms unfolding cache_inv_def by blast+

lemma ok_in_chain:
  assumes "ok H xs c" "l \<in> set (ht c)" "p \<in> set l"
  shows "p \<in> set xs"
proof -
  obtain h where "h < length (ht c)" "l = ht c ! h" using assms(2) by (metis in_set_conv_nth)
  with okD(6,7)[OF assms(1)] assms(3) show ?thesis by auto
qed

text \<open>A cache without entries.\<close>

lemma empty_ok:
  assumes "rb_root (tree c) = 0" "\<forall>p\<in>{1..slots}. nodes (tree c) p \<noteq> None" "free_list c = rev [1..<slots + 1]"
    and "ht c = replicate htsize []"
  shows "ok {} [] c"
proof -
  have "set (free_list c) = {1..slots}" unfolding assms(3) by auto
  moreover have "\<exists>t. rep (tree c) t \<and> rbt t \<and> labels t = []"
    by (rule exI[of _ Tip]) (simp add: Rb_Heap.rep_def assms(1) rbt_def)
  ultimately show ?thesis using assms(2,3,4) by (simp add: cache_inv_def newest_first_def)
qed

text \<open>Looking a key up in its chain.\<close>

lemma chain_find_inv:
  assumes "ok H xs c" "\<forall>p\<in>set xs. P (entrys c p) \<longleftrightarrow> key (entrys c p) = k"
  shows "chain_find P (idx k) c = 0 \<and> (\<forall>p\<in>set xs. key (entrys c p) \<noteq> k) \<or>
    chain_find P (idx k) c \<in> set xs \<and> key (entrys c (chain_find P (idx k) c)) = k"
proof -
  have chain: "set (ht c ! idx k) = {p \<in> set xs. idx (key (entrys c p)) = idx k}"
    using okD(7)[OF assms(1)] idx_bound[of k] by simp
  show ?thesis
  proof (cases "find (\<lambda>p. P (entrys c p)) (ht c ! idx k)")
    case None
    have "key (entrys c p) \<noteq> k" if p: "p \<in> set xs" for p
    proof
      assume k: "key (entrys c p) = k"
      then have "p \<in> set (ht c ! idx k)" using chain p by simp
      then have "\<not> P (entrys c p)" using None by (auto simp: find_None_iff)
      with assms(2) p k show False by simp
    qed
    with None show ?thesis by (simp add: chain_find_def)
  next
    case (Some p)
    then have "p \<in> set (ht c ! idx k)" "P (entrys c p)" by (auto simp: find_Some_iff)
    with chain assms(2) Some show ?thesis by (auto simp: chain_find_def)
  qed
qed

lemma ok_nonzero: "ok H xs c \<Longrightarrow> p \<in> set xs \<Longrightarrow> p \<noteq> 0"
  using okD(1) by fastforce

lemma found_iff:
  assumes "ok H xs c"
  shows "found c k = Some v \<longleftrightarrow> (\<exists>p\<in>set xs. entrys c p = v \<and> key v = k)"
proof -
  define e where "e = chain_find (\<lambda>v. key v = k) (idx k) c"
  from chain_find_inv[OF assms, of "\<lambda>v. key v = k" k] consider
    "e = 0" "\<forall>p\<in>set xs. key (entrys c p) \<noteq> k" | "e \<in> set xs" "key (entrys c e) = k"
    unfolding e_def[symmetric] by blast
  then show ?thesis
  proof cases
    case 1 then show ?thesis unfolding cache_find_def e_def[symmetric] by auto
  next
    case 2
    have un: "p = e" if "p \<in> set xs" "key (entrys c p) = k" for p
      using inj_onD[OF okD(8)[OF assms], of p e] that 2 by simp
    have "(\<exists>p\<in>set xs. entrys c p = v \<and> key v = k) \<longleftrightarrow> entrys c e = v"
      using un 2 by blast
    then show ?thesis using ok_nonzero[OF assms 2(1)] unfolding cache_find_def e_def[symmetric] Let_def by simp
  qed
qed

lemma found_same:
  assumes "ok H xs c" "ok H' xs' c'" "set xs' = set xs" "\<forall>p\<in>set xs. entrys c' p = entrys c p"
  shows "found c' = found c"
proof (intro ext option_eqI)
  show "found c' k = Some v \<longleftrightarrow> found c k = Some v" for k v
    unfolding found_iff[OF assms(1)] found_iff[OF assms(2)] assms(3) using assms(4) by auto
qed

text \<open>Taking an entry from the free list.\<close>

lemma hlist_del_mem: "p \<in> set (free_list c) \<or> (\<exists>l\<in>set (ht c). p \<in> set l) \<Longrightarrow>
    hlist_del p c = Some (c\<lparr>free_list := removeAll p (free_list c), ht := map (removeAll p) (ht c)\<rparr>)"
  by (simp add: hlist_del_def)

lemma ok_tree:
  assumes "ok H xs c"
  obtains t where "rep (tree c) t" "rbt t" "labels t = xs"
  using assms by (auto simp: cache_inv_def)

text \<open>Invariants that do not depend on which nodes are on the free list.\<close>

lemma ok_change:
  assumes "ok H xs c" "rep m t" "rbt t" "labels t = xs" "\<And>p. p \<in> {1..slots} \<Longrightarrow> nodes m p \<noteq> None"
    and "set fl \<union> H' = set (free_list c) \<union> H" "set fl \<inter> H' = {}" "distinct fl"
  shows "ok H' xs (c\<lparr>tree := m, free_list := fl\<rparr>)"
proof -
  have "set xs \<inter> (set fl \<union> H') = {}" "set xs \<union> (set fl \<union> H') = {1..slots}"
    using assms(1) unfolding assms(6) by (auto simp: cache_inv_def)
  then show ?thesis using assms by (auto simp: cache_inv_def)
qed

lemma alloc_ok:
  assumes "ok {} xs c" "free_list c \<noteq> []"
  shows "\<exists>e c'. cache_entry_alloc c = Some (e, c') \<and> e \<noteq> 0 \<and> ok {e} xs c' \<and> ht_seed c' = ht_seed c \<and>
    entrys c' = entrys c \<and> found c' = found c \<and> free_list c' = tl (free_list c)"
proof -
  obtain e fl where fl: "free_list c = e # fl" using assms(2) by (cases "free_list c") auto
  obtain t where t: "rep (tree c) t" "rbt t" "labels t = xs" using assms(1) by (rule ok_tree)
  have e: "e \<in> {1..slots}" "e \<notin> set xs" "e \<notin> set fl" "distinct fl" "nodes (tree c) e \<noteq> None"
    using assms(1) fl by (auto simp: cache_inv_def)
  have "e \<notin> set l" if "l \<in> set (ht c)" for l
    using ok_in_chain[OF assms(1) that] e(2) by blast
  then have ht: "map (removeAll e) (ht c) = ht c" by (simp add: map_idI)
  obtain m where m: "RB_CLEAR_NODE e (tree c) = Some m" "rep m t" "\<forall>p. nodes m p \<noteq> None \<longleftrightarrow> nodes (tree c) p \<noteq> None"
    using clear_node[OF e(5) _ _ t(1)] e t(3) by auto
  have ok': "ok {e} xs (c\<lparr>tree := m, free_list := fl\<rparr>)"
    by (rule ok_change[OF assms(1) m(2) t(2,3)]) (use assms(1) m(3) fl e in \<open>auto simp: cache_inv_def\<close>)
  have "cache_entry_alloc c = Some (e, c\<lparr>tree := m, free_list := fl\<rparr>)"
    using fl e(3) ht m(1) by (simp add: cache_entry_alloc_def hlist_del_def)
  moreover have "found (c\<lparr>tree := m, free_list := fl\<rparr>) = found c" using found_same[OF assms(1) ok'] by simp
  ultimately show ?thesis using e(1,2) ok' fl by auto
qed

text \<open>Taking an entry out of the tree and its chain.\<close>

lemma remove_ok:
  assumes "ok {} xs c" "e \<in> set xs"
  shows "\<exists>c'. rb_cache_remove e c = Some (True, c') \<and> ok {e} (remove1 e xs) c' \<and> entrys c' = entrys c \<and>
    ht_seed c' = ht_seed c \<and> free_list c' = free_list c"
proof -
  obtain t where t: "rep (tree c) t" "rbt t" "labels t = xs" using assms(1) by (rule ok_tree)
  have e: "e \<in> {1..slots}" "e \<notin> set (free_list c)" "nodes (tree c) e \<noteq> None" "distinct xs"
    using assms t(1,3) by (auto simp: cache_inv_def Rb_Heap.rep_def)
  obtain m1 t' where m1: "rb_erase e (tree c) = Some m1" "becomes (tree c) m1 t'" "rbt t'" "labels t' = remove1 e xs"
    using rb_erase_correct[OF t(1,2), of e] assms(2) t(3) by auto
  have dom: "nodes m1 p \<noteq> None" if "p \<in> {1..slots}" for p
    using m1(2) okD(5)[OF assms(1) that] rep_nodes[OF becomes_rep[OF m1(2)], of p]
    by (cases "p \<in> set (labels t')") (auto simp: becomes_def)
  obtain m where m: "RB_CLEAR_NODE e m1 = Some m" "rep m t'" "\<forall>p. nodes m p \<noteq> None \<longleftrightarrow> nodes m1 p \<noteq> None"
    using clear_node[of m1 e t'] dom[OF e(1)] becomes_rep[OF m1(2)] e m1(4) by auto
  have empty: "RB_EMPTY_NODE (tree c) e = Some False"
    using find_node[of e t] not_empty_node[of "tree c"] assms(2) t(1,3) by auto
  have chain: "e \<in> set (ht c ! idx (key (entrys c e)))" "idx (key (entrys c e)) < length (ht c)"
    using assms idx_bound by (auto simp: cache_inv_def)
  then have "\<exists>l\<in>set (ht c). e \<in> set l" using nth_mem by blast
  then have "rb_cache_remove e c = Some (True, c\<lparr>tree := m, ht := map (removeAll e) (ht c)\<rparr>)"
    using e(2) by (simp add: rb_cache_remove_def empty m1(1) m(1) hlist_del_def)
  moreover have "ok {e} (remove1 e xs) (c\<lparr>tree := m, ht := map (removeAll e) (ht c)\<rparr>)"
  proof -
    have sub: "set (remove1 e xs) = set xs - {e}" using e(4) by simp
    have "newest_first (\<lambda>p. time (entrys c p)) (remove1 e xs)"
      using okD(9)[OF assms(1)] by (auto simp: newest_first_def intro: sorted_wrt_filter simp: distinct_remove1_removeAll[OF e(4)] removeAll_filter_not_eq)
    moreover have "inj_on (\<lambda>p. key (entrys c p)) (set xs - {e})" using okD(8)[OF assms(1)] by (rule inj_on_subset) auto
    moreover have "set (map (removeAll e) (ht c) ! h) = {p \<in> set xs - {e}. idx (key (entrys c p)) = h}" if "h < htsize" for h
      using okD(6,7)[OF assms(1)] that by auto
    ultimately show ?thesis
      unfolding cache_inv_def sub
      using m(2,3) m1(3,4) okD[OF assms(1)] assms(2) dom e(2) by auto
  qed
  ultimately show ?thesis by simp
qed

text \<open>The entry in hand may be written.\<close>

lemma ok_write:
  assumes "ok {e} xs c"
  shows "ok {e} xs (c\<lparr>entrys := (entrys c)(e := v)\<rparr>)"
proof -
  have e: "e \<notin> set xs" using okD(3)[OF assms] by simp
  then have *: "p \<in> set xs \<Longrightarrow> p \<noteq> e" for p by blast
  have "newest_first (\<lambda>p. time (((entrys c)(e := v)) p)) xs"
    using okD(9)[OF assms] * unfolding newest_first_def by (auto elim!: sorted_wrt_mono_rel[rotated])
  moreover have "inj_on (\<lambda>p. key (((entrys c)(e := v)) p)) (set xs)"
    using okD(8)[OF assms] * by (auto simp: inj_on_def)
  moreover have "set (ht c ! h) = {p \<in> set xs. idx (key (((entrys c)(e := v)) p)) = h}" if "h < htsize" for h
    using okD(7)[OF assms that] * by auto
  ultimately show ?thesis using assms okD[OF assms] e unfolding cache_inv_def by auto
qed

text \<open>Putting the entry in hand into the tree and its chain.\<close>

lemma insert_ok:
  assumes "ok {e} xs c" "fine (entrys c e)" "\<forall>p\<in>set xs. key (entrys c p) \<noteq> key (entrys c e)"
  shows "\<exists>c' xs'. rb_cache_insert cmp e c = Some (True, c') \<and> set xs' = insert e (set xs) \<and>
    ok {} xs' (cache_ht_add e (idx (key (entrys c e))) c') \<and> entrys c' = entrys c \<and> ht_seed c' = ht_seed c \<and>
    free_list c' = free_list c"
proof -
  let ?cmp = "\<lambda>n. cmp (entrys c n) (entrys c e)"
  obtain t where t: "rep (tree c) t" "rbt t" "labels t = xs" using assms(1) by (rule ok_tree)
  have e: "e \<in> {1..slots}" "e \<notin> set xs" "e \<notin> set (free_list c)" using okD(1,3)[OF assms(1)] by auto
  have "?cmp q \<noteq> 0" if "q \<in> set xs" for q
    using same[OF okD(10)[OF assms(1) that] assms(2)] assms(3) that by blast
  then obtain \<rho> where \<rho>: "fill \<rho> Tip = t" "came_by ?cmp \<rho>" "descend ?cmp (tree c) 0 Root = Some (Some (up \<rho>, link_of \<rho>))"
    using descend_correct[of "tree c" "[]" t ?cmp] t by auto
  have xs: "xs = before \<rho> @ after \<rho>" using \<rho>(1) t(3) by auto
  obtain m1 m' t' where m: "rb_link_node e (up \<rho>) (link_of \<rho>) (tree c) = Some m1" "rb_insert_color e m1 = Some m'"
    "becomes (tree c) m' t'" "rbt t'" "labels t' = before \<rho> @ e # after \<rho>"
    using rb_insert_correct[of "tree c" \<rho> e] t \<rho>(1) e okD(5)[OF assms(1) e(1)] xs by auto
  let ?xs = "before \<rho> @ e # after \<rho>" and ?h = "idx (key (entrys c e))"
  have set: "set ?xs = insert e (set xs)" using xs by auto
  have place: "(\<forall>x\<in>set (before \<rho>). time (entrys c e) \<le> time (entrys c x)) \<and> (\<forall>x\<in>set (after \<rho>). time (entrys c x) \<le> time (entrys c e))"
  proof (rule place_of[OF \<rho>(2), where time = "\<lambda>p. time (entrys c p)"])
    show "newest_first (\<lambda>p. time (entrys c p)) (before \<rho> @ after \<rho>)" using okD(9)[OF assms(1)] xs by simp
  next
    fix a assume a: "a \<in> around \<rho>"
    then have f: "fine (entrys c a)" using okD(10)[OF assms(1)] xs by auto
    show "cmp (entrys c a) (entrys c e) < 0 \<Longrightarrow> time (entrys c a) \<le> time (entrys c e)" using older[OF f assms(2)] .
    show "cmp (entrys c a) (entrys c e) > 0 \<Longrightarrow> time (entrys c e) \<le> time (entrys c a)" using newer[OF f assms(2)] .
  qed
  have "newest_first (\<lambda>p. time (entrys c p)) ?xs"
    using place okD(9)[OF assms(1)] unfolding xs by (auto simp: newest_first_append newest_first_Cons)
  moreover have "nodes m' p \<noteq> None" if "p \<in> {1..slots}" for p
    using m(3) okD(5)[OF assms(1) that] rep_nodes[OF becomes_rep[OF m(3)], of p]
    by (cases "p \<in> set (labels t')") (auto simp: becomes_def)
  moreover have "inj_on (\<lambda>p. key (entrys c p)) (insert e (set xs))"
    using okD(8)[OF assms(1)] assms(3) by (auto simp: inj_on_def)
  moreover have "set ((ht c)[?h := e # ht c ! ?h] ! h) = {p \<in> insert e (set xs). idx (key (entrys c p)) = h}" if "h < htsize" for h
    using okD(6,7)[OF assms(1)] that e(2) by (cases "h = ?h") auto
  moreover have "rb_cache_insert cmp e c = Some (True, c\<lparr>tree := m'\<rparr>)"
    by (simp add: rb_cache_insert_def \<rho>(3) m(1,2))
  ultimately have "ok {} ?xs (cache_ht_add e ?h (c\<lparr>tree := m'\<rparr>))"
    using m(3-5) okD[OF assms(1)] e assms(2) becomes_rep[OF m(3)]
    unfolding cache_inv_def cache_ht_add_def set by auto
  then show ?thesis using \<open>rb_cache_insert cmp e c = _\<close> set
    by (intro exI[of _ "c\<lparr>tree := m'\<rparr>"] exI[of _ ?xs] conjI) simp_all
qed

text \<open>How the map changes when an entry leaves the cache and when the entry in hand is written and goes in.\<close>

lemma remove_found:
  assumes "ok {} xs c" "e \<in> set xs"
  shows "\<exists>c'. rb_cache_remove e c = Some (True, c') \<and> ok {e} (remove1 e xs) c' \<and> entrys c' = entrys c \<and>
    ht_seed c' = ht_seed c \<and> free_list c' = free_list c \<and> found c' = (found c)(key (entrys c e) := None)"
proof -
  obtain c' where c': "rb_cache_remove e c = Some (True, c')" "ok {e} (remove1 e xs) c'"
    "entrys c' = entrys c" "ht_seed c' = ht_seed c" "free_list c' = free_list c"
    using remove_ok[OF assms] by fastforce
  have d: "set (remove1 e xs) = set xs - {e}" using assms(1) by (auto simp: cache_inv_def Rb_Heap.rep_def)
  have un: "p = e" if "p \<in> set xs" "key (entrys c p) = key (entrys c e)" for p
    using inj_onD[OF okD(8)[OF assms(1)], of p e] that assms(2) by simp
  have "found c' = (found c)(key (entrys c e) := None)"
  proof (intro ext option_eqI)
    show "found c' k = Some v \<longleftrightarrow> ((found c)(key (entrys c e) := None)) k = Some v" for k v
      unfolding found_iff[OF c'(2)] d c'(3) using un by (auto simp: found_iff[OF assms(1)])
  qed
  with c' show ?thesis by blast
qed

lemma put_found:
  assumes "ok {e} xs c" "fine v" "found c (key v) = None"
  shows "\<exists>c' xs'. rb_cache_insert cmp e (c\<lparr>entrys := (entrys c)(e := v)\<rparr>) = Some (True, c') \<and>
    ok {} xs' (cache_ht_add e (idx (key v)) c') \<and> ht_seed c' = ht_seed c \<and> free_list c' = free_list c \<and>
    found (cache_ht_add e (idx (key v)) c') = (found c)(key v \<mapsto> v)"
proof -
  let ?c = "c\<lparr>entrys := (entrys c)(e := v)\<rparr>"
  have e: "e \<notin> set xs" using okD(3)[OF assms(1)] by simp
  have new: "\<forall>p\<in>set xs. key (entrys c p) \<noteq> key v" using assms(3) found_iff[OF assms(1), of "key v"] by auto
  have "\<forall>p\<in>set xs. key (entrys ?c p) \<noteq> key (entrys ?c e)" using new e by auto
  then obtain c' xs' where c': "rb_cache_insert cmp e ?c = Some (True, c')" "set xs' = insert e (set xs)"
    "ok {} xs' (cache_ht_add e (idx (key v)) c')" "entrys c' = entrys ?c" "ht_seed c' = ht_seed c" "free_list c' = free_list c"
    using insert_ok[OF ok_write[OF assms(1), of v]] assms(2) by fastforce
  have "found (cache_ht_add e (idx (key v)) c') = (found c)(key v \<mapsto> v)"
  proof (intro ext option_eqI)
    show "found (cache_ht_add e (idx (key v)) c') k = Some w \<longleftrightarrow> ((found c)(key v \<mapsto> v)) k = Some w" for k w
      unfolding found_iff[OF c'(3)] c'(2) using new e by (auto simp: found_iff[OF assms(1)] cache_ht_add_def c'(4))
  qed
  with c' show ?thesis by blast
qed

text \<open>The last entry of the tree is the oldest.\<close>

lemma last_ok:
  assumes "ok {} xs c"
  shows "cache_last c = Some (if xs = [] then 0 else last xs)"
    "xs \<noteq> [] \<Longrightarrow> found c (key (entrys c (last xs))) = Some (entrys c (last xs))"
    "\<And>k v. found c k = Some v \<Longrightarrow> time (entrys c (last xs)) \<le> time v"
proof -
  obtain t where "rep (tree c) t" "labels t = xs" using assms by (rule ok_tree)
  then show "cache_last c = Some (if xs = [] then 0 else last xs)"
    using first_last_correct(2)[of "tree c" t] by (simp add: cache_last_def)
  show "xs \<noteq> [] \<Longrightarrow> found c (key (entrys c (last xs))) = Some (entrys c (last xs))"
    unfolding found_iff[OF assms] by auto
  fix k v assume "found c k = Some v"
  then obtain p where p: "p \<in> set xs" "entrys c p = v" using found_iff[OF assms] by auto
  then have "xs \<noteq> []" by auto
  from append_butlast_last_id[OF this] obtain ys where xs: "xs = ys @ [last xs]" by metis
  have "time (entrys c (last xs)) \<le> time (entrys c p)"
    using okD(9)[OF assms] p(1) by (subst (asm) (1 2) xs) (auto simp: newest_first_append)
  with p(2) show "time (entrys c (last xs)) \<le> time v" by simp
qed

text \<open>Adding.\<close>

lemma put_ok:
  assumes "ok {e} xs c" "fine v" "found c (key v) = None"
  shows "\<exists>c' xs'. cache_put cmp zero e (idx (key v)) v c = Some c' \<and> ok {} xs' c' \<and> ht_seed c' = ht_seed c \<and>
    free_list c' = free_list c \<and> found c' = (found c)(key v \<mapsto> v)"
proof -
  obtain c' xs' where "rb_cache_insert cmp e (c\<lparr>entrys := (entrys c)(e := v)\<rparr>) = Some (True, c')"
    "ok {} xs' (cache_ht_add e (idx (key v)) c')" "ht_seed c' = ht_seed c" "free_list c' = free_list c"
    "found (cache_ht_add e (idx (key v)) c') = (found c)(key v \<mapsto> v)"
    using put_found[OF assms] by blast
  then show ?thesis
    by (intro exI[of _ "cache_ht_add e (idx (key v)) c'"] exI[of _ xs']) (simp add: cache_put_def cache_ht_add_def)
qed

lemma add_present:
  assumes inv: "ok {} xs c" and test: "\<And>v. test v \<longleftrightarrow> key v = k" and some: "found c k = Some v"
    and re: "key (refresh v) = k" "fine (refresh v)"
  shows "\<exists>c' xs'. cache_add cmp zero (idx k) test stale replace refresh fresh c = Some (True, c') \<and> ok {} xs' c' \<and>
    ht_seed c' = ht_seed c \<and> free_list c' = free_list c \<and> found c' = (if stale v then (found c)(k \<mapsto> refresh v) else found c)"
proof -
  define e where "e = chain_find test (idx k) c"
  have t: "test = (\<lambda>v. key v = k)" using test by blast
  have e: "e \<noteq> 0" "v = entrys c e" using some by (auto simp: cache_find_def t e_def Let_def split: if_splits)
  with chain_find_inv[OF inv, of test k] test have mem: "e \<in> set xs" "key v = k" by (auto simp: e_def)
  show ?thesis
  proof (cases "stale v")
    case False
    then show ?thesis using e inv by (auto simp: cache_add_def e_def[symmetric] Let_def)
  next
    case True
    obtain c1 where c1: "rb_cache_remove e c = Some (True, c1)" "ok {e} (remove1 e xs) c1" "entrys c1 = entrys c"
      "ht_seed c1 = ht_seed c" "free_list c1 = free_list c" "found c1 = (found c)(k := None)"
      using remove_found[OF inv mem(1)] mem(2) e(2) by auto
    have "found c1 (key (refresh v)) = None" by (simp add: c1(6) re(1))
    from put_ok[OF c1(2) re(2) this, of zero] show ?thesis
      using True e(1) by (auto simp: cache_add_def e_def[symmetric] Let_def c1(1,3,4,5,6) e(2)[symmetric] re(1))
  qed
qed

lemma add_absent:
  assumes inv: "ok {} xs c" and test: "\<And>v. test v \<longleftrightarrow> key v = k" and none: "found c k = None"
    and new: "\<And>e. fresh e = new" "key new = k" "fine new" and slots: "slots > 0"
  shows "\<exists>c' xs'. cache_add cmp zero (idx k) test stale replace refresh fresh c = Some (False, c') \<and> ok {} xs' c' \<and>
    ht_seed c' = ht_seed c \<and> free_list c' = tl (free_list c) \<and>
    add_spec time k stale replace refresh new (free_list c = []) (found c) (found c')"
proof -
  have t: "test = (\<lambda>v. key v = k)" using test by blast
  have "chain_find test (idx k) c = 0" using none by (simp add: cache_find_def t Let_def split: if_splits)
  then have add: "cache_add cmp zero (idx k) test stale replace refresh fresh c = do {
      (e, c) \<leftarrow> cache_take replace c;
      c \<leftarrow> (if e = 0 then Some c else cache_put cmp zero e (idx k) new c);
      Some (False, c) }" by (simp add: cache_add_def Let_def new(1) cong: if_cong)
  obtain l where last: "cache_last c = Some l" "xs \<noteq> [] \<longrightarrow> l = last xs" using last_ok(1)[OF inv] by simp
  show ?thesis
  proof (cases "free_list c = []")
    case False
    obtain e c1 where c1: "cache_entry_alloc c = Some (e, c1)" "e \<noteq> 0" "ok {e} xs c1" "ht_seed c1 = ht_seed c"
      "found c1 = found c" "free_list c1 = tl (free_list c)"
      using alloc_ok[OF inv False] by blast
    have take: "cache_take replace c = Some (e, c1)" using False last(1) by (simp add: cache_take_def c1(1))
    have "found c1 (key new) = None" by (simp add: c1(5) none new(2))
    from put_ok[OF c1(3) new(3) this, of zero] show ?thesis
      using False none c1(2) by (auto simp: add take c1(4,5,6) new(2) add_spec_def)
  next
    case full: True
    have ne: "xs \<noteq> []" using okD(1)[OF inv] full slots by auto
    have l: "l \<in> set xs" "l \<noteq> 0" "l = last xs" using ne last(2) ok_nonzero[OF inv] by auto
    have spec: "add_spec time k stale replace refresh new True (found c)
        (if replace (entrys c l) then (found c)(key (entrys c l) := None, k \<mapsto> new) else found c)"
      by (rule add_spec_full) (use last_ok(2,3)[OF inv] ne l(3) none in auto)
    show ?thesis
    proof (cases "replace (entrys c l)")
      case False
      then have take: "cache_take replace c = Some (0, c)"
        using full by (simp add: cache_take_def last(1) cache_entry_alloc_def)
      then show ?thesis using spec False inv full by (auto simp: add take)
    next
      case True
      obtain c1 where c1: "rb_cache_remove l c = Some (True, c1)" "ok {l} (remove1 l xs) c1" "ht_seed c1 = ht_seed c"
        "free_list c1 = free_list c" "found c1 = (found c)(key (entrys c l) := None)"
        using remove_found[OF inv l(1)] by blast
      have take: "cache_take replace c = Some (l, c1)" using full True l(2) by (simp add: cache_take_def last(1) c1(1))
      have "found c1 (key new) = None" by (simp add: c1(5) none new(2))
      from put_ok[OF c1(2) new(3) this, of zero] obtain c' xs' where c': "cache_put cmp zero l (idx k) new c1 = Some c'" "ok {} xs' c'"
        "ht_seed c' = ht_seed c" "free_list c' = []" "found c' = (found c)(key (entrys c l) := None, k \<mapsto> new)"
        by (auto simp: c1(3,4,5) new(2) full)
      then show ?thesis using spec True l(2) full by (auto simp: add take)
    qed
  qed
qed

lemma add_ok:
  assumes "ok {} xs c" "\<And>v. test v \<longleftrightarrow> key v = k" "slots > 0"
    and "\<And>e. fresh e = new" "key new = k" "fine new"
    and "\<And>v. key v = k \<Longrightarrow> key (refresh v) = k" "\<And>v. key v = k \<Longrightarrow> fine v \<Longrightarrow> fine (refresh v)"
  shows "\<exists>c' xs'. cache_add cmp zero (idx k) test stale replace refresh fresh c = Some (found c k \<noteq> None, c') \<and> ok {} xs' c' \<and>
    ht_seed c' = ht_seed c \<and> free_list c' = (if found c k = None then tl (free_list c) else free_list c) \<and>
    add_spec time k stale replace refresh new (free_list c = []) (found c) (found c')"
proof (cases "found c k")
  case None
  with add_absent[OF assms(1,2) None assms(4-6,3)] show ?thesis by auto
next
  case (Some v)
  then obtain p where "p \<in> set xs" "entrys c p = v" "key v = k" using found_iff[OF assms(1)] by auto
  with okD(10)[OF assms(1)] have "key (refresh v) = k" "fine (refresh v)" using assms(7,8) by auto
  from add_present[where refresh = refresh and v = v, OF assms(1,2) Some this, of zero stale replace fresh] Some show ?thesis by (auto simp: add_spec_def)
qed

end

end
