(* ===== verification/Combo_Addr.thy ===== *)
theory Combo_Addr
  imports G2_Prelude
begin

text \<open>
  Addresses of peers (\<^verbatim>\<open>lib/combo_addr.h\<close>, \<^verbatim>\<open>lib/combo_addr.c\<close>) and the hash for the hash tables
  (\<^verbatim>\<open>lib/hthash.h\<close>, the variant for machines with a multiplication).  An address is kept as it is in the
  \<open>sockaddr\<close>, in network order; the machine is little endian.
\<close>

subsection \<open>Addresses\<close>

text \<open>IPv4: address and port; IPv6: the four words of the address and the port.\<close>

datatype combo_addr = In u32 u16 | In6 u32 u32 u32 u32 u16

definition AF_INET :: int where
  "AF_INET = 2"

definition AF_INET6 :: int where
  "AF_INET6 = 10"

fun fam :: "combo_addr \<Rightarrow> int" where
  "fam (In a p) = AF_INET"
| "fam (In6 a b c d p) = AF_INET6"

definition htonl :: "u32 \<Rightarrow> u32" where
  "htonl x = push_bit 24 (x AND 0xFF) OR push_bit 8 (x AND 0xFF00) OR
     (drop_bit 8 x AND 0xFF00) OR (drop_bit 24 x AND 0xFF)"

definition IP_CMP :: "u32 \<Rightarrow> u32 \<Rightarrow> u32 \<Rightarrow> bool" where
  "IP_CMP a b m \<longleftrightarrow> htonl b = a AND m"

definition SLASH04 :: u32 where "SLASH04 = htonl 0xF0000000"
definition SLASH08 :: u32 where "SLASH08 = htonl 0xFF000000"
definition SLASH10 :: u32 where "SLASH10 = htonl 0xFFC00000"
definition SLASH15 :: u32 where "SLASH15 = htonl 0xFFFE0000"
definition SLASH16 :: u32 where "SLASH16 = htonl 0xFFFF0000"
definition SLASH24 :: u32 where "SLASH24 = htonl 0xFFFFFF00"
definition SLASH32 :: u32 where "SLASH32 = htonl 0xFFFFFFFF"

text \<open>The tests for special addresses; \<open>a\<close> to \<open>d\<close> are the words of the address.\<close>

definition IN6_IS_ADDR_UNSPECIFIED :: "u32 \<Rightarrow> u32 \<Rightarrow> u32 \<Rightarrow> u32 \<Rightarrow> bool" where
  "IN6_IS_ADDR_UNSPECIFIED a b c d \<longleftrightarrow> a = 0 \<and> b = 0 \<and> c = 0 \<and> d = 0"

definition IN6_IS_ADDR_LOOPBACK :: "u32 \<Rightarrow> u32 \<Rightarrow> u32 \<Rightarrow> u32 \<Rightarrow> bool" where
  "IN6_IS_ADDR_LOOPBACK a b c d \<longleftrightarrow> a = 0 \<and> b = 0 \<and> c = 0 \<and> d = htonl 1"

definition first_byte :: "u32 \<Rightarrow> u32" where
  "first_byte a = a AND 0xFF"

definition IN6_IS_ADDR_MULTICAST :: "u32 \<Rightarrow> bool" where
  "IN6_IS_ADDR_MULTICAST a \<longleftrightarrow> first_byte a = 0xFF"

definition IN6_IS_ADDR_LINKLOCAL :: "u32 \<Rightarrow> bool" where
  "IN6_IS_ADDR_LINKLOCAL a \<longleftrightarrow> a AND htonl 0xffc00000 = htonl 0xfe800000"

definition IN6_IS_ADDR_SITELOCAL :: "u32 \<Rightarrow> bool" where
  "IN6_IS_ADDR_SITELOCAL a \<longleftrightarrow> a AND htonl 0xffc00000 = htonl 0xfec00000"

definition IN6_IS_ADDR_V4MAPPED :: "u32 \<Rightarrow> u32 \<Rightarrow> u32 \<Rightarrow> bool" where
  "IN6_IS_ADDR_V4MAPPED a b c \<longleftrightarrow> a = 0 \<and> b = 0 \<and> c = htonl 0xffff"

definition IN6_IS_ADDR_V4COMPAT :: "u32 \<Rightarrow> u32 \<Rightarrow> u32 \<Rightarrow> u32 \<Rightarrow> bool" where
  "IN6_IS_ADDR_V4COMPAT a b c d \<longleftrightarrow> a = 0 \<and> b = 0 \<and> c = 0 \<and> htonl d > 1"

definition IN6_IS_ADDR_UNIQUELOCAL_A :: "u32 \<Rightarrow> bool" where
  "IN6_IS_ADDR_UNIQUELOCAL_A a \<longleftrightarrow> first_byte a = 0xfc"

definition IN6_IS_ADDR_UNIQUELOCAL_B :: "u32 \<Rightarrow> bool" where
  "IN6_IS_ADDR_UNIQUELOCAL_B a \<longleftrightarrow> first_byte a = 0xfd"

definition IN6_IS_ADDR_DISCARD :: "u32 \<Rightarrow> u32 \<Rightarrow> bool" where
  "IN6_IS_ADDR_DISCARD a b \<longleftrightarrow> a = htonl 0x01000000 \<and> b = 0"

definition IN6_IS_ADDR_IETFBLOCK :: "u32 \<Rightarrow> bool" where
  "IN6_IS_ADDR_IETFBLOCK a \<longleftrightarrow> a AND htonl 0xfffffe00 = htonl 0x20010000"

definition IN6_IS_ADDR_DOCU :: "u32 \<Rightarrow> bool" where
  "IN6_IS_ADDR_DOCU a \<longleftrightarrow> a = htonl 0x20010DB8"

definition IN6_IS_ADDR_AS112 :: "u32 \<Rightarrow> bool" where
  "IN6_IS_ADDR_AS112 a \<longleftrightarrow> a = htonl 0x2620004f \<and> a AND htonl 0xffff0000 = htonl 0x80000000"

definition IN6_IS_ADDR_V4BEHAVE :: "u32 \<Rightarrow> u32 \<Rightarrow> u32 \<Rightarrow> bool" where
  "IN6_IS_ADDR_V4BEHAVE a b c \<longleftrightarrow> a = 0 \<and> b = 0 \<and> c = htonl 0x0064FF9B"

text \<open>The tests of both functions for IPv4, and the additional ones of \<open>combo_addr_is_public\<close>.\<close>

definition ip4_special :: "u32 \<Rightarrow> bool" where
  "ip4_special a \<longleftrightarrow>
     IP_CMP a 0xFFFFFFFF SLASH32 \<or> IP_CMP a 0xC0000000 SLASH24 \<or> IP_CMP a 0xC0000200 SLASH24 \<or>
     IP_CMP a 0xC01FC400 SLASH24 \<or> IP_CMP a 0xC034C100 SLASH24 \<or> IP_CMP a 0xC0586300 SLASH24 \<or>
     IP_CMP a 0xC0AF3000 SLASH24 \<or> IP_CMP a 0xC6336400 SLASH24 \<or> IP_CMP a 0xCB007100 SLASH24 \<or>
     IP_CMP a 0xC6120000 SLASH15 \<or> IP_CMP a 0x00000000 SLASH08 \<or> IP_CMP a 0x7F000000 SLASH08 \<or>
     IP_CMP a 0xE0000000 SLASH04 \<or> IP_CMP a 0xF0000000 SLASH04"

definition ip4_private :: "u32 \<Rightarrow> bool" where
  "ip4_private a \<longleftrightarrow>
     IP_CMP a 0xA9FE0000 SLASH16 \<or> IP_CMP a 0xAC100000 SLASH16 \<or> IP_CMP a 0xC0A80000 SLASH16 \<or>
     IP_CMP a 0x64400000 SLASH10 \<or> IP_CMP a 0x0A000000 SLASH08"

fun combo_addr_is_public :: "combo_addr \<Rightarrow> bool" where
  "combo_addr_is_public (In a p) = (\<not> ip4_special a \<and> \<not> ip4_private a)"
| "combo_addr_is_public (In6 a b c d p) =
     (if IN6_IS_ADDR_UNSPECIFIED a b c d then False
      else if IN6_IS_ADDR_LOOPBACK a b c d then False
      else if IN6_IS_ADDR_MULTICAST a then False
      else if IN6_IS_ADDR_LINKLOCAL a then False
      else if IN6_IS_ADDR_SITELOCAL a then False
      else if IN6_IS_ADDR_UNIQUELOCAL_A a then False
      else if IN6_IS_ADDR_UNIQUELOCAL_B a then False
      else if IN6_IS_ADDR_IETFBLOCK a then False
      else if IN6_IS_ADDR_DISCARD a b then False
      else if IN6_IS_ADDR_DOCU a then False
      else if IN6_IS_ADDR_AS112 a then False
      else if IN6_IS_ADDR_V4COMPAT a b c d then False
      else if IN6_IS_ADDR_V4MAPPED a b c \<or> IN6_IS_ADDR_V4BEHAVE a b c then \<not> ip4_special d \<and> \<not> ip4_private d
      else True)"

fun combo_addr_is_forbidden :: "combo_addr \<Rightarrow> bool" where
  "combo_addr_is_forbidden (In a p) = ip4_special a"
| "combo_addr_is_forbidden (In6 a b c d p) =
     (if IN6_IS_ADDR_UNSPECIFIED a b c d then True
      else if IN6_IS_ADDR_LOOPBACK a b c d then True
      else if IN6_IS_ADDR_MULTICAST a then True
      else if IN6_IS_ADDR_IETFBLOCK a then True
      else if IN6_IS_ADDR_DISCARD a b then True
      else if IN6_IS_ADDR_DOCU a then True
      else if IN6_IS_ADDR_AS112 a then True
      else if IN6_IS_ADDR_V4COMPAT a b c d then True
      else if IN6_IS_ADDR_V4MAPPED a b c \<or> IN6_IS_ADDR_V4BEHAVE a b c then ip4_special d
      else False)"

fun combo_addr_eq :: "combo_addr \<Rightarrow> combo_addr \<Rightarrow> bool" where
  "combo_addr_eq (In a p) (In a' p') \<longleftrightarrow> a = a' \<and> p = p'"
| "combo_addr_eq (In6 a b c d p) (In6 a' b' c' d' p') \<longleftrightarrow> (a = a' \<and> b = b' \<and> c = c' \<and> d = d') \<and> p = p'"
| "combo_addr_eq _ _ \<longleftrightarrow> False"

fun combo_addr_eq_ip :: "combo_addr \<Rightarrow> combo_addr \<Rightarrow> bool" where
  "combo_addr_eq_ip (In a p) (In a' p') \<longleftrightarrow> a = a'"
| "combo_addr_eq_ip (In6 a b c d p) (In6 a' b' c' d' p') \<longleftrightarrow> a = a' \<and> b = b' \<and> c = c' \<and> d = d'"
| "combo_addr_eq_ip _ _ \<longleftrightarrow> False"

fun combo_addr_eq_any :: "combo_addr \<Rightarrow> bool" where
  "combo_addr_eq_any (In a p) \<longleftrightarrow> a = 0"
| "combo_addr_eq_any (In6 a b c d p) \<longleftrightarrow> a = 0 \<and> b = 0 \<and> c = 0 \<and> d = 0"

text \<open>A difference of two \<open>long\<close> values that is stored in an \<open>int\<close>.\<close>

definition to_int :: "int \<Rightarrow> int" where
  "to_int x = sint (word_of_int x :: u32)"

definition u32_diff :: "u32 \<Rightarrow> u32 \<Rightarrow> int" where
  "u32_diff a b = to_int (uint a - uint b)"

fun combo_addr_cmp :: "combo_addr \<Rightarrow> combo_addr \<Rightarrow> int" where
  "combo_addr_cmp (In a p) (In a' p') =
     (if u32_diff a a' \<noteq> 0 then u32_diff a a' else uint p - uint p')"
| "combo_addr_cmp (In6 a b c d p) (In6 a' b' c' d' p') =
     (if u32_diff a a' \<noteq> 0 then u32_diff a a'
      else if u32_diff b b' \<noteq> 0 then u32_diff b b'
      else if u32_diff c c' \<noteq> 0 then u32_diff c c'
      else if u32_diff d d' \<noteq> 0 then u32_diff d d'
      else uint p - uint p')"
| "combo_addr_cmp a b = fam a - fam b"

fun combo_addr_lin :: "combo_addr \<Rightarrow> u32 list" where
  "combo_addr_lin (In a p) = [a, ucast p]"
| "combo_addr_lin (In6 a b c d p) = [a, b, c, d, ucast p]"

fun combo_addr_lin_ip :: "combo_addr \<Rightarrow> u32 list" where
  "combo_addr_lin_ip (In a p) = [a]"
| "combo_addr_lin_ip (In6 a b c d p) = [a, b, c, d]"

fun combo_addr_port :: "combo_addr \<Rightarrow> u16" where
  "combo_addr_port (In a p) = p"
| "combo_addr_port (In6 a b c d p) = p"

fun combo_addr_set_port :: "combo_addr \<Rightarrow> u16 \<Rightarrow> combo_addr" where
  "combo_addr_set_port (In a p) q = In a q"
| "combo_addr_set_port (In6 a b c d p) q = In6 a b c d q"

text \<open>Swapping the bytes of a port.\<close>

definition ntohs :: "u16 \<Rightarrow> u16" where
  "ntohs x = drop_bit 8 x OR push_bit 8 x"

text \<open>The tests of \<open>cache_ht_lookup\<close> in the caches by address, for IPv4 and IPv6.\<close>

fun same_addr :: "combo_addr \<Rightarrow> combo_addr \<Rightarrow> bool" where
  "same_addr (In a p) e = (case e of In a' p' \<Rightarrow> a' = a \<and> p' = p | In6 _ _ _ _ _ \<Rightarrow> False)"
| "same_addr (In6 a b c d p) e =
     (case e of In _ _ \<Rightarrow> False | In6 a' b' c' d' p' \<Rightarrow> (a' = a \<and> b' = b \<and> c' = c \<and> d' = d) \<and> p' = p)"

subsection \<open>Hashing\<close>

definition rol32 :: "u32 \<Rightarrow> nat \<Rightarrow> u32" where
  "rol32 x k = push_bit k x OR drop_bit (32 - k) x"

definition MMHASH_MIXM :: "u32 \<Rightarrow> u32 \<Rightarrow> u32 \<Rightarrow> u32" where
  "MMHASH_MIXM mul k h =
     (let k = k * 0xcc9e2d51; k = rol32 k 15; k = k * mul; h = h XOR k; h = rol32 h 13 in h * 5 + 0xe6546b64)"

definition MMHASH_MIX :: "u32 \<Rightarrow> u32 \<Rightarrow> u32" where
  "MMHASH_MIX k h =
     (let k = k * 0xcc9e2d51; k = rol32 k 15; k = k * 0x1b873593; h = h XOR k; h = rol32 h 13 in h * 5 + 0xe6546b64)"

definition MMHASH_FINAL :: "u32 \<Rightarrow> u32" where
  "MMHASH_FINAL h =
     (let h = h XOR drop_bit 16 h; h = h * 0x85ebca6b; h = h XOR drop_bit 13 h; h = h * 0xc2b2ae35
      in h XOR drop_bit 16 h)"

text \<open>\<open>hthash_1words\<close> to \<open>hthash_6words\<close>, by the list of the words.\<close>

definition hthash_words :: "u32 list \<Rightarrow> u32 \<Rightarrow> u32" where
  "hthash_words ks seed = MMHASH_FINAL (fold MMHASH_MIX ks seed XOR word_of_nat (4 * length ks))"

definition hthash32_mod :: "u32 list \<Rightarrow> u32 \<Rightarrow> u32 \<Rightarrow> u32" where
  "hthash32_mod ks seed mul = MMHASH_FINAL (fold (MMHASH_MIXM mul) ks seed XOR word_of_nat (length ks * 4))"

definition combo_addr_hash :: "combo_addr \<Rightarrow> u32 \<Rightarrow> u32" where
  "combo_addr_hash addr seed = hthash_words (combo_addr_lin addr) seed"

definition combo_addr_hash_extra :: "combo_addr \<Rightarrow> u32 \<Rightarrow> u32 \<Rightarrow> u32" where
  "combo_addr_hash_extra addr extra seed = hthash_words (combo_addr_lin addr @ [extra]) seed"

definition combo_addr_hash_ip :: "combo_addr \<Rightarrow> u32 \<Rightarrow> u32" where
  "combo_addr_hash_ip addr seed = hthash_words (combo_addr_lin_ip addr) seed"

subsection \<open>Comparison\<close>

lemma u32_diff_zero: "u32_diff a b = 0 \<longleftrightarrow> a = b"
proof -
  have "u32_diff a b = sint (a - b)" by (simp add: u32_diff_def to_int_def)
  then show ?thesis by (simp add: signed_eq_0_iff)
qed

lemma combo_addr_cmp_zero: "combo_addr_cmp a b = 0 \<longleftrightarrow> combo_addr_eq a b"
  by (cases a; cases b) (auto simp: u32_diff_zero AF_INET_def AF_INET6_def intro: word_uint_eqI)

lemma combo_addr_eq_iff: "combo_addr_eq a b \<longleftrightarrow> a = b"
  by (cases a; cases b) auto

lemma same_addr_eq: "same_addr a b \<longleftrightarrow> b = a"
  by (cases a; cases b) auto

text \<open>Times whose difference fits an \<open>int\<close>, as the comparisons of entries assume.\<close>

definition stamp_ok :: "int \<Rightarrow> bool" where
  "stamp_ok t \<longleftrightarrow> 0 \<le> t \<and> t < 2 ^ 31"

lemma to_int_small: "- (2 ^ 31) \<le> x \<Longrightarrow> x < 2 ^ 31 \<Longrightarrow> to_int x = x"
  unfolding to_int_def by (subst sint_sbintrunc') (simp add: signed_take_bit_int_eq_self)

text \<open>The comparison is not transitive: three addresses, each before the next and the last before the first.\<close>

lemma combo_addr_cmp_cycle:
  "combo_addr_cmp (In 0 0) (In 0x60000000 0) < 0 \<and> combo_addr_cmp (In 0x60000000 0) (In 0xC0000000 0) < 0 \<and>
   combo_addr_cmp (In 0xC0000000 0) (In 0 0) < 0"
  by code_simp

subsection \<open>Public and forbidden addresses\<close>

text \<open>
  The two filters agree: an address that is forbidden is never public.
\<close>

theorem forbidden_not_public:
  assumes "combo_addr_is_forbidden a"
  shows "\<not> combo_addr_is_public a"
  using assms by (cases a) (auto split: if_splits)

theorem forbidden_not_public_witness:
  "combo_addr_is_forbidden (In (htonl 0x7F000001) 80) \<and> \<not> combo_addr_is_public (In (htonl 0x7F000001) 80)"
proof -
  have "combo_addr_is_forbidden (In (htonl 0x7F000001) 80)" by code_simp
  with forbidden_not_public[OF this] show ?thesis by blast
qed

text \<open>
  Addresses that slip through the filter: 172.17.0.1, since the private network 172.16.0.0/12 is
  tested with a mask of 16 bits; 10.0.0.1 behind the well known prefix 64:ff9b::/96, which is looked for
  in the third word instead of the first; and the test for AS112 never succeeds, since it demands two
  different values of the first word.
\<close>

theorem private_slips:
  "combo_addr_is_public (In (htonl 0xAC110001) port) \<and>
   combo_addr_is_public (In6 (htonl 0x0064FF9B) 0 0 (htonl 0x0A000001) port) \<and>
   \<not> combo_addr_is_public (In (htonl 0x0A000001) port) \<and> \<not> IN6_IS_ADDR_AS112 a"
proof -
  have "combo_addr_is_public (In (htonl 0xAC110001) 0)" "\<not> combo_addr_is_public (In (htonl 0x0A000001) 0)"
    "combo_addr_is_public (In6 (htonl 0x0064FF9B) 0 0 (htonl 0x0A000001) 0)" by code_simp+
  moreover have "htonl 0x2620004f AND htonl 0xffff0000 \<noteq> htonl 0x80000000" by code_simp
  then have "\<not> IN6_IS_ADDR_AS112 a" by (auto simp: IN6_IS_ADDR_AS112_def)
  ultimately show ?thesis by simp
qed

end
