(* ===== verification/GUID_Cache.thy ===== *)
theory GUID_Cache
  imports Timed_Cache Combo_Addr
begin

text \<open>
  The cache of GUIDs, \<^verbatim>\<open>G2GUIDCache.c\<close>: which GUID was seen with which address, by type of the GUID.
  The lock is left out, the operations are sequential.
\<close>

datatype guid_type =
  GT_NEIGHBOUR | GT_LEAF | GT_KHL_NEIGHBOUR | GT_KHL | GT_PEER | GT_QUERY | GT_HAW | GT_UNKNOWN

fun gt_num :: "guid_type \<Rightarrow> int" where
  "gt_num GT_NEIGHBOUR = 0"
| "gt_num GT_LEAF = 1"
| "gt_num GT_KHL_NEIGHBOUR = 2"
| "gt_num GT_KHL = 3"
| "gt_num GT_PEER = 4"
| "gt_num GT_QUERY = 5"
| "gt_num GT_HAW = 6"
| "gt_num GT_UNKNOWN = 7"

text \<open>The two 64 bit words of a GUID, and its four 32 bit words on a little endian machine.\<close>

type_synonym guid_fast = "u64 \<times> u64"

definition guid_d :: "guid_fast \<Rightarrow> u32 list" where
  "guid_d g = [ucast (fst g), ucast (drop_bit 32 (fst g)), ucast (snd g), ucast (drop_bit 32 (snd g))]"

definition guid_hash :: "guid_fast \<Rightarrow> u32 \<Rightarrow> u32" where
  "guid_hash g seed = hthash_words (guid_d g) seed"

record guid_entry =
  na :: combo_addr
  guid :: guid_fast
  seen :: int
  gtype :: guid_type

type_synonym guid_cache = "guid_entry cache"

definition GUID_CACHE_SIZE :: nat where
  "GUID_CACHE_SIZE = 2 ^ 14"

definition GUID_CACHE_HTSIZE :: nat where
  "GUID_CACHE_HTSIZE = GUID_CACHE_SIZE div 16"

definition zero_guid_entry :: guid_entry where
  "zero_guid_entry = \<lparr>na = In 0 0, guid = (0, 0), seen = 0, gtype = GT_NEIGHBOUR\<rparr>"

text \<open>A static cache after \<open>g2_guid_init\<close> without a dump: all entries are on the free list.\<close>

definition g2_guid_init :: "u32 \<Rightarrow> guid_cache" where
  "g2_guid_init seed =
     \<lparr>free_list = rev [1..<GUID_CACHE_SIZE + 1],
      tree = \<lparr>nodes = (\<lambda>p. if p \<in> {1..GUID_CACHE_SIZE}
                then Some \<lparr>pc_parent = 0, pc_color = RB_RED, rb_right = 0, rb_left = 0\<rparr> else None), rb_root = 0\<rparr>,
      ht = replicate GUID_CACHE_HTSIZE [], entrys = (\<lambda>_. zero_guid_entry), ht_seed = seed\<rparr>"

definition cache_ht_hash :: "u32 \<Rightarrow> guid_fast \<Rightarrow> guid_type \<Rightarrow> u32" where
  "cache_ht_hash seed g gt = guid_hash g (seed XOR word_of_int (gt_num gt))"

text \<open>The index of a chain, \<open>h & GUID_CACHE_HTMASK\<close>.\<close>

definition ht_index :: "u32 \<Rightarrow> nat" where
  "ht_index h = unat (h AND word_of_nat (GUID_CACHE_HTSIZE - 1))"

definition cache_ht_lookup :: "guid_fast \<Rightarrow> guid_type \<Rightarrow> u32 \<Rightarrow> guid_cache \<Rightarrow> ptr" where
  "cache_ht_lookup g gt h c =
     chain_find (\<lambda>e. fst g = fst (guid e) \<and> snd g = snd (guid e) \<and> gt = gtype e) (ht_index h) c"

text \<open>Differences of two \<open>long\<close> values.\<close>

definition to_long :: "int \<Rightarrow> int" where
  "to_long x = sint (word_of_int x :: u64)"

text \<open>
  The halves of a GUID are signed in the source; their difference is taken as the machine computes it, modulo \<open>2 ^ 64\<close>, though an overflow is not
  defined in C.
\<close>

definition guid_entry_cmp :: "guid_entry \<Rightarrow> guid_entry \<Rightarrow> int" where
  "guid_entry_cmp a b =
     (let ret = to_long (seen a - seen b) in
      if ret \<noteq> 0 then ret
      else let ret = gt_num (gtype a) - gt_num (gtype b) in
      if ret \<noteq> 0 then ret
      else let ret = sint (fst (guid a) - fst (guid b)) in
      if ret \<noteq> 0 then ret
      else let ret = sint (snd (guid a) - snd (guid b)) in
      if ret \<noteq> 0 then ret
      else combo_addr_cmp (na a) (na b))"

definition guid_rb_cache_insert :: "ptr \<Rightarrow> guid_cache \<Rightarrow> (bool \<times> guid_cache) option" where
  "guid_rb_cache_insert = rb_cache_insert guid_entry_cmp"

definition guid_rb_cache_remove :: "ptr \<Rightarrow> guid_cache \<Rightarrow> (bool \<times> guid_cache) option" where
  "guid_rb_cache_remove = rb_cache_remove"

definition guid_cache_last :: "guid_cache \<Rightarrow> ptr option" where
  "guid_cache_last = cache_last"

definition guid_cache_entry_alloc :: "guid_cache \<Rightarrow> (ptr \<times> guid_cache) option" where
  "guid_cache_entry_alloc = cache_entry_alloc"

definition guid_cache_entry_free :: "ptr \<Rightarrow> guid_cache \<Rightarrow> guid_cache option" where
  "guid_cache_entry_free = cache_entry_free zero_guid_entry"

definition g2_guid_lookup :: "guid_fast \<Rightarrow> guid_type \<Rightarrow> guid_cache \<Rightarrow> combo_addr option" where
  "g2_guid_lookup g gt c =
     (let e = cache_ht_lookup g gt (cache_ht_hash (ht_seed c) g gt) c
      in if e = 0 then None else Some (na (entrys c e)))"

text \<open>The end of \<open>g2_guid_add\<close>: the new time is set and the entry goes into the tree and the hash table.\<close>

definition guid_add_finish :: "ptr \<Rightarrow> u32 \<Rightarrow> int \<Rightarrow> guid_cache \<Rightarrow> guid_cache option" where
  "guid_add_finish e h t c = do {
     let c = c\<lparr>entrys := (entrys c)(e := (entrys c e)\<lparr>seen := t\<rparr>)\<rparr>;
     (inserted, c) \<leftarrow> guid_rb_cache_insert e c;
     if \<not> inserted then guid_cache_entry_free e c
     else Some (cache_ht_add e (ht_index h) c) }"

text \<open>The entry for a GUID that is not in the cache: the oldest one if it can be replaced, else a free one.\<close>

definition guid_add_entry :: "guid_type \<Rightarrow> int \<Rightarrow> guid_cache \<Rightarrow> (ptr \<times> guid_cache) option" where
  "guid_add_entry gt t c = do {
     e \<leftarrow> guid_cache_last c;
     if e \<noteq> 0 \<and> seen (entrys c e) < t \<and> gt_num (gtype (entrys c e)) > gt_num gt \<and> free_list c = []
     then do {
       (removed, c) \<leftarrow> guid_rb_cache_remove e c;
       Some (if removed then e else 0, c) }
     else guid_cache_entry_alloc c }"

definition g2_guid_add :: "guid_fast \<Rightarrow> combo_addr \<Rightarrow> int \<Rightarrow> guid_type \<Rightarrow> guid_cache \<Rightarrow> (bool \<times> guid_cache) option" where
  "g2_guid_add g addr t gt c =
     (if \<not> combo_addr_is_public addr then Some (False, c)
      else
        (let h = cache_ht_hash (ht_seed c) g gt;
             e = cache_ht_lookup g gt h c
         in if e \<noteq> 0 then
              (if seen (entrys c e) \<ge> t then Some (True, c)
               else do {
                 (removed, c) \<leftarrow> guid_rb_cache_remove e c;
                 if \<not> removed then do {
                   c \<leftarrow> guid_cache_entry_free e c;
                   Some (True, c) }
                 else do {
                   c \<leftarrow> guid_add_finish e h t (c\<lparr>entrys := (entrys c)(e := (entrys c e)\<lparr>gtype := gt\<rparr>)\<rparr>);
                   Some (True, c) } })
            else do {
              (e, c) \<leftarrow> guid_add_entry gt t c;
              if e = 0 then Some (False, c)
              else do {
                c \<leftarrow> guid_add_finish e h t
                  (c\<lparr>entrys := (entrys c)(e := (entrys c e)\<lparr>guid := g, gtype := gt, na := addr\<rparr>)\<rparr>);
                Some (False, c) } }))"

subsection \<open>The contract of the entries\<close>

type_synonym guid_key = "guid_fast \<times> guid_type"

definition guid_key :: "guid_entry \<Rightarrow> guid_key" where
  "guid_key e = (guid e, gtype e)"

definition guid_idx :: "u32 \<Rightarrow> guid_key \<Rightarrow> nat" where
  "guid_idx seed k = ht_index (cache_ht_hash seed (fst k) (snd k))"

text \<open>Times whose differences do not overflow.\<close>

definition time_ok :: "int \<Rightarrow> bool" where
  "time_ok t \<longleftrightarrow> - (2 ^ 62) \<le> t \<and> t < 2 ^ 62"

lemma to_long_small: "- (2 ^ 63) \<le> x \<Longrightarrow> x < 2 ^ 63 \<Longrightarrow> to_long x = x"
  unfolding to_long_def by (subst sint_sbintrunc') (simp add: signed_take_bit_int_eq_self)

lemma gt_num_inject [simp]: "gt_num a = gt_num b \<longleftrightarrow> a = b"
  by (cases a; cases b; simp)

lemma GUID_CACHE_HTSIZE_eq: "GUID_CACHE_HTSIZE = 1024"
  by (simp add: GUID_CACHE_HTSIZE_def GUID_CACHE_SIZE_def)

lemma ht_index_less: "ht_index h < GUID_CACHE_HTSIZE"
proof -
  have "h AND 1023 \<le> 1023" by (rule word_and_le1)
  then have "unat (h AND 1023) \<le> 1023" by (simp add: word_le_nat_alt)
  then show ?thesis by (simp add: ht_index_def GUID_CACHE_HTSIZE_eq)
qed

interpretation guid: timed_entries guid_entry_cmp seen "\<lambda>e. time_ok (seen e)" guid_key "guid_idx seed"
  GUID_CACHE_SIZE GUID_CACHE_HTSIZE for seed
proof
  fix a b :: guid_entry and k :: guid_key
  assume ok: "time_ok (seen a)" "time_ok (seen b)"
  have d: "to_long (seen a - seen b) = seen a - seen b"
    using ok by (intro to_long_small) (auto simp: time_ok_def)
  show "guid_entry_cmp a b < 0 \<Longrightarrow> seen a \<le> seen b" "guid_entry_cmp a b > 0 \<Longrightarrow> seen b \<le> seen a"
    by (auto simp: guid_entry_cmp_def d Let_def split: if_splits)
  show "guid_entry_cmp a b = 0 \<Longrightarrow> guid_key a = guid_key b"
    by (auto simp: guid_entry_cmp_def d Let_def guid_key_def prod_eq_iff signed_eq_0_iff split: if_splits)
next
  show "guid_idx seed k < GUID_CACHE_HTSIZE" for k by (simp add: guid_idx_def ht_index_less)
qed

subsection \<open>Correctness\<close>

abbreviation guid_inv :: "ptr set \<Rightarrow> ptr list \<Rightarrow> guid_cache \<Rightarrow> bool" where
  "guid_inv H xs c \<equiv> cache_inv seen (\<lambda>e. time_ok (seen e)) guid_key (guid_idx (ht_seed c)) GUID_CACHE_SIZE GUID_CACHE_HTSIZE H xs c"

definition guid_ok :: "guid_cache \<Rightarrow> bool" where
  "guid_ok c \<longleftrightarrow> (\<exists>xs. guid_inv {} xs c)"

text \<open>The cache as a map.\<close>

definition guid_find :: "guid_cache \<Rightarrow> guid_key \<Rightarrow> guid_entry option" where
  "guid_find c k =
     (let e = cache_ht_lookup (fst k) (snd k) (cache_ht_hash (ht_seed c) (fst k) (snd k)) c
      in if e = 0 then None else Some (entrys c e))"

lemma lookup_chain: "cache_ht_lookup g gt (cache_ht_hash s g gt) c = chain_find (\<lambda>v. guid_key v = (g, gt)) (guid_idx s (g, gt)) c"
proof -
  have "(\<lambda>v. fst g = fst (guid v) \<and> snd g = snd (guid v) \<and> gt = gtype v) = (\<lambda>v. guid_key v = (g, gt))"
    by (auto simp: guid_key_def fun_eq_iff prod_eq_iff)
  then show ?thesis by (simp add: cache_ht_lookup_def guid_idx_def)
qed

lemma guid_find_found: "guid_find c = cache_find guid_key (guid_idx (ht_seed c)) c"
  by (auto simp: fun_eq_iff guid_find_def cache_find_def lookup_chain)

text \<open>Adding is an instance of the common function.\<close>

lemma guid_add_shape:
  assumes "combo_addr_is_public addr"
  shows "g2_guid_add g addr t gt c =
    cache_add guid_entry_cmp zero_guid_entry (guid_idx (ht_seed c) (g, gt)) (\<lambda>v. guid_key v = (g, gt)) (\<lambda>e. seen e < t)
      (\<lambda>e. seen e < t \<and> gt_num (gtype e) > gt_num gt) (\<lambda>e. e\<lparr>gtype := gt, seen := t\<rparr>)
      (\<lambda>e. e\<lparr>guid := g, gtype := gt, na := addr, seen := t\<rparr>) c"
proof -
  have lookup: "cache_ht_lookup g gt (cache_ht_hash s g gt) c = chain_find (\<lambda>v. guid_key v = (g, gt)) (guid_idx s (g, gt)) c" for s
    by (rule lookup_chain)
  have finish: "guid_add_finish e (cache_ht_hash s g gt) t (c\<lparr>entrys := (entrys c)(e := v)\<rparr>) =
      cache_put guid_entry_cmp zero_guid_entry e (guid_idx s (g, gt)) (v\<lparr>seen := t\<rparr>) c" for e s v c
    by (simp add: guid_add_finish_def cache_put_def guid_rb_cache_insert_def guid_cache_entry_free_def guid_idx_def cong: if_cong)
  have entry: "guid_add_entry gt t c = cache_take (\<lambda>e. seen e < t \<and> gt_num (gtype e) > gt_num gt) c" for c
    by (simp add: guid_add_entry_def cache_take_def guid_cache_last_def guid_rb_cache_remove_def guid_cache_entry_alloc_def cong: if_cong)
  show ?thesis
    using assms unfolding g2_guid_add_def cache_add_def Let_def lookup entry finish guid_rb_cache_remove_def guid_cache_entry_free_def
    by (simp add: not_le bind_if finish cong: if_cong)
qed

lemma guid_add_ok:
  assumes "guid_ok c" "combo_addr_is_public addr" "time_ok t"
  shows "\<exists>c'. g2_guid_add g addr t gt c = Some (guid_find c (g, gt) \<noteq> None, c') \<and> guid_ok c' \<and>
    add_spec seen (g, gt) (\<lambda>e. seen e < t) (\<lambda>e. seen e < t \<and> gt_num (gtype e) > gt_num gt) (\<lambda>e. e\<lparr>gtype := gt, seen := t\<rparr>)
      \<lparr>na = addr, guid = g, seen = t, gtype = gt\<rparr> (free_list c = []) (guid_find c) (guid_find c')"
proof -
  obtain xs where inv: "guid_inv {} xs c" using assms(1) by (auto simp: guid_ok_def)
  have "GUID_CACHE_SIZE > 0" by (simp add: GUID_CACHE_SIZE_def)
  from guid.add_ok[OF inv refl this, where k = "(g, gt)" and new = "\<lparr>na = addr, guid = g, seen = t, gtype = gt\<rparr>"
      and fresh = "\<lambda>e. e\<lparr>guid := g, gtype := gt, na := addr, seen := t\<rparr>" and refresh = "\<lambda>e. e\<lparr>gtype := gt, seen := t\<rparr>"
      and zero = zero_guid_entry and stale = "\<lambda>e. seen e < t" and replace = "\<lambda>e. seen e < t \<and> gt_num (gtype e) > gt_num gt"]
  obtain c' xs' where c': "g2_guid_add g addr t gt c = Some (guid_find c (g, gt) \<noteq> None, c')" "guid.ok (ht_seed c) {} xs' c'"
    "ht_seed c' = ht_seed c"
    "add_spec seen (g, gt) (\<lambda>e. seen e < t) (\<lambda>e. seen e < t \<and> gt_num (gtype e) > gt_num gt) (\<lambda>e. e\<lparr>gtype := gt, seen := t\<rparr>)
      \<lparr>na = addr, guid = g, seen = t, gtype = gt\<rparr> (free_list c = []) (guid_find c) (guid.found (ht_seed c) c')"
    using assms(3) unfolding guid_add_shape[OF assms(2)] guid_find_found[symmetric] by (auto simp: guid_key_def)
  have "guid_find c' = guid.found (ht_seed c) c'" by (simp only: guid_find_found c'(3))
  moreover have "guid_ok c'" using c'(2) unfolding guid_ok_def c'(3) by blast
  ultimately show ?thesis using c'(1,4) by (intro exI[of _ c']) (simp only:)
qed

lemma guid_init_ok: "guid_ok (g2_guid_init seed)"
proof -
  have "guid_inv {} [] (g2_guid_init seed)" by (rule guid.empty_ok) (simp_all add: g2_guid_init_def)
  then show ?thesis by (auto simp: guid_ok_def)
qed

lemma guid_lookup_find: "g2_guid_lookup g gt c = map_option na (guid_find c (g, gt))"
  by (simp add: g2_guid_lookup_def guid_find_def Let_def)

subsection \<open>Properties\<close>

text \<open>
  C25: Adding a GUID with a public address to a cache whose free list, hash table and tree are in order never follows a bad
  pointer, tells whether the GUID was known, leaves the cache in order, and changes the map as specified:
  a known entry is only made younger, a new one takes a free place or that of an oldest entry
  that is older than it and of a less important type, and otherwise, if the cache is full, the new one is refused, even if there are younger
  entries of less important types.
\<close>

theorem guid_add_correct:
  assumes "guid_ok c" "combo_addr_is_public addr" "time_ok t"
  shows "\<exists>c'. g2_guid_add g addr t gt c = Some (guid_find c (g, gt) \<noteq> None, c') \<and> guid_ok c' \<and>
    add_spec seen (g, gt) (\<lambda>e. seen e < t) (\<lambda>e. seen e < t \<and> gt_num (gtype e) > gt_num gt) (\<lambda>e. e\<lparr>gtype := gt, seen := t\<rparr>)
      \<lparr>na = addr, guid = g, seen = t, gtype = gt\<rparr> (free_list c = []) (guid_find c) (guid_find c')"
  by (rule guid_add_ok[OF assms])

lemma example_public: "combo_addr_is_public (In (htonl 0x08080808) 6346)"
  by code_simp

theorem guid_add_correct_witness:
  "guid_ok (g2_guid_init 7) \<and>
   (\<exists>c'. g2_guid_add (1, 2) (In (htonl 0x08080808) 6346) 100 GT_LEAF (g2_guid_init 7) =
     Some (guid_find (g2_guid_init 7) ((1, 2), GT_LEAF) \<noteq> None, c') \<and> guid_ok c')"
proof -
  have "time_ok 100" by (simp add: time_ok_def)
  from guid_add_correct[OF guid_init_ok example_public this] show ?thesis using guid_init_ok by blast
qed

text \<open>
  A lookup after adding, while there are free places: a new GUID is found with its address; a known
  one keeps the address it was first seen with, whatever the new one is; every other key is found as before.
\<close>

theorem guid_lookup_after_add:
  assumes "guid_ok c" "combo_addr_is_public addr" "time_ok t" "free_list c \<noteq> []" "g2_guid_add g addr t gt c = Some (known, c')"
  shows "g2_guid_lookup g gt c' = (case g2_guid_lookup g gt c of None \<Rightarrow> Some addr | Some first \<Rightarrow> Some first) \<and>
    (\<forall>g' gt'. (g', gt') \<noteq> (g, gt) \<longrightarrow> g2_guid_lookup g' gt' c' = g2_guid_lookup g' gt' c)"
  using guid_add_ok[OF assms(1,2,3), of g gt] assms(4,5)
  by (auto simp: guid_lookup_find add_spec_def split: option.splits if_splits)

theorem guid_lookup_after_add_witness:
  "\<exists>c' known. g2_guid_add (1, 2) (In (htonl 0x08080808) 6346) 100 GT_LEAF (g2_guid_init 7) = Some (known, c') \<and>
     g2_guid_lookup (1, 2) GT_LEAF c' = Some (In (htonl 0x08080808) 6346)"
proof -
  let ?a = "In (htonl 0x08080808) 6346"
  have t: "time_ok 100" by (simp add: time_ok_def)
  obtain known c' where c': "g2_guid_add (1, 2) ?a 100 GT_LEAF (g2_guid_init 7) = Some (known, c')"
    using guid_add_ok[OF guid_init_ok example_public t] by blast
  have free: "free_list (g2_guid_init 7) \<noteq> []" by (simp add: g2_guid_init_def) (simp add: GUID_CACHE_SIZE_def)
  have "g2_guid_lookup (1, 2) GT_LEAF (g2_guid_init 7) = None"
    by (simp add: g2_guid_lookup_def cache_ht_lookup_def chain_find_def g2_guid_init_def ht_index_less)
  with guid_lookup_after_add[OF guid_init_ok example_public t free c'] c' show ?thesis by auto
qed

end
