(* ===== verification/Query_Key.thy ===== *)
theory Query_Key
  imports Timed_Cache Combo_Addr
begin

text \<open>
  Query keys, \<^verbatim>\<open>G2QueryKey.c\<close>: the keys this hub hands out and checks, with the ring of salts they
  depend on, and the cache of keys other hubs gave us.  Also the generator of GUIDs, \<^verbatim>\<open>lib/guid.c\<close>, which
  is keyed anew with the salts.

  What \<open>random_bytes_get\<close> will hand out is a function from positions to bytes.  The block cipher is a
  parameter: \<open>key256\<close> expands a key and \<open>ecb\<close> encrypts a block.
\<close>

subsection \<open>Random bytes\<close>

type_synonym random = "nat \<Rightarrow> byte"

definition random_bytes_get :: "nat \<Rightarrow> random \<Rightarrow> byte list \<times> random" where
  "random_bytes_get n r = (map r [0..<n], \<lambda>i. r (i + n))"

subsection \<open>GUIDs\<close>

definition GUID_SIZE :: nat where
  "GUID_SIZE = 16"

definition RAND_BLOCK_BYTE :: nat where
  "RAND_BLOCK_BYTE = 16"

record 'k guid_gen =
  ae_ctx :: 'k
  l_res :: "byte list"

definition guid_tick :: "(byte list \<Rightarrow> 'k) \<Rightarrow> random \<Rightarrow> 'k guid_gen \<times> random" where
  "guid_tick key256 r =
     (let (key, r) = random_bytes_get (RAND_BLOCK_BYTE * 2 + GUID_SIZE) r
      in (\<lparr>ae_ctx = key256 (take (RAND_BLOCK_BYTE * 2) key), l_res = take GUID_SIZE (drop RAND_BLOCK_BYTE key)\<rparr>, r))"

definition guid_generate :: "('k \<Rightarrow> byte list \<Rightarrow> byte list) \<Rightarrow> 'k guid_gen \<Rightarrow> random \<Rightarrow> byte list \<times> 'k guid_gen \<times> random" where
  "guid_generate ecb g r =
     (let (out, r) = random_bytes_get GUID_SIZE r;
          t = ecb (ae_ctx g) (l_res g);
          l = map2 (XOR) t out;
          out = l;
          out = out[8 := (out ! 8 AND 0x3f) OR 0x80];
          out = out[7 := (out ! 7 AND 0x0f) OR 0x40]
      in (out, g\<lparr>l_res := l\<rparr>, r))"

text \<open>The value of a hex digit, \<open>-1\<close> for any other character; characters are kept as \<open>int\<close>.\<close>

definition get_xnum_a :: "int \<Rightarrow> int" where
  "get_xnum_a c =
     (if 48 \<le> c \<and> c < 58 then c - 48
      else if 65 \<le> c \<and> c < 71 then c - 65 + 10
      else if 97 \<le> c \<and> c < 103 then c - 97 + 10
      else -1)"

definition GUID_STR_SIZE :: nat where
  "GUID_STR_SIZE = 36"

text \<open>The loop of \<open>guid_read\<close>: the number of digits read and the bytes stored.\<close>

fun guid_read_loop :: "int list \<Rightarrow> nat \<Rightarrow> int \<Rightarrow> byte list \<Rightarrow> nat \<times> byte list" where
  "guid_read_loop [] i acc res = (i, res)"
| "guid_read_loop (c # src) i acc res =
     (if \<not> i < GUID_SIZE * 2 then (i, res)
      else if c = 45 then guid_read_loop src i acc res
      else
        (let t = get_xnum_a c
         in if 0 > t then (i, res)
            else let acc = or acc t
            in if i mod 2 \<noteq> 0 then guid_read_loop src (i + 1) 0 (res[i div 2 := word_of_int acc])
               else guid_read_loop src (i + 1) (acc * 16) res))"

definition guid_read :: "byte list \<Rightarrow> int list \<Rightarrow> bool \<times> byte list" where
  "guid_read res src =
     (if GUID_STR_SIZE > length src then (False, res)
      else let (i, res) = guid_read_loop src 0 0 res
      in if GUID_SIZE * 2 + 1 > i then (False, res) else (True, res))"

subsection \<open>Salts\<close>

definition TIME_SLOT_COUNT :: nat where
  "TIME_SLOT_COUNT = 8"

definition TIME_SLOT_COUNT_MASK :: u32 where
  "TIME_SLOT_COUNT_MASK = NOT (word_of_nat TIME_SLOT_COUNT - 1)"

definition TIME_SLOT_SECS :: int where
  "TIME_SLOT_SECS = 60 * 60"

definition TIME_SLOT_ELEM :: nat where
  "TIME_SLOT_ELEM = 64"

text \<open>A slot is \<open>uint32_t[TIME_SLOT_ELEM + 1][2]\<close>; it is kept as its bytes.\<close>

definition salt_bytes :: nat where
  "salt_bytes = (TIME_SLOT_ELEM + 1) * 2 * 4"

record g2_qk_salts =
  salts :: "byte list list"
  act_salt :: nat
  last_update :: int

definition salt :: "byte list \<Rightarrow> nat \<Rightarrow> nat \<Rightarrow> u32" where
  "salt slot i k = word_of_nat (le_value (take 4 (drop ((i * 2 + k) * 4) slot)))"

text \<open>Replacing a zero byte: \<open>buf\<close> is the rest of the 16 random bytes in \<open>r\<close>.\<close>

partial_function (option) nonzero_byte :: "byte \<Rightarrow> byte list \<Rightarrow> random \<Rightarrow> (byte \<times> byte list \<times> random) option" where
  "nonzero_byte b buf r =
     (if b \<noteq> 0 then Some (b, buf, r)
      else let (buf, r) = (if buf = [] then random_bytes_get 16 r else (buf, r))
      in nonzero_byte (hd buf) (tl buf) r)"

fun check_salt_loop :: "byte list \<Rightarrow> byte list \<Rightarrow> random \<Rightarrow> (byte list \<times> random) option" where
  "check_salt_loop [] buf r = Some ([], r)"
| "check_salt_loop (b # slt) buf r = do {
     (b, buf, r) \<leftarrow> nonzero_byte b buf r;
     (slt, r) \<leftarrow> check_salt_loop slt buf r;
     Some (b # slt, r) }"

definition check_salt_vals :: "byte list \<Rightarrow> random \<Rightarrow> (byte list \<times> random) option" where
  "check_salt_vals slt r = check_salt_loop slt [] r"

fun check_all :: "byte list list \<Rightarrow> random \<Rightarrow> (byte list list \<times> random) option" where
  "check_all [] r = Some ([], r)"
| "check_all (s # ss) r = do {
     (s, r) \<leftarrow> check_salt_vals s r;
     (ss, r) \<leftarrow> check_all ss r;
     Some (s # ss, r) }"

text \<open>Cutting the bytes of \<open>salts\<close> into slots.\<close>

fun slots_of :: "nat \<Rightarrow> byte list \<Rightarrow> byte list list" where
  "slots_of 0 bs = []"
| "slots_of (Suc n) bs = take salt_bytes bs # slots_of n (drop salt_bytes bs)"

record 'k qk_globals =
  g2_qk_s :: g2_qk_salts
  server_last_rekey :: int
  gen :: "'k guid_gen"

text \<open>The seed of the hash table of the cache comes first in the result.\<close>

definition g2_qk_init :: "(byte list \<Rightarrow> 'k) \<Rightarrow> int \<Rightarrow> random \<Rightarrow> (u32 \<times> 'k qk_globals \<times> random) option" where
  "g2_qk_init key256 now r = do {
     let (bs, r) = random_bytes_get (TIME_SLOT_COUNT * salt_bytes) r;
     (ss, r) \<leftarrow> check_all (slots_of TIME_SLOT_COUNT bs) r;
     let (seed, r) = random_bytes_get 4 r;
     let (i, r) = random_bytes_get 4 r;
     let s = \<lparr>salts = ss, act_salt = le_value i mod TIME_SLOT_COUNT, last_update = now\<rparr>;
     let (g, r) = guid_tick key256 r;
     Some (word_of_nat (le_value seed), \<lparr>g2_qk_s = s, server_last_rekey = now + 70 * 60 - 60 * 60 * 24, gen = g\<rparr>, r) }"

text \<open>\<open>rekey\<close> is what fresh entropy makes of the random generator.\<close>

definition g2_qk_tick :: "(byte list \<Rightarrow> 'k) \<Rightarrow> (random \<Rightarrow> random) \<Rightarrow> int \<Rightarrow> 'k qk_globals \<Rightarrow> random \<Rightarrow> ('k qk_globals \<times> random) option" where
  "g2_qk_tick key256 rekey local_time_now s r =
     (let (s, r) = (if \<bar>local_time_now - server_last_rekey s\<bar> > 60 * 60 * 24
                    then (s\<lparr>server_last_rekey := local_time_now\<rparr>, rekey r) else (s, r));
          q = g2_qk_s s
      in if \<bar>local_time_now - last_update q\<bar> < TIME_SLOT_SECS then Some (s, r)
         else do {
           let n_salt = (act_salt q + 1) mod TIME_SLOT_COUNT;
           let (slt, r) = random_bytes_get salt_bytes r;
           (slt, r) \<leftarrow> check_salt_vals slt r;
           let (t, r) = random_bytes_get 4 r;
           let q = q\<lparr>salts := (salts q)[n_salt := slt], act_salt := n_salt, last_update := local_time_now\<rparr>;
           let (g, r) = guid_tick key256 r;
           Some (s\<lparr>g2_qk_s := q, gen := g\<rparr>, r) })"

subsection \<open>Keys\<close>

definition addr_hash_generate :: "g2_qk_salts \<Rightarrow> combo_addr \<Rightarrow> nat \<Rightarrow> u32" where
  "addr_hash_generate q source salt2use =
     (let w = combo_addr_lin_ip source;
          slot = salts q ! salt2use;
          h = hthash32_mod w (salt slot TIME_SLOT_ELEM 0) (salt slot TIME_SLOT_ELEM 1);
          h = h XOR drop_bit 16 h;
          h = h XOR drop_bit 8 h;
          h = h XOR drop_bit 4 h;
          e = unat h mod TIME_SLOT_ELEM
      in hthash32_mod w (salt slot e 0) (salt slot e 1))"

definition g2_qk_generate :: "g2_qk_salts \<Rightarrow> combo_addr \<Rightarrow> u32" where
  "g2_qk_generate q source =
     (addr_hash_generate q source (act_salt q) AND TIME_SLOT_COUNT_MASK) OR word_of_nat (act_salt q)"

definition g2_qk_check :: "g2_qk_salts \<Rightarrow> combo_addr \<Rightarrow> u32 \<Rightarrow> bool" where
  "g2_qk_check q source key \<longleftrightarrow>
     addr_hash_generate q source (unat (key AND NOT TIME_SLOT_COUNT_MASK)) AND TIME_SLOT_COUNT_MASK =
     key AND TIME_SLOT_COUNT_MASK"

subsection \<open>Salts are never zero\<close>

text \<open>A random generator that never stops to hand out bytes other than zero.\<close>

definition lively :: "random \<Rightarrow> bool" where
  "lively r \<longleftrightarrow> (\<forall>n. \<exists>m\<ge>n. r m \<noteq> 0)"

lemma lively_shift [simp]: "lively r \<Longrightarrow> lively (\<lambda>i. r (i + n))"
  unfolding lively_def
proof
  fix k assume "\<forall>n. \<exists>m\<ge>n. r m \<noteq> 0"
  then obtain m where "m \<ge> k + n" "r m \<noteq> 0" by blast
  then show "\<exists>m\<ge>k. r (m + n) \<noteq> 0" by (intro exI[of _ "m - n"]) simp
qed

lemma lively_get: "random_bytes_get n r = (bs, r') \<Longrightarrow> lively r \<Longrightarrow> lively r' \<and> length bs = n"
  by (auto simp: random_bytes_get_def)

definition upcoming :: "byte list \<Rightarrow> random \<Rightarrow> random" where
  "upcoming buf r i = (if i < length buf then buf ! i else r (i - length buf))"

lemma refill:
  assumes "lively r"
  obtains x buf' r' where "(if buf = [] then random_bytes_get 16 r else (buf, r)) = (x # buf', r')" "lively r'"
    "x = upcoming buf r 0" "\<And>n. upcoming buf' r' n = upcoming buf r (Suc n)"
proof (cases buf)
  case Nil
  have "map r [0..<16] = r 0 # map r [1..<16]" by (subst upt_conv_Cons) simp_all
  then show thesis using assms Nil
    by (intro that[of "r 0" "map r [1..<16]" "\<lambda>i. r (i + 16)"]) (auto simp: random_bytes_get_def upcoming_def simp del: upt_conv_Cons_Cons)
next
  case (Cons x buf')
  then show thesis using assms by (intro that[of x buf' r]) (auto simp: upcoming_def)
qed

lemma nonzero_byte_total:
  assumes "upcoming buf r n \<noteq> 0" "lively r"
  shows "\<exists>b' buf' r'. nonzero_byte b buf r = Some (b', buf', r') \<and> b' \<noteq> 0 \<and> lively r'"
  using assms
proof (induction n arbitrary: b buf r)
  case 0
  obtain x buf' r' where x: "(if buf = [] then random_bytes_get 16 r else (buf, r)) = (x # buf', r')" "lively r'" "x \<noteq> 0"
    using refill[OF 0(2), of buf] 0(1) by metis
  have "nonzero_byte x buf' r' = Some (x, buf', r')" using x(3) by (subst nonzero_byte.simps) simp
  with x 0(2) show ?case by (cases "b = 0") (subst nonzero_byte.simps, simp add: Let_def)+
next
  case (Suc n)
  obtain x buf' r' where x: "(if buf = [] then random_bytes_get 16 r else (buf, r)) = (x # buf', r')" "lively r'"
    "upcoming buf' r' n \<noteq> 0" using refill[OF Suc(3), of buf] Suc(2) by metis
  from Suc(1)[OF x(3,2), of x] x(1) show ?case
    using Suc(3) by (cases "b = 0") (subst nonzero_byte.simps, simp add: Let_def)+
qed

lemma nonzero_byte_lively:
  assumes "lively r"
  shows "\<exists>b' buf' r'. nonzero_byte b buf r = Some (b', buf', r') \<and> b' \<noteq> 0 \<and> lively r'"
proof -
  obtain m where "r m \<noteq> 0" using assms by (auto simp: lively_def)
  then have "upcoming buf r (m + length buf) \<noteq> 0" by (simp add: upcoming_def)
  from nonzero_byte_total[OF this assms] show ?thesis .
qed

lemma check_salt_loop_ok:
  "lively r \<Longrightarrow> \<exists>slt' r'. check_salt_loop slt buf r = Some (slt', r') \<and> length slt' = length slt \<and> 0 \<notin> set slt' \<and> lively r'"
proof (induction slt arbitrary: buf r)
  case (Cons b slt)
  obtain b' buf' r' where b: "nonzero_byte b buf r = Some (b', buf', r')" "b' \<noteq> 0" "lively r'"
    using nonzero_byte_lively[OF Cons(2)] by blast
  from Cons(1)[OF b(3), of buf'] b show ?case by auto
qed simp

definition salted :: "byte list \<Rightarrow> bool" where
  "salted slt \<longleftrightarrow> length slt = salt_bytes \<and> 0 \<notin> set slt"

lemma check_salt_vals_ok:
  assumes "lively r" "length slt = salt_bytes"
  shows "\<exists>slt' r'. check_salt_vals slt r = Some (slt', r') \<and> salted slt' \<and> lively r'"
  using check_salt_loop_ok[OF assms(1), of slt "[]"] assms(2) by (auto simp: check_salt_vals_def salted_def)

lemma check_all_ok:
  "lively r \<Longrightarrow> \<forall>s\<in>set ss. length s = salt_bytes \<Longrightarrow>
   \<exists>ss' r'. check_all ss r = Some (ss', r') \<and> length ss' = length ss \<and> (\<forall>s\<in>set ss'. salted s) \<and> lively r'"
proof (induction ss arbitrary: r)
  case (Cons s ss)
  obtain s' r' where s: "check_salt_vals s r = Some (s', r')" "salted s'" "lively r'"
    using check_salt_vals_ok[OF Cons(2), of s] Cons(3) by auto
  from Cons(1)[OF s(3)] Cons(3) s show ?case by auto
qed simp

lemma slots_of_length: "length bs = n * salt_bytes \<Longrightarrow> length (slots_of n bs) = n \<and> (\<forall>s\<in>set (slots_of n bs). length s = salt_bytes)"
  by (induction n bs rule: slots_of.induct) auto

definition qk_ok :: "g2_qk_salts \<Rightarrow> bool" where
  "qk_ok q \<longleftrightarrow> length (salts q) = TIME_SLOT_COUNT \<and> (\<forall>s\<in>set (salts q). salted s) \<and> act_salt q < TIME_SLOT_COUNT"

lemma guid_tick_lively: "lively r \<Longrightarrow> \<exists>g r'. guid_tick key256 r = (g, r') \<and> lively r' \<and> length (l_res g) = GUID_SIZE"
  by (auto simp: guid_tick_def random_bytes_get_def Let_def RAND_BLOCK_BYTE_def GUID_SIZE_def)

lemma qk_init_ok:
  assumes "lively r"
  shows "\<exists>seed s r'. g2_qk_init key256 now r = Some (seed, s, r') \<and> qk_ok (g2_qk_s s) \<and> last_update (g2_qk_s s) = now \<and> lively r'"
proof -
  let ?n = "TIME_SLOT_COUNT * salt_bytes"
  let ?bs = "map r [0..<?n]" and ?r = "\<lambda>i. r (i + ?n)"
  obtain ss r1 where ss: "check_all (slots_of TIME_SLOT_COUNT ?bs) ?r = Some (ss, r1)" "length ss = TIME_SLOT_COUNT"
    "\<forall>s\<in>set ss. salted s" "lively r1"
    using check_all_ok[of ?r "slots_of TIME_SLOT_COUNT ?bs"] slots_of_length[of ?bs TIME_SLOT_COUNT] assms by auto
  obtain g r2 where "guid_tick key256 (\<lambda>i. r1 (i + 4 + 4)) = (g, r2)" "lively r2"
    using guid_tick_lively[of "\<lambda>i. r1 (i + 4 + 4)" key256] lively_shift[OF lively_shift[OF ss(4), of 4], of 4] by auto
  then show ?thesis using ss by (auto simp: g2_qk_init_def random_bytes_get_def qk_ok_def TIME_SLOT_COUNT_def)
qed

text \<open>One tick: either the salts stay, or the next slot of the ring gets fresh salts.\<close>

lemma qk_tick_cases:
  assumes "lively r" "\<And>r. lively r \<Longrightarrow> lively (rekey r)" "qk_ok (g2_qk_s s)"
  obtains s' r' where "g2_qk_tick key256 rekey now s r = Some (s', r')" "lively r'" "g2_qk_s s' = g2_qk_s s"
    "\<bar>now - last_update (g2_qk_s s)\<bar> < TIME_SLOT_SECS"
  | s' r' slt where "g2_qk_tick key256 rekey now s r = Some (s', r')" "lively r'" "salted slt"
    "g2_qk_s s' = (let q = g2_qk_s s; n = (act_salt q + 1) mod TIME_SLOT_COUNT
                   in \<lparr>salts = (salts q)[n := slt], act_salt = n, last_update = now\<rparr>)"
    "\<bar>now - last_update (g2_qk_s s)\<bar> \<ge> TIME_SLOT_SECS"
proof -
  obtain s1 r1 where s1: "(if \<bar>now - server_last_rekey s\<bar> > 60 * 60 * 24 then (s\<lparr>server_last_rekey := now\<rparr>, rekey r) else (s, r)) = (s1, r1)"
    "g2_qk_s s1 = g2_qk_s s" "lively r1" using assms by (cases "\<bar>now - server_last_rekey s\<bar> > 60 * 60 * 24") auto
  show thesis
  proof (cases "\<bar>now - last_update (g2_qk_s s)\<bar> < TIME_SLOT_SECS")
    case True
    then show thesis by (intro that(1)[of s1 r1]) (simp_all add: s1(2,3), simp add: g2_qk_tick_def s1(1,2)[simplified])
  next
    case False
    obtain slt r2 where slt: "check_salt_vals (map r1 [0..<salt_bytes]) (\<lambda>i. r1 (i + salt_bytes)) = Some (slt, r2)" "salted slt" "lively r2"
      using check_salt_vals_ok[OF lively_shift[OF s1(3), of salt_bytes], of "map r1 [0..<salt_bytes]"] by auto
    obtain g r3 where g: "guid_tick key256 (\<lambda>i. r2 (i + 4)) = (g, r3)" "lively r3"
      using guid_tick_lively[of "\<lambda>i. r2 (i + 4)"] slt(3) by (metis lively_shift)
    have tick: "g2_qk_tick key256 rekey now s r = Some (s1\<lparr>g2_qk_s := (let q = g2_qk_s s; n = (act_salt q + 1) mod TIME_SLOT_COUNT
        in q\<lparr>salts := (salts q)[n := slt], act_salt := n, last_update := now\<rparr>), gen := g\<rparr>, r3)"
      using False by (simp add: g2_qk_tick_def s1(1,2)[simplified] Let_def random_bytes_get_def slt(1) g(1))
    show thesis by (rule that(2)[OF tick g(2) slt(2)]) (use False in \<open>simp_all add: Let_def\<close>)
  qed
qed

subsection \<open>How long a key is good\<close>

lemma TIME_SLOT_COUNT_MASK_eq: "TIME_SLOT_COUNT_MASK = NOT (mask 3)"
  by (simp add: TIME_SLOT_COUNT_MASK_def TIME_SLOT_COUNT_def mask_eq_exp_minus_1)

lemma key_parts:
  fixes h :: u32
  assumes "a < TIME_SLOT_COUNT"
  shows "unat ((h AND TIME_SLOT_COUNT_MASK OR word_of_nat a) AND NOT TIME_SLOT_COUNT_MASK) = a" (is "unat ?l = a")
    and "(h AND TIME_SLOT_COUNT_MASK OR word_of_nat a) AND TIME_SLOT_COUNT_MASK = h AND TIME_SLOT_COUNT_MASK" (is "?r = _")
proof -
  have a: "a < 2 ^ 3" using assms by (simp add: TIME_SLOT_COUNT_def)
  have w: "word_of_nat a = take_bit 3 (word_of_nat a :: u32)"
    using a by (simp add: take_bit_of_nat take_bit_nat_eq_self)
  have "?l = word_of_nat a"
    unfolding TIME_SLOT_COUNT_MASK_eq by (subst (1 2) w, rule bit_word_eqI) (auto simp: bit_simps)
  then show "unat ?l = a" using a by (simp add: unat_of_nat)
  show "?r = h AND TIME_SLOT_COUNT_MASK"
    unfolding TIME_SLOT_COUNT_MASK_eq by (subst w, rule bit_word_eqI) (auto simp: bit_simps)
qed

lemma check_generated:
  assumes "act_salt q < TIME_SLOT_COUNT" "salts q' ! act_salt q = salts q ! act_salt q"
  shows "g2_qk_check q' source (g2_qk_generate q source)"
  using assms(2) unfolding g2_qk_check_def g2_qk_generate_def key_parts[OF assms(1)]
  by (simp add: addr_hash_generate_def Let_def)

text \<open>The main loop calls \<open>g2_qk_tick\<close> again and again; the times of the calls.\<close>

fun qk_ticks :: "(byte list \<Rightarrow> 'k) \<Rightarrow> (random \<Rightarrow> random) \<Rightarrow> int list \<Rightarrow> 'k qk_globals \<Rightarrow> random \<Rightarrow> ('k qk_globals \<times> random) option" where
  "qk_ticks key256 rekey [] s r = Some (s, r)"
| "qk_ticks key256 rekey (now # ts) s r = do {
     (s, r) \<leftarrow> g2_qk_tick key256 rekey now s r;
     qk_ticks key256 rekey ts s r }"

text \<open>
  After \<open>n\<close> slots were salted anew, starting from \<open>q\<close>: \<open>n\<close> hours have passed at least, and as long as
  the ring has not come round the slot of \<open>q\<close> is the same.
\<close>

definition qk_aged :: "g2_qk_salts \<Rightarrow> nat \<Rightarrow> g2_qk_salts \<Rightarrow> bool" where
  "qk_aged q n q' \<longleftrightarrow> qk_ok q' \<and> act_salt q' = (act_salt q + n) mod TIME_SLOT_COUNT \<and>
     last_update q' \<ge> last_update q + int n * TIME_SLOT_SECS \<and>
     (n < TIME_SLOT_COUNT \<longrightarrow> salts q' ! act_salt q = salts q ! act_salt q)"

lemma qk_aged_refl: "qk_ok q \<Longrightarrow> qk_aged q 0 q"
  by (simp add: qk_aged_def qk_ok_def)

lemma ring_not_round:
  assumes "a < TIME_SLOT_COUNT" "Suc n < TIME_SLOT_COUNT"
  shows "((a + n) mod TIME_SLOT_COUNT + 1) mod TIME_SLOT_COUNT \<noteq> a"
  using assms unfolding TIME_SLOT_COUNT_def by presburger

lemma qk_aged_salt:
  assumes "qk_aged q n q'" "qk_ok q" "salted slt" "now - last_update q' \<ge> TIME_SLOT_SECS"
  shows "qk_aged q (Suc n) (let n = (act_salt q' + 1) mod TIME_SLOT_COUNT
    in \<lparr>salts = (salts q')[n := slt], act_salt = n, last_update = now\<rparr>)"
proof -
  have "((act_salt q + n) mod TIME_SLOT_COUNT + 1) mod TIME_SLOT_COUNT \<noteq> act_salt q" if "Suc n < TIME_SLOT_COUNT"
    using ring_not_round[OF _ that] assms(2) by (simp add: qk_ok_def)
  moreover have "((act_salt q + n) mod TIME_SLOT_COUNT + 1) mod TIME_SLOT_COUNT = (act_salt q + Suc n) mod TIME_SLOT_COUNT"
    by (simp add: mod_Suc_eq)
  moreover have "set ((salts q')[m := slt]) \<subseteq> insert slt (set (salts q'))" for m by (rule set_update_subset_insert)
  moreover have "TIME_SLOT_COUNT > 0" by (simp add: TIME_SLOT_COUNT_def)
  ultimately show ?thesis
    using assms unfolding qk_aged_def qk_ok_def Let_def by (auto simp: algebra_simps)
qed

lemma qk_ticks_aged:
  assumes "qk_ok q" "lively r" "\<And>r. lively r \<Longrightarrow> lively (rekey r)" "qk_aged q n (g2_qk_s s)"
    and "sorted (last_update (g2_qk_s s) # ts)"
  shows "\<exists>s' r' m. qk_ticks key256 rekey ts s r = Some (s', r') \<and> lively r' \<and> qk_aged q m (g2_qk_s s') \<and>
    last_update (g2_qk_s s') \<le> last (last_update (g2_qk_s s) # ts)"
  using assms(2,4,5)
proof (induction ts arbitrary: s r n)
  case (Cons now ts)
  have ok: "qk_ok (g2_qk_s s)" using Cons(3) by (simp add: qk_aged_def)
  have le: "last_update (g2_qk_s s) \<le> now" "now \<le> last (now # ts)" using Cons(4) by auto
  show ?case
  proof (rule qk_tick_cases[of r rekey s key256 now, OF Cons(2) assms(3) ok])
    fix s' r'
    assume 1: "g2_qk_tick key256 rekey now s r = Some (s', r')" "lively r'" "g2_qk_s s' = g2_qk_s s"
    have "sorted (last_update (g2_qk_s s') # ts)" using Cons(4) 1(3) by simp
    from Cons(1)[OF 1(2) _ this] Cons(3) 1 le show ?thesis by (cases ts) auto
  next
    fix s' r' slt
    assume 2: "g2_qk_tick key256 rekey now s r = Some (s', r')" "lively r'" "salted slt"
      "g2_qk_s s' = (let q = g2_qk_s s; n = (act_salt q + 1) mod TIME_SLOT_COUNT
                     in \<lparr>salts = (salts q)[n := slt], act_salt = n, last_update = now\<rparr>)"
      "\<bar>now - last_update (g2_qk_s s)\<bar> \<ge> TIME_SLOT_SECS"
    have aged: "qk_aged q (Suc n) (g2_qk_s s')"
      using qk_aged_salt[OF Cons(3) assms(1) 2(3)] 2(4,5) le(1) by (simp add: Let_def)
    have now: "last_update (g2_qk_s s') = now" using 2(4) by (simp add: Let_def)
    have "sorted (last_update (g2_qk_s s') # ts)" using Cons(4) now by simp
    from Cons(1)[OF 2(2) aged this] 2(1) now show ?thesis by auto
  qed
qed auto

subsection \<open>Properties of query keys\<close>

text \<open>
  C27: With a random generator that does not hand out zeros for ever, the salts are set up and every tick
  returns, and no byte of a salt is ever zero.
\<close>

theorem qk_salts_never_zero:
  assumes "lively r" "\<forall>r. lively r \<longrightarrow> lively (rekey r)" "sorted (t # ts)"
  shows "\<exists>seed s r1 s' r2. g2_qk_init key256 t r = Some (seed, s, r1) \<and> qk_ticks key256 rekey ts s r1 = Some (s', r2) \<and>
    length (salts (g2_qk_s s')) = TIME_SLOT_COUNT \<and> (\<forall>slot\<in>set (salts (g2_qk_s s')). length slot = salt_bytes \<and> 0 \<notin> set slot) \<and>
    act_salt (g2_qk_s s') < TIME_SLOT_COUNT"
proof -
  obtain seed s r1 where s: "g2_qk_init key256 t r = Some (seed, s, r1)" "qk_ok (g2_qk_s s)" "last_update (g2_qk_s s) = t" "lively r1"
    using qk_init_ok[OF assms(1)] by blast
  obtain s' r2 m where "qk_ticks key256 rekey ts s r1 = Some (s', r2)" "qk_aged (g2_qk_s s) m (g2_qk_s s')"
    using qk_ticks_aged[OF s(2,4) _ qk_aged_refl[OF s(2)], of rekey ts key256] assms(2,3) s(3) by blast
  with s(1) show ?thesis by (auto simp: qk_aged_def qk_ok_def salted_def)
qed

lemma lively_one: "lively (\<lambda>_. 1)"
  by (auto simp: lively_def)

theorem qk_salts_never_zero_witness:
  "\<exists>seed s r1 s' r2. g2_qk_init (\<lambda>k. k) 0 (\<lambda>_. 1) = Some (seed, s, r1) \<and> qk_ticks (\<lambda>k. k) (\<lambda>r. r) [10, 4000] s r1 = Some (s', r2) \<and>
    act_salt (g2_qk_s s') < TIME_SLOT_COUNT"
  using qk_salts_never_zero[OF lively_one, of "\<lambda>r. r" 0 "[10, 4000]" "\<lambda>k. k"] by auto

text \<open>
  C26: A key is accepted from the address it was made for until the slot it came from is eight hours old:
  however the ticks fall, as long as time does not run backwards and less than eight hours have passed
  since the salts of the slot were made, the check succeeds.
\<close>

theorem qk_valid_8_hours:
  assumes "qk_ok (g2_qk_s s)" "lively r" "\<forall>r. lively r \<longrightarrow> lively (rekey r)" "sorted (last_update (g2_qk_s s) # ts)"
    and "\<forall>t\<in>set ts. t < last_update (g2_qk_s s) + 8 * 60 * 60"
  shows "\<exists>s' r'. qk_ticks key256 rekey ts s r = Some (s', r') \<and>
    g2_qk_check (g2_qk_s s') source (g2_qk_generate (g2_qk_s s) source)"
proof -
  obtain s' r' m where s': "qk_ticks key256 rekey ts s r = Some (s', r')" "qk_aged (g2_qk_s s) m (g2_qk_s s')"
    "last_update (g2_qk_s s') \<le> last (last_update (g2_qk_s s) # ts)"
    using qk_ticks_aged[OF assms(1,2) _ qk_aged_refl[OF assms(1)] assms(4)] assms(3) by blast
  have "last (last_update (g2_qk_s s) # ts) < last_update (g2_qk_s s) + 8 * 60 * 60" using assms(5) by auto
  with s'(2,3) have "int m * 3600 < 8 * 3600" by (simp add: qk_aged_def TIME_SLOT_SECS_def)
  then have "m < TIME_SLOT_COUNT" by (simp add: TIME_SLOT_COUNT_def)
  with s'(2) have "salts (g2_qk_s s') ! act_salt (g2_qk_s s) = salts (g2_qk_s s) ! act_salt (g2_qk_s s)" by (simp add: qk_aged_def)
  with assms(1) s'(1) check_generated show ?thesis by (auto simp: qk_ok_def)
qed

definition example_qk :: "byte list qk_globals" where
  "example_qk = \<lparr>g2_qk_s = \<lparr>salts = replicate 8 (replicate salt_bytes 1), act_salt = 5, last_update = 0\<rparr>,
     server_last_rekey = 0, gen = \<lparr>ae_ctx = [], l_res = []\<rparr>\<rparr>"

theorem qk_valid_8_hours_witness:
  "\<exists>s' r'. qk_ticks (\<lambda>k. k) (\<lambda>r. r) [3000, 3600, 7200, 28799] example_qk (\<lambda>_. 1) = Some (s', r') \<and>
    g2_qk_check (g2_qk_s s') (In 0x08080808 6346) (g2_qk_generate (g2_qk_s example_qk) (In 0x08080808 6346))"
proof -
  have "qk_ok (g2_qk_s example_qk)" by (auto simp: example_qk_def qk_ok_def TIME_SLOT_COUNT_def salted_def)
  from qk_valid_8_hours[OF this lively_one, of "\<lambda>r. r" "[3000, 3600, 7200, 28799]"] show ?thesis
    by (simp add: example_qk_def)
qed

text \<open>
  C29: Every GUID that is made is marked as one of random bytes: two bits of its ninth byte and the version
  in its eighth byte, whatever the cipher gives.
\<close>

theorem guid_generate_version_4:
  assumes "length (ecb (ae_ctx g) (l_res g)) = GUID_SIZE" "guid_generate ecb g r = (out, g', r')"
  shows "length out = GUID_SIZE \<and> drop_bit 6 (out ! 8) = 2 \<and> drop_bit 4 (out ! 7) = 4 \<and>
    length (l_res g') = GUID_SIZE"
proof -
  have a: "drop_bit 6 ((x AND 0x3f) OR 0x80) = (2 :: byte)" for x :: byte
    by (simp add: drop_bit_or drop_bit_and)
  have b: "drop_bit 4 ((x AND 0x0f) OR 0x40) = (4 :: byte)" for x :: byte
    by (simp add: drop_bit_or drop_bit_and)
  show ?thesis using assms by (auto simp: guid_generate_def random_bytes_get_def Let_def GUID_SIZE_def a b)
qed

theorem guid_generate_version_4_witness:
  "length (fst (guid_generate (\<lambda>k b. b) \<lparr>ae_ctx = (), l_res = replicate 16 0\<rparr> (\<lambda>_. 255))) = GUID_SIZE"
  using guid_generate_version_4[of "\<lambda>k b. b" "\<lparr>ae_ctx = (), l_res = replicate 16 0\<rparr>" "\<lambda>_. 255"]
  by (auto simp: GUID_SIZE_def guid_generate_def random_bytes_get_def Let_def)

lemma guid_read_loop_le: "i \<le> GUID_SIZE * 2 \<Longrightarrow> fst (guid_read_loop src i acc res) \<le> GUID_SIZE * 2"
  by (induction src i acc res rule: guid_read_loop.induct) (simp_all add: Let_def)

text \<open>
  Reading what is written as pairs of digits: the bytes are stored, whatever dashes come in between.
\<close>

fun hex_pairs :: "byte list \<Rightarrow> int list \<Rightarrow> bool" where
  "hex_pairs [] cs \<longleftrightarrow> True"
| "hex_pairs (b # bs) cs \<longleftrightarrow>
     (case dropWhile (\<lambda>c. c = 45) cs of
        c # cs \<Rightarrow> (case dropWhile (\<lambda>c. c = 45) cs of
          d # cs \<Rightarrow> get_xnum_a c = uint b div 16 \<and> get_xnum_a d = uint b mod 16 \<and> hex_pairs bs cs
        | [] \<Rightarrow> False)
      | [] \<Rightarrow> False)"

lemma guid_read_skip:
  "i < 2 * GUID_SIZE \<Longrightarrow> guid_read_loop (dropWhile (\<lambda>c. c = 45) cs) i acc res = guid_read_loop cs i acc res"
  by (induction cs) simp_all

lemma two_digits: "or (uint (b :: byte) div 16 * 16) (uint b mod 16) = uint b"
proof -
  have "uint b div 16 * 16 = push_bit 4 (drop_bit 4 (uint b))" "uint b mod 16 = take_bit 4 (uint b)"
    by (simp_all add: push_bit_eq_mult drop_bit_eq_div take_bit_eq_mod)
  then show ?thesis by (simp only:, intro bit_eqI) (auto simp: bit_simps)
qed

lemma get_xnum_not_dash: "get_xnum_a 45 = -1"
  by (simp add: get_xnum_a_def)

lemma guid_read_loop_pairs:
  assumes "hex_pairs bs cs" "k + length bs = GUID_SIZE" "length res = GUID_SIZE"
  shows "guid_read_loop cs (2 * k) 0 res = (GUID_SIZE * 2, take k res @ bs)"
  using assms
proof (induction bs arbitrary: cs k res)
  case Nil
  then show ?case by (cases cs) simp_all
next
  case (Cons b bs)
  obtain c cs1 d cs2 where cs: "dropWhile (\<lambda>c. c = 45) cs = c # cs1" "dropWhile (\<lambda>c. c = 45) cs1 = d # cs2"
    "get_xnum_a c = uint b div 16" "get_xnum_a d = uint b mod 16" "hex_pairs bs cs2"
    using Cons(2) by (auto split: list.splits)
  have k: "k < GUID_SIZE" using Cons(3) by simp
  have pos: "0 \<le> uint b div 16" "0 \<le> uint b mod 16" by (simp_all add: pos_imp_zdiv_nonneg_iff)
  then have "0 \<le> get_xnum_a c" "0 \<le> get_xnum_a d" by (simp_all only: cs(3,4))
  then have nd: "c \<noteq> 45" "d \<noteq> 45" by (auto simp: get_xnum_not_dash)
  have "guid_read_loop cs (2 * k) 0 res = guid_read_loop (c # cs1) (2 * k) 0 res"
    using guid_read_skip[of "2 * k" cs] k cs(1) by simp
  also have "\<dots> = guid_read_loop (d # cs2) (2 * k + 1) (uint b div 16 * 16) res"
    using k nd(1) guid_read_skip[of "2 * k + 1" cs1] cs(2) pos by (simp add: cs(3) Let_def)
  also have "\<dots> = guid_read_loop cs2 (2 * (k + 1)) 0 (res[k := b])"
    using k nd(2) by (simp add: cs(4) Let_def two_digits linorder_not_less[THEN iffD2, OF pos(2)])
  also have "\<dots> = (GUID_SIZE * 2, take (k + 1) (res[k := b]) @ bs)" using Cons(1)[OF cs(5), of "k + 1" "res[k := b]"] Cons(3,4) by simp
  also have "take (k + 1) (res[k := b]) @ bs = take k res @ b # bs" using k Cons(4) by (simp add: take_Suc_conv_app_nth)
  finally show ?case .
qed

text \<open>
  \<open>guid_read\<close> stores the bytes that are written as hex digits, with or without dashes, but it never
  reports success: its loop stops after 32 digits and the result asks for 33.
\<close>

theorem guid_read_never_true:
  "\<not> fst (guid_read res src) \<and>
   (hex_pairs bs src \<and> length bs = GUID_SIZE \<and> length res = GUID_SIZE \<and> GUID_STR_SIZE \<le> length src \<longrightarrow>
    snd (guid_read res src) = bs)"
  using guid_read_loop_le[of 0 src 0 res] guid_read_loop_pairs[of bs src 0 res]
  by (auto simp: guid_read_def split: prod.splits)

theorem guid_read_never_true_witness:
  "let src = concat (replicate 8 [49, 50]) @ [45, 45, 45, 45] @ concat (replicate 8 [97, 70])
   in \<not> fst (guid_read (replicate 16 0) src) \<and> snd (guid_read (replicate 16 0) src) = replicate 8 0x12 @ replicate 8 0xAF"
proof -
  let ?src = "concat (replicate 8 [49, 50]) @ [45, 45, 45, 45] @ concat (replicate 8 [97, 70 :: int])"
  let ?bs = "replicate 8 0x12 @ replicate 8 0xAF :: byte list"
  have "hex_pairs ?bs ?src" by code_simp
  moreover have "length ?bs = GUID_SIZE" "length (replicate 16 0 :: byte list) = GUID_SIZE" "GUID_STR_SIZE \<le> length ?src"
    by (simp_all add: GUID_SIZE_def GUID_STR_SIZE_def numeral_eq_Suc)
  ultimately show ?thesis using guid_read_never_true[of "replicate 16 0" ?src ?bs] by (simp add: Let_def)
qed

end
