(* ===== verification/Query_Key_Cache.thy ===== *)
theory Query_Key_Cache
  imports Query_Key
begin

text \<open>
  The second half of \<^verbatim>\<open>G2QueryKey.c\<close>: the cache of the query keys other hubs gave us, by address.  The
  lock is left out, the operations are sequential.
\<close>

record qk_entry =
  na :: combo_addr
  qk :: u32
  stamp :: int

type_synonym qk_cache = "qk_entry cache"

definition QK_CACHE_SIZE :: nat where
  "QK_CACHE_SIZE = 2 ^ 12"

definition QK_CACHE_HTSIZE :: nat where
  "QK_CACHE_HTSIZE = QK_CACHE_SIZE div 8"

definition zero_qk_entry :: qk_entry where
  "zero_qk_entry = \<lparr>na = In 0 0, qk = 0, stamp = 0\<rparr>"

text \<open>The static cache after \<open>qk_init\<close>, with the seed from \<open>g2_qk_init\<close>.\<close>

definition qk_init :: "u32 \<Rightarrow> qk_cache" where
  "qk_init seed =
     \<lparr>free_list = rev [1..<QK_CACHE_SIZE + 1],
      tree = \<lparr>nodes = (\<lambda>p. if p \<in> {1..QK_CACHE_SIZE}
                then Some \<lparr>pc_parent = 0, pc_color = RB_RED, rb_right = 0, rb_left = 0\<rparr> else None), rb_root = 0\<rparr>,
      ht = replicate QK_CACHE_HTSIZE [], entrys = (\<lambda>_. zero_qk_entry), ht_seed = seed\<rparr>"

definition qk_ht_hash :: "u32 \<Rightarrow> combo_addr \<Rightarrow> u32" where
  "qk_ht_hash seed addr = combo_addr_hash addr seed"

definition qk_ht_index :: "u32 \<Rightarrow> nat" where
  "qk_ht_index h = unat (h AND word_of_nat (QK_CACHE_HTSIZE - 1))"

definition qk_ht_lookup :: "combo_addr \<Rightarrow> u32 \<Rightarrow> qk_cache \<Rightarrow> ptr" where
  "qk_ht_lookup addr h c = chain_find (\<lambda>e. same_addr addr (na e)) (qk_ht_index h) c"

definition qk_entry_cmp :: "qk_entry \<Rightarrow> qk_entry \<Rightarrow> int" where
  "qk_entry_cmp a b =
     (let ret = to_int (stamp a - stamp b) in if ret \<noteq> 0 then ret else combo_addr_cmp (na a) (na b))"

definition qk_rb_cache_insert :: "ptr \<Rightarrow> qk_cache \<Rightarrow> (bool \<times> qk_cache) option" where
  "qk_rb_cache_insert = rb_cache_insert qk_entry_cmp"

definition qk_rb_cache_remove :: "ptr \<Rightarrow> qk_cache \<Rightarrow> (bool \<times> qk_cache) option" where
  "qk_rb_cache_remove = rb_cache_remove"

definition qk_cache_last :: "qk_cache \<Rightarrow> ptr option" where
  "qk_cache_last = cache_last"

definition qk_cache_entry_alloc :: "qk_cache \<Rightarrow> (ptr \<times> qk_cache) option" where
  "qk_cache_entry_alloc = cache_entry_alloc"

definition qk_cache_entry_free :: "ptr \<Rightarrow> qk_cache \<Rightarrow> qk_cache option" where
  "qk_cache_entry_free = cache_entry_free zero_qk_entry"

definition qk_add_finish :: "ptr \<Rightarrow> u32 \<Rightarrow> u32 \<Rightarrow> int \<Rightarrow> qk_cache \<Rightarrow> qk_cache option" where
  "qk_add_finish e h key t c = do {
     let c = c\<lparr>entrys := (entrys c)(e := (entrys c e)\<lparr>qk := key, stamp := t\<rparr>)\<rparr>;
     (inserted, c) \<leftarrow> qk_rb_cache_insert e c;
     if \<not> inserted then qk_cache_entry_free e c
     else Some (cache_ht_add e (qk_ht_index h) c) }"

definition qk_add_entry :: "int \<Rightarrow> qk_cache \<Rightarrow> (ptr \<times> qk_cache) option" where
  "qk_add_entry t c = do {
     e \<leftarrow> qk_cache_last c;
     if e \<noteq> 0 \<and> stamp (entrys c e) < t \<and> free_list c = []
     then do {
       (removed, c) \<leftarrow> qk_rb_cache_remove e c;
       Some (if removed then e else 0, c) }
     else qk_cache_entry_alloc c }"

definition g2_qk_add :: "u32 \<Rightarrow> combo_addr \<Rightarrow> int \<Rightarrow> qk_cache \<Rightarrow> qk_cache option" where
  "g2_qk_add key addr local_time_now c =
     (if \<not> combo_addr_is_public addr then Some c
      else
        (let h = qk_ht_hash (ht_seed c) addr;
             t = local_time_now;
             e = qk_ht_lookup addr h c
         in if e \<noteq> 0 then
              (if stamp (entrys c e) \<ge> t then Some c
               else do {
                 (removed, c) \<leftarrow> qk_rb_cache_remove e c;
                 if \<not> removed then qk_cache_entry_free e c
                 else qk_add_finish e h key t c })
            else do {
              (e, c) \<leftarrow> qk_add_entry t c;
              if e = 0 then Some c
              else qk_add_finish e h key t (c\<lparr>entrys := (entrys c)(e := (entrys c e)\<lparr>na := addr\<rparr>)\<rparr>) }))"

definition g2_qk_lookup :: "combo_addr \<Rightarrow> qk_cache \<Rightarrow> u32 option" where
  "g2_qk_lookup addr c =
     (if \<not> combo_addr_is_public addr then None
      else let e = qk_ht_lookup addr (qk_ht_hash (ht_seed c) addr) c
      in if e = 0 then None else Some (qk (entrys c e)))"

subsection \<open>The contract of the entries\<close>

definition qk_idx :: "u32 \<Rightarrow> combo_addr \<Rightarrow> nat" where
  "qk_idx seed addr = qk_ht_index (qk_ht_hash seed addr)"

lemma qk_ht_index_less: "qk_ht_index h < QK_CACHE_HTSIZE"
proof -
  have "h AND 511 \<le> 511" by (rule word_and_le1)
  then have "unat (h AND 511) \<le> 511" by (simp add: word_le_nat_alt)
  then show ?thesis by (simp add: qk_ht_index_def QK_CACHE_HTSIZE_def QK_CACHE_SIZE_def)
qed

interpretation qk: timed_entries qk_entry_cmp stamp "\<lambda>e. stamp_ok (stamp e)" na "qk_idx seed"
  QK_CACHE_SIZE QK_CACHE_HTSIZE for seed
proof
  fix a b :: qk_entry
  assume ok: "stamp_ok (stamp a)" "stamp_ok (stamp b)"
  have d: "to_int (stamp a - stamp b) = stamp a - stamp b"
    using ok by (intro to_int_small) (auto simp: stamp_ok_def)
  show "qk_entry_cmp a b < 0 \<Longrightarrow> stamp a \<le> stamp b" "qk_entry_cmp a b > 0 \<Longrightarrow> stamp b \<le> stamp a"
    by (auto simp: qk_entry_cmp_def d Let_def split: if_splits)
  show "qk_entry_cmp a b = 0 \<Longrightarrow> na a = na b"
    by (auto simp: qk_entry_cmp_def d Let_def combo_addr_cmp_zero combo_addr_eq_iff split: if_splits)
next
  show "qk_idx seed k < QK_CACHE_HTSIZE" for k by (simp add: qk_idx_def qk_ht_index_less)
qed

abbreviation qk_inv :: "ptr set \<Rightarrow> ptr list \<Rightarrow> qk_cache \<Rightarrow> bool" where
  "qk_inv H xs c \<equiv> cache_inv stamp (\<lambda>e. stamp_ok (stamp e)) na (qk_idx (ht_seed c)) QK_CACHE_SIZE QK_CACHE_HTSIZE H xs c"

definition qk_cache_ok :: "qk_cache \<Rightarrow> bool" where
  "qk_cache_ok c \<longleftrightarrow> (\<exists>xs. qk_inv {} xs c)"

definition qk_find :: "qk_cache \<Rightarrow> combo_addr \<Rightarrow> qk_entry option" where
  "qk_find c = cache_find na (qk_idx (ht_seed c)) c"

lemma qk_lookup_chain: "qk_ht_lookup addr (qk_ht_hash s addr) c = chain_find (\<lambda>v. na v = addr) (qk_idx s addr) c"
  by (simp add: qk_ht_lookup_def qk_idx_def same_addr_eq)

lemma qk_find_lookup: "qk_find c addr =
    (let e = qk_ht_lookup addr (qk_ht_hash (ht_seed c) addr) c in if e = 0 then None else Some (entrys c e))"
  by (simp add: qk_find_def cache_find_def qk_lookup_chain)

subsection \<open>Correctness\<close>

text \<open>Adding is an instance of the common function.\<close>

lemma qk_add_shape:
  assumes "combo_addr_is_public addr"
  shows "g2_qk_add key addr t c = map_option snd
    (cache_add qk_entry_cmp zero_qk_entry (qk_idx (ht_seed c) addr) (\<lambda>v. na v = addr) (\<lambda>e. stamp e < t)
      (\<lambda>e. stamp e < t) (\<lambda>e. e\<lparr>qk := key, stamp := t\<rparr>) (\<lambda>e. e\<lparr>na := addr, qk := key, stamp := t\<rparr>) c)"
proof -
  have finish: "qk_add_finish e (qk_ht_hash s addr) key t c =
      cache_put qk_entry_cmp zero_qk_entry e (qk_idx s addr) ((entrys c e)\<lparr>qk := key, stamp := t\<rparr>) c" for e s c
    by (simp add: qk_add_finish_def cache_put_def qk_rb_cache_insert_def qk_cache_entry_free_def qk_idx_def cong: if_cong)
  have entry: "qk_add_entry t c = cache_take (\<lambda>e. stamp e < t) c" for c
    by (simp add: qk_add_entry_def cache_take_def qk_cache_last_def qk_rb_cache_remove_def qk_cache_entry_alloc_def cong: if_cong)
  show ?thesis
    using assms unfolding g2_qk_add_def cache_add_def Let_def qk_lookup_chain entry finish qk_rb_cache_remove_def qk_cache_entry_free_def
    by (simp add: not_le bind_if drop_result cache_put_again cong: if_cong)
qed

lemma qk_add_ok:
  assumes "qk_cache_ok c" "combo_addr_is_public addr" "stamp_ok t"
  shows "\<exists>c'. g2_qk_add key addr t c = Some c' \<and> qk_cache_ok c' \<and>
    add_spec stamp addr (\<lambda>e. stamp e < t) (\<lambda>e. stamp e < t) (\<lambda>e. e\<lparr>qk := key, stamp := t\<rparr>) \<lparr>na = addr, qk = key, stamp = t\<rparr>
      (free_list c = []) (qk_find c) (qk_find c')"
proof -
  obtain xs where inv: "qk_inv {} xs c" using assms(1) by (auto simp: qk_cache_ok_def)
  have "QK_CACHE_SIZE > 0" by (simp add: QK_CACHE_SIZE_def)
  from qk.add_ok[OF inv refl this, where k = addr and new = "\<lparr>na = addr, qk = key, stamp = t\<rparr>"
      and fresh = "\<lambda>e. e\<lparr>na := addr, qk := key, stamp := t\<rparr>" and refresh = "\<lambda>e. e\<lparr>qk := key, stamp := t\<rparr>"
      and zero = zero_qk_entry and stale = "\<lambda>e. stamp e < t" and replace = "\<lambda>e. stamp e < t"]
  obtain c' xs' where c': "g2_qk_add key addr t c = Some c'" "qk.ok (ht_seed c) {} xs' c'" "ht_seed c' = ht_seed c"
    "add_spec stamp addr (\<lambda>e. stamp e < t) (\<lambda>e. stamp e < t) (\<lambda>e. e\<lparr>qk := key, stamp := t\<rparr>) \<lparr>na = addr, qk = key, stamp = t\<rparr>
      (free_list c = []) (qk_find c) (qk.found (ht_seed c) c')"
    using assms(3) unfolding qk_add_shape[OF assms(2)] qk_find_def[symmetric] by auto
  have "qk_find c' = qk.found (ht_seed c) c'" by (simp only: qk_find_def c'(3))
  moreover have "qk_cache_ok c'" using c'(2) unfolding qk_cache_ok_def c'(3) by blast
  ultimately show ?thesis using c'(1,4) by (intro exI[of _ c']) (simp only:)
qed

lemma qk_init_cache_ok: "qk_cache_ok (qk_init seed)"
proof -
  have "qk_inv {} [] (qk_init seed)" by (rule qk.empty_ok) (simp_all add: qk_init_def)
  then show ?thesis by (auto simp: qk_cache_ok_def)
qed

text \<open>
  C28: Adding the key of a public address to a cache that is in order leaves it in order.  A lookup of
  that address then gives, if the address was known, the new key, or the old one if it was added at the same time or
  later; if it was not known and the cache was not full, the new key; and if it was not known and the cache was full, the new key
  if an oldest entry of the cache is older than the new one, whose place it takes, and nothing otherwise.
\<close>

theorem qk_lookup_after_add:
  assumes "qk_cache_ok c" "combo_addr_is_public addr" "stamp_ok t"
  shows "\<exists>c'. g2_qk_add key addr t c = Some c' \<and> qk_cache_ok c' \<and>
    (g2_qk_lookup addr c = None \<and> free_list c \<noteq> [] \<longrightarrow> g2_qk_lookup addr c' = Some key) \<and>
    (\<forall>e. qk_find c addr = Some e \<longrightarrow> g2_qk_lookup addr c' = Some (if stamp e < t then key else qk e)) \<and>
    (g2_qk_lookup addr c = None \<and> free_list c = [] \<longrightarrow>
      (\<exists>a e. qk_find c a = Some e \<and> (\<forall>a' e'. qk_find c a' = Some e' \<longrightarrow> stamp e \<le> stamp e') \<and>
        g2_qk_lookup addr c' = (if stamp e < t then Some key else None)))"
proof -
  obtain c' where c': "g2_qk_add key addr t c = Some c'" "qk_cache_ok c'"
    "add_spec stamp addr (\<lambda>e. stamp e < t) (\<lambda>e. stamp e < t) (\<lambda>e. e\<lparr>qk := key, stamp := t\<rparr>) \<lparr>na = addr, qk = key, stamp = t\<rparr>
      (free_list c = []) (qk_find c) (qk_find c')"
    using qk_add_ok[OF assms] by blast
  have "g2_qk_lookup addr c = map_option qk (qk_find c addr)" for c
    using assms(2) by (simp add: g2_qk_lookup_def qk_find_lookup Let_def)
  then have look: "g2_qk_lookup addr c = map_option qk (qk_find c addr)" "g2_qk_lookup addr c' = map_option qk (qk_find c' addr)"
    by blast+
  have full: "\<exists>a e. qk_find c a = Some e \<and> (\<forall>a' e'. qk_find c a' = Some e' \<longrightarrow> stamp e \<le> stamp e') \<and>
      map_option qk (qk_find c' addr) = (if stamp e < t then Some key else None)"
    if none: "qk_find c addr = None" "free_list c = []"
  proof -
    obtain a e where e: "qk_find c a = Some e" "\<forall>a' e'. qk_find c a' = Some e' \<longrightarrow> stamp e \<le> stamp e'"
      "qk_find c' = (if stamp e < t then ((qk_find c)(a := None))(addr \<mapsto> \<lparr>na = addr, qk = key, stamp = t\<rparr>) else qk_find c)"
      using c'(3) none by (auto simp: add_spec_def)
    have "map_option qk (qk_find c' addr) = (if stamp e < t then Some key else None)" using e(3) none(1) by simp
    then show ?thesis using e(1,2) by blast
  qed
  have rest: "qk_find c addr = None \<and> free_list c \<noteq> [] \<longrightarrow> map_option qk (qk_find c' addr) = Some key"
    "\<forall>e. qk_find c addr = Some e \<longrightarrow> map_option qk (qk_find c' addr) = Some (if stamp e < t then key else qk e)"
    using c'(3) by (auto simp: add_spec_def)
  have none: "g2_qk_lookup addr c = None \<longleftrightarrow> qk_find c addr = None" unfolding look by simp
  show ?thesis unfolding none
    by (intro exI[of _ c'] conjI c'(1,2) rest[folded look(2)] impI full[folded look(2)]) blast+
qed

theorem qk_lookup_after_add_witness:
  "\<exists>c'. g2_qk_add 42 (In (htonl 0x08080808) 6346) 100 (qk_init 7) = Some c' \<and> qk_cache_ok c' \<and>
     g2_qk_lookup (In (htonl 0x08080808) 6346) c' = Some 42"
proof -
  let ?a = "In (htonl 0x08080808) 6346"
  have pub: "combo_addr_is_public ?a" by code_simp
  have t: "stamp_ok 100" by (simp add: stamp_ok_def)
  have free: "free_list (qk_init 7) \<noteq> []" by (simp add: qk_init_def) (simp add: QK_CACHE_SIZE_def)
  have "g2_qk_lookup ?a (qk_init 7) = None"
    by (simp add: g2_qk_lookup_def qk_ht_lookup_def chain_find_def qk_init_def qk_ht_index_less)
  with qk_lookup_after_add[OF qk_init_cache_ok pub t] free show ?thesis by blast
qed

end
