(* ===== verification/KHL_Cache.thy ===== *)
theory KHL_Cache
  imports Timed_Cache Combo_Addr
begin

text \<open>
  The known hub cache, the second half of \<^verbatim>\<open>G2KHL.c\<close>: hubs by address with the time they were last seen, which ones are
  in our cluster, and their number.  The lock is left out, the operations are sequential.
\<close>

record khl_entry =
  na :: combo_addr
  last_seen :: int
  cluster :: bool

record khl_cache =
  hubs :: "khl_entry cache"
  num :: int

definition KHL_CACHE_SIZE :: nat where
  "KHL_CACHE_SIZE = 2 ^ 11"

definition KHL_CACHE_HTSIZE :: nat where
  "KHL_CACHE_HTSIZE = KHL_CACHE_SIZE div 8"

definition zero_khl_entry :: khl_entry where
  "zero_khl_entry = \<lparr>na = In 0 0, last_seen = 0, cluster = False\<rparr>"

text \<open>The static cache after its entries were put on the free list in \<open>g2_khl_init\<close>.\<close>

definition khl_empty :: "u32 \<Rightarrow> khl_cache" where
  "khl_empty seed = \<lparr>hubs =
     \<lparr>free_list = rev [1..<KHL_CACHE_SIZE + 1],
      tree = \<lparr>nodes = (\<lambda>p. if p \<in> {1..KHL_CACHE_SIZE}
                then Some \<lparr>pc_parent = 0, pc_color = RB_RED, rb_right = 0, rb_left = 0\<rparr> else None), rb_root = 0\<rparr>,
      ht = replicate KHL_CACHE_HTSIZE [], entrys = (\<lambda>_. zero_khl_entry), ht_seed = seed\<rparr>, num = 0\<rparr>"

definition khl_cache_entry_alloc :: "khl_cache \<Rightarrow> (ptr \<times> khl_cache) option" where
  "khl_cache_entry_alloc k =
     (if free_list (hubs k) = [] then Some (0, k)
      else do {
        (e, c) \<leftarrow> cache_entry_alloc (hubs k);
        Some (e, k\<lparr>hubs := c, num := num k + 1\<rparr>) })"

definition khl_cache_entry_free :: "ptr \<Rightarrow> khl_cache \<Rightarrow> khl_cache option" where
  "khl_cache_entry_free e k = do {
     c \<leftarrow> cache_entry_free zero_khl_entry e (hubs k);
     Some (k\<lparr>hubs := c, num := num k - 1\<rparr>) }"

definition khl_ht_hash :: "u32 \<Rightarrow> combo_addr \<Rightarrow> u32" where
  "khl_ht_hash seed addr = combo_addr_hash addr seed"

definition khl_ht_index :: "u32 \<Rightarrow> nat" where
  "khl_ht_index h = unat (h AND word_of_nat (KHL_CACHE_HTSIZE - 1))"

definition khl_ht_lookup :: "combo_addr \<Rightarrow> u32 \<Rightarrow> khl_cache \<Rightarrow> ptr" where
  "khl_ht_lookup addr h k = chain_find (\<lambda>e. same_addr addr (na e)) (khl_ht_index h) (hubs k)"

definition khl_ht_add :: "ptr \<Rightarrow> u32 \<Rightarrow> khl_cache \<Rightarrow> khl_cache" where
  "khl_ht_add e h k = k\<lparr>hubs := cache_ht_add e (khl_ht_index h) (hubs k)\<rparr>"

definition khl_entry_cmp :: "khl_entry \<Rightarrow> khl_entry \<Rightarrow> int" where
  "khl_entry_cmp a b =
     (let ret = to_int (last_seen a - last_seen b) in if ret \<noteq> 0 then ret else combo_addr_cmp (na a) (na b))"

definition khl_rb_cache_insert :: "ptr \<Rightarrow> khl_cache \<Rightarrow> (bool \<times> khl_cache) option" where
  "khl_rb_cache_insert e k = do {
     (b, c) \<leftarrow> rb_cache_insert khl_entry_cmp e (hubs k);
     Some (b, k\<lparr>hubs := c\<rparr>) }"

definition khl_rb_cache_remove :: "ptr \<Rightarrow> khl_cache \<Rightarrow> (bool \<times> khl_cache) option" where
  "khl_rb_cache_remove e k = do {
     (b, c) \<leftarrow> rb_cache_remove e (hubs k);
     Some (b, k\<lparr>hubs := c\<rparr>) }"

definition khl_cache_last :: "khl_cache \<Rightarrow> ptr option" where
  "khl_cache_last k = cache_last (hubs k)"

definition write_entry :: "ptr \<Rightarrow> (khl_entry \<Rightarrow> khl_entry) \<Rightarrow> khl_cache \<Rightarrow> khl_cache" where
  "write_entry e f k = k\<lparr>hubs := (hubs k)\<lparr>entrys := (entrys (hubs k))(e := f (entrys (hubs k) e))\<rparr>\<rparr>"

definition khl_add_finish :: "ptr \<Rightarrow> u32 \<Rightarrow> int \<Rightarrow> khl_cache \<Rightarrow> khl_cache option" where
  "khl_add_finish e h t k = do {
     let k = write_entry e (last_seen_update (\<lambda>_. t)) k;
     (inserted, k) \<leftarrow> khl_rb_cache_insert e k;
     if \<not> inserted then khl_cache_entry_free e k
     else Some (khl_ht_add e h k) }"

definition khl_add_entry :: "int \<Rightarrow> khl_cache \<Rightarrow> (ptr \<times> khl_cache) option" where
  "khl_add_entry t k = do {
     e \<leftarrow> khl_cache_last k;
     if e \<noteq> 0 \<and> last_seen (entrys (hubs k) e) < t \<and> free_list (hubs k) = []
     then do {
       (removed, k) \<leftarrow> khl_rb_cache_remove e k;
       Some (if removed then e else 0, k) }
     else khl_cache_entry_alloc k }"

definition g2_khl_add :: "combo_addr \<Rightarrow> int \<Rightarrow> bool \<Rightarrow> khl_cache \<Rightarrow> khl_cache option" where
  "g2_khl_add addr t clus k =
     (if \<not> combo_addr_is_public addr then Some k
      else
        (let h = khl_ht_hash (ht_seed (hubs k)) addr;
             e = khl_ht_lookup addr h k
         in if e \<noteq> 0 then
              (if last_seen (entrys (hubs k) e) \<ge> t then Some k
               else do {
                 (removed, k) \<leftarrow> khl_rb_cache_remove e k;
                 if \<not> removed then khl_cache_entry_free e k
                 else khl_add_finish e h t (write_entry e (cluster_update (\<lambda>_. clus)) k) })
            else do {
              (e, k) \<leftarrow> khl_add_entry t k;
              if e = 0 then Some k
              else khl_add_finish e h t (write_entry e (\<lambda>v. v\<lparr>cluster := clus, na := addr\<rparr>) k) }))"

subsection \<open>Handing out hubs\<close>

text \<open>What is copied from an entry: the address and the time.\<close>

type_synonym khl_pair = "combo_addr \<times> int"

definition khl_pair :: "khl_entry \<Rightarrow> khl_pair" where
  "khl_pair e = (na e, last_seen e)"

text \<open>
  The loop of \<open>g2_khl_fill_s\<close> and \<open>g2_khl_fill_p\<close>; \<open>wanted\<close> is the test of the entry, \<open>wrap_arounds\<close> tells
  whether the end of the tree was seen before.
\<close>

partial_function (option) khl_fill_loop :: "(khl_entry \<Rightarrow> bool) \<Rightarrow> khl_entry cache \<Rightarrow> nat \<Rightarrow> ptr \<Rightarrow> nat \<Rightarrow> khl_pair list \<Rightarrow> khl_pair list option" where
  "khl_fill_loop wanted c len n wrap_arounds p =
     (if \<not> length p < len then Some p
      else if n = 0 \<and> wrap_arounds \<noteq> 0 then Some p
      else do {
        (n, wrap_arounds) \<leftarrow> (if n = 0 then map_option (\<lambda>n. (n, wrap_arounds + 1)) (rb_first (tree c)) else Some (n, wrap_arounds));
        if n = 0 then Some p
        else do {
          let e = entrys c n;
          next \<leftarrow> rb_next (tree c) n;
          khl_fill_loop wanted c len next wrap_arounds (if wanted e then p @ [khl_pair e] else p) } })"

definition g2_khl_fill_s :: "khl_cache \<Rightarrow> nat \<Rightarrow> int \<Rightarrow> khl_pair list option" where
  "g2_khl_fill_s k len s_fam = do {
     n \<leftarrow> rb_first (tree (hubs k));
     khl_fill_loop (\<lambda>e. fam (na e) = s_fam \<and> cluster e) (hubs k) len n 0 [] }"

definition g2_khl_fill_p :: "khl_cache \<Rightarrow> nat \<Rightarrow> int \<Rightarrow> khl_pair list option" where
  "g2_khl_fill_p k len s_fam = do {
     n \<leftarrow> rb_first (tree (hubs k));
     khl_fill_loop (\<lambda>e. fam (na e) = s_fam \<and> \<not> cluster e) (hubs k) len n 0 [] }"

subsection \<open>The dump\<close>

text \<open>
  The file that keeps the cache over a restart.  An entry is written as it is in memory, so a file is kept as its
  parts.  \<open>entry_size\<close> is \<open>sizeof(struct khl_entry)\<close>.
\<close>

record khl_file =
  ident :: string
  signature :: "u32 list"
  records :: "khl_pair list"

definition KHL_DUMP_IDENT :: string where
  "KHL_DUMP_IDENT = ''G2CDKHLDUMP'' @ [CHR 0x0A]"

definition KHL_DUMP_ENDIAN_MARKER :: u32 where
  "KHL_DUMP_ENDIAN_MARKER = 0x12345678"

definition KHL_DUMP_VERSION :: u32 where
  "KHL_DUMP_VERSION = 0"

text \<open>Writing stops at the first entry that can not be written; \<open>room\<close> is the number of those that can.\<close>

partial_function (option) khl_end_loop :: "khl_entry cache \<Rightarrow> nat \<Rightarrow> ptr \<Rightarrow> khl_pair list \<Rightarrow> khl_pair list option" where
  "khl_end_loop c room n out =
     (if n = 0 \<or> length out = room then Some out
      else do {
        next \<leftarrow> rb_next (tree c) n;
        khl_end_loop c room next (out @ [khl_pair (entrys c n)]) })"

text \<open>
  \<open>khl_dump\<close> is the descriptor of the file from the start of the program.  A file that is open is truncated; if it is not, it is opened
  without truncating, so that the records \<open>stale\<close> that are in it stay where they are not overwritten.
\<close>

definition g2_khl_end :: "int \<Rightarrow> khl_pair list \<Rightarrow> u32 \<Rightarrow> nat \<Rightarrow> khl_cache \<Rightarrow> khl_file option" where
  "g2_khl_end khl_dump stale entry_size room k = do {
     n \<leftarrow> rb_first (tree (hubs k));
     out \<leftarrow> khl_end_loop (hubs k) room n [];
     Some \<lparr>ident = KHL_DUMP_IDENT, signature = [KHL_DUMP_ENDIAN_MARKER, entry_size, KHL_DUMP_VERSION],
       records = out @ (if khl_dump \<le> 0 then drop (length out) stale else [])\<rparr> }"

fun khl_load :: "khl_pair list \<Rightarrow> khl_cache \<Rightarrow> khl_cache option" where
  "khl_load [] k = Some k"
| "khl_load ((addr, t) # es) k = do {
     k \<leftarrow> g2_khl_add addr t False k;
     khl_load es k }"

definition g2_khl_init :: "u32 \<Rightarrow> u32 \<Rightarrow> khl_file \<Rightarrow> khl_cache option" where
  "g2_khl_init seed entry_size f =
     (let k = khl_empty seed
      in if ident f \<noteq> KHL_DUMP_IDENT then Some k
         else if length (signature f) \<noteq> 3 then Some k
         else if signature f ! 0 \<noteq> KHL_DUMP_ENDIAN_MARKER then Some k
         else if signature f ! 1 \<noteq> entry_size then Some k
         else if signature f ! 2 \<noteq> KHL_DUMP_VERSION then Some k
         else khl_load (records f) k)"

subsection \<open>The contract of the entries\<close>

definition khl_idx :: "u32 \<Rightarrow> combo_addr \<Rightarrow> nat" where
  "khl_idx seed addr = khl_ht_index (khl_ht_hash seed addr)"

definition khl_fine :: "khl_entry \<Rightarrow> bool" where
  "khl_fine e \<longleftrightarrow> stamp_ok (last_seen e) \<and> combo_addr_is_public (na e)"

lemma khl_ht_index_less: "khl_ht_index h < KHL_CACHE_HTSIZE"
proof -
  have "h AND 255 \<le> 255" by (rule word_and_le1)
  then have "unat (h AND 255) \<le> 255" by (simp add: word_le_nat_alt)
  then show ?thesis by (simp add: khl_ht_index_def KHL_CACHE_HTSIZE_def KHL_CACHE_SIZE_def)
qed

interpretation khl: timed_entries khl_entry_cmp last_seen khl_fine na "khl_idx seed"
  KHL_CACHE_SIZE KHL_CACHE_HTSIZE for seed
proof
  fix a b :: khl_entry
  assume ok: "khl_fine a" "khl_fine b"
  have d: "to_int (last_seen a - last_seen b) = last_seen a - last_seen b"
    using ok by (intro to_int_small) (auto simp: khl_fine_def stamp_ok_def)
  show "khl_entry_cmp a b < 0 \<Longrightarrow> last_seen a \<le> last_seen b" "khl_entry_cmp a b > 0 \<Longrightarrow> last_seen b \<le> last_seen a"
    by (auto simp: khl_entry_cmp_def d Let_def split: if_splits)
  show "khl_entry_cmp a b = 0 \<Longrightarrow> na a = na b"
    by (auto simp: khl_entry_cmp_def d Let_def combo_addr_cmp_zero combo_addr_eq_iff split: if_splits)
next
  show "khl_idx seed k < KHL_CACHE_HTSIZE" for k by (simp add: khl_idx_def khl_ht_index_less)
qed

abbreviation khl_inv :: "ptr list \<Rightarrow> khl_entry cache \<Rightarrow> bool" where
  "khl_inv xs c \<equiv> cache_inv last_seen khl_fine na (khl_idx (ht_seed c)) KHL_CACHE_SIZE KHL_CACHE_HTSIZE {} xs c"

definition khl_ok :: "khl_cache \<Rightarrow> bool" where
  "khl_ok k \<longleftrightarrow> (\<exists>xs. khl_inv xs (hubs k)) \<and> num k + int (length (free_list (hubs k))) = int KHL_CACHE_SIZE"

definition khl_find :: "khl_cache \<Rightarrow> combo_addr \<Rightarrow> khl_entry option" where
  "khl_find k = cache_find na (khl_idx (ht_seed (hubs k))) (hubs k)"

lemma khl_lookup_chain: "khl_ht_lookup addr (khl_ht_hash s addr) k = chain_find (\<lambda>v. na v = addr) (khl_idx s addr) (hubs k)"
  by (simp add: khl_ht_lookup_def khl_idx_def same_addr_eq)

subsection \<open>Adding a hub\<close>

text \<open>The entries change as in the common function; \<open>num\<close> goes with the free list.\<close>

lemma lift_hubs:
  assumes "\<And>b k. map_option hubs (f b k) = g b (hubs k)"
  shows "map_option hubs (Option.bind x (\<lambda>(b, k). f b k)) = Option.bind (map_option (map_prod id hubs) x) (\<lambda>(b, c). g b c)"
  using assms by (cases x) auto

lemma khl_add_hubs:
  assumes "combo_addr_is_public addr"
  shows "map_option hubs (g2_khl_add addr t clus k) = map_option snd
    (cache_add khl_entry_cmp zero_khl_entry (khl_idx (ht_seed (hubs k)) addr) (\<lambda>v. na v = addr) (\<lambda>e. last_seen e < t)
      (\<lambda>e. last_seen e < t) (\<lambda>e. e\<lparr>cluster := clus, last_seen := t\<rparr>) (\<lambda>e. e\<lparr>cluster := clus, na := addr, last_seen := t\<rparr>) (hubs k))"
proof -
  have free: "map_option hubs (khl_cache_entry_free e k) = cache_entry_free zero_khl_entry e (hubs k)" for e k
    by (cases "cache_entry_free zero_khl_entry e (hubs k)") (auto simp: khl_cache_entry_free_def)
  have insert: "map_option (map_prod id hubs) (khl_rb_cache_insert e k) = rb_cache_insert khl_entry_cmp e (hubs k)" for e k
    by (cases "rb_cache_insert khl_entry_cmp e (hubs k)") (auto simp: khl_rb_cache_insert_def)
  have remove: "map_option (map_prod id hubs) (khl_rb_cache_remove e k) = rb_cache_remove e (hubs k)" for e k
    by (cases "rb_cache_remove e (hubs k)") (auto simp: khl_rb_cache_remove_def)
  have alloc: "map_option (map_prod id hubs) (khl_cache_entry_alloc k) = cache_entry_alloc (hubs k)" for k
    by (cases "cache_entry_alloc (hubs k)") (auto simp: khl_cache_entry_alloc_def cache_entry_alloc_def)
  have finish: "map_option hubs (khl_add_finish e (khl_ht_hash s addr) t (write_entry e f k)) =
      cache_put khl_entry_cmp zero_khl_entry e (khl_idx s addr) ((f (entrys (hubs k) e))\<lparr>last_seen := t\<rparr>) (hubs k)" for e s f k
    unfolding khl_add_finish_def cache_put_def Let_def
    by (subst lift_hubs[where g = "\<lambda>b c. if \<not> b then cache_entry_free zero_khl_entry e c else Some (cache_ht_add e (khl_idx s addr) c)"])
      (auto simp: free khl_ht_add_def khl_idx_def insert write_entry_def)
  have entry: "map_option (map_prod id hubs) (khl_add_entry t k) = cache_take (\<lambda>e. last_seen e < t) (hubs k)" for k
    unfolding khl_add_entry_def cache_take_def khl_cache_last_def
    by (cases "cache_last (hubs k)"; cases "khl_rb_cache_remove (the (cache_last (hubs k))) k")
      (auto simp: alloc remove[symmetric] split: prod.splits)
  show ?thesis
  proof (cases "khl_ht_lookup addr (khl_ht_hash (ht_seed (hubs k)) addr) k = 0")
    case True
    have "map_option hubs (g2_khl_add addr t clus k) = Option.bind (map_option (map_prod id hubs) (khl_add_entry t k))
        (\<lambda>(e, c). if e = 0 then Some c else cache_put khl_entry_cmp zero_khl_entry e (khl_idx (ht_seed (hubs k)) addr)
           ((entrys c e)\<lparr>cluster := clus, na := addr, last_seen := t\<rparr>) c)"
      using assms True by (simp add: g2_khl_add_def Let_def, intro lift_hubs) (auto simp: finish)
    then show ?thesis using True
      by (simp add: entry cache_add_def khl_lookup_chain drop_result bind_if cong: if_cong)
  next
    case False
    define e where "e = khl_ht_lookup addr (khl_ht_hash (ht_seed (hubs k)) addr) k"
    have "map_option hubs (g2_khl_add addr t clus k) = (if last_seen (entrys (hubs k) e) \<ge> t then Some (hubs k) else
        Option.bind (map_option (map_prod id hubs) (khl_rb_cache_remove e k))
        (\<lambda>(removed, c). if \<not> removed then cache_entry_free zero_khl_entry e c else cache_put khl_entry_cmp zero_khl_entry e
           (khl_idx (ht_seed (hubs k)) addr) ((entrys c e)\<lparr>cluster := clus, last_seen := t\<rparr>) c))"
    proof (cases "last_seen (entrys (hubs k) e) \<ge> t")
      case True
      with assms False show ?thesis by (simp add: g2_khl_add_def Let_def e_def[symmetric])
    next
      case old: False
      with assms False show ?thesis
        by (simp add: g2_khl_add_def Let_def e_def[symmetric], intro lift_hubs) (auto simp: finish free e_def[symmetric])
    qed
    then show ?thesis using False
      by (simp add: remove cache_add_def khl_lookup_chain[symmetric] e_def[symmetric] Let_def drop_result bind_if not_le cong: if_cong)
  qed
qed

text \<open>Entries in use and free entries together.\<close>

definition total :: "khl_cache \<Rightarrow> int" where
  "total k = num k + int (length (free_list (hubs k)))"

lemma total_steps:
  "khl_cache_entry_free e k = Some k' \<Longrightarrow> total k' = total k"
  "khl_rb_cache_insert e k = Some (b, k') \<Longrightarrow> total k' = total k \<and> free_list (hubs k') = free_list (hubs k)"
  "khl_rb_cache_remove e k = Some (b, k') \<Longrightarrow> e \<notin> set (free_list (hubs k)) \<Longrightarrow> total k' = total k"
  "khl_cache_entry_alloc k = Some (e, k') \<Longrightarrow> distinct (free_list (hubs k)) \<Longrightarrow> total k' = total k"
  "total (write_entry e f k) = total k" "total (khl_ht_add e h k) = total k"
  subgoal by (auto simp: total_def khl_cache_entry_free_def cache_entry_free_def split: bind_splits)
  subgoal by (auto simp: total_def khl_rb_cache_insert_def rb_cache_insert_def split: bind_splits option.splits prod.splits)
  subgoal by (auto simp: total_def khl_rb_cache_remove_def rb_cache_remove_def hlist_del_def split: bind_splits if_splits)
  subgoal by (auto simp: total_def khl_cache_entry_alloc_def cache_entry_alloc_def hlist_del_def split: bind_splits list.splits if_splits)
  subgoal by (simp add: total_def write_entry_def)
  subgoal by (simp add: total_def khl_ht_add_def cache_ht_add_def)
  done

lemma total_finish: "khl_add_finish e h t k = Some k' \<Longrightarrow> total k' = total k"
  by (auto simp: khl_add_finish_def total_steps dest: total_steps(1,2) split: bind_splits if_splits)

lemma khl_add_total:
  assumes inv: "khl_inv xs (hubs k)" and add: "g2_khl_add addr t clus k = Some k'"
  shows "total k' = total k"
proof -
  define e where "e = khl_ht_lookup addr (khl_ht_hash (ht_seed (hubs k)) addr) k"
  have free: "p \<notin> set (free_list (hubs k))" if "p \<in> set xs" for p using khl.okD(2)[OF inv] that by blast
  consider "k' = k" | "e \<noteq> 0" "\<exists>b k1. khl_rb_cache_remove e k = Some (b, k1) \<and> total k' = total k1"
    | "\<exists>p k1. khl_add_entry t k = Some (p, k1) \<and> total k' = total k1"
    using add unfolding g2_khl_add_def Let_def e_def[symmetric]
    by (auto simp: total_steps(5) dest!: total_finish total_steps(1) split: if_splits bind_splits)
  then show ?thesis
  proof cases
    case 2
    then have "e \<in> set xs"
      using khl.chain_find_inv[OF inv, of "\<lambda>v. na v = addr" addr] by (auto simp: e_def khl_lookup_chain)
    with 2(2) show ?thesis using total_steps(3) free by metis
  next
    case 3
    then obtain p k1 where p: "khl_add_entry t k = Some (p, k1)" "total k' = total k1" by blast
    obtain l where l: "cache_last (hubs k) = Some l" "l \<noteq> 0 \<longrightarrow> l \<in> set xs"
      using khl.last_ok(1)[OF inv] by (cases "xs = []") auto
    with p(1) have "total k1 = total k"
      using total_steps(3)[of l k] total_steps(4)[of k] free khl.okD(4)[OF inv]
      by (auto simp: khl_add_entry_def khl_cache_last_def split: if_splits bind_splits)
    with p(2) show ?thesis by simp
  qed simp
qed

lemma khl_add_ok:
  assumes "khl_ok k" "combo_addr_is_public addr" "stamp_ok t"
  shows "\<exists>k'. g2_khl_add addr t clus k = Some k' \<and> khl_ok k' \<and>
    add_spec last_seen addr (\<lambda>e. last_seen e < t) (\<lambda>e. last_seen e < t) (\<lambda>e. e\<lparr>cluster := clus, last_seen := t\<rparr>)
      \<lparr>na = addr, last_seen = t, cluster = clus\<rparr> (num k = int KHL_CACHE_SIZE) (khl_find k) (khl_find k')"
proof -
  obtain xs where inv: "khl_inv xs (hubs k)" using assms(1) by (auto simp: khl_ok_def)
  have full: "num k = int KHL_CACHE_SIZE \<longleftrightarrow> free_list (hubs k) = []" using assms(1) by (auto simp: khl_ok_def)
  have "KHL_CACHE_SIZE > 0" by (simp add: KHL_CACHE_SIZE_def)
  from khl.add_ok[OF inv refl this, where k = addr and new = "\<lparr>na = addr, last_seen = t, cluster = clus\<rparr>"
      and fresh = "\<lambda>e. e\<lparr>cluster := clus, na := addr, last_seen := t\<rparr>" and refresh = "\<lambda>e. e\<lparr>cluster := clus, last_seen := t\<rparr>"
      and zero = zero_khl_entry and stale = "\<lambda>e. last_seen e < t" and replace = "\<lambda>e. last_seen e < t"]
  obtain c' xs' where c': "map_option hubs (g2_khl_add addr t clus k) = Some c'" "khl.ok (ht_seed (hubs k)) {} xs' c'" "ht_seed c' = ht_seed (hubs k)"
    "add_spec last_seen addr (\<lambda>e. last_seen e < t) (\<lambda>e. last_seen e < t) (\<lambda>e. e\<lparr>cluster := clus, last_seen := t\<rparr>)
      \<lparr>na = addr, last_seen = t, cluster = clus\<rparr> (free_list (hubs k) = []) (khl_find k) (khl.found (ht_seed (hubs k)) c')"
    using assms(2,3) unfolding khl_add_hubs[OF assms(2)] khl_find_def[symmetric] by (auto simp: khl_fine_def)
  obtain k' where k': "g2_khl_add addr t clus k = Some k'" "hubs k' = c'" using c'(1) by auto
  have find: "khl_find k' = khl.found (ht_seed (hubs k)) c'" by (simp only: khl_find_def k'(2) c'(3))
  have "khl_ok k'"
    using c'(2,3) k'(2) khl_add_total[OF inv k'(1)] assms(1) unfolding khl_ok_def total_def by auto
  with c'(4) k'(1) show ?thesis unfolding full find[symmetric] by blast
qed

lemma khl_empty_ok: "khl_ok (khl_empty seed)"
proof -
  have "khl_inv [] (hubs (khl_empty seed))" by (rule khl.empty_ok) (simp_all add: khl_empty_def)
  then show ?thesis by (auto simp: khl_ok_def khl_empty_def)
qed

text \<open>The entries by age, and how many there are.\<close>

lemma khl_list:
  assumes "khl_ok k"
  obtains xs where "khl_inv xs (hubs k)" "distinct xs" "num k = int (length xs)"
    "\<And>addr e. khl_find k addr = Some e \<longleftrightarrow> e \<in> entrys (hubs k) ` set xs \<and> na e = addr"
proof -
  obtain xs where inv: "khl_inv xs (hubs k)" using assms by (auto simp: khl_ok_def)
  have d: "distinct xs" using inv by (auto simp: cache_inv_def Rb_Heap.rep_def)
  have "card (set xs \<union> set (free_list (hubs k))) = length xs + length (free_list (hubs k))"
    using khl.okD(2,4)[OF inv] d by (simp add: card_Un_disjoint distinct_card)
  moreover have "set xs \<union> set (free_list (hubs k)) = {1..KHL_CACHE_SIZE}" using khl.okD(1)[OF inv] by simp
  ultimately have "num k = int (length xs)" using assms by (simp add: khl_ok_def)
  with inv d show thesis using khl.found_iff[OF inv] by (intro that[of xs]) (auto simp: khl_find_def)
qed

end
