(* ===== verification/KHL_Properties.thy ===== *)
theory KHL_Properties
  imports KHL_Cache
begin

text \<open>
  What the known hub cache promises: the map it keeps, its size, which hubs it hands out, and that it
  survives a restart.
\<close>

lemma khl_num:
  assumes "khl_ok k"
  shows "num k = int (card (dom (khl_find k)))" "finite (dom (khl_find k))"
proof -
  obtain xs where xs: "khl_inv xs (hubs k)" "distinct xs" "num k = int (length xs)"
    "\<And>addr e. khl_find k addr = Some e \<longleftrightarrow> e \<in> entrys (hubs k) ` set xs \<and> na e = addr"
    by (rule khl_list[OF assms]) simp
  have dom: "dom (khl_find k) = (\<lambda>p. na (entrys (hubs k) p)) ` set xs" using xs(4) by (auto simp: dom_def image_iff)
  then show "num k = int (card (dom (khl_find k)))"
    using card_image[OF khl.okD(8)[OF xs(1)]] distinct_card[OF xs(2)] xs(3) by simp
  show "finite (dom (khl_find k))" by (simp add: dom)
qed

subsection \<open>Handing out hubs\<close>

definition pairs :: "(khl_entry \<Rightarrow> bool) \<Rightarrow> khl_entry cache \<Rightarrow> ptr list \<Rightarrow> khl_pair list" where
  "pairs wanted c ps = map khl_pair (filter wanted (map (entrys c) ps))"

lemma pairs_Cons: "pairs wanted c (n # ps) = (if wanted (entrys c n) then [khl_pair (entrys c n)] else []) @ pairs wanted c ps"
  by (simp add: pairs_def)

definition front :: "ptr list \<Rightarrow> ptr" where
  "front ps = (case ps of [] \<Rightarrow> 0 | n # _ \<Rightarrow> n)"

lemma labels_nonzero: "tree_at h par t \<Longrightarrow> n \<in> set (labels t) \<Longrightarrow> n \<noteq> 0"
  by (induction t arbitrary: par) auto

lemma next_front: "rep m t \<Longrightarrow> labels t = ys @ n # ps \<Longrightarrow> rb_next m n = Some (front ps) \<and> n \<noteq> 0"
  using rb_walk(1)[of m t ys n ps] labels_nonzero[of "nodes m" 0 t n] by (auto simp: front_def Rb_Heap.rep_def)

lemma first_front: "rep m t \<Longrightarrow> rb_first m = Some (front (labels t))"
  using first_last_correct(1)[of m t] by (cases "labels t") (auto simp: front_def)

lemma fill_second_round:
  assumes "rep (tree c) t" "labels t = ys @ ps" "length p \<le> len" "w \<noteq> 0"
  shows "khl_fill_loop wanted c len (front ps) w p = Some (take len (p @ pairs wanted c ps))"
  using assms(2,3)
proof (induction ps arbitrary: ys p)
  case Nil
  then show ?case using assms(4) by (subst khl_fill_loop.simps) (simp add: front_def pairs_def)
next
  case (Cons n ps)
  show ?case
  proof (cases "length p < len")
    case False
    with Cons(3) show ?thesis by (subst khl_fill_loop.simps) simp
  next
    case True
    have n: "rb_next (tree c) n = Some (front ps)" "n \<noteq> 0" using next_front[OF assms(1) Cons(2)] by auto
    have "khl_fill_loop wanted c len (front (n # ps)) w p =
        khl_fill_loop wanted c len (front ps) w (if wanted (entrys c n) then p @ [khl_pair (entrys c n)] else p)"
      using True n by (subst khl_fill_loop.simps) (simp add: front_def)
    then show ?thesis using Cons(1)[of "ys @ [n]"] Cons(2,3) True by (simp add: pairs_Cons)
  qed
qed

lemma fill_first_round:
  assumes "rep (tree c) t" "labels t = ys @ ps" "length p \<le> len"
  shows "khl_fill_loop wanted c len (front ps) 0 p = Some (take len (p @ pairs wanted c ps @ pairs wanted c (labels t)))"
  using assms(2,3)
proof (induction ps arbitrary: ys p)
  case Nil
  show ?case
  proof (cases "length p < len")
    case False
    with Nil(2) show ?thesis by (subst khl_fill_loop.simps) simp
  next
    case True
    show ?thesis
    proof (cases "labels t")
      case Nil
      with True show ?thesis
        by (subst khl_fill_loop.simps) (simp add: front_def first_front[OF assms(1)] pairs_def)
    next
      case (Cons n ps)
      then have "n \<noteq> 0" using labels_nonzero[of "nodes (tree c)" 0 t n] assms(1) by (simp add: Rb_Heap.rep_def)
      with True Cons have "khl_fill_loop wanted c len 0 0 p = khl_fill_loop wanted c len n 1 p"
        by (subst (1 2) khl_fill_loop.simps) (simp add: first_front[OF assms(1)] front_def)
      then show ?thesis using fill_second_round[OF assms(1), of "[]" "labels t" p len 1 wanted] Nil(2) Cons
        by (simp add: front_def pairs_def)
    qed
  qed
next
  case (Cons n ps)
  show ?case
  proof (cases "length p < len")
    case False
    with Cons(3) show ?thesis by (subst khl_fill_loop.simps) simp
  next
    case True
    have n: "rb_next (tree c) n = Some (front ps)" "n \<noteq> 0" using next_front[OF assms(1) Cons(2)] by auto
    have "khl_fill_loop wanted c len (front (n # ps)) 0 p =
        khl_fill_loop wanted c len (front ps) 0 (if wanted (entrys c n) then p @ [khl_pair (entrys c n)] else p)"
      using True n by (subst khl_fill_loop.simps) (simp add: front_def)
    then show ?thesis using Cons(1)[of "ys @ [n]"] Cons(2,3) True by (simp add: pairs_Cons)
  qed
qed

text \<open>The hubs of a kind in the order of the tree.\<close>

lemma fill_hubs:
  assumes "khl_ok k"
  shows "\<exists>hs. distinct hs \<and> set hs = {e. khl_find k (na e) = Some e \<and> wanted e} \<and>
    sorted_wrt (\<lambda>a b. last_seen b \<le> last_seen a) hs \<and>
    Option.bind (rb_first (tree (hubs k))) (\<lambda>n. khl_fill_loop wanted (hubs k) len n 0 []) = Some (take len (map khl_pair (hs @ hs)))"
proof -
  let ?c = "hubs k"
  obtain xs where xs: "khl_inv xs ?c" "distinct xs"
    "\<And>addr e. khl_find k addr = Some e \<longleftrightarrow> e \<in> entrys ?c ` set xs \<and> na e = addr"
    by (rule khl_list[OF assms]) simp
  obtain t where t: "rep (tree ?c) t" "labels t = xs" using khl.ok_tree[OF xs(1)] by blast
  let ?hs = "filter wanted (map (entrys ?c) xs)"
  have "inj_on (\<lambda>p. na (entrys ?c p)) (set xs)" by (rule khl.okD(8)[OF xs(1)])
  then have "inj_on (entrys ?c) (set xs)" by (auto simp: inj_on_def)
  then have "distinct ?hs" using xs(2) by (simp add: distinct_map)
  moreover have "set ?hs = {e. khl_find k (na e) = Some e \<and> wanted e}" using xs(3) by auto
  moreover have "sorted_wrt (\<lambda>a b. last_seen b \<le> last_seen a) ?hs"
    using khl.okD(9)[OF xs(1)] by (intro sorted_wrt_filter) (simp add: newest_first_def sorted_wrt_map)
  moreover have "Option.bind (rb_first (tree ?c)) (\<lambda>n. khl_fill_loop wanted ?c len n 0 []) = Some (take len (map khl_pair (?hs @ ?hs)))"
    using fill_first_round[OF t(1), of "[]" "labels t" "[]" len wanted] by (simp add: first_front[OF t(1)] pairs_def t(2))
  ultimately show ?thesis by blast
qed

subsection \<open>The dump\<close>

lemma end_loop:
  assumes "rep (tree c) t" "labels t = ys @ ps" "length out \<le> room"
  shows "khl_end_loop c room (front ps) out = Some (take room (out @ map (khl_pair \<circ> entrys c) ps))"
  using assms(2,3)
proof (induction ps arbitrary: ys out)
  case Nil
  then show ?case by (subst khl_end_loop.simps) (simp add: front_def)
next
  case (Cons n ps)
  have n: "rb_next (tree c) n = Some (front ps)" "n \<noteq> 0" using next_front[OF assms(1) Cons(2)] by auto
  show ?case
  proof (cases "length out = room")
    case True
    then show ?thesis by (subst khl_end_loop.simps) simp
  next
    case False
    then have "khl_end_loop c room (front (n # ps)) out = khl_end_loop c room (front ps) (out @ [khl_pair (entrys c n)])"
      using n by (subst khl_end_loop.simps) (simp add: front_def)
    then show ?thesis using Cons(1)[of "ys @ [n]" "out @ [khl_pair (entrys c n)]"] Cons(2,3) False by simp
  qed
qed

lemma load_new:
  assumes "khl_ok k" "distinct (map na es)" "\<forall>e\<in>set es. khl_fine e \<and> khl_find k (na e) = None"
    and "num k + int (length es) \<le> int KHL_CACHE_SIZE"
  shows "\<exists>k'. khl_load (map khl_pair es) k = Some k' \<and> khl_ok k' \<and>
    (\<forall>addr e. khl_find k' addr = Some e \<longleftrightarrow>
       khl_find k addr = Some e \<or> na e = addr \<and> e \<in> cluster_update (\<lambda>_. False) ` set es)"
  using assms
proof (induction es arbitrary: k)
  case (Cons e es)
  have fine: "combo_addr_is_public (na e)" "stamp_ok (last_seen e)" "khl_find k (na e) = None"
    using Cons(4) by (auto simp: khl_fine_def)
  have rec: "\<lparr>na = na e, last_seen = last_seen e, cluster = False\<rparr> = e\<lparr>cluster := False\<rparr>" by (cases e) simp
  obtain k1 where k1: "g2_khl_add (na e) (last_seen e) False k = Some k1" "khl_ok k1"
    "khl_find k1 = (khl_find k)(na e \<mapsto> e\<lparr>cluster := False\<rparr>)"
    using khl_add_ok[OF Cons(2) fine(1,2), of False] fine(3) Cons(5) by (auto simp: add_spec_def rec)
  have "num k1 = num k + 1"
    unfolding khl_num(1)[OF k1(2)] khl_num(1)[OF Cons(2)] k1(3) using khl_num(2)[OF Cons(2)] fine(3) by (simp add: domIff)
  then have num: "num k1 + int (length es) \<le> int KHL_CACHE_SIZE" using Cons(5) by simp
  have "\<forall>d\<in>set es. khl_fine d \<and> khl_find k1 (na d) = None"
    using Cons(3,4) by (auto simp: k1(3)) (metis imageI)
  from Cons(1)[OF k1(2) _ this num] Cons(3) obtain k' where k': "khl_load (map khl_pair es) k1 = Some k'" "khl_ok k'"
    "\<And>addr d. khl_find k' addr = Some d \<longleftrightarrow> khl_find k1 addr = Some d \<or> na d = addr \<and> d \<in> cluster_update (\<lambda>_. False) ` set es"
    by auto
  have "khl_load (map khl_pair (e # es)) k = Some k'" using k1(1) k'(1) by (simp add: khl_pair_def)
  moreover have "khl_find k' addr = Some d \<longleftrightarrow>
      khl_find k addr = Some d \<or> na d = addr \<and> d \<in> cluster_update (\<lambda>_. False) ` set (e # es)" for addr d
    using fine(3) by (auto simp: k'(3) k1(3))
  ultimately show ?case using k'(2) by blast
qed auto

subsection \<open>Properties\<close>

text \<open>
  C30: Adding a public address to a known hub cache in order never follows a bad pointer and leaves it in order; the map
  of hubs changes as specified (a known hub is made younger, a new one takes a free place or that of an oldest hub
  if the cache is full and that one is older), and \<open>num\<close> stays the number of known hubs.
\<close>

theorem khl_add_correct:
  assumes "khl_ok k" "combo_addr_is_public addr" "stamp_ok t"
  shows "\<exists>k'. g2_khl_add addr t clus k = Some k' \<and> khl_ok k' \<and> num k' = int (card (dom (khl_find k'))) \<and>
    add_spec last_seen addr (\<lambda>e. last_seen e < t) (\<lambda>e. last_seen e < t) (\<lambda>e. e\<lparr>cluster := clus, last_seen := t\<rparr>)
      \<lparr>na = addr, last_seen = t, cluster = clus\<rparr> (num k = int KHL_CACHE_SIZE) (khl_find k) (khl_find k')"
  using khl_add_ok[OF assms] khl_num(1) by blast

lemma hub_public: "combo_addr_is_public (In (htonl 0x08080808) 6346)"
  by code_simp

lemma hub_time: "stamp_ok 100"
  by (simp add: stamp_ok_def)

lemma hub_fam: "fam (In (htonl 0x08080808) 6346) = AF_INET"
  by simp

lemma khl_find_empty: "khl_find (khl_empty seed) addr = None"
  by (simp add: khl_find_def cache_find_def chain_find_def khl_empty_def khl_idx_def khl_ht_index_less)

text \<open>A cache with one hub.\<close>

definition hub :: khl_entry where
  "hub = \<lparr>na = In (htonl 0x08080808) 6346, last_seen = 100, cluster = False\<rparr>"

lemma one_hub: "\<exists>k. g2_khl_add (na hub) 100 False (khl_empty 7) = Some k \<and> khl_ok k \<and> khl_find k = [na hub \<mapsto> hub] \<and> num k = 1"
proof -
  obtain k where k: "g2_khl_add (na hub) 100 False (khl_empty 7) = Some k" "khl_ok k"
    "add_spec last_seen (na hub) (\<lambda>e. last_seen e < 100) (\<lambda>e. last_seen e < 100) (\<lambda>e. e\<lparr>cluster := False, last_seen := 100\<rparr>)
      hub (num (khl_empty 7) = int KHL_CACHE_SIZE) (khl_find (khl_empty 7)) (khl_find k)"
    using khl_add_ok[OF khl_empty_ok hub_public hub_time, of False 7] by (auto simp: hub_def)
  have "num (khl_empty 7) \<noteq> int KHL_CACHE_SIZE" by (simp add: khl_empty_def KHL_CACHE_SIZE_def)
  moreover have none: "khl_find (khl_empty 7) = Map.empty" by (auto simp: khl_find_empty)
  ultimately have find: "khl_find k = [na hub \<mapsto> hub]" using k(3) by (simp add: add_spec_def)
  with khl_num(1)[OF k(2)] k show ?thesis by simp
qed

theorem khl_add_correct_witness:
  "\<exists>k k'. khl_ok k \<and> khl_find k = [na hub \<mapsto> hub] \<and> g2_khl_add (na hub) 200 True k = Some k' \<and> num k' = 1 \<and>
     khl_find k' (na hub) = Some (hub\<lparr>cluster := True, last_seen := 200\<rparr>)"
proof -
  obtain k where k: "khl_ok k" "khl_find k = [na hub \<mapsto> hub]" using one_hub by blast
  have "combo_addr_is_public (na hub)" using hub_public by (simp add: hub_def)
  moreover have "stamp_ok 200" by (simp add: stamp_ok_def)
  ultimately obtain k' where "g2_khl_add (na hub) 200 True k = Some k'" "num k' = int (card (dom (khl_find k')))"
    "add_spec last_seen (na hub) (\<lambda>e. last_seen e < 200) (\<lambda>e. last_seen e < 200) (\<lambda>e. e\<lparr>cluster := True, last_seen := 200\<rparr>)
      \<lparr>na = na hub, last_seen = 200, cluster = True\<rparr> (num k = int KHL_CACHE_SIZE) (khl_find k) (khl_find k')"
    using khl_add_correct[OF k(1), of "na hub" 200 True] by blast
  moreover from this(3) have "khl_find k' = [na hub \<mapsto> hub\<lparr>cluster := True, last_seen := 200\<rparr>]"
    by (simp add: add_spec_def k(2) hub_def)
  ultimately show ?thesis using k by auto
qed

text \<open>
  Handing out hubs ends, and gives the hubs of the wanted kind, youngest first, and then the same hubs once more: when
  there are fewer than asked for, every hub is handed out twice.
\<close>

theorem khl_fill_repeats:
  assumes "khl_ok k"
  shows "\<exists>hs. distinct hs \<and> set hs = {e. khl_find k (na e) = Some e \<and> fam (na e) = f \<and> \<not> cluster e} \<and>
    sorted_wrt (\<lambda>a b. last_seen b \<le> last_seen a) hs \<and>
    g2_khl_fill_p k len f = Some (take len (map khl_pair (hs @ hs)))"
  using fill_hubs[OF assms, of "\<lambda>e. fam (na e) = f \<and> \<not> cluster e" len] by (simp add: g2_khl_fill_p_def)

theorem khl_fill_repeats_witness:
  "\<exists>k. khl_ok k \<and> khl_find k = [na hub \<mapsto> hub] \<and> g2_khl_fill_p k 10 AF_INET = Some [(na hub, 100), (na hub, 100)]"
proof -
  obtain k where k: "khl_ok k" "khl_find k = [na hub \<mapsto> hub]" using one_hub by blast
  obtain hs where hs: "distinct hs" "set hs = {e. khl_find k (na e) = Some e \<and> fam (na e) = AF_INET \<and> \<not> cluster e}"
    "g2_khl_fill_p k 10 AF_INET = Some (take 10 (map khl_pair (hs @ hs)))"
    using khl_fill_repeats[OF k(1)] by blast
  have "fam (na hub) = AF_INET" "\<not> cluster hub" by (simp_all add: hub_def)
  then have set: "set hs = {hub}" unfolding hs(2) k(2) by (auto split: if_splits)
  then have "length hs = 1" using distinct_card[OF hs(1)] by simp
  then obtain x where "hs = [x]" by (cases hs) auto
  with set have "hs = [hub]" by simp
  moreover have "khl_pair hub = (na hub, 100)" by (simp add: khl_pair_def hub_def)
  ultimately show ?thesis using hs(3) k by (intro exI[of _ k]) simp
qed

text \<open>
  C31: The cache survives a restart: the dump that is written at the end, read at the start, gives a cache
  in order with the same hubs and times; only the mark for hubs of our cluster is lost.  The dump was open since the start, or
  an old dump does not have more records than are written.
\<close>

theorem khl_dump_roundtrip:
  assumes "khl_ok k" "num k \<le> int room" "0 < khl_dump \<or> int (length stale) \<le> num k"
  shows "\<exists>f k'. g2_khl_end khl_dump stale entry_size room k = Some f \<and> g2_khl_init seed entry_size f = Some k' \<and> khl_ok k' \<and>
    (\<forall>addr. khl_find k' addr = map_option (\<lambda>e. e\<lparr>cluster := False\<rparr>) (khl_find k addr))"
proof -
  let ?c = "hubs k"
  obtain xs where xs: "khl_inv xs ?c" "num k = int (length xs)"
    "\<And>addr e. khl_find k addr = Some e \<longleftrightarrow> e \<in> entrys ?c ` set xs \<and> na e = addr" "distinct xs"
    by (rule khl_list[OF assms(1)]) simp
  obtain t where t: "rep (tree ?c) t" "labels t = xs" using khl.ok_tree[OF xs(1)] by blast
  let ?es = "map (entrys ?c) xs"
  have "length xs \<le> room" using assms(2) xs(2) by simp
  then have "khl_end_loop ?c room (front xs) [] = Some (map khl_pair ?es)"
    using end_loop[OF t(1), of "[]" xs "[]" room] t(2) by simp
  moreover have old: "(if khl_dump \<le> 0 then drop (length (map (khl_pair \<circ> entrys (hubs k)) xs)) stale else []) = []"
    using assms(3) xs(2) by auto
  ultimately obtain f where f: "g2_khl_end khl_dump stale entry_size room k = Some f" "records f = map khl_pair ?es" "ident f = KHL_DUMP_IDENT"
    "signature f = [KHL_DUMP_ENDIAN_MARKER, entry_size, KHL_DUMP_VERSION]"
    by (simp add: g2_khl_end_def first_front[OF t(1)] t(2) old) (meson khl_file.select_convs)
  have es: "distinct (map na ?es)" using khl.okD(8)[OF xs(1)] xs(4) by (simp add: distinct_map comp_inj_on_iff o_def)
  have fresh: "\<forall>e\<in>set ?es. khl_fine e \<and> khl_find (khl_empty seed) (na e) = None"
    using khl.okD(10)[OF xs(1)] by (auto simp: khl_find_empty)
  have room: "num (khl_empty seed) + int (length ?es) \<le> int KHL_CACHE_SIZE"
    using assms(1) xs(2) by (simp add: khl_ok_def khl_empty_def)
  obtain k' where k': "khl_load (map khl_pair ?es) (khl_empty seed) = Some k'" "khl_ok k'"
    "\<And>addr e. khl_find k' addr = Some e \<longleftrightarrow> na e = addr \<and> e \<in> cluster_update (\<lambda>_. False) ` set ?es"
    using load_new[OF khl_empty_ok es fresh room] by (auto simp: khl_find_empty)
  have "g2_khl_init seed entry_size f = Some k'" using k'(1) f(2-4) by (simp add: g2_khl_init_def Let_def)
  moreover have "khl_find k' addr = Some v \<longleftrightarrow> map_option (\<lambda>e. e\<lparr>cluster := False\<rparr>) (khl_find k addr) = Some v" for addr v
    by (auto simp: k'(3) xs(3) image_iff)
  then have "khl_find k' addr = map_option (\<lambda>e. e\<lparr>cluster := False\<rparr>) (khl_find k addr)" for addr by (rule option_eqI)
  ultimately show ?thesis using f(1) k'(2) by blast
qed

theorem khl_dump_roundtrip_witness:
  "\<exists>k f k'. khl_find k = [na hub \<mapsto> hub] \<and> g2_khl_end 3 [] 40 5 k = Some f \<and> g2_khl_init 9 40 f = Some k' \<and>
     khl_find k' (na hub) = Some hub"
proof -
  obtain k where k: "khl_ok k" "khl_find k = [na hub \<mapsto> hub]" "num k = 1" using one_hub by blast
  from khl_dump_roundtrip[OF k(1), of 5 3 "[]" 40 9] show ?thesis using k(2,3) by (fastforce simp: hub_def)
qed

end
