(* ===== verification/Mem_Words.thy ===== *)
theory Mem_Words
  imports G2_Prelude
begin

text \<open>
  Memory seen as bytes and as machine words.  The string and memory routines of \<^verbatim>\<open>lib/generic\<close>
  work on a \<open>size_t\<close> at a time; the memory is a function from addresses to bytes, a word access is
  an access to eight of them in little endian order, and the bytes of a word are its lanes.
\<close>

type_synonym memory = "nat \<Rightarrow> byte"

subsection \<open>Lanes of a word\<close>

definition lane :: "u64 \<Rightarrow> nat \<Rightarrow> byte" where
  "lane w k = ucast (drop_bit (8 * k) w)"

lemma bit_lane: "bit (lane w k) n \<longleftrightarrow> n < 8 \<and> bit w (8 * k + n)"
  by (auto simp: lane_def bit_ucast_iff bit_drop_bit_eq add.commute)

definition of_lanes :: "byte list \<Rightarrow> u64" where
  "of_lanes bs = word_of_nat (le_value bs)"

lemma bit_le_value: "bit (le_value bs) n \<longleftrightarrow> n div 8 < length bs \<and> bit (bs ! (n div 8)) (n mod 8)"
proof (induction bs arbitrary: n)
  case Nil
  then show ?case by simp
next
  case (Cons b bs)
  have "unat b < 2 ^ 8" by (simp add: less_le_trans[OF unat_byte_lt])
  then have "unat b + push_bit 8 (le_value bs) = unat b OR push_bit 8 (le_value bs)"
    using nat_or_push_bit[of "unat b" 8 "le_value bs"] by simp
  then have "le_value (b # bs) = unat b OR push_bit 8 (le_value bs)"
    by (simp add: push_bit_eq_mult mult.commute)
  then have bits: "bit (le_value (b # bs)) n \<longleftrightarrow> bit b n \<or> 8 \<le> n \<and> bit (le_value bs) (n - 8)"
    by (simp add: bit_or_iff bit_push_bit_iff bit_unsigned_iff del: le_value.simps)
  show ?case
  proof (cases "n < 8")
    case True
    then show ?thesis using bits by simp
  next
    case False
    then have "\<not> bit b n" using bit_imp_le_length[of b n] by auto
    moreover obtain m where "n = m + 8" using False by (metis add.commute le_Suc_ex not_less)
    moreover have "(m + 8) div 8 = Suc (m div 8)" "(m + 8) mod 8 = m mod 8" by simp_all
    ultimately show ?thesis using bits Cons.IH[of m] by (simp del: le_value.simps)
  qed
qed

lemma bit_u64_of_nat: "bit (word_of_nat v :: u64) i \<longleftrightarrow> i < 64 \<and> bit v i"
proof -
  have "bit (word_of_nat v :: u64) i \<longleftrightarrow> bit (unat (word_of_nat v :: u64)) i" by (simp add: bit_unsigned_iff)
  also have "unat (word_of_nat v :: u64) = take_bit 64 v" by (simp add: unsigned_of_nat)
  finally show ?thesis by (simp add: bit_take_bit_iff)
qed

lemma lane_of_lanes:
  assumes "length bs = 8" "k < 8"
  shows "lane (of_lanes bs) k = bs ! k"
proof (rule bit_word_eqI)
  fix n assume n: "n < LENGTH(8)"
  then have "bit (lane (of_lanes bs) k) n \<longleftrightarrow> bit (le_value bs) (8 * k + n)"
    using assms(2) by (auto simp: bit_lane of_lanes_def bit_u64_of_nat)
  also have "\<dots> \<longleftrightarrow> bit (bs ! k) n" using n assms by (simp add: bit_le_value)
  finally show "bit (lane (of_lanes bs) k) n = bit (bs ! k) n" .
qed

lemma lanes_eqI: "(\<And>k. k < 8 \<Longrightarrow> lane v k = lane w k) \<Longrightarrow> v = w"
proof (rule bit_word_eqI)
  fix n assume eq: "\<And>k. k < 8 \<Longrightarrow> lane v k = lane w k" and n: "n < LENGTH(64)"
  then have "bit (lane v (n div 8)) (n mod 8) = bit (lane w (n div 8)) (n mod 8)" by simp
  then show "bit v n = bit w n" by (simp add: bit_lane)
qed

lemma lane_and: "lane (v AND w) k = lane v k AND lane w k"
  and lane_or: "lane (v OR w) k = lane v k OR lane w k"
  and lane_xor: "lane (v XOR w) k = lane v k XOR lane w k"
  by (rule bit_word_eqI; simp add: bit_lane bit_and_iff bit_or_iff bit_xor_iff)+

lemma lane_not: "k < 8 \<Longrightarrow> lane (NOT v) k = NOT (lane v k)"
  by (rule bit_word_eqI) (auto simp: bit_lane bit_not_iff)

subsection \<open>Word access\<close>

definition load64 :: "memory \<Rightarrow> nat \<Rightarrow> u64" where
  "load64 m a = of_lanes (map m [a..<a + 8])"

definition store64 :: "memory \<Rightarrow> nat \<Rightarrow> u64 \<Rightarrow> memory" where
  "store64 m a w = (\<lambda>x. if a \<le> x \<and> x < a + 8 then lane w (x - a) else m x)"

lemma lane_load64: "k < 8 \<Longrightarrow> lane (load64 m a) k = m (a + k)"
  by (simp add: load64_def lane_of_lanes)

text \<open>
  Two neighbouring words, shifted together: the word at an address that is not aligned.
\<close>

lemma lane_skim:
  assumes "0 < s" "s < 8" "k < 8"
  shows "lane (drop_bit (s * 8) (load64 m a) OR push_bit ((8 - s) * 8) (load64 m (a + 8))) k = m (a + s + k)"
proof (rule bit_word_eqI)
  fix n assume n: "n < LENGTH(8)"
  have b: "bit (load64 m c) i \<longleftrightarrow> bit (m (c + i div 8)) (i mod 8)" if "i < 64" for c i
    using that bit_lane[of "load64 m c" "i div 8" "i mod 8"] lane_load64[of "i div 8" m c] by simp
  have hi: "\<not> bit (load64 m c) i" if "64 \<le> i" for c i
    using that bit_imp_le_length[of "load64 m c" i] by auto
  let ?w = "drop_bit (s * 8) (load64 m a) OR push_bit ((8 - s) * 8) (load64 m (a + 8))"
  have i: "8 * k + n < 64" using n assms(3) by simp
  have "bit (lane ?w k) n \<longleftrightarrow> bit (load64 m a) (s * 8 + (8 * k + n)) \<or>
      (8 - s) * 8 \<le> 8 * k + n \<and> bit (load64 m (a + 8)) (8 * k + n - (8 - s) * 8)"
    using n i by (simp add: bit_lane bit_or_iff bit_drop_bit_eq bit_push_bit_iff)
  also have "\<dots> \<longleftrightarrow> bit (m (a + s + k)) n"
  proof (cases "s + k < 8")
    case True
    then have "s * 8 + (8 * k + n) < 64" "\<not> (8 - s) * 8 \<le> 8 * k + n"
      "(s * 8 + (8 * k + n)) div 8 = s + k" "(s * 8 + (8 * k + n)) mod 8 = n" using n by auto
    then show ?thesis using b[of "s * 8 + (8 * k + n)" a] by (simp add: add.assoc)
  next
    case False
    then have "64 \<le> s * 8 + (8 * k + n)" "(8 - s) * 8 \<le> 8 * k + n"
      "8 * k + n - (8 - s) * 8 = 8 * (s + k - 8) + n" using assms by auto
    moreover have "a + 8 + (s + k - 8) = a + s + k" using False by simp
    ultimately show ?thesis using b[of "8 * (s + k - 8) + n" "a + 8"] hi n assms by (simp add: add.assoc)
  qed
  finally show "bit (lane ?w k) n = bit (m (a + s + k)) n" .
qed

end
