(* ===== verification/Base_Codec.thy ===== *)
theory Base_Codec
  imports Mem_Words
begin

text \<open>
  Base 16 and base 32.  Encoding is \<^verbatim>\<open>lib/generic/to_base16.c\<close> and \<^verbatim>\<open>lib/generic/to_base32.c\<close>, which
  convert a machine word at a time; decoding is \<open>from_base16\<close> and \<open>from_base32\<close> of \<^verbatim>\<open>G2QHT.c\<close>, which
  read \<open>tchar_t\<close> strings.
\<close>

type_synonym tchar = u16

subsection \<open>Encoding\<close>

text \<open>\<open>has_greater(x, n)\<close>; \<open>n\<close> is an \<open>int\<close>, the product is computed in \<open>unsigned long\<close>.\<close>

definition has_greater64 :: "u64 \<Rightarrow> int \<Rightarrow> u64" where
  "has_greater64 x n = ((x + 0x0101010101010101 * word_of_int (127 - n)) OR x) AND 0x8080808080808080"

definition has_greater32 :: "u32 \<Rightarrow> int \<Rightarrow> u32" where
  "has_greater32 x n = ((x + 0x01010101 * word_of_int (127 - n)) OR x) AND 0x80808080"

definition be64_bytes :: "u64 \<Rightarrow> byte list" where
  "be64_bytes w = map (\<lambda>k. ucast (drop_bit (56 - 8 * k) w)) [0..<8]"

definition be32_bytes :: "u32 \<Rightarrow> byte list" where
  "be32_bytes w = map (\<lambda>k. ucast (drop_bit (24 - 8 * k) w)) [0..<4]"

text \<open>\<open>do_40bit\<close>, the variant for pointers of eight bytes and the other one.\<close>

definition do_40bit_64 :: "u64 \<Rightarrow> byte list" where
  "do_40bit_64 d1 =
     (let d2 = drop_bit 12 d1;
          d1 = (d1 AND 0xFFFFFFFF00000000) OR (d2 AND 0x00000000FFFFFFFF);
          d2 = drop_bit 6 d1;
          d1 = (d1 AND 0xFFFF0000FFFF0000) OR (d2 AND 0x0000FFFF0000FFFF);
          d2 = drop_bit 3 d1;
          d1 = (d1 AND 0xFF00FF00FF00FF00) OR (d2 AND 0x00FF00FF00FF00FF);
          d1 = drop_bit 3 d1 AND 0x1F1F1F1F1F1F1F1F;
          d1 = d1 + 0x6161616161616161;
          m1 = has_greater64 d1 0x75A;
          m1 = 0x49 * drop_bit 7 m1
      in be64_bytes (d1 - m1))"

text \<open>One half of the other variant: bits to lanes, and lanes to letters.\<close>

definition spread_20bit :: "u32 \<Rightarrow> u32" where
  "spread_20bit a =
     (let b = drop_bit 6 a AND 0x0000FFFF;
          a = (a AND 0xFFFF0000) OR b;
          b = drop_bit 3 a AND 0x00FF00FF;
          a = (a AND 0xFF00FF00) OR b
      in drop_bit 3 a AND 0x1F1F1F1F)"

definition base32_letters :: "u32 \<Rightarrow> u32" where
  "base32_letters a =
     (let a = a + 0x61616161;
          m = has_greater32 a 0x7A;
          m = 0x49 * drop_bit 7 m
      in a - m)"

definition do_40bit_32 :: "u64 \<Rightarrow> byte list" where
  "do_40bit_32 d1 =
     (let d2 = drop_bit 12 d1;
          a1 = ucast (drop_bit 32 (d1 AND 0xFFFFFFFF00000000));
          a2 = ucast (d2 AND 0x00000000FFFFFFFF)
      in be32_bytes (base32_letters (spread_20bit a1)) @ be32_bytes (base32_letters (spread_20bit a2)))"

text \<open>
  \<open>to_base32\<close> for one of the variants of \<open>do_40bit\<close>.  While there are eight bytes to read all of them
  are loaded, else only five; the tail is loaded to the top of the word and padded.
\<close>

definition to_base32_tail :: "(u64 \<Rightarrow> byte list) \<Rightarrow> byte list \<Rightarrow> byte list" where
  "to_base32_tail do_40bit src =
     (if src = [] then []
      else
        (let len = length src;
             d = push_bit ((8 - len) * 8) (word_of_nat (be_value src)) :: u64;
             dst = do_40bit d;
             valid = (if len = 4 then 7 else if len = 3 then 5 else if len = 2 then 4 else 2)
         in take valid dst @ replicate (8 - valid) 0x3D))"

function to_base32 :: "(u64 \<Rightarrow> byte list) \<Rightarrow> byte list \<Rightarrow> byte list" where
  "to_base32 do_40bit src =
     (if length src \<ge> 8 then
        do_40bit (word_of_nat (be_value (take 8 src))) @ to_base32 do_40bit (drop 5 src)
      else if length src \<ge> 5 then
        do_40bit (push_bit 32 (word_of_nat (be_value (take 4 src))) OR push_bit 24 (word_of_nat (unat (src ! 4)))) @
        to_base32 do_40bit (drop 5 src)
      else to_base32_tail do_40bit src)"
  by pat_completeness auto
termination by (relation "measure (\<lambda>(f, src). length src)") auto

declare to_base32.simps [simp del]

definition base16c :: "byte list" where
  "base16c = [48, 49, 50, 51, 52, 53, 54, 55, 56, 57, 97, 98, 99, 100, 101, 102]"

text \<open>Eight bytes at a time: the high and the low digits in two words.\<close>

definition base16_digits :: "u64 \<Rightarrow> u64" where
  "base16_digits v = (let v = v + 0x3030303030303030; m = drop_bit 7 (has_greater64 v 0x39) in v + 0x27 * m)"

definition base16_word :: "byte list \<Rightarrow> byte list" where
  "base16_word bs =
     (let in_l = of_lanes bs;
          in_h = drop_bit 4 (in_l AND NOT 0x0F0F0F0F0F0F0F0F);
          in_l = in_l AND 0x0F0F0F0F0F0F0F0F;
          t1 = base16_digits in_h;
          t2 = base16_digits in_l
      in concat (map (\<lambda>i. [lane t1 i, lane t2 i]) [0..<8]))"

function to_base16 :: "byte list \<Rightarrow> byte list" where
  "to_base16 src =
     (if length src \<ge> 8 then base16_word (take 8 src) @ to_base16 (drop 8 src)
      else concat (map (\<lambda>b. [base16c ! (unat b div 16), base16c ! (unat b mod 16)]) src))"
  by pat_completeness auto
termination by (relation "measure length") auto

declare to_base16.simps [simp del]

subsection \<open>Decoding\<close>

text \<open>A string of \<open>tchar_t\<close> with its terminator; the code never reads behind the terminator.\<close>

definition tch :: "tchar list \<Rightarrow> nat \<Rightarrow> tchar" where
  "tch str i = (if i < length str then str ! i else 0)"

definition base16_digit :: "tchar \<Rightarrow> nat option" where
  "base16_digit c =
     (let tmp = ucast c :: u32 in
      if tmp - 0x30 < 10 then Some (unat (tmp - 0x30))
      else if tmp - 0x41 < 6 then Some (unat (tmp - 0x41 + 10))
      else if tmp - 0x61 < 6 then Some (unat (tmp - 0x61 + 10))
      else None)"

text \<open>The return value (true is 1) and the bytes written to \<open>h\<close>.\<close>

fun from_base16_loop :: "nat \<Rightarrow> nat \<Rightarrow> tchar list \<Rightarrow> nat \<times> byte list" where
  "from_base16_loop 0 i str = (1, [])"
| "from_base16_loop (Suc n) i str =
     (case base16_digit (tch str (i * 2)) of
        None \<Rightarrow> (0, [])
      | Some hi \<Rightarrow>
          (case base16_digit (tch str (i * 2 + 1)) of
             None \<Rightarrow> (0, [])
           | Some lo \<Rightarrow>
               (let (r, h) = from_base16_loop n (i + 1) str
                in (r, (push_bit 4 (word_of_nat hi) OR word_of_nat lo) # h))))"

definition from_base16 :: "tchar list \<Rightarrow> nat \<Rightarrow> nat \<times> byte list" where
  "from_base16 str num = from_base16_loop num 0 str"

definition base32_digit :: "tchar \<Rightarrow> nat option" where
  "base32_digit c =
     (let tmp = ucast c :: u32 in
      if tmp - 0x41 < 26 then Some (unat (tmp - 0x41))
      else if tmp - 0x61 < 26 then Some (unat (tmp - 0x61))
      else if tmp - 0x32 < 6 then Some (unat (tmp - 0x32 + 26))
      else None)"

definition B32_LEN :: "nat \<Rightarrow> nat" where
  "B32_LEN n = (n + 4) div 5 * 8"

text \<open>The loop for \<open>n\<close> more letters; \<open>carry\<close> is an \<open>unsigned\<close>, \<open>shift\<close> an \<open>int\<close> of 0 to 11.\<close>

fun from_base32_loop :: "nat \<Rightarrow> nat \<Rightarrow> int \<Rightarrow> u32 \<Rightarrow> tchar list \<Rightarrow> nat \<times> byte list" where
  "from_base32_loop 0 ch shift carry str = (1, [ucast (drop_bit 8 carry)])"
| "from_base32_loop (Suc n) ch shift carry str =
     (case base32_digit (tch str ch) of
        None \<Rightarrow> (0, [])
      | Some tmp \<Rightarrow>
          (let carry = carry OR push_bit (nat shift) (word_of_nat tmp);
               shift = shift - 5
           in if shift < 0 then
                (let (r, h) = from_base32_loop n (ch + 1) (shift + 8) (push_bit 8 carry) str
                 in (r, ucast (drop_bit 8 carry) # h))
              else from_base32_loop n (ch + 1) shift carry str))"

definition from_base32 :: "tchar list \<Rightarrow> nat \<Rightarrow> nat \<times> byte list" where
  "from_base32 str num = from_base32_loop (B32_LEN num) 0 11 0 str"

end
