(* ===== verification/Swar.thy ===== *)
theory Swar
  imports Mem_Words
begin

text \<open>
  Arithmetic on the bytes of a machine word at the same time.  A word is written as the list of its
  digits to the base 256, least significant first; linear operations act on the digits, and as
  long as the digits stay below 256, so do bit operations.
\<close>

fun dval :: "nat list \<Rightarrow> nat" where
  "dval [] = 0"
| "dval (v # vs) = v + 256 * dval vs"

definition bytewide :: "nat list \<Rightarrow> bool" where
  "bytewide vs \<longleftrightarrow> list_all (\<lambda>v. v < 256) vs"

lemma bytewide_simps [simp]: "bytewide []" "bytewide (v # vs) \<longleftrightarrow> v < 256 \<and> bytewide vs"
  by (simp_all add: bytewide_def)

lemma bytewide_replicate [simp]: "c < 256 \<Longrightarrow> bytewide (replicate n c)"
  by (induction n) simp_all

lemma dval_add: "length us = length vs \<Longrightarrow> dval us + dval vs = dval (map2 (+) us vs)"
  by (induction us vs rule: list_induct2) simp_all

lemma dval_mult: "c * dval vs = dval (map ((*) c) vs)"
  by (induction vs) (simp_all add: algebra_simps)

lemma dval_sub: "list_all2 (\<le>) us vs \<Longrightarrow> dval us + dval (map2 (-) vs us) = dval vs"
  by (induction us vs rule: list_all2_induct) simp_all

lemma dval_lt: "bytewide vs \<Longrightarrow> dval vs < 256 ^ length vs"
  by (induction vs) auto

lemma bit_dval: "bytewide vs \<Longrightarrow> bit (dval vs) i \<longleftrightarrow> i div 8 < length vs \<and> bit (vs ! (i div 8)) (i mod 8)"
proof (induction vs arbitrary: i)
  case (Cons v vs)
  have v: "v < 2 ^ 8" using Cons.prems by simp
  have "dval (v # vs) = v OR push_bit 8 (dval vs)"
    using nat_or_push_bit[OF v, of "dval vs"] by (simp add: push_bit_eq_mult mult.commute)
  then have bits: "bit (dval (v # vs)) i \<longleftrightarrow> bit v i \<or> 8 \<le> i \<and> bit (dval vs) (i - 8)"
    by (simp add: bit_or_iff bit_push_bit_iff del: dval.simps)
  show ?case
  proof (cases "i < 8")
    case False
    then obtain j where j: "i = j + 8" by (metis add.commute le_Suc_ex not_less)
    have "\<not> bit v i" using v False
      by (metis bit_take_bit_iff take_bit_nat_eq_self)
    moreover have "(j + 8) div 8 = Suc (j div 8)" "(j + 8) mod 8 = j mod 8" by simp_all
    ultimately show ?thesis using bits Cons.IH[of j] Cons.prems j by (simp del: dval.simps)
  qed (use bits in simp)
qed simp

text \<open>A word from its digits.\<close>

definition wd :: "nat list \<Rightarrow> 'a::len word" where
  "wd vs = word_of_nat (dval vs)"

lemma wd_add: "length us = length vs \<Longrightarrow> wd us + wd vs = wd (map2 (+) us vs)"
  by (simp add: wd_def flip: dval_add)

lemma wd_add_const: "wd vs + wd (replicate (length vs) c) = wd (map (\<lambda>v. v + c) vs)"
proof -
  have "map2 (+) vs (replicate (length vs) c) = map (\<lambda>v. v + c) vs" by (induction vs) simp_all
  then show ?thesis by (simp add: wd_add)
qed

lemma wd_mult: "word_of_nat c * wd vs = wd (map ((*) c) vs)"
  by (simp add: wd_def flip: dval_mult)

lemma wd_sub:
  assumes "list_all2 (\<le>) us vs"
  shows "wd vs - wd us = wd (map2 (-) vs us)"
proof -
  have "wd us + wd (map2 (-) vs us) = (wd vs :: 'a word)" unfolding wd_def dval_sub[OF assms, symmetric] by simp
  then show ?thesis by (simp add: algebra_simps)
qed

lemma dval_bits:
  assumes "bytewide us" "bytewide vs" "length us = length vs"
  shows "dval us AND dval vs = dval (map2 (AND) us vs)" "dval us OR dval vs = dval (map2 (OR) us vs)"
proof -
  have small: "a AND b < 256" "a OR b < 256" if "a < 256" "b < 256" for a b :: nat
  proof -
    have e: "x < 256 \<longleftrightarrow> take_bit 8 x = x" for x :: nat by (simp add: take_bit_nat_eq_self_iff)
    show "a AND b < 256" "a OR b < 256" using that by (simp_all add: e)
  qed
  have w: "bytewide (map2 (AND) us vs)" "bytewide (map2 (OR) us vs)"
    using assms(3,1,2) by (induction us vs rule: list_induct2) (simp_all add: small)
  show "dval us AND dval vs = dval (map2 (AND) us vs)" "dval us OR dval vs = dval (map2 (OR) us vs)"
    by (rule bit_eqI; simp add: bit_and_iff bit_or_iff bit_dval assms w; auto simp: assms(3) bit_and_iff bit_or_iff)+
qed

lemma wd_and: "bytewide us \<Longrightarrow> bytewide vs \<Longrightarrow> length us = length vs \<Longrightarrow> wd us AND wd vs = wd (map2 (AND) us vs)"
  and wd_or: "bytewide us \<Longrightarrow> bytewide vs \<Longrightarrow> length us = length vs \<Longrightarrow> wd us OR wd vs = wd (map2 (OR) us vs)"
  by (simp_all add: wd_def of_nat_and_eq of_nat_or_eq flip: dval_bits)

lemma unat_wd:
  assumes "bytewide vs" "LENGTH('a) = 8 * length vs"
  shows "unat (wd vs :: 'a::len word) = dval vs"
proof -
  have "dval vs < 2 ^ LENGTH('a)" using dval_lt[OF assms(1)] by (simp add: assms(2) power_mult)
  then show ?thesis by (simp add: wd_def unsigned_of_nat take_bit_nat_eq_self)
qed

text \<open>The bytes of the word.\<close>

lemma byte_of_wd:
  assumes "bytewide vs" "LENGTH('a) = 8 * length vs" "k < length vs"
  shows "(ucast (drop_bit (8 * k) (wd vs :: 'a::len word)) :: byte) = word_of_nat (vs ! k)"
proof (rule bit_word_eqI)
  fix n assume n: "n < LENGTH(8)"
  have "bit (ucast (drop_bit (8 * k) (wd vs :: 'a word)) :: byte) n \<longleftrightarrow> bit (unat (wd vs :: 'a word)) (8 * k + n)"
    using n by (simp add: bit_ucast_iff bit_drop_bit_eq bit_unsigned_iff)
  also have "\<dots> \<longleftrightarrow> bit (vs ! k) n" unfolding unat_wd[OF assms(1,2)] using n assms by (simp add: bit_dval)
  also have "\<dots> \<longleftrightarrow> bit (word_of_nat (vs ! k) :: byte) n" using n by (simp add: bit_of_nat_iff)
  finally show "bit (ucast (drop_bit (8 * k) (wd vs :: 'a word)) :: byte) n = bit (word_of_nat (vs ! k) :: byte) n" .
qed

lemma drop_digits:
  assumes "bytewide (map ((*) (2 ^ k)) bs)" "LENGTH('a) = 8 * length bs"
  shows "drop_bit k (wd (map ((*) (2 ^ k)) bs) :: 'a::len word) = wd bs"
proof -
  have "v < 256" if "2 ^ k * v < 256" for v :: nat
  proof -
    have "v \<le> 2 ^ k * v" by simp
    then show ?thesis using that by linarith
  qed
  then have b: "bytewide bs" using assms(1) by (auto simp: bytewide_def list_all_iff)
  have "unat (drop_bit k (wd (map ((*) (2 ^ k)) bs) :: 'a word)) = drop_bit k (2 ^ k * dval bs)"
    using unat_wd[OF assms(1), where 'a = 'a] assms(2) by (simp add: unat_drop_bit_eq dval_mult)
  also have "\<dots> = unat (wd bs :: 'a word)" using unat_wd[OF b assms(2)] by (simp add: drop_bit_eq_div)
  finally show ?thesis by (simp only: word_unat_eq_iff)
qed

lemma drop_seven:
  assumes "list_all (\<lambda>b. b \<le> 1) bs" "LENGTH('a) = 8 * length bs"
  shows "drop_bit 7 (wd (map ((*) 128) bs) :: 'a::len word) = wd bs"
proof -
  have "bytewide (map ((*) (2 ^ 7)) bs)" using assms(1) by (fastforce simp: bytewide_def list_all_iff)
  from drop_digits[OF this assms(2)] show ?thesis by simp
qed

lemma high_bit:
  assumes "v + (127 - n) < 256" "n \<le> (127 :: nat)"
  shows "((v + (127 - n)) OR v) AND 128 = (if v > n then 128 else 0)"
proof -
  have "b AND 128 = (if 128 \<le> b then 128 else 0)" if "b < 256" for b :: nat
  proof -
    have "b AND 2 ^ k = (if bit b k then 2 ^ k else 0)" for k
      by (rule bit_eqI) (auto simp: bit_and_iff bit_exp_iff)
    from this[of 7] have "b AND 128 = (if bit b 7 then 128 else 0)" by simp
    moreover have "b div 128 = (if 128 \<le> b then 1 else 0)" using that by (auto intro: div_nat_eqI)
    then have "bit b 7 \<longleftrightarrow> 128 \<le> b" by (simp add: bit_iff_odd)
    ultimately show ?thesis by simp
  qed
  moreover have "(x OR y) AND z = (x AND z) OR (y AND z)" for x y z :: nat
    by (rule bit_eqI) (auto simp: bit_and_iff bit_or_iff)
  ultimately show ?thesis using assms by auto
qed

end
