(* ===== verification/Base_Codec_Correct.thy ===== *)
theory Base_Codec_Correct
  imports Base_Codec Swar
begin

text \<open>
  What the base 16 and base 32 routines compute, and that decoding undoes encoding.
\<close>

subsection \<open>Letters, a word at a time\<close>

definition b32 :: "nat \<Rightarrow> nat" where
  "b32 v = (if v < 26 then v + 97 else v + 24)"

definition b16 :: "nat \<Rightarrow> nat" where
  "b16 v = (if v < 10 then v + 48 else v + 87)"

lemma has_greater_digits:
  assumes "bytewide vs" "list_all (\<lambda>v. v + (127 - n) < 256) vs" "n \<le> 127" "LENGTH('a) = 8 * length vs"
  shows "((wd vs + wd (replicate (length vs) (127 - n))) OR wd vs) AND wd (replicate (length vs) 128) =
    (wd (map ((*) 128) (map (\<lambda>v. if v > n then 1 else 0) vs)) :: 'a::len word)"
proof -
  let ?c = "127 - n"
  have orr: "map2 (OR) (map (\<lambda>v. v + ?c) vs) vs = map (\<lambda>v. (v + ?c) OR v) vs" for vs by (induction vs) simp_all
  have "map2 (AND) (map (\<lambda>v. (v + ?c) OR v) vs) (replicate (length vs) 128) = map ((*) 128) (map (\<lambda>v. if v > n then 1 else 0) vs)"
    using assms(2) by (induction vs) (simp_all add: high_bit[OF _ assms(3)])
  moreover have "bytewide (map (\<lambda>v. v + ?c) vs)" using assms(2) by (simp add: bytewide_def list_all_iff)
  moreover have "bytewide (map (\<lambda>v. (v + ?c) OR v) vs)"
  proof -
    have "a OR b < 256" if "a < 256" "b < 256" for a b :: nat
    proof -
      have e: "x < 256 \<longleftrightarrow> take_bit 8 x = x" for x :: nat by (simp add: take_bit_nat_eq_self_iff)
      show ?thesis using that by (simp add: e)
    qed
    then show ?thesis using assms(1,2) by (simp add: bytewide_def list_all_iff)
  qed
  ultimately show ?thesis using assms(1) by (simp add: wd_add_const wd_or orr wd_and)
qed

lemma four: "replicate 4 x = [x, x, x, x]" and eight: "replicate 8 x = [x, x, x, x, x, x, x, x]"
  by (simp_all add: numeral_eq_Suc)

lemma list4: "length vs = 4 \<Longrightarrow> \<exists>a b c d. vs = [a, b, c, d]"
  by (auto simp: numeral_eq_Suc length_Suc_conv)

text \<open>The letters of base 32, four at a time.\<close>

lemma base32_letters_wd:
  assumes "length vs = 4" "list_all (\<lambda>v. v < 32) vs"
  shows "base32_letters (wd vs) = wd (map b32 vs)"
proof -
  let ?a = "map (\<lambda>v. v + 97) vs" and ?g = "map (\<lambda>v. if v > 122 then 1 else 0 :: nat) (map (\<lambda>v. v + 97) vs)"
  have k: "0x61616161 = (wd (replicate 4 97) :: u32)" "0x01010101 * word_of_int (127 - 0x7A) = (wd (replicate 4 (127 - 122)) :: u32)"
    "0x80808080 = (wd (replicate 4 128) :: u32)" "0x49 = (word_of_nat 73 :: u32)"
    by (simp_all add: wd_def four)
  have b: "bytewide ?a" "list_all (\<lambda>v. v + (127 - 122) < 256) ?a" "length ?a = 4"
    using assms by (auto simp: bytewide_def list_all_iff)
  have a: "wd vs + (0x61616161 :: u32) = wd ?a"
    unfolding k(1) using wd_add_const[of vs 97, where 'a = 32] assms(1) by simp
  have hg: "has_greater32 (wd ?a) 0x7A = wd (map ((*) 128) ?g)"
    using has_greater_digits[OF b(1,2), where 'a = 32] assms(1) unfolding has_greater32_def k by simp
  have dr: "drop_bit 7 (wd (map ((*) 128) ?g) :: u32) = wd ?g"
    using assms(1) by (intro drop_seven) (auto simp: list_all_iff)
  have "wd ?a - wd (map ((*) 73) ?g) = (wd (map b32 vs) :: u32)"
  proof -
    have "list_all2 (\<le>) (map ((*) 73) ?g) ?a" "map2 (-) ?a (map ((*) 73) ?g) = map b32 vs"
      by (auto simp: list_all2_conv_all_nth b32_def intro!: nth_equalityI)
    then show ?thesis using wd_sub[of "map ((*) 73) ?g" ?a, where 'a = 32] by simp
  qed
  then show ?thesis unfolding base32_letters_def Let_def a hg dr k(4) wd_mult .
qed

text \<open>Groups of five bits.\<close>

lemma bit_wd: "bytewide vs \<Longrightarrow> bit (wd vs :: 'a::len word) i \<longleftrightarrow> i < LENGTH('a) \<and> i div 8 < length vs \<and> bit (vs ! (i div 8)) (i mod 8)"
  by (simp add: wd_def bit_of_nat_iff bit_dval)

definition five_bits :: "'a::len word \<Rightarrow> nat \<Rightarrow> nat" where
  "five_bits w k = unat w div 2 ^ k mod 32"

lemma five_bits_lt: "five_bits w k < 32"
  by (simp add: five_bits_def)

lemma bit_five_bits: "bit (five_bits w k) n \<longleftrightarrow> n < 5 \<and> bit w (k + n)"
proof -
  have "five_bits w k = take_bit 5 (drop_bit k (unat w))" by (simp add: five_bits_def take_bit_eq_mod drop_bit_eq_div)
  then show ?thesis by (simp add: bit_take_bit_iff bit_drop_bit_eq bit_unsigned_iff)
qed

lemma spread_five_bits: "spread_20bit a = wd [five_bits a 12, five_bits a 17, five_bits a 22, five_bits a 27]"
proof (rule bit_word_eqI)
  fix i assume i: "i < LENGTH(32)"
  have b: "bytewide [five_bits a 12, five_bits a 17, five_bits a 22, five_bits a 27]"
    by (simp add: less_trans[OF five_bits_lt])
  have "i \<in> set [0..<32]" using i by simp
  then show "bit (spread_20bit a) i = bit (wd [five_bits a 12, five_bits a 17, five_bits a 22, five_bits a 27] :: u32) i"
    unfolding bit_wd[OF b] spread_20bit_def Let_def
    by (simp add: bit_and_iff bit_or_iff bit_drop_bit_eq bit_five_bits upt_rec; elim disjE; simp add: bit_numeral_rec bit_five_bits)
qed

lemma be32_bytes_wd:
  assumes "bytewide [a, b, c, d]"
  shows "be32_bytes (wd [a, b, c, d]) = [word_of_nat d, word_of_nat c, word_of_nat b, word_of_nat a]"
proof -
  let ?w = "wd [a, b, c, d] :: u32"
  have "ucast (drop_bit (8 * k) ?w) = (word_of_nat ([a, b, c, d] ! k) :: byte)" if "k < 4" for k
    using byte_of_wd[OF assms, where 'a = 32] that by simp
  from this[of 0] this[of 1] this[of 2] this[of 3] show ?thesis
    by (simp add: be32_bytes_def upt_rec)
qed

lemma b32_lt: "v < 32 \<Longrightarrow> b32 v < 256"
  by (simp add: b32_def)

lemma letters_of_word:
  "be32_bytes (base32_letters (spread_20bit a)) =
     map (\<lambda>k. word_of_nat (b32 (five_bits a k))) [27, 22, 17, 12]"
proof -
  let ?g = "[five_bits a 12, five_bits a 17, five_bits a 22, five_bits a 27]"
  have "base32_letters (wd ?g) = wd (map b32 ?g)" by (rule base32_letters_wd) (simp_all add: five_bits_lt)
  moreover have "bytewide (map b32 ?g)" by (simp add: b32_lt five_bits_lt)
  ultimately show ?thesis using be32_bytes_wd[of "b32 (five_bits a 12)"] by (simp add: spread_five_bits)
qed

text \<open>The variant of \<open>do_40bit\<close> for small pointers gives the eight letters of the first forty bits.\<close>

lemma do_40bit_32_letters:
  "do_40bit_32 d = map (\<lambda>k. word_of_nat (b32 (five_bits d k))) [59, 54, 49, 44, 39, 34, 29, 24]"
proof -
  define a1 a2 :: u32 where "a1 = ucast (drop_bit 32 (d AND 0xFFFFFFFF00000000))"
    and "a2 = ucast (drop_bit 12 d AND 0x00000000FFFFFFFF)"
  have m: "(0x00000000FFFFFFFF :: u64) = mask 32" "drop_bit 32 (0xFFFFFFFF00000000 :: u64) = mask 32"
    by (simp_all add: mask_eq_exp_minus_1)
  have a1: "a1 = ucast (take_bit 32 (drop_bit 32 d))" and a2: "a2 = ucast (take_bit 32 (drop_bit 12 d))"
    unfolding a1_def a2_def drop_bit_and m take_bit_eq_mask by (rule refl)+
  have 1: "five_bits a1 k = five_bits d (32 + k)" if "k \<le> 27" for k
    by (rule bit_eqI) (use that in \<open>auto simp: bit_five_bits a1 bit_ucast_iff bit_take_bit_iff bit_drop_bit_eq ac_simps\<close>)
  have 2: "five_bits a2 k = five_bits d (12 + k)" if "k \<le> 27" for k
    by (rule bit_eqI) (use that in \<open>auto simp: bit_five_bits a2 bit_ucast_iff bit_take_bit_iff bit_drop_bit_eq ac_simps\<close>)
  show ?thesis
    unfolding do_40bit_32_def Let_def a1_def[symmetric] a2_def[symmetric] letters_of_word
    using 1 2 by simp
qed

subsection \<open>Base 32 of a byte string\<close>

definition digits32 :: "nat \<Rightarrow> nat list" where
  "digits32 v = map (\<lambda>k. v div 2 ^ k mod 32) [35, 30, 25, 20, 15, 10, 5, 0]"

definition letters32 :: "nat list \<Rightarrow> byte list" where
  "letters32 vs = map (\<lambda>v. word_of_nat (b32 v)) vs"

lemma be_value_append: "be_value (xs @ ys) = be_value xs * 256 ^ length ys + be_value ys"
proof -
  have "le_value (as @ bs) = le_value as + 256 ^ length as * le_value bs" for as bs
    by (induction as) (simp_all add: algebra_simps)
  then show ?thesis by (simp add: be_value_def algebra_simps)
qed

lemma do_40bit_top:
  assumes "unat d div 2 ^ 24 = v"
  shows "do_40bit_32 d = letters32 (digits32 v)"
proof -
  have "five_bits d (24 + k) = v div 2 ^ k mod 32" for k
    unfolding assms[symmetric] five_bits_def by (simp add: power_add div_mult2_eq)
  from this[of 35] this[of 30] this[of 25] this[of 20] this[of 15] this[of 10] this[of 5] this[of 0] show ?thesis
    by (simp add: do_40bit_32_letters letters32_def digits32_def)
qed

lemma unat_u64: "n < 2 ^ 64 \<Longrightarrow> unat (word_of_nat n :: u64) = n"
  by (simp add: unsigned_of_nat take_bit_nat_eq_self)

lemma unat_be8:
  assumes "length bs \<le> 8"
  shows "unat (word_of_nat (be_value bs) :: u64) = be_value bs"
proof -
  have "be_value bs < 256 ^ length bs" by (rule be_value_bound)
  also have "\<dots> \<le> 256 ^ 8" using assms by (intro power_increasing) auto
  finally show ?thesis by (simp add: unsigned_of_nat take_bit_nat_eq_self)
qed

lemma to_base32_block:
  assumes "5 \<le> length src"
  shows "to_base32 do_40bit_32 src = letters32 (digits32 (be_value (take 5 src))) @ to_base32 do_40bit_32 (drop 5 src)"
proof (cases "8 \<le> length src")
  case True
  have "take 8 src = take 5 src @ take 3 (drop 5 src)" using take_add[of 5 3 src] by simp
  then have "be_value (take 8 src) = be_value (take 5 src) * 2 ^ 24 + be_value (take 3 (drop 5 src))"
    using True by (simp add: be_value_append)
  moreover have "be_value (take 3 (drop 5 src)) < 2 ^ 24" using be_value_bound[of "take 3 (drop 5 src)"] True by simp
  ultimately have "unat (word_of_nat (be_value (take 8 src)) :: u64) div 2 ^ 24 = be_value (take 5 src)"
    using unat_be8[of "take 8 src"] by simp
  then show ?thesis using do_40bit_top True by (subst to_base32.simps) simp
next
  case False
  let ?d = "push_bit 32 (word_of_nat (be_value (take 4 src))) OR push_bit 24 (word_of_nat (unat (src ! 4))) :: u64"
  have t: "take 5 src = take 4 src @ [src ! 4]" using assms take_Suc_conv_app_nth[of 4 src] by simp
  have v: "be_value (take 4 src) < 2 ^ 32" using be_value_bound[of "take 4 src"] assms by simp
  have "unat ?d = be_value (take 5 src) * 2 ^ 24"
  proof -
    have "?d = word_of_nat (be_value (take 4 src) * 2 ^ 32) OR word_of_nat (unat (src ! 4) * 2 ^ 24)"
      by (simp add: push_bit_eq_mult)
    also have "\<dots> = word_of_nat (be_value (take 4 src) * 2 ^ 32 OR unat (src ! 4) * 2 ^ 24)"
      by (simp only: of_nat_or_eq)
    also have "be_value (take 4 src) * 2 ^ 32 OR unat (src ! 4) * 2 ^ 24 = be_value (take 4 src) * 2 ^ 32 + unat (src ! 4) * 2 ^ 24"
      using nat_or_push_bit[of "unat (src ! 4) * 2 ^ 24" 32 "be_value (take 4 src)"] unat_byte_lt[of "src ! 4"]
      by (simp add: push_bit_eq_mult or.commute add.commute)
    also have "\<dots> = be_value (take 5 src) * 2 ^ 24"
      using t by (simp add: be_value_append be_value_def algebra_simps)
    finally have "?d = word_of_nat (be_value (take 5 src) * 2 ^ 24)" .
    moreover have "be_value (take 5 src) < 2 ^ 40" using be_value_bound[of "take 5 src"] assms by simp
    then have "be_value (take 5 src) * 2 ^ 24 < 2 ^ 64" by simp
    ultimately show ?thesis using unat_u64 by metis
  qed
  then have "unat ?d div 2 ^ 24 = be_value (take 5 src)" by simp
  from do_40bit_top[OF this] show ?thesis using False assms
    by (subst to_base32.simps) simp
qed

subsection \<open>Decoding base 32\<close>

fun val32 :: "nat list \<Rightarrow> nat" where
  "val32 [] = 0"
| "val32 (v # vs) = v * 32 ^ length vs + val32 vs"

lemma val32_append: "val32 (us @ vs) = val32 us * 32 ^ length vs + val32 vs"
  by (induction us) (simp_all add: power_add algebra_simps)

lemma val32_digits32: "v < 2 ^ 40 \<Longrightarrow> val32 (digits32 v) = v"
proof -
  assume v: "v < 2 ^ 40"
  have e: "w = w div 32 * 32 + w mod 32" for w :: nat by simp
  define w1 where "w1 = v div 32"
  define w2 where "w2 = w1 div 32"
  define w3 where "w3 = w2 div 32"
  define w4 where "w4 = w3 div 32"
  define w5 where "w5 = w4 div 32"
  define w6 where "w6 = w5 div 32"
  define w7 where "w7 = w6 div 32"
  have w: "v div 2 ^ 5 = w1" "v div 2 ^ 10 = w2" "v div 2 ^ 15 = w3" "v div 2 ^ 20 = w4" "v div 2 ^ 25 = w5"
    "v div 2 ^ 30 = w6" "v div 2 ^ 35 = w7"
    by (simp_all add: w1_def w2_def w3_def w4_def w5_def w6_def w7_def div_mult2_eq[symmetric])
  have "w7 mod 32 = w7" using v w(7) by (simp add: less_mult_imp_div_less)
  then show ?thesis
    using e[of v] e[of w1] e[of w2] e[of w3] e[of w4] e[of w5] e[of w6]
    unfolding digits32_def using w
    by (simp add: w1_def[symmetric] w2_def[symmetric] w3_def[symmetric] w4_def[symmetric] w5_def[symmetric]
        w6_def[symmetric] w7_def[symmetric])
qed

lemma top_byte: "unat (ucast (drop_bit 8 c) :: byte) = unat (c :: u32) mod 2 ^ 16 div 256"
proof -
  have "unat (ucast (drop_bit 8 c) :: byte) = take_bit 8 (drop_bit 8 (unat c))"
    by (simp add: unsigned_ucast_eq unat_drop_bit_eq)
  also have "\<dots> = drop_bit 8 (take_bit 16 (unat c))" by (simp add: take_bit_drop_bit)
  finally show ?thesis by (simp add: take_bit_eq_mod drop_bit_eq_div)
qed

lemma add_digit:
  assumes "unat (c :: u32) mod 2 ^ 16 = P * 2 ^ (16 - p)" "v < 32" "p \<le> 11"
  shows "unat (c OR push_bit (11 - p) (word_of_nat v)) mod 2 ^ 16 = (32 * P + v) * 2 ^ (11 - p)"
proof -
  have e: "16 - p = 5 + (11 - p)" using assms(3) by simp
  have lt: "v * 2 ^ (11 - p) < 2 ^ (16 - p)" unfolding e power_add using assms(2) by simp
  also have "(2::nat) ^ (16 - p) \<le> 2 ^ 16" by (intro power_increasing) auto
  finally have small: "v * 2 ^ (11 - p) < 2 ^ 16" .
  have "push_bit (11 - p) (word_of_nat v :: u32) = word_of_nat (v * 2 ^ (11 - p))" by (simp add: push_bit_eq_mult)
  moreover have "unat (word_of_nat (v * 2 ^ (11 - p)) :: u32) = v * 2 ^ (11 - p)"
    using small by (simp only: unsigned_of_nat) (simp add: take_bit_nat_eq_self)
  ultimately have "take_bit 16 (unat (c OR push_bit (11 - p) (word_of_nat v))) =
      take_bit 16 (unat c) OR v * 2 ^ (11 - p)"
    using small by (simp add: unsigned_or_eq take_bit_or take_bit_nat_eq_self)
  also have "take_bit 16 (unat c) = push_bit (16 - p) P" using assms(1) by (simp add: take_bit_eq_mod push_bit_eq_mult)
  also have "push_bit (16 - p) P OR v * 2 ^ (11 - p) = v * 2 ^ (11 - p) + push_bit (16 - p) P"
    using nat_or_push_bit[OF lt, of P] by (simp add: or.commute)
  also have "\<dots> = (32 * P + v) * 2 ^ (11 - p)" unfolding e push_bit_eq_mult power_add by (simp add: algebra_simps)
  finally show ?thesis by (simp add: take_bit_eq_mod)
qed

lemma shift_out: "unat (push_bit 8 (c :: u32)) mod 2 ^ 16 = unat c mod 2 ^ 16 mod 256 * 256"
proof -
  have "take_bit 16 (unat (push_bit 8 c)) = push_bit 8 (take_bit 8 (take_bit 16 (unat c)))"
    by (simp add: unsigned_push_bit_eq take_bit_push_bit)
  then show ?thesis by (simp only: take_bit_eq_mod push_bit_eq_mult) simp
qed

text \<open>
  The loop with \<open>p\<close> bits pending, the number \<open>P\<close>, at the top of the lower half of \<open>carry\<close>.
\<close>

lemma from_base32_loop_digits:
  assumes "\<And>j. j < length vs \<Longrightarrow> base32_digit (tch str (ch + j)) = Some (vs ! j)" "list_all (\<lambda>v. v < 32) vs"
    and "p \<le> 11" "unat carry mod 2 ^ 16 = P * 2 ^ (16 - p)" "P < 2 ^ p"
    and "8 dvd p + 5 * length vs" "vs = [] \<Longrightarrow> p = 8"
  shows "\<exists>out. from_base32_loop (length vs) ch (11 - int p) carry str = (1, out) \<and>
    8 * length out = p + 5 * length vs \<and> be_value out = P * 32 ^ length vs + val32 vs"
  using assms
proof (induction vs arbitrary: ch p carry P)
  case Nil
  then show ?case using top_byte[of carry] by (simp add: be_value_def)
next
  case (Cons v vs)
  let ?c = "carry OR push_bit (11 - p) (word_of_nat v)" and ?Q = "32 * P + v"
  have v: "v < 32" "base32_digit (tch str ch) = Some v" using Cons.prems(1)[of 0] Cons.prems(2) by auto
  have rest: "base32_digit (tch str (ch + 1 + j)) = Some (vs ! j)" if "j < length vs" for j
    using Cons.prems(1)[of "Suc j"] that by simp
  have all: "list_all (\<lambda>v. v < 32) vs" using Cons.prems(2) by simp
  have c: "unat ?c mod 2 ^ 16 = ?Q * 2 ^ (11 - p)" using add_digit[OF Cons.prems(4) v(1) Cons.prems(3)] .
  have Q: "?Q < 2 ^ (p + 5)" using v(1) Cons.prems(5) by (simp add: power_add)
  have sh: "nat (11 - int p) = 11 - p" using Cons.prems(3) by simp
  show ?case
  proof (cases "p + 5 \<le> 11")
    case True
    have e: "p + 5 = 8" if "vs = []"
    proof -
      have "8 dvd p + 5" using Cons.prems(6) that by simp
      then show ?thesis using True by presburger
    qed
    have "\<exists>out. from_base32_loop (length vs) (ch + 1) (11 - int (p + 5)) ?c str = (1, out) \<and>
        8 * length out = (p + 5) + 5 * length vs \<and> be_value out = ?Q * 32 ^ length vs + val32 vs"
      using rest all True c Q Cons.prems(6) e by (intro Cons.IH) (simp_all add: algebra_simps)
    then show ?thesis using True v(2) sh by (auto simp: Let_def algebra_simps)
  next
    case False
    let ?q = "p + 5 - 8" and ?t = "ucast (drop_bit 8 ?c) :: byte"
    have q: "(2::nat) ^ ?q * 2 ^ (11 - p) = 256" and qp: "8 + (11 - p) = 16 - ?q" "p + 5 = ?q + 8"
      using False Cons.prems(3) by (simp_all flip: power_add)
    have t: "unat ?t = ?Q div 2 ^ ?q"
      unfolding top_byte c q[symmetric] by simp
    have low: "unat (push_bit 8 ?c) mod 2 ^ 16 = ?Q mod 2 ^ ?q * 2 ^ (16 - ?q)"
    proof -
      have "?Q * 2 ^ (11 - p) mod 256 = ?Q mod 2 ^ ?q * 2 ^ (11 - p)" unfolding q[symmetric] by (rule mod_mult_mult2)
      then show ?thesis unfolding shift_out c qp(1)[symmetric] power_add by simp
    qed
    have "8 dvd ?q + 5 * length vs"
    proof -
      have "p + 5 * length (v # vs) = (?q + 5 * length vs) + 8" using False by simp
      then show ?thesis using Cons.prems(6) by (metis dvd_add_triv_right_iff)
    qed
    moreover have "?q = 8" if "vs = []"
    proof -
      have "8 dvd ?q" using calculation that by simp
      then show ?thesis using False Cons.prems(3) by presburger
    qed
    ultimately have "\<exists>out. from_base32_loop (length vs) (ch + 1) (11 - int ?q) (push_bit 8 ?c) str = (1, out) \<and>
        8 * length out = ?q + 5 * length vs \<and> be_value out = ?Q mod 2 ^ ?q * 32 ^ length vs + val32 vs"
      using rest all low Cons.prems(3) by (intro Cons.IH) simp_all
    then obtain out where o: "from_base32_loop (length vs) (ch + 1) (11 - int ?q) (push_bit 8 ?c) str = (1, out)"
      "8 * length out = ?q + 5 * length vs" "be_value out = ?Q mod 2 ^ ?q * 32 ^ length vs + val32 vs" by blast
    have "(256::nat) ^ length out = 2 ^ (8 * length out)" by (simp add: power_mult)
    also have "\<dots> = 2 ^ ?q * 32 ^ length vs" unfolding o(2) power_add by (simp add: power_mult)
    finally have pw: "(256::nat) ^ length out = 2 ^ ?q * 32 ^ length vs" .
    have "be_value (?t # out) = unat ?t * 256 ^ length out + be_value out"
      using be_value_append[of "[?t]" out] by (simp add: be_value_def)
    also have "\<dots> = (?Q div 2 ^ ?q * 2 ^ ?q + ?Q mod 2 ^ ?q) * 32 ^ length vs + val32 vs"
      unfolding t pw o(3) by (simp only: add_mult_distrib mult.assoc add.assoc)
    also have "\<dots> = ?Q * 32 ^ length vs + val32 vs" by (simp only: div_mult_mod_eq)
    finally have "be_value (?t # out) = ?Q * 32 ^ length vs + val32 vs" .
    moreover have "from_base32_loop (length (v # vs)) ch (11 - int p) carry str = (1, ?t # out)"
    proof -
      have "11 - int p - 5 < 0" "11 - int p - 5 + 8 = 11 - int ?q" using False by auto
      then show ?thesis using v(2) sh o(1) by (simp add: Let_def)
    qed
    moreover have "8 * length (?t # out) = p + 5 * length (v # vs)" using o(2) False by simp
    ultimately show ?thesis by (intro exI[of _ "?t # out"]) (simp add: algebra_simps)
  qed
qed

lemma letter_digit: "v < 32 \<Longrightarrow> base32_digit (ucast (word_of_nat (b32 v) :: byte)) = Some v"
proof -
  have "\<forall>v \<in> set [0..<32]. base32_digit (ucast (word_of_nat (b32 v) :: byte)) = Some v" by code_simp
  then show "v < 32 \<Longrightarrow> ?thesis" by simp
qed

lemma to_base32_digits:
  "length h = 5 * m \<Longrightarrow> \<exists>vs. to_base32 do_40bit_32 h = letters32 vs \<and> length vs = 8 * m \<and>
     list_all (\<lambda>v. v < 32) vs \<and> val32 vs = be_value h"
proof (induction m arbitrary: h)
  case 0
  then show ?case
    by (intro exI[of _ "[]"]) (simp add: to_base32.simps to_base32_tail_def letters32_def be_value_def)
next
  case (Suc m)
  have len: "5 \<le> length h" "length (drop 5 h) = 5 * m" using Suc.prems by auto
  from Suc.IH[OF len(2)] obtain vs where vs: "to_base32 do_40bit_32 (drop 5 h) = letters32 vs" "length vs = 8 * m"
    "list_all (\<lambda>v. v < 32) vs" "val32 vs = be_value (drop 5 h)" by blast
  let ?d = "digits32 (be_value (take 5 h))"
  have "be_value (take 5 h) < 2 ^ 40" using be_value_bound[of "take 5 h"] len(1) by simp
  then have d: "length ?d = 8" "list_all (\<lambda>v. v < 32) ?d" "val32 ?d = be_value (take 5 h)"
    using val32_digits32 by (simp_all add: digits32_def)
  have "be_value h = be_value (take 5 h) * 256 ^ (5 * m) + be_value (drop 5 h)"
    using be_value_append[of "take 5 h" "drop 5 h"] len(2) by simp
  moreover have "(256::nat) ^ (5 * m) = 32 ^ (8 * m)" by (simp add: power_mult)
  ultimately have "val32 (?d @ vs) = be_value h" using d(3) vs(2,4) by (simp add: val32_append)
  then show ?case using to_base32_block[OF len(1)] vs d(1,2)
    by (intro exI[of _ "?d @ vs"]) (simp add: letters32_def)
qed

lemma be_value_inj: "length as = length bs \<Longrightarrow> be_value as = be_value bs \<Longrightarrow> as = bs"
proof -
  have "le_value xs = le_value ys \<Longrightarrow> xs = ys" if "length xs = length ys" for xs ys
    using that
  proof (induction xs ys rule: list_induct2)
    case (Cons x xs y ys)
    then have eq: "unat x + 256 * le_value xs = unat y + 256 * le_value ys" by simp
    have "unat x = unat y" using arg_cong[OF eq, of "\<lambda>n. n mod 256"] unat_byte_lt[of x] unat_byte_lt[of y] by simp
    then show ?case using Cons eq by (simp add: word_unat_eq_iff)
  qed simp
  then show "length as = length bs \<Longrightarrow> be_value as = be_value bs \<Longrightarrow> as = bs"
    unfolding be_value_def by (metis length_rev rev_rev_ident)
qed

lemma from_base32_letters:
  assumes "length vs = 8 * m" "0 < m" "list_all (\<lambda>v. v < 32) vs" "length h = 5 * m" "be_value h = val32 vs"
  shows "from_base32 (map ucast (letters32 vs)) (5 * m) = (1, h)"
proof -
  have "B32_LEN (5 * m) = length vs" using assms(1) by (simp add: B32_LEN_def)
  moreover have "base32_digit (tch (map ucast (letters32 vs)) (0 + j)) = Some (vs ! j)" if "j < length vs" for j
    using that assms(3) by (simp add: tch_def letters32_def letter_digit list_all_length)
  then have "\<exists>out. from_base32_loop (length vs) 0 (11 - int 0) 0 (map ucast (letters32 vs)) = (1, out) \<and>
      8 * length out = 0 + 5 * length vs \<and> be_value out = 0 * 32 ^ length vs + val32 vs"
    using assms by (intro from_base32_loop_digits) auto
  then obtain out where "from_base32_loop (length vs) 0 11 0 (map ucast (letters32 vs)) = (1, out)"
    "8 * length out = 5 * length vs" "be_value out = val32 vs" by auto
  moreover have "out = h" using calculation(3,4) assms by (intro be_value_inj) auto
  ultimately show ?thesis by (simp add: from_base32_def)
qed

lemma from_base32_short: "length str < ch + n \<Longrightarrow> fst (from_base32_loop n ch shift carry str) = 0 \<or> n = 0"
proof (induction n arbitrary: ch shift carry)
  case (Suc n)
  show ?case
  proof (cases "base32_digit (tch str ch)")
    case (Some v)
    then have "ch < length str" by (auto simp: tch_def base32_digit_def split: if_splits)
    then have "0 < n" using Suc.prems by simp
    then show ?thesis using Suc.IH[of "ch + 1"] Suc.prems Some by (auto simp: Let_def prod.case_eq_if)
  qed simp
qed simp

subsection \<open>Base 16\<close>

lemma base16_digits_wd:
  assumes "length vs = 8" "list_all (\<lambda>v. v < 16) vs"
  shows "base16_digits (wd vs) = wd (map b16 vs)"
proof -
  let ?a = "map (\<lambda>v. v + 48) vs" and ?g = "map (\<lambda>v. if v > 57 then 1 else 0 :: nat) (map (\<lambda>v. v + 48) vs)"
  have k: "0x3030303030303030 = (wd (replicate 8 48) :: u64)"
    "0x0101010101010101 * word_of_int (127 - 0x39) = (wd (replicate 8 (127 - 57)) :: u64)"
    "0x8080808080808080 = (wd (replicate 8 128) :: u64)" "0x27 = (word_of_nat 39 :: u64)"
    by (simp_all add: wd_def eight)
  have b: "bytewide ?a" "list_all (\<lambda>v. v + (127 - 57) < 256) ?a" "length ?a = 8"
    using assms by (auto simp: bytewide_def list_all_iff)
  have a: "wd vs + (0x3030303030303030 :: u64) = wd ?a"
    unfolding k(1) using wd_add_const[of vs 48, where 'a = 64] assms(1) by simp
  have hg: "has_greater64 (wd ?a) 0x39 = wd (map ((*) 128) ?g)"
    using has_greater_digits[OF b(1,2), where 'a = 64] assms(1) unfolding has_greater64_def k by simp
  have dr: "drop_bit 7 (wd (map ((*) 128) ?g) :: u64) = wd ?g"
    using assms(1) by (intro drop_seven) (auto simp: list_all_iff)
  have "map2 (+) ?a (map ((*) 39) ?g) = map b16 vs"
    using assms(2) by (auto simp: b16_def list_all_length intro!: nth_equalityI)
  then have "wd ?a + wd (map ((*) 39) ?g) = (wd (map b16 vs) :: u64)"
    using wd_add[of ?a "map ((*) 39) ?g", where 'a = 64] by simp
  then show ?thesis unfolding base16_digits_def Let_def a hg dr k(4) wd_mult .
qed

lemma byte_and: "v AND 240 = 16 * (v div 16)" "v AND 15 = v mod 16" if "v < 256" for v :: nat
proof -
  have "take_bit 8 v = v" using that by (simp add: take_bit_nat_eq_self)
  then have v: "bit v n \<Longrightarrow> n < 8" for n by (metis bit_take_bit_iff)
  have "v AND push_bit 4 (mask 4) = push_bit 4 (drop_bit 4 v)"
    by (rule bit_eqI) (auto simp: bit_and_iff bit_push_bit_iff bit_mask_iff bit_drop_bit_eq dest: v)
  then show "v AND 240 = 16 * (v div 16)"
    by (simp add: push_bit_eq_mult drop_bit_eq_div mask_eq_exp_minus_1)
  show "v AND 15 = v mod 16" using take_bit_eq_mask[of 4 v] by (simp add: take_bit_eq_mod mask_eq_exp_minus_1)
qed

lemma of_lanes_wd: "of_lanes bs = wd (map unat bs)"
proof -
  have "le_value bs = dval (map unat bs)" by (induction bs) simp_all
  then show ?thesis by (simp add: of_lanes_def wd_def)
qed

lemma b16_table: "v < 16 \<Longrightarrow> base16c ! v = word_of_nat (b16 v)"
proof -
  have "\<forall>v \<in> set [0..<16]. base16c ! v = word_of_nat (b16 v)" by code_simp
  then show "v < 16 \<Longrightarrow> ?thesis" by simp
qed

lemma high_digit: "unat (b :: byte) div 16 < 16"
  using unat_byte_lt[of b] by (simp add: less_mult_imp_div_less)

definition two_digits :: "byte \<Rightarrow> byte list" where
  "two_digits b = [word_of_nat (b16 (unat b div 16)), word_of_nat (b16 (unat b mod 16))]"

lemma base16_word_digits:
  assumes len: "length bs = 8"
  shows "base16_word bs = concat (map two_digits bs)"
proof -
  let ?v = "map unat bs" and ?h = "map (\<lambda>b. unat b div 16) bs" and ?l = "map (\<lambda>b. unat b mod 16) bs"
  have u: "unat b < 256" for b :: byte by (rule unat_byte_lt)
  have bw: "bytewide ?v" using u by (simp add: bytewide_def list_all_iff)
  have k: "NOT 0x0F0F0F0F0F0F0F0F = (wd (replicate 8 240) :: u64)" "0x0F0F0F0F0F0F0F0F = (wd (replicate 8 15) :: u64)"
    by (simp_all add: wd_def eight)
  have m: "map2 (AND) ?v (replicate 8 240) = map ((*) (2 ^ 4)) ?h" "map2 (AND) ?v (replicate 8 15) = ?l"
    using len by (auto intro!: nth_equalityI simp: byte_and[OF u])
  have "wd ?v AND NOT 0x0F0F0F0F0F0F0F0F = (wd (map ((*) (2 ^ 4)) ?h) :: u64)"
    unfolding k(1) using wd_and[OF bw, of "replicate 8 240", where 'a = 64] m(1) len by simp
  moreover have "wd ?v AND 0x0F0F0F0F0F0F0F0F = (wd ?l :: u64)"
    unfolding k(2) using wd_and[OF bw, of "replicate 8 15", where 'a = 64] m(2) len by simp
  moreover have "drop_bit 4 (wd (map ((*) (2 ^ 4)) ?h) :: u64) = wd ?h"
    using u len by (intro drop_digits) (auto simp: bytewide_def list_all_iff high_digit)
  moreover have "base16_digits (wd ?h) = wd (map b16 ?h)" "base16_digits (wd ?l) = wd (map b16 ?l)"
    by (rule base16_digits_wd; simp add: len list_all_iff high_digit)+
  ultimately have e: "base16_word bs = concat (map (\<lambda>i. [lane (wd (map b16 ?h)) i, lane (wd (map b16 ?l)) i]) [0..<8])"
    unfolding base16_word_def Let_def of_lanes_wd by simp
  have small: "b16 v < 256" if "v < 16" for v using that by (simp add: b16_def)
  have b: "bytewide (map b16 ?h)" "bytewide (map b16 ?l)"
    by (auto simp: bytewide_def list_all_iff high_digit intro!: small)
  have ln: "lane (wd (map b16 ?h)) i = word_of_nat (b16 (unat (bs ! i) div 16))"
    "lane (wd (map b16 ?l)) i = word_of_nat (b16 (unat (bs ! i) mod 16))" if "i < 8" for i
    using byte_of_wd[OF b(1), of i, where 'a = 64] byte_of_wd[OF b(2), of i, where 'a = 64] that len
    by (simp_all add: lane_def)
  have "map (\<lambda>i. [lane (wd (map b16 ?h)) i, lane (wd (map b16 ?l)) i]) [0..<8] = map two_digits bs"
  proof (rule nth_equalityI)
    fix i assume "i < length (map (\<lambda>i. [lane (wd (map b16 ?h)) i, lane (wd (map b16 ?l)) i]) [0..<8])"
    then show "map (\<lambda>i. [lane (wd (map b16 ?h)) i, lane (wd (map b16 ?l)) i]) [0..<8] ! i = map two_digits bs ! i"
      using ln[of i] len by (simp add: two_digits_def del: map_map)
  qed (simp add: len)
  then show ?thesis unfolding e by simp
qed

lemma to_base16_digits: "to_base16 src = concat (map two_digits src)"
proof (induction src rule: to_base16.induct)
  case (1 src)
  show ?case
  proof (cases "8 \<le> length src")
    case True
    have "map two_digits src = map two_digits (take 8 src) @ map two_digits (drop 8 src)"
      by (simp flip: map_append)
    then show ?thesis using True "1.IH"[OF True] base16_word_digits[of "take 8 src"]
      by (subst to_base16.simps) simp
  next
    case False
    have "base16c ! (unat b div 16) = word_of_nat (b16 (unat b div 16))" "base16c ! (unat b mod 16) = word_of_nat (b16 (unat b mod 16))" for b :: byte
      by (simp_all add: b16_table high_digit)
    then show ?thesis using False by (subst to_base16.simps) (simp add: two_digits_def[abs_def])
  qed
qed

lemma digit16: "v < 16 \<Longrightarrow> base16_digit (ucast (word_of_nat (b16 v) :: byte)) = Some v"
proof -
  have "\<forall>v \<in> set [0..<16]. base16_digit (ucast (word_of_nat (b16 v) :: byte)) = Some v" by code_simp
  then show "v < 16 \<Longrightarrow> ?thesis" by simp
qed

lemma from_base16_digits:
  "\<lbrakk>\<And>j. j < length h \<Longrightarrow> tch str (2 * (i + j)) = ucast (two_digits (h ! j) ! 0) \<and> tch str (2 * (i + j) + 1) = ucast (two_digits (h ! j) ! 1)\<rbrakk>
   \<Longrightarrow> from_base16_loop (length h) i str = (1, h)"
proof (induction h arbitrary: i)
  case (Cons b h)
  note u = high_digit[of b]
  have "base16_digit (tch str (i * 2)) = Some (unat b div 16)" "base16_digit (tch str (i * 2 + 1)) = Some (unat b mod 16)"
    using Cons.prems[of 0] u by (simp_all add: two_digits_def digit16 mult.commute)
  moreover have "push_bit 4 (word_of_nat (unat b div 16)) OR word_of_nat (unat b mod 16) = b"
  proof (rule bit_word_eqI)
    fix n assume n: "n < LENGTH(8)"
    have "unat b div 16 = drop_bit 4 (unat b)" "unat b mod 16 = take_bit 4 (unat b)"
      by (simp_all add: drop_bit_eq_div take_bit_eq_mod)
    then show "bit (push_bit 4 (word_of_nat (unat b div 16)) OR word_of_nat (unat b mod 16) :: byte) n = bit b n"
      using n by (auto simp: bit_or_iff bit_push_bit_iff bit_of_nat_iff bit_drop_bit_eq bit_take_bit_iff bit_unsigned_iff)
  qed
  moreover have "from_base16_loop (length h) (i + 1) str = (1, h)"
    using Cons.prems[of "Suc j" for j] by (intro Cons.IH) simp
  ultimately show ?case by simp
qed simp

lemma nth_two_digits: "j < length h \<Longrightarrow> concat (map two_digits h) ! (2 * j) = two_digits (h ! j) ! 0 \<and>
    concat (map two_digits h) ! (2 * j + 1) = two_digits (h ! j) ! 1"
proof (induction h arbitrary: j)
  case (Cons b h)
  show ?case
  proof (cases j)
    case (Suc i)
    then have "2 * j = Suc (Suc (2 * i))" "i < length h" using Cons.prems by auto
    then show ?thesis using Cons.IH[of i] Suc by (simp add: two_digits_def)
  qed (simp add: two_digits_def)
qed simp

lemma length_two_digits: "length (concat (map two_digits h)) = 2 * length h"
  by (induction h) (simp_all add: two_digits_def)

section \<open>The properties\<close>

text \<open>
  C22: A hash of whole blocks of five bytes, written in base 32 by the variant for small pointers, is
  read back unchanged.
\<close>

theorem base32_roundtrip:
  assumes "length h = 5 * m" "0 < m"
  shows "from_base32 (map ucast (to_base32 do_40bit_32 h)) (5 * m) = (1, h)"
  using to_base32_digits[OF assms(1)] from_base32_letters[OF _ assms(2) _ assms(1)] by auto

theorem base32_roundtrip_witness:
  "from_base32 (map ucast (to_base32 do_40bit_32 [1, 2, 3, 4, 5, 6, 7, 8, 9, 10])) 10 = (1, [1, 2, 3, 4, 5, 6, 7, 8, 9, 10])"
  using base32_roundtrip[of "[1, 2, 3, 4, 5, 6, 7, 8, 9, 10]" 2] by simp

text \<open>
  The variant for pointers of eight bytes does not write base 32: of five zero bytes it makes seven
  times the letter a and a control character.
\<close>

theorem base32_wrong:
  "to_base32 do_40bit_32 [0, 0, 0, 0, 0] = [97, 97, 97, 97, 97, 97, 97, 97] \<and>
   to_base32 do_40bit_64 [0, 0, 0, 0, 0] = [97, 97, 97, 97, 97, 97, 97, 24]"
  by code_simp

text \<open>
  Base 16, written eight bytes at a time, is read back unchanged.
\<close>

theorem base16_roundtrip: "from_base16 (map ucast (to_base16 h)) (length h) = (1, h)"
proof -
  have "tch (map ucast (to_base16 h)) (2 * (0 + j)) = ucast (two_digits (h ! j) ! 0) \<and>
      tch (map ucast (to_base16 h)) (2 * (0 + j) + 1) = ucast (two_digits (h ! j) ! 1)" if "j < length h" for j
    using that nth_two_digits[OF that] length_two_digits[of h] by (simp add: tch_def to_base16_digits)
  from from_base16_digits[of h "map ucast (to_base16 h)" 0, OF this] show ?thesis by (simp add: from_base16_def)
qed

text \<open>
  The base 32 of 24 bytes without padding has 39 letters, but 40 are asked for: every string of
  fewer letters than \<open>B32_LEN\<close>, and with it every tiger tree hash, is refused.
\<close>

theorem base32_unpadded_refused:
  assumes "length str < B32_LEN num"
  shows "fst (from_base32 str num) = 0"
  using from_base32_short[of str 0 "B32_LEN num" 11 0] assms by (auto simp: from_base32_def)

theorem base32_unpadded_refused_witness: "fst (from_base32 (replicate 39 97) 24) = 0"
  using base32_unpadded_refused[of "replicate 39 97" 24] by (simp add: B32_LEN_def)

end
