(* ===== verification/Bitfield_RLE.thy ===== *)
theory Bitfield_RLE
  imports G2_Prelude
begin

text \<open>
  The run length encoding of query hash tables, \<^verbatim>\<open>lib/bitfield_rle.c\<close>: the encoder with its
  index of sync blocks, the decoder, the decoder that ands into a table, and the lookup of bits in
  the encoded form.  The model is the portable code (without \<open>I_LIKE_ASM\<close>) on a little endian
  64 bit machine.  A pointer into the source is the list of the bytes behind it (and, where its
  alignment matters, its address); a read outside of the object is \<open>None\<close>.  The output of the
  encoder is the list of the bytes written so far, with the room that is left as a number.
\<close>

subsection \<open>Tables and helpers\<close>

definition NUM_SYNC_MASK :: byte where "NUM_SYNC_MASK = 0x07"
definition NUM_SYNC_MAX :: nat where "NUM_SYNC_MAX = 4"

record sync_block =
  idx :: u32
  off :: u32

definition SYNC_SIZE :: nat where "SYNC_SIZE = 8"

definition popcnt_8 :: "u32 \<Rightarrow> u32" where
  "popcnt_8 v =
     (let w = v - (drop_bit 1 v AND 0x55);
          x = (w AND 0x33) + (drop_bit 2 w AND 0x33);
          y = (x + drop_bit 4 x) AND 0x0F
      in y)"

definition twos_index :: "byte list" where
  "twos_index =
    [ 0,  0,  0,  0,  0,  1,  2,  0,  0,  3,  4,  0,  5,  0,  0,  0,
      0,  6,  7,  0,  8,  0,  0,  0,  9,  0,  0,  0,  0,  0,  0,  0,
      0, 10, 11,  0, 12,  0,  0,  0, 13,  0,  0,  0,  0,  0,  0,  0,
     14,  0,  0,  0,  0,  0,  0,  0,  0,  0,  0,  0,  0,  0,  0,  0,
      0, 15, 16,  0, 17,  0,  0,  0, 18,  0,  0,  0,  0,  0,  0,  0,
     19,  0,  0,  0,  0,  0,  0,  0,  0,  0,  0,  0,  0,  0,  0,  0,
     20,  0,  0,  0,  0,  0,  0,  0,  0,  0,  0,  0,  0,  0,  0,  0,
      0,  0,  0,  0,  0,  0,  0,  0,  0,  0,  0,  0,  0,  0,  0,  0,
      0, 21, 22,  0, 23,  0,  0,  0, 24,  0,  0,  0,  0,  0,  0,  0,
     25,  0,  0,  0,  0,  0,  0,  0,  0,  0,  0,  0,  0,  0,  0,  0,
     26,  0,  0,  0,  0,  0,  0,  0,  0,  0,  0,  0,  0,  0,  0,  0,
      0,  0,  0,  0,  0,  0,  0,  0,  0,  0,  0,  0,  0,  0,  0,  0,
     27,  0,  0,  0,  0,  0,  0,  0,  0,  0,  0,  0,  0,  0,  0,  0,
      0,  0,  0,  0,  0,  0,  0,  0,  0,  0,  0,  0,  0,  0,  0,  0,
      0,  0,  0,  0,  0,  0,  0,  0,  0,  0,  0,  0,  0,  0,  0,  0,
      0,  0,  0,  0,  0,  0,  0,  0,  0,  0,  0,  0,  0,  0,  0,  0]"

definition index_twos :: "byte list" where
  "index_twos =
    [0x03, 0x05, 0x06, 0x09, 0x0A, 0x0C, 0x11,
     0x12, 0x14, 0x18, 0x21, 0x22, 0x24, 0x28,
     0x30, 0x41, 0x42, 0x44, 0x48, 0x50, 0x60,
     0x81, 0x82, 0x84, 0x88, 0x90, 0xA0, 0xC0]"

text \<open>
  What \<^verbatim>\<open>lib/mem_spn_ff.c\<close> and \<^verbatim>\<open>lib/flsst.c\<close> promise; each of them has an implementation for
  every supported processor.
\<close>

definition mem_spn_ff :: "byte list \<Rightarrow> nat" where
  "mem_spn_ff s = length (takeWhile (\<lambda>b. b = 0xFF) s)"

fun flsst :: "nat \<Rightarrow> nat" where
  "flsst n = (if n = 0 then 0 else 1 + flsst (n div 2))"

declare flsst.simps [simp del]

text \<open>\<open>__builtin_ffs(x) - 1\<close> for an \<open>x\<close> that is not zero: the index of the lowest set bit.\<close>

fun ffs_from :: "nat \<Rightarrow> nat \<Rightarrow> byte \<Rightarrow> nat" where
  "ffs_from 0 i x = i"
| "ffs_from (Suc n) i x = (if bit x i then i else ffs_from n (i + 1) x)"

definition ffs_index :: "byte \<Rightarrow> nat" where
  "ffs_index x = ffs_from 8 0 x"

subsection \<open>The encoder\<close>

record enc =
  synb :: "sync_block list"
  num_syn :: nat
  r_out :: "byte list"
  t_len :: nat

text \<open>\<open>for(...; cnt < NUM_SYNC_MAX; cnt++, idx += idx_step) synb[cnt].idx = idx\<close>; \<open>n\<close> are left.\<close>

fun set_idx :: "nat \<Rightarrow> nat \<Rightarrow> nat \<Rightarrow> nat \<Rightarrow> sync_block list \<Rightarrow> sync_block list" where
  "set_idx 0 cnt i idx_step sb = sb"
| "set_idx (Suc n) cnt i idx_step sb =
     set_idx n (cnt + 1) (i + idx_step) idx_step (sb[cnt := (sb ! cnt)\<lparr>idx := word_of_nat i\<rparr>])"

definition init_synb :: "nat \<Rightarrow> sync_block list" where
  "init_synb s_len =
     (let idx_step = s_len div (NUM_SYNC_MAX + 1);
          sb = set_idx NUM_SYNC_MAX 0 idx_step idx_step
                 (replicate (NUM_SYNC_MAX + 1) \<lparr>idx = 0, off = 0\<rparr>)
      in sb[NUM_SYNC_MAX := \<lparr>idx = word_of_nat (s_len + 1), off = 0\<rparr>])"

definition emit_sync :: "nat \<Rightarrow> nat \<Rightarrow> enc \<Rightarrow> enc" where
  "emit_sync os_len s_len st =
     (if os_len - s_len \<ge> unat (idx (synb st ! num_syn st)) then
        (let sb = (synb st)[num_syn st :=
               \<lparr>idx = word_of_nat (os_len - s_len), off = word_of_nat (length (r_out st))\<rparr>];
             n = num_syn st + 1
         in if n < NUM_SYNC_MAX \<and> idx (sb ! (n - 1)) \<ge> idx (sb ! n)
            then (let idx_step = s_len div ((NUM_SYNC_MAX - n) + 1)
                  in st\<lparr>synb := set_idx (NUM_SYNC_MAX - n) n (unat (idx (sb ! (n - 1))) + idx_step)
                                 idx_step sb,
                        num_syn := n\<rparr>)
            else st\<lparr>synb := sb, num_syn := n\<rparr>)
      else st)"

text \<open>
  A run of \<open>f_row\<close> bytes \<open>0xFF\<close> in at most \<open>room\<close> (\<open>t_len\<close>) bytes; the flag is false if the code leaves the
  loop because its length does not fit.
\<close>

definition encode_ff :: "nat \<Rightarrow> nat \<Rightarrow> bool \<times> byte list" where
  "encode_ff f_row room =
     (if f_row > 2 * 0x80 then
        (let f_row = f_row - 1;
             cnt = ((flsst f_row - 1) div 8) + 1;
             b = (word_of_nat cnt OR 0xF0 :: byte)
         in if cnt > room - 1 then (False, [b])
            else (True, b # le_bytes cnt f_row))
      else
        (let (first, f_row, room) =
               (if f_row > 0x80 then ([0x7F], f_row - 0x80, room - 1) else ([], f_row, room))
         in (True, first @ (if f_row \<noteq> 0 \<and> room \<noteq> 0 then [word_of_nat (f_row - 1)] else []))))"

text \<open>The length of a run that is copied: two bytes at a time from an even address.\<close>

fun row_pairs :: "byte list \<Rightarrow> nat" where
  "row_pairs (a # b # bs) = (if a = 0xFF \<and> b = 0xFF then 0 else 2 + row_pairs bs)"
| "row_pairs bs = 0"

definition literal_row :: "nat \<Rightarrow> byte list \<Rightarrow> nat" where
  "literal_row addr data =
     (let o_row = (if even addr then 0 else 1);
          o_row = o_row + row_pairs (drop o_row data);
          o_row = (if o_row \<noteq> 0 \<and> data ! (o_row - 1) = 0xFF then o_row - 1 else o_row)
      in if o_row < length data \<and> data ! o_row \<noteq> 0xFF then o_row + 1 else o_row)"

text \<open>The copy loop; a count of zero wraps around in \<open>(cnt - 1) | 0x80\<close>.\<close>

function encode_literal :: "nat \<Rightarrow> byte list \<Rightarrow> byte list" where
  "encode_literal room row =
     (if room = 0 \<or> row = [] then []
      else
        (let room = room - 1;
             cnt = (if length row > 0x40 then 0x40 else length row);
             cnt = (if cnt \<le> room then cnt else room)
         in ((word_of_nat cnt - 1) OR 0x80) # take cnt row @ encode_literal (room - cnt) (drop cnt row)))"
  by auto
termination by (relation "measure fst") auto

declare encode_literal.simps [simp del]

definition put_out :: "byte list \<Rightarrow> enc \<Rightarrow> enc" where
  "put_out bs st = st\<lparr>r_out := r_out st @ bs, t_len := t_len st - length bs\<rparr>"

lemma mem_spn_ff_pos: "data \<noteq> [] \<Longrightarrow> hd data = 0xFF \<Longrightarrow> 0 < mem_spn_ff data"
  by (cases data) (simp_all add: mem_spn_ff_def)

lemma literal_row_pos:
  assumes "data \<noteq> []" and "hd data \<noteq> 0xFF"
  shows "0 < literal_row addr data"
proof -
  obtain a bs where d: "data = a # bs" "a \<noteq> 0xFF" using assms by (cases data) auto
  have two: "2 \<le> row_pairs data" if "2 \<le> length data"
    using that d by (cases bs) auto
  have none: "row_pairs data = 0" if "length data < 2" using that d by (cases bs) auto
  show ?thesis
    using two none d
    by (cases "2 \<le> length data") (auto simp: literal_row_def Let_def split: if_splits intro!: gr0I)
qed

function encode_loop :: "nat \<Rightarrow> nat \<Rightarrow> byte list \<Rightarrow> enc \<Rightarrow> enc \<times> nat" where
  "encode_loop os_len addr data st =
     (if t_len st = 0 \<or> data = [] then (st, length data)
      else
        (let z = hd data; st = emit_sync os_len (length data) st
         in
          if z = 0xFF then
            (let f_row = mem_spn_ff data; (ok, bs) = encode_ff f_row (t_len st)
             in if ok then encode_loop os_len (addr + f_row) (drop f_row data) (put_out bs st)
                else (put_out bs st, 1))
          else
            (let cnt = popcnt_8 (NOT (ucast z)) in
             if (length data < 2 \<or> data ! 1 = 0xFF) \<and> (cnt = 1 \<or> cnt = 2) then
               encode_loop os_len (addr + 1) (drop 1 data)
                 (put_out [if cnt = 1 then word_of_nat (ffs_index (NOT z)) OR 0xE0
                           else twos_index ! unat (NOT z) OR 0xC0] st)
             else
               (let o_row = literal_row addr data in
                encode_loop os_len (addr + o_row) (drop o_row data)
                  (put_out (encode_literal (t_len st) (take o_row data)) st)))))"
  by pat_completeness auto
termination
proof (relation "measure (\<lambda>(os_len, addr, data, st). length data)", goal_cases)
  case (2 os_len addr data st)
  then show ?case using mem_spn_ff_pos[of data] by (cases data) auto
next
  case (4 os_len addr data st)
  then show ?case using literal_row_pos[of data addr] by (cases data) auto
qed auto

declare encode_loop.simps [simp del]

definition sync_bytes :: "sync_block \<Rightarrow> byte list" where
  "sync_bytes b = le_bytes 4 (unat (idx b)) @ le_bytes 4 (unat (off b))"

text \<open>\<open>addr\<close> is the address of the source; the result is the return value and what was written.\<close>

definition bitfield_encode :: "nat \<Rightarrow> nat \<Rightarrow> byte list \<Rightarrow> int \<times> byte list" where
  "bitfield_encode room addr data =
     (let flags = (room \<noteq> 0);
          room = (if flags then room - 1 else room);
          syn_len = NUM_SYNC_MAX * SYNC_SIZE;
          syn_len = (if syn_len < room then syn_len else room);
          syn_len = (syn_len div SYNC_SIZE) * SYNC_SIZE;
          (st, s_len) = encode_loop (length data) addr data
            \<lparr>synb = init_synb (length data), num_syn = 0, r_out = [], t_len = room - syn_len\<rparr>;
          n_syn_len = num_syn st * SYNC_SIZE;
          syn_len = (if num_syn st \<noteq> 0 then (if n_syn_len < syn_len then n_syn_len else syn_len) else 0);
          res = (if flags
                 then word_of_nat (syn_len div SYNC_SIZE) # r_out st @
                   take syn_len (concat (map sync_bytes (synb st)))
                 else [])
      in (if s_len \<noteq> 0 then - int (length res) else int (length res), res))"

subsection \<open>The decoders\<close>

text \<open>
  What an encoded element does to the target: a run of \<open>0xFF\<close>, copied bytes, or one byte.  An
  item of the input also says how many bytes of the target and of the source it takes and what is
  left of \<open>s_len\<close>; \<open>Stop\<close> is the \<open>break\<close> out of the loop.
\<close>

datatype rle_op = Fill nat | Copy "byte list" | Put byte

datatype rle_item = Stop nat | Item rle_op nat nat nat

text \<open>The length of a long run in \<open>t\<close> bytes; a shift by 64 bits or more is undefined.\<close>

definition run_length :: "nat \<Rightarrow> byte list \<Rightarrow> nat option" where
  "run_length t data = (if t \<le> 8 \<and> t \<le> length data then Some (le_value (take t data)) else None)"

definition rle_read :: "byte list \<Rightarrow> nat \<Rightarrow> nat \<Rightarrow> rle_item option" where
  "rle_read data s_len room =
     (case data of
        [] \<Rightarrow> None
      | c # bs \<Rightarrow>
          if c AND 0x80 = 0 then
            (let cnt = min (unat (c AND 0x7F) + 1) room
             in Some (Item (Fill cnt) cnt 1 (size_sub s_len 1)))
          else if c AND 0x40 = 0 then
            (let cnt = unat (c AND 0x3F) + 1;
                 cnt = (if cnt \<le> s_len then cnt else s_len);
                 cnt = (if cnt \<le> room then cnt else room)
             in if cnt \<le> length bs
                then Some (Item (Copy (take cnt bs)) cnt (cnt + 1) (size_sub s_len (cnt + 1)))
                else None)
          else if c AND 0x20 = 0 then
            (let i = unat (c AND 0x1F)
             in if i < length index_twos
                then Some (Item (Put (NOT (index_twos ! i))) 1 1 (size_sub s_len 1)) else None)
          else if c AND 0x10 = 0 then
            Some (Item (Put (NOT (push_bit (unat (c AND 0x0F)) 1))) 1 1 (size_sub s_len 1))
          else
            (let t = unat (c AND 0x0F); s_len = size_sub s_len 1
             in if t > s_len then Some (Stop s_len)
                else
                  (case run_length t bs of
                     None \<Rightarrow> None
                   | Some cnt \<Rightarrow>
                       (let cnt = min ((cnt + 1) mod (SIZE_MAX + 1)) room
                        in Some (Item (Fill cnt) cnt (1 + t) (size_sub s_len t))))))"

lemma rle_read_progress: "rle_read data s_len room = Some (Item w n u s) \<Longrightarrow> data \<noteq> [] \<and> 0 < u"
  by (cases data) (auto simp: rle_read_def Let_def split: if_splits option.splits)

text \<open>
  The loop of both decoders; \<open>put\<close> is what an element does to the old bytes of the target.  The
  target is split into the bytes before and from \<open>r_wptr\<close> on; \<open>t_len\<close> is the length of the latter.
\<close>

function rle_walk ::
    "(rle_op \<Rightarrow> byte list \<Rightarrow> byte list) \<Rightarrow> byte list \<Rightarrow> byte list \<Rightarrow> byte list \<Rightarrow> nat \<Rightarrow>
     (byte list \<times> byte list \<times> nat) option" where
  "rle_walk put front target data s_len =
     (if target = [] \<or> s_len = 0 then Some (front, target, s_len)
      else
        (case rle_read data s_len (length target) of
           None \<Rightarrow> None
         | Some (Stop s_len') \<Rightarrow> Some (front, target, s_len')
         | Some (Item w n u s_len') \<Rightarrow>
             rle_walk put (front @ put w (take n target)) (drop n target) (drop u data) s_len'))"
  by pat_completeness auto
termination
  by (relation "measure (\<lambda>(put, front, target, data, s_len). length data)")
    (auto dest: rle_read_progress)

declare rle_walk.simps [simp del]

definition skip_syncs :: "byte \<Rightarrow> nat \<Rightarrow> nat" where
  "skip_syncs flags s_len =
     (if flags AND NUM_SYNC_MASK \<noteq> 0 then
        (let sync_size = unat (flags AND NUM_SYNC_MASK) * SYNC_SIZE;
             sync_size = (if s_len > sync_size then sync_size else s_len)
         in s_len - sync_size)
      else s_len)"

definition rle_decode ::
    "(rle_op \<Rightarrow> byte list \<Rightarrow> byte list) \<Rightarrow> byte list \<Rightarrow> byte list \<Rightarrow> (int \<times> byte list) option" where
  "rle_decode put res data =
     map_option (\<lambda>(front, target, s_len).
         (if s_len \<noteq> 0 then - int (length front) else int (length front), front @ target))
       (case data of
          [] \<Rightarrow> rle_walk put [] res [] 0
        | flags # bs \<Rightarrow> rle_walk put [] res bs (skip_syncs flags (length bs)))"

fun decode_put :: "rle_op \<Rightarrow> byte list \<Rightarrow> byte list" where
  "decode_put (Fill n) old = replicate n 0xFF"
| "decode_put (Copy bs) old = bs"
| "decode_put (Put b) old = [b]"

fun and_put :: "rle_op \<Rightarrow> byte list \<Rightarrow> byte list" where
  "and_put (Fill n) old = old"
| "and_put (Copy bs) old = map2 (AND) old bs"
| "and_put (Put b) old = [hd old AND b]"

definition bitfield_decode :: "byte list \<Rightarrow> byte list \<Rightarrow> (int \<times> byte list) option" where
  "bitfield_decode res data = rle_decode decode_put res data"

definition bitfield_and :: "byte list \<Rightarrow> byte list \<Rightarrow> (int \<times> byte list) option" where
  "bitfield_and res data = rle_decode and_put res data"

subsection \<open>Looking up bits in the encoded form\<close>

datatype look = LMatch | LNext | LSkip nat nat u32

text \<open>One round of the inner loop; \<open>LNext\<close> goes on with the next value.\<close>

definition lookup_step :: "u32 \<Rightarrow> u32 \<Rightarrow> byte list \<Rightarrow> nat \<Rightarrow> look option" where
  "lookup_step v bpos dwptr rem_len =
     (let dist = unat (v - bpos) in
      case dwptr of
        [] \<Rightarrow> None
      | c # bs \<Rightarrow>
          if c AND 0x80 = 0 then
            (let cnt = (unat c + 1) * 8
             in if dist < cnt then Some LNext
                else Some (LSkip 1 (rem_len - 1) (bpos + word_of_nat cnt)))
          else if c AND 0x40 = 0 then
            (let cnt = unat (c AND NOT 0x80) + 1
             in if dist < cnt * 8 then
                  (if dist div 8 < length bs
                   then Some (if \<not> bit (bs ! (dist div 8)) (dist mod 8) then LMatch else LNext)
                   else None)
                else
                  (let cnt = (if cnt < rem_len then cnt else rem_len - 1)
                   in Some (LSkip (cnt + 1) (rem_len - (cnt + 1)) (bpos + word_of_nat (cnt * 8)))))
          else if c AND 0x20 = 0 then
            (if dist < 8 then
               (let i = unat (c AND NOT 0xC0)
                in if i < length index_twos
                   then Some (if bit (index_twos ! i) dist then LMatch else LNext) else None)
             else Some (LSkip 1 (rem_len - 1) (bpos + 8)))
          else if c AND 0x10 = 0 then
            (if dist < 8 then Some (if unat (c AND NOT 0xE0) = dist then LMatch else LNext)
             else Some (LSkip 1 (rem_len - 1) (bpos + 8)))
          else
            (let t = unat (c AND NOT 0xF0)
             in if t \<ge> rem_len then Some LNext
                else
                  (case run_length t bs of
                     None \<Rightarrow> None
                   | Some cnt \<Rightarrow>
                       (let cnt = (cnt + 1) mod (SIZE_MAX + 1);
                            bits = (cnt * 8) mod (SIZE_MAX + 1)
                        in if dist < bits then Some LNext
                           else Some (LSkip (1 + t) (rem_len - (1 + t)) (bpos + word_of_nat bits))))))"

lemma lookup_step_progress: "lookup_step v bpos dwptr rem_len = Some (LSkip u r b) \<Longrightarrow> dwptr \<noteq> [] \<and> 0 < u"
  by (cases dwptr) (auto simp: lookup_step_def Let_def split: if_splits option.splits)

text \<open>The inner loop: a match, or where it stopped (\<open>dwptr\<close>, \<open>bpos\<close> and \<open>rem_len\<close>).\<close>

function lookup_walk :: "u32 \<Rightarrow> byte list \<Rightarrow> u32 \<Rightarrow> nat \<Rightarrow> (byte list \<times> u32 \<times> nat) option option" where
  "lookup_walk v dwptr bpos rem_len =
     (if rem_len = 0 then Some (Some (dwptr, bpos, rem_len))
      else
        (case lookup_step v bpos dwptr rem_len of
           None \<Rightarrow> None
         | Some LMatch \<Rightarrow> Some None
         | Some LNext \<Rightarrow> Some (Some (dwptr, bpos, rem_len))
         | Some (LSkip u rem_len' bpos') \<Rightarrow> lookup_walk v (drop u dwptr) bpos' rem_len'))"
  by pat_completeness auto
termination
  by (relation "measure (\<lambda>(v, dwptr, bpos, rem_len). length dwptr)") (auto dest: lookup_step_progress)

declare lookup_walk.simps [simp del]

function sync_fit :: "sync_block list \<Rightarrow> nat \<Rightarrow> nat \<Rightarrow> nat \<Rightarrow> nat" where
  "sync_fit sb q synpos last_fit =
     (if synpos < length sb \<and> q \<ge> unat (idx (sb ! synpos)) then sync_fit sb q (synpos + 1) synpos
      else last_fit)"
  by auto
termination by (relation "measure (\<lambda>(sb, q, synpos, last_fit). length sb - synpos)") auto

declare sync_fit.simps [simp del]

record look_state =
  dwptr :: "byte list"
  bpos :: u32
  rem_len :: nat
  synpos :: nat

text \<open>The restart at a smaller value, and the jump to a sync block.\<close>

definition lookup_restart :: "byte list \<Rightarrow> nat \<Rightarrow> u32 \<Rightarrow> look_state \<Rightarrow> look_state" where
  "lookup_restart data s_len v st =
     (if v < bpos st then \<lparr>dwptr = data, bpos = 0, rem_len = s_len, synpos = 0\<rparr> else st)"

definition lookup_sync :: "byte list \<Rightarrow> nat \<Rightarrow> sync_block list \<Rightarrow> u32 \<Rightarrow> look_state \<Rightarrow> look_state" where
  "lookup_sync data s_len sb v st =
     (if sb \<noteq> [] then
        (let st = st\<lparr>synpos := sync_fit sb (unat v div 8) (synpos st) (synpos st)\<rparr>;
             b = sb ! synpos st
         in if unat v div 8 \<ge> unat (idx b) \<and> unat (idx b) > unat (bpos st) div 8
            then st\<lparr>dwptr := drop (unat (off b)) data, bpos := idx b * 8,
                    rem_len := size_sub s_len (unat (off b))\<rparr>
            else st)
      else st)"

fun lookup_vals ::
    "byte list \<Rightarrow> nat \<Rightarrow> sync_block list \<Rightarrow> u32 list \<Rightarrow> look_state \<Rightarrow> int option" where
  "lookup_vals data s_len sb [] st = Some 0"
| "lookup_vals data s_len sb (v # vals) st =
     (let st = lookup_sync data s_len sb v (lookup_restart data s_len v st) in
      case lookup_walk v (dwptr st) (bpos st) (rem_len st) of
        None \<Rightarrow> None
      | Some None \<Rightarrow> Some (-1)
      | Some (Some (d, b, r)) \<Rightarrow>
          lookup_vals data s_len sb vals (st\<lparr>dwptr := d, bpos := b, rem_len := r\<rparr>))"

text \<open>\<open>memcpy\<close> of \<open>n\<close> sync blocks.\<close>

fun read_syncs :: "nat \<Rightarrow> byte list \<Rightarrow> sync_block list" where
  "read_syncs 0 bs = []"
| "read_syncs (Suc n) bs =
     \<lparr>idx = word_of_nat (le_value (take 4 bs)), off = word_of_nat (le_value (take 4 (drop 4 bs)))\<rparr> #
     read_syncs n (drop 8 bs)"

definition bitfield_lookup :: "u32 list \<Rightarrow> byte list \<Rightarrow> int option" where
  "bitfield_lookup vals data =
     (case data of
        [] \<Rightarrow> lookup_vals [] 0 [] vals \<lparr>dwptr = [], bpos = 0, rem_len = 0, synpos = 0\<rparr>
      | flags # bs \<Rightarrow>
          (let s_len = length bs; num_syn = unat (flags AND NUM_SYNC_MASK);
               sync_size = num_syn * SYNC_SIZE
           in if num_syn \<noteq> 0 \<and> (sync_size \<ge> s_len \<or> num_syn > NUM_SYNC_MAX) then Some 0
              else
                (let sb = read_syncs num_syn (drop (s_len - sync_size) bs); s_len = s_len - sync_size
                 in lookup_vals bs s_len sb vals
                      \<lparr>dwptr = bs, bpos = 0, rem_len = s_len, synpos = 0\<rparr>)))"

end
