(* ===== verification/Bitfield_RLE_Index.thy ===== *)
theory Bitfield_RLE_Index
  imports Bitfield_RLE_Correct
begin

text \<open>
  The index of sync blocks the encoder leaves behind the encoded table, and the lookup that uses
  it: every sync block points to the start of an element and says how many bytes of the table come
  before it (\<open>sync_valid\<close>); from there the lookup finds a bit exactly if it is cleared in the table.
\<close>

subsection \<open>The sync blocks of the encoder\<close>

definition sync_valid :: "rle_tok list \<Rightarrow> sync_block \<Rightarrow> bool" where
  "sync_valid ts b \<longleftrightarrow> (\<exists>j \<le> length ts. unat (idx b) = length (toks_data (take j ts)) \<and>
     unat (off b) = length (toks_bytes (take j ts)))"

lemma sync_valid_append: "sync_valid ts b \<Longrightarrow> sync_valid (ts @ us) b"
proof -
  assume "sync_valid ts b"
  then obtain j where "j \<le> length ts" "unat (idx b) = length (toks_data (take j ts))"
    "unat (off b) = length (toks_bytes (take j ts))" by (auto simp: sync_valid_def)
  then show ?thesis unfolding sync_valid_def by (intro exI[of _ j]) simp
qed

text \<open>What holds between two rounds of the encoder for the table \<open>d\<close>.\<close>

definition enc_inv :: "byte list \<Rightarrow> byte list \<Rightarrow> enc \<Rightarrow> rle_tok list \<Rightarrow> bool" where
  "enc_inv d rest st ts \<longleftrightarrow> list_all tok_ok ts \<and> r_out st = toks_bytes ts \<and> d = toks_data ts @ rest \<and>
     length (synb st) = NUM_SYNC_MAX + 1 \<and> num_syn st \<le> NUM_SYNC_MAX \<and>
     unat (idx (synb st ! NUM_SYNC_MAX)) = length d + 1 \<and>
     list_all (sync_valid ts) (take (num_syn st) (synb st)) \<and> (num_syn st \<noteq> 0 \<longrightarrow> d \<noteq> [])"

lemma set_idx_frame:
  "length (set_idx n cnt i s sb) = length sb"
  "k < cnt \<or> cnt + n \<le> k \<Longrightarrow> set_idx n cnt i s sb ! k = sb ! k"
  by (induction n arbitrary: cnt i sb) auto

lemma take_set_idx: "take cnt (set_idx n cnt i s sb) = take cnt sb"
  by (rule nth_equalityI) (simp_all add: set_idx_frame)

lemma enc_inv_sync:
  assumes inv: "enc_inv d rest st ts" and "rest \<noteq> []" and d: "length d + 1 < 2 ^ 32"
    and out: "length (r_out st) < 2 ^ 32"
  shows "enc_inv d rest (emit_sync (length d) (length rest) st) ts"
proof (cases "length d - length rest \<ge> unat (idx (synb st ! num_syn st))")
  case False
  then show ?thesis using inv by (simp add: emit_sync_def)
next
  case True
  note i = inv[unfolded enc_inv_def]
  let ?n = "num_syn st"
  define b where "b = \<lparr>idx = word_of_nat (length d - length rest) :: u32, off = word_of_nat (length (r_out st)) :: u32\<rparr>"
  define sb where "sb = (synb st)[?n := b]"
  have n: "?n < NUM_SYNC_MAX"
  proof (rule ccontr)
    assume "\<not> ?n < NUM_SYNC_MAX"
    then have "?n = NUM_SYNC_MAX" using i by simp
    then show False using i True by simp
  qed
  have "length d - length rest = length (toks_data ts)" using i by simp
  moreover have "unat (word_of_nat (length (toks_data ts)) :: u32) = length (toks_data ts)"
    "unat (word_of_nat (length (r_out st)) :: u32) = length (r_out st)"
    using d out i by (simp_all add: unat_of_nat take_bit_nat_eq_self)
  ultimately have b: "sync_valid ts b"
    using i unfolding b_def by (auto simp: sync_valid_def intro!: exI[of _ "length ts"])
  have sb: "length sb = NUM_SYNC_MAX + 1" "sb ! NUM_SYNC_MAX = synb st ! NUM_SYNC_MAX"
    using i n by (simp_all add: sb_def)
  have tk: "take (?n + 1) sb = take ?n (synb st) @ [b]"
    using i n by (simp add: sb_def take_Suc_conv_app_nth)
  define step where "step = length rest div (NUM_SYNC_MAX - (?n + 1) + 1)"
  define sb' where "sb' = (if ?n + 1 < NUM_SYNC_MAX \<and> idx (sb ! (?n + 1 - 1)) \<ge> idx (sb ! (?n + 1))
    then set_idx (NUM_SYNC_MAX - (?n + 1)) (?n + 1) (unat (idx (sb ! (?n + 1 - 1))) + step) step sb else sb)"
  have e: "emit_sync (length d) (length rest) st = st\<lparr>synb := sb', num_syn := ?n + 1\<rparr>"
    using True unfolding emit_sync_def Let_def sb_def[symmetric] b_def[symmetric] step_def[symmetric] sb'_def
    by simp
  have sb': "length sb' = length sb" "sb' ! NUM_SYNC_MAX = sb ! NUM_SYNC_MAX" "take (?n + 1) sb' = take (?n + 1) sb"
    using n unfolding sb'_def by (auto simp: set_idx_frame take_set_idx)
  show ?thesis
    using i n sb tk b assms(2) sb' unfolding enc_inv_def e by auto
qed

lemma enc_inv_put:
  assumes "enc_inv d data st ts" and "encodes bs (take n data) us"
  shows "enc_inv d (drop n data) (put_out bs st) (ts @ us)"
  using assms by (auto simp: enc_inv_def encodes_def list_all_iff intro: sync_valid_append)

lemma encode_loop_inv:
  assumes "encode_loop (length d) addr data st = (st', 0)" and "0 < t_len st'"
    and "enc_inv d data st ts" and "length d + 1 < 2 ^ 32" and "length (r_out st) + t_len st < 2 ^ 32"
  shows "\<exists>ts'. enc_inv d [] st' ts'"
proof -
  have small: "length d \<le> SIZE_MAX div 8" using assms(4) by (simp add: SIZE_MAX_def)
  have "\<forall>ts. t_len (fst (encode_loop (length d) addr data st)) \<le> t_len st \<and>
      (snd (encode_loop (length d) addr data st) = 0 \<longrightarrow> 0 < t_len (fst (encode_loop (length d) addr data st)) \<longrightarrow>
       length (r_out st) + t_len st < 2 ^ 32 \<longrightarrow> enc_inv d data st ts \<longrightarrow>
       (\<exists>ts'. enc_inv d [] (fst (encode_loop (length d) addr data st)) ts'))"
  proof (rule encode_loop_induct[where P = "\<lambda>data st r. \<forall>ts. t_len (fst r) \<le> t_len st \<and>
      (snd r = 0 \<longrightarrow> 0 < t_len (fst r) \<longrightarrow> length (r_out st) + t_len st < 2 ^ 32 \<longrightarrow>
       enc_inv d data st ts \<longrightarrow> (\<exists>ts'. enc_inv d [] (fst r) ts'))" and os_len = "length d"], goal_cases)
    case (3 data st n bs r)
    let ?st = "emit_sync (length d) (length data) st"
    have t: "t_len (fst r) \<le> t_len st - length bs" using 3(3) by simp
    have "\<exists>ts'. enc_inv d [] (fst r) ts'"
      if r: "snd r = 0" "0 < t_len (fst r)" and len: "length (r_out st) + t_len st < 2 ^ 32"
        and inv: "enc_inv d data st ts" for ts
    proof -
      have "length data \<le> length d" using inv by (simp add: enc_inv_def)
      then obtain us where us: "encodes bs (take n data) us"
        using 3(2) t r(2) small by (auto simp: enc_step_def)
      have "enc_inv d data ?st ts" using inv 3(1) assms(4) len by (intro enc_inv_sync) auto
      from enc_inv_put[OF this us] show ?thesis using 3(2,3) r len by (auto simp: enc_step_def)
    qed
    then show ?case using t by auto
  qed auto
  then show ?thesis using assms by fastforce
qed

subsection \<open>The result of the encoder\<close>

lemma length_sync_bytes [simp]: "length (sync_bytes b) = SYNC_SIZE"
  by (simp add: sync_bytes_def SYNC_SIZE_def)

lemma take_syncs: "take (n * SYNC_SIZE) (concat (map sync_bytes sb)) = concat (map sync_bytes (take n sb))"
proof (induction sb arbitrary: n)
  case (Cons b sb)
  then show ?case by (cases n) simp_all
qed simp

lemma enc_inv_start:
  assumes "length d + 1 < 2 ^ 32"
  shows "enc_inv d d \<lparr>synb = init_synb (length d), num_syn = 0, r_out = [], t_len = n\<rparr> []"
proof -
  have "unat (word_of_nat (length d + 1) :: u32) = length d + 1"
    unfolding unat_of_nat using assms by (intro mod_less) simp
  then show ?thesis by (simp add: enc_inv_def init_synb_def Let_def set_idx_frame)
qed

definition syn_room :: "nat \<Rightarrow> nat" where
  "syn_room room =
     (if NUM_SYNC_MAX * SYNC_SIZE < room then NUM_SYNC_MAX * SYNC_SIZE else room) div SYNC_SIZE * SYNC_SIZE"

lemma syn_room_le: "syn_room room \<le> room"
  unfolding syn_room_def by (rule order_trans[OF div_times_less_eq_dividend]) auto

lemma bitfield_encode_eq:
  assumes "room \<noteq> 0"
    and loop: "encode_loop (length d) addr d \<lparr>synb = init_synb (length d), num_syn = 0, r_out = [],
        t_len = room - 1 - syn_room (room - 1)\<rparr> = (st, s_len)"
    and syn: "syn = (if num_syn st \<noteq> 0 then (if num_syn st * SYNC_SIZE < syn_room (room - 1)
        then num_syn st * SYNC_SIZE else syn_room (room - 1)) else 0)"
    and E: "E = word_of_nat (syn div SYNC_SIZE) # r_out st @ take syn (concat (map sync_bytes (synb st)))"
  shows "bitfield_encode room addr d = (if s_len \<noteq> 0 then - int (length E) else int (length E), E)"
proof -
  have "(room \<noteq> 0) = True" "(if room \<noteq> 0 then room - 1 else room) = room - 1" using assms(1) by simp_all
  then show ?thesis
    unfolding bitfield_encode_def Let_def E syn
    by (simp only: syn_room_def[symmetric] if_True loop prod.case)
qed

text \<open>What the encoder writes for the table \<open>d\<close> when it does not run out of room.\<close>

definition encoding_of :: "byte list \<Rightarrow> byte list \<Rightarrow> rle_tok list \<Rightarrow> sync_block list \<Rightarrow> bool" where
  "encoding_of d e ts sb \<longleftrightarrow> list_all tok_ok ts \<and> toks_data ts = d \<and>
     list_all (sync_valid ts) sb \<and> length sb \<le> NUM_SYNC_MAX \<and> (sb \<noteq> [] \<longrightarrow> d \<noteq> []) \<and>
     e = word_of_nat (length sb) # toks_bytes ts @ concat (map sync_bytes sb)"

lemma encode_toks:
  assumes enc: "bitfield_encode room addr d = (c, e)" and pos: "0 < c" and fits: "c + 32 < int room"
    and room: "room < 2 ^ 32" and d: "length d + 1 < 2 ^ 32"
  shows "\<exists>ts sb. encoding_of d e ts sb"
proof -
  have r33: "33 < room" using pos fits by simp
  have syn: "syn_room (room - 1) = 32" using r33 by (auto simp: syn_room_def NUM_SYNC_MAX_def SYNC_SIZE_def)
  define st0 where "st0 = \<lparr>synb = init_synb (length d), num_syn = 0, r_out = [], t_len = room - 1 - 32\<rparr>"
  obtain st s_len where loop: "encode_loop (length d) addr d st0 = (st, s_len)"
    by (cases "encode_loop (length d) addr d st0")
  define syn where "syn = (if num_syn st \<noteq> 0 then (if num_syn st * SYNC_SIZE < syn_room (room - 1) then num_syn st * SYNC_SIZE
      else syn_room (room - 1)) else 0)"
  define E where "E = word_of_nat (syn div SYNC_SIZE) # r_out st @ take syn (concat (map sync_bytes (synb st)))"
  have "room \<noteq> 0" using r33 by simp
  from bitfield_encode_eq[OF this loop[unfolded st0_def syn[symmetric]] syn_def E_def]
  have "bitfield_encode room addr d = (if s_len \<noteq> 0 then - int (length E) else int (length E), E)" .
  then have e: "e = E" and c: "c = (if s_len \<noteq> 0 then - int (length e) else int (length e))"
    using enc by auto
  have s0: "s_len = 0" "int (length e) = c" using c pos by (auto split: if_splits)
  have "length (r_out st) + t_len st = room - 33"
    using encode_loop_room[of "length d" addr d st0] loop by (simp add: st0_def)
  moreover have "length (r_out st) + 1 \<le> length e" by (simp add: e E_def)
  ultimately have t: "0 < t_len st" using fits s0 r33 by linarith
  have "length (r_out st0) + t_len st0 < 2 ^ 32" using room by (simp add: st0_def)
  from encode_loop_inv[OF loop[unfolded s0] t _ d this] enc_inv_start[OF d] have "\<exists>ts. enc_inv d [] st ts"
    unfolding st0_def .
  then obtain ts where i: "enc_inv d [] st ts" ..
  note i' = i[unfolded enc_inv_def]
  have "syn = num_syn st * SYNC_SIZE" using i' by (auto simp: syn_def[unfolded syn] SYNC_SIZE_def NUM_SYNC_MAX_def)
  then have "encoding_of d e ts (take (num_syn st) (synb st))"
    using i' unfolding encoding_of_def e E_def by (auto simp: take_syncs[unfolded SYNC_SIZE_def] SYNC_SIZE_def min_def)
  then show ?thesis by blast
qed

subsection \<open>Looking up one bit\<close>

text \<open>The bit \<open>v\<close> of a table is set in the sense of a query hash table: it is cleared.\<close>

definition bit_cleared :: "byte list \<Rightarrow> nat \<Rightarrow> bool" where
  "bit_cleared d v \<longleftrightarrow> v div 8 < length d \<and> \<not> bit (d ! (v div 8)) (v mod 8)"

lemma bit_cleared_append:
  "bit_cleared (a @ b) (8 * length a + v) = bit_cleared b v"
  "v < 8 * length a \<Longrightarrow> bit_cleared (a @ b) v = bit_cleared a v"
  by (auto simp: bit_cleared_def nth_append less_mult_imp_div_less mult.commute)

lemma bit_cleared_ones: "\<not> bit_cleared (replicate n 0xFF) v"
proof
  assume "bit_cleared (replicate n 0xFF) v"
  then have "\<not> bit (- 1 :: byte) (v mod 8)" by (auto simp: bit_cleared_def byte_all_ones)
  then show False by simp
qed

lemma bit_cleared_byte: "v < 8 \<Longrightarrow> bit_cleared [NOT x] v = bit x v"
  by (simp add: bit_cleared_def bit_not_iff)

lemma lookup_step_tok:
  assumes "tok_ok t" and "length (tok_bytes t) \<le> rem" and "unat bp \<le> unat v"
  shows "lookup_step v bp (tok_bytes t @ rest) rem =
    (if unat v - unat bp < 8 * length (tok_data t)
     then Some (if bit_cleared (tok_data t) (unat v - unat bp) then LMatch else LNext)
     else Some (LSkip (length (tok_bytes t)) (rem - length (tok_bytes t))
            (bp + word_of_nat (8 * length (tok_data t)))))"
proof -
  have dist: "unat (v - bp) = unat v - unat bp"
    using assms(3) by (simp add: unat_sub_if_size)
  define dst where "dst = unat v - unat bp"
  note dist = dist[folded dst_def]
  show ?thesis
  proof (cases t)
    case (TRun n)
    then obtain m where "n = Suc m" "m < 128" using assms(1) by (cases n) auto
    then show ?thesis
      using TRun first_byte(1)[of m] bit_cleared_ones[of n dst]
      by (auto simp: lookup_step_def Let_def dist dst_def[symmetric] algebra_simps)
  next
    case (TLong k n)
    have "le_value (le_bytes k (n - 1)) = n - 1" using assms(1) TLong by (simp add: le_value_bytes)
    moreover have "n mod (SIZE_MAX + 1) = n" "n * 8 mod (SIZE_MAX + 1) = n * 8"
      using assms(1) TLong by (simp_all add: SIZE_MAX_def)
    ultimately show ?thesis
      using assms TLong first_byte(5)[of k] bit_cleared_ones[of n dst]
      by (auto simp: lookup_step_def Let_def run_length_def dist dst_def[symmetric] mult.commute)
  next
    case (TLit bs)
    define k where "k = length bs - 1"
    have len: "length bs = k + 1" "k < 64" using assms(1) TLit by (auto simp: k_def)
    have tb: "tok_bytes t = (word_of_nat k OR 0x80) # bs" "tok_data t = bs" by (simp_all add: TLit k_def)
    have inb: "dst div 8 < k + 1 \<and> dst div 8 < length (bs @ rest) \<and> (bs @ rest) ! (dst div 8) = bs ! (dst div 8)"
      if "dst < 8 * (k + 1)"
      using that less_mult_imp_div_less[of dst "k + 1" 8] by (auto simp: nth_append len(1) mult.commute)
    show ?thesis
    proof (cases "dst < 8 * (k + 1)")
      case True
      then show ?thesis
        using inb[OF True] first_byte(2)[OF len(2)] len(1)
        by (simp add: tb lookup_step_def Let_def dist dst_def[symmetric] bit_cleared_def mult.commute)
    next
      case False
      then show ?thesis
        using assms(2) first_byte(2)[OF len(2)] len(1)
        by (simp add: tb lookup_step_def Let_def dist dst_def[symmetric] mult.commute)
    qed
  next
    case (TTwo i)
    then show ?thesis
      using assms first_byte(3)[of i] bit_cleared_byte[of dst]
      by (auto simp: lookup_step_def Let_def length_index_twos dist dst_def[symmetric])
  next
    case (TOne i)
    have "bit (push_bit i 1 :: byte) dst = (i = dst)" if "dst < 8"
      using that TOne assms(1) by (auto simp: bit_exp_iff)
    then have cl: "bit_cleared [NOT (push_bit i 1)] dst = (i = dst)" if "dst < 8"
      using that bit_cleared_byte by simp
    show ?thesis
      using TOne assms first_byte(4)[of i] cl
      by (cases "dst < 8") (simp_all add: lookup_step_def Let_def dist dst_def[symmetric])
  qed
qed

lemma unat_plus_nat: "unat b + m < 2 ^ 32 \<Longrightarrow> unat (b + word_of_nat m :: u32) = unat b + m"
  by (simp add: unat_word_ariths(1) unat_of_nat)

text \<open>
  Where a lookup stands: at the start of the \<open>j\<close>th element.  \<open>tail\<close> is the memory behind the last
  element.
\<close>

definition look_at :: "rle_tok list \<Rightarrow> byte list \<Rightarrow> nat \<Rightarrow> byte list \<Rightarrow> u32 \<Rightarrow> nat \<Rightarrow> bool" where
  "look_at ts tail j dp bp rem \<longleftrightarrow> j \<le> length ts \<and> dp = toks_bytes (drop j ts) @ tail \<and>
     unat bp = 8 * length (toks_data (take j ts)) \<and> rem = length (toks_bytes (drop j ts))"

lemma look_at_step:
  assumes "look_at ts tail j dp bp rem" and "j < length ts" and "8 * length (toks_data ts) < 2 ^ 32"
  shows "look_at ts tail (Suc j) (drop (length (tok_bytes (ts ! j))) dp)
    (bp + word_of_nat (8 * length (tok_data (ts ! j)))) (rem - length (tok_bytes (ts ! j)))"
proof -
  have d: "drop j ts = ts ! j # drop (Suc j) ts" using assms(2) by (rule nth_drop_0)
  have tk: "take (Suc j) ts = take j ts @ [ts ! j]" using assms(2) by (rule take_Suc_conv_app_nth)
  let ?m = "8 * length (tok_data (ts ! j))"
  have "toks_data ts = toks_data (take j ts) @ toks_data (drop j ts)"
    by (metis append_take_drop_id concat_append map_append)
  then have "unat bp + ?m < 2 ^ 32" using assms(1,3) d by (simp add: look_at_def)
  then have "unat (bp + word_of_nat ?m) = unat bp + ?m"
    by (rule unat_plus_nat)
  then show ?thesis using assms(1,2) d tk by (simp add: look_at_def)
qed

lemma toks_cleared:
  assumes "j < length ts" and "8 * length (toks_data (take j ts)) \<le> v"
  shows "v - 8 * length (toks_data (take j ts)) < 8 * length (tok_data (ts ! j)) \<Longrightarrow>
    bit_cleared (toks_data ts) v = bit_cleared (tok_data (ts ! j)) (v - 8 * length (toks_data (take j ts)))"
proof -
  let ?p = "toks_data (take j ts)" and ?r = "toks_data (drop (Suc j) ts)"
  assume lt: "v - 8 * length ?p < 8 * length (tok_data (ts ! j))"
  have "ts = take j ts @ ts ! j # drop (Suc j) ts" using assms(1) by (rule id_take_nth_drop)
  then have "toks_data ts = ?p @ tok_data (ts ! j) @ ?r"
    by (metis concat.simps(2) concat_append list.simps(9) map_append)
  then have "bit_cleared (toks_data ts) v = bit_cleared (tok_data (ts ! j) @ ?r) (v - 8 * length ?p)"
    using bit_cleared_append(1)[of ?p "tok_data (ts ! j) @ ?r" "v - 8 * length ?p"] assms(2) by simp
  then show ?thesis using bit_cleared_append(2)[OF lt] by simp
qed

lemma lookup_walk_toks:
  assumes "list_all tok_ok ts" and "8 * length (toks_data ts) < 2 ^ 32"
    and "look_at ts tail j dp bp rem" and "unat bp \<le> unat v"
  shows "if bit_cleared (toks_data ts) (unat v) then lookup_walk v dp bp rem = Some None
    else \<exists>j' dp' bp' rem'. lookup_walk v dp bp rem = Some (Some (dp', bp', rem')) \<and>
      look_at ts tail j' dp' bp' rem' \<and> unat bp' \<le> unat v"
  using assms(3,4)
proof (induction "length ts - j" arbitrary: j dp bp rem)
  case 0
  then have j: "j = length ts" by (simp add: look_at_def)
  then have "\<not> bit_cleared (toks_data ts) (unat v)"
    using 0 by (auto simp: look_at_def bit_cleared_def dest: leD)
  moreover have "lookup_walk v dp bp rem = Some (Some (dp, bp, rem))"
    using 0 j by (simp add: look_at_def lookup_walk.simps)
  ultimately show ?case using 0 by auto
next
  case (Suc n)
  then have j: "j < length ts" by simp
  let ?t = "ts ! j"
  have ok: "tok_ok ?t" using assms(1) j by (simp add: list_all_length)
  have d: "drop j ts = ?t # drop (Suc j) ts" using j by (rule nth_drop_0)
  have rem: "length (tok_bytes ?t) \<le> rem" "0 < rem"
    using Suc.prems(1) d tok_nonempty(2)[of ?t] by (auto simp: look_at_def)
  have dp: "dp = tok_bytes ?t @ (toks_bytes (drop (Suc j) ts) @ tail)"
    using Suc.prems(1) d by (simp add: look_at_def)
  have bp: "unat bp = 8 * length (toks_data (take j ts))" using Suc.prems(1) by (simp add: look_at_def)
  note step = lookup_step_tok[OF ok rem(1) Suc.prems(2), of "toks_bytes (drop (Suc j) ts) @ tail", folded dp]
  show ?case
  proof (cases "unat v - unat bp < 8 * length (tok_data ?t)")
    case True
    then have "bit_cleared (toks_data ts) (unat v) = bit_cleared (tok_data ?t) (unat v - unat bp)"
      using toks_cleared[OF j, of "unat v"] Suc.prems(2) bp by simp
    then show ?thesis
      using step True rem(2) Suc.prems by (auto simp: lookup_walk.simps[of v dp])
  next
    case False
    let ?u = "length (tok_bytes ?t)" and ?b = "bp + word_of_nat (8 * length (tok_data ?t))"
    have next_at: "look_at ts tail (Suc j) (drop ?u dp) ?b (rem - ?u)"
      using look_at_step[OF Suc.prems(1) j assms(2)] .
    have tk: "take (Suc j) ts = take j ts @ [?t]" using j by (rule take_Suc_conv_app_nth)
    have b: "unat ?b \<le> unat v" using next_at False Suc.prems(2) bp tk by (simp add: look_at_def)
    have n: "n = length ts - Suc j" using Suc.hyps(2) by simp
    have "lookup_walk v dp bp rem = lookup_walk v (drop ?u dp) ?b (rem - ?u)"
      using step False rem(2) by (simp add: lookup_walk.simps[of v dp])
    then show ?thesis using Suc.hyps(1)[OF n next_at b] by (simp only:)
  qed
qed

subsection \<open>Looking up many bits\<close>

lemma sync_fit_cases: "sync_fit sb q sp lf = lf \<or> sync_fit sb q sp lf < length sb"
proof (induction sb q sp lf rule: sync_fit.induct)
  case (1 sb q sp lf)
  show ?case
  proof (cases "sp < length sb \<and> q \<ge> unat (idx (sb ! sp))")
    case True
    then show ?thesis using "1.IH"[OF True] by (auto simp: sync_fit.simps[of _ _ sp lf])
  next
    case False
    then have "sync_fit sb q sp lf = lf" by (subst sync_fit.simps) (rule if_not_P)
    then show ?thesis ..
  qed
qed

lemma look_at_start: "look_at ts tail 0 (toks_bytes ts @ tail) 0 (length (toks_bytes ts))"
  by (simp add: look_at_def)

lemma look_at_sync:
  assumes "sync_valid ts b" and "8 * length (toks_data ts) < 2 ^ 32"
  obtains j where "look_at ts tail j (drop (unat (off b)) (toks_bytes ts @ tail)) (idx b * 8)
      (size_sub (length (toks_bytes ts)) (unat (off b)))" "unat (idx b * 8) = 8 * unat (idx b)"
proof -
  obtain j where j: "j \<le> length ts" "unat (idx b) = length (toks_data (take j ts))"
    "unat (off b) = length (toks_bytes (take j ts))" using assms(1) by (auto simp: sync_valid_def)
  have d: "toks_data ts = toks_data (take j ts) @ toks_data (drop j ts)"
    and t: "toks_bytes ts = toks_bytes (take j ts) @ toks_bytes (drop j ts)"
    by (metis append_take_drop_id concat_append map_append)+
  have "length (toks_data (take j ts)) \<le> length (toks_data ts)" using arg_cong[OF d, of length] by simp
  then have "8 * unat (idx b) < 2 ^ 32" using assms(2) j(2) by linarith
  then have i: "unat (idx b * 8) = 8 * unat (idx b)" by (simp add: unat_word_ariths(2) mult.commute)
  have "drop (unat (off b)) (toks_bytes ts @ tail) = toks_bytes (drop j ts) @ tail"
    "size_sub (length (toks_bytes ts)) (unat (off b)) = length (toks_bytes (drop j ts))"
    unfolding t j(3) by simp_all
  then show thesis using that[of j] i j(1,2) by (simp add: look_at_def)
qed

definition look_ok :: "rle_tok list \<Rightarrow> byte list \<Rightarrow> sync_block list \<Rightarrow> look_state \<Rightarrow> bool" where
  "look_ok ts tail sb st \<longleftrightarrow> (\<exists>j. look_at ts tail j (dwptr st) (bpos st) (rem_len st)) \<and>
     (sb \<noteq> [] \<longrightarrow> synpos st < length sb)"

lemma look_ok_restart:
  assumes "look_ok ts tail sb st"
  shows "look_ok ts tail sb (lookup_restart (toks_bytes ts @ tail) (length (toks_bytes ts)) v st)"
    and "unat (bpos (lookup_restart (toks_bytes ts @ tail) (length (toks_bytes ts)) v st)) \<le> unat v"
  using assms look_at_start[of ts tail]
  by (auto simp: look_ok_def lookup_restart_def word_less_nat_alt)

lemma look_ok_sync:
  assumes ok: "look_ok ts tail sb st" "unat (bpos st) \<le> unat v" and sb: "list_all (sync_valid ts) sb"
    and small: "8 * length (toks_data ts) < 2 ^ 32"
  defines "st' \<equiv> lookup_sync (toks_bytes ts @ tail) (length (toks_bytes ts)) sb v st"
  shows "look_ok ts tail sb st'" and "unat (bpos st') \<le> unat v"
proof -
  have "look_ok ts tail sb st' \<and> unat (bpos st') \<le> unat v"
  proof (cases "sb = []")
    case True
    then show ?thesis using ok by (simp add: st'_def lookup_sync_def)
  next
    case False
    define sp where "sp = sync_fit sb (unat v div 8) (synpos st) (synpos st)"
    have sp: "sp < length sb"
      using sync_fit_cases[of sb "unat v div 8" "synpos st" "synpos st"] ok False by (auto simp: sp_def look_ok_def)
    then have "sync_valid ts (sb ! sp)" using sb by (simp add: list_all_length)
    then obtain j where "look_at ts tail j (drop (unat (off (sb ! sp))) (toks_bytes ts @ tail)) (idx (sb ! sp) * 8)
        (size_sub (length (toks_bytes ts)) (unat (off (sb ! sp))))"
      "unat (idx (sb ! sp) * 8) = 8 * unat (idx (sb ! sp))" using small by (rule look_at_sync)
    then show ?thesis
      using ok sp False
      unfolding st'_def lookup_sync_def Let_def sp_def[symmetric]
      by (auto simp: look_ok_def)
  qed
  then show "look_ok ts tail sb st'" "unat (bpos st') \<le> unat v" by auto
qed

lemma lookup_vals_toks:
  assumes "list_all tok_ok ts" and "8 * length (toks_data ts) < 2 ^ 32" and "list_all (sync_valid ts) sb"
    and "look_ok ts tail sb st"
  shows "lookup_vals (toks_bytes ts @ tail) (length (toks_bytes ts)) sb vals st =
    Some (if \<exists>v \<in> set vals. bit_cleared (toks_data ts) (unat v) then -1 else 0)"
  using assms(4)
proof (induction vals arbitrary: st)
  case Nil
  then show ?case by simp
next
  case (Cons v vals)
  let ?d = "toks_bytes ts @ tail" and ?n = "length (toks_bytes ts)"
  define st' where "st' = lookup_sync ?d ?n sb v (lookup_restart ?d ?n v st)"
  note r = look_ok_restart[OF Cons.prems, of v]
  have ok: "look_ok ts tail sb st'" "unat (bpos st') \<le> unat v"
    using look_ok_sync[OF r assms(3,2)] by (simp_all add: st'_def)
  then obtain j where at: "look_at ts tail j (dwptr st') (bpos st') (rem_len st')" by (auto simp: look_ok_def)
  show ?case
  proof (cases "bit_cleared (toks_data ts) (unat v)")
    case True
    then have "lookup_walk v (dwptr st') (bpos st') (rem_len st') = Some None"
      using lookup_walk_toks[OF assms(1,2) at ok(2)] by simp
    then show ?thesis using True by (simp add: st'_def[symmetric])
  next
    case False
    then obtain j' dp' bp' rem' where w: "lookup_walk v (dwptr st') (bpos st') (rem_len st') = Some (Some (dp', bp', rem'))"
      "look_at ts tail j' dp' bp' rem'" using lookup_walk_toks[OF assms(1,2) at ok(2)] by auto
    then have "look_ok ts tail sb (st'\<lparr>dwptr := dp', bpos := bp', rem_len := rem'\<rparr>)"
      using ok(1) by (auto simp: look_ok_def)
    then show ?thesis using w(1) Cons.IH False by (simp add: st'_def[symmetric])
  qed
qed

lemma read_syncs_bytes: "read_syncs (length sb) (concat (map sync_bytes sb)) = sb"
proof (induction sb)
  case (Cons b sb)
  have "le_value (le_bytes 4 (unat x)) = unat x" for x :: u32
  proof (rule le_value_bytes)
    have "unat x < 2 ^ LENGTH(32)" by (rule unsigned_less)
    then show "unat x < 256 ^ 4" by simp
  qed
  then show ?case using Cons by (cases b) (simp add: sync_bytes_def)
qed simp

lemma flag_syncs:
  assumes "n \<le> NUM_SYNC_MAX"
  shows "(word_of_nat n :: byte) AND NUM_SYNC_MASK = word_of_nat n" and "unat (word_of_nat n :: byte) = n"
proof -
  have "list_all (\<lambda>n. (word_of_nat n :: byte) AND NUM_SYNC_MASK = word_of_nat n \<and>
      unat (word_of_nat n :: byte) = n) [0..<5]" by code_simp
  from list_all_upt[OF this] assms
  show "(word_of_nat n :: byte) AND NUM_SYNC_MASK = word_of_nat n" "unat (word_of_nat n :: byte) = n"
    by (simp_all add: NUM_SYNC_MAX_def)
qed

lemma lookup_encoding:
  assumes e: "encoding_of d e ts sb" and small: "8 * length d < 2 ^ 32"
  shows "bitfield_lookup vals e = Some (if \<exists>v \<in> set vals. bit_cleared d (unat v) then -1 else 0)"
proof -
  note i = e[unfolded encoding_of_def]
  let ?n = "length sb" and ?tail = "concat (map sync_bytes sb)"
  have len: "length ?tail = ?n * SYNC_SIZE" by (induction sb) simp_all
  have n: "?n \<le> NUM_SYNC_MAX" using i by simp
  have body: "?n \<noteq> 0 \<Longrightarrow> toks_bytes ts \<noteq> []"
    using i tok_nonempty(2) by (cases ts) auto
  have "look_ok ts ?tail sb \<lparr>dwptr = toks_bytes ts @ ?tail, bpos = 0, rem_len = length (toks_bytes ts), synpos = 0\<rparr>"
    using look_at_start[of ts ?tail] by (auto simp: look_ok_def)
  from lookup_vals_toks[OF _ _ _ this, of vals] show ?thesis
    using i small flag_syncs[OF n] n len body read_syncs_bytes[of sb]
    by (cases "sb = []") (auto simp: bitfield_lookup_def Let_def)
qed

lemma decode_encoding:
  assumes e: "encoding_of d e ts sb" and len: "length res = length d"
  shows "bitfield_decode res e = Some (int (length d), d)"
    and "bitfield_and res e = Some (int (length d), map2 (AND) res d)"
proof -
  note i = e[unfolded encoding_of_def]
  have n: "length sb \<le> NUM_SYNC_MAX" "length sb < 8" using i by (simp_all add: NUM_SYNC_MAX_def)
  have tail: "length (concat (map sync_bytes sb)) = length sb * SYNC_SIZE" by (induction sb) simp_all
  show "bitfield_decode res e = Some (int (length d), d)"
    using decode_sink.decode_toks[OF _ _ flag_syncs(1)[OF n(1)] n(2) tail, of ts res] i len
    by (simp add: bitfield_decode_def)
  show "bitfield_and res e = Some (int (length d), map2 (AND) res d)"
    using and_sink.decode_toks[OF _ _ flag_syncs(1)[OF n(1)] n(2) tail, of ts res] i len
    by (simp add: bitfield_and_def)
qed

section \<open>The properties\<close>

text \<open>
  C12: A table that is encoded with room to spare comes back: decoding the encoded form into a
  buffer of the size of the table gives the table, byte for byte.
\<close>

theorem rle_roundtrip:
  assumes "bitfield_encode room addr d = (c, e)" and "0 < c" and "c + 32 < int room"
    and "room < 2 ^ 32" and "length d + 1 < 2 ^ 32" and "length res = length d"
  shows "bitfield_decode res e = Some (int (length d), d)"
  using encode_toks[OF assms(1-5)] decode_encoding(1)[OF _ assms(6)] by blast

text \<open>A small table with all kinds of elements, and its encoding.\<close>

definition small_table :: "byte list" where
  "small_table = [0xFF, 0xFF, 0xFF, 0xFE, 0xFF, 0xFC, 0xFF, 1, 2, 3]"

definition small_encoded :: "byte list" where
  "small_encoded =
     [3, 2, 224, 0, 192, 0, 130, 1, 2, 3, 3, 0, 0, 0, 1, 0, 0, 0, 4, 0, 0, 0, 2, 0, 0, 0, 6, 0, 0, 0, 4, 0, 0, 0]"

lemma small_table_encoded: "bitfield_encode 100 0 small_table = (34, small_encoded)"
  by code_simp

lemma length_small_table: "length small_table = 10"
  by (simp add: small_table_def)

theorem rle_roundtrip_witness:
  "bitfield_decode (replicate 10 0) small_encoded = Some (10, small_table)"
  using rle_roundtrip[OF small_table_encoded, of "replicate 10 0"] by (simp add: length_small_table)

text \<open>
  C14: Anding a table that was encoded with room to spare, so that the encoding was not cut off, into another table of the same size gives the
  bytewise and of both tables.
\<close>

theorem rle_and_correct:
  assumes "bitfield_encode room addr d = (c, e)" and "0 < c" and "c + 32 < int room"
    and "room < 2 ^ 32" and "length d + 1 < 2 ^ 32" and "length res = length d"
  shows "bitfield_and res e = Some (int (length d), map2 (AND) res d)"
  using encode_toks[OF assms(1-5)] decode_encoding(2)[OF _ assms(6)] by blast

theorem rle_and_correct_witness:
  "bitfield_and (replicate 10 0x0F) small_encoded =
     Some (10, map2 (AND) (replicate 10 0x0F) small_table)"
  using rle_and_correct[OF small_table_encoded, of "replicate 10 0x0F"] by (simp add: length_small_table)

text \<open>
  C13: The lookup of a set of hashes in a table that was encoded with room to spare, so that the encoding was not cut off, with all its jumps over
  the index, gives a match exactly if one of the hashes is marked in the table, that is, if its bit is cleared.
\<close>

theorem rle_lookup_correct:
  assumes "bitfield_encode room addr d = (c, e)" and "0 < c" and "c + 32 < int room"
    and "room < 2 ^ 32" and "8 * length d < 2 ^ 32"
  shows "bitfield_lookup vals e = Some (if \<exists>v \<in> set vals. bit_cleared d (unat v) then -1 else 0)"
proof -
  have "length d + 1 < 2 ^ 32" using assms(5) by simp
  with encode_toks[OF assms(1-4)] lookup_encoding[OF _ assms(5)] show ?thesis by blast
qed

theorem rle_lookup_correct_witness:
  "bitfield_lookup [5, 24, 3] small_encoded = Some (-1) \<and>
   bitfield_lookup [5, 25, 800] small_encoded = Some 0"
proof -
  have "bit_cleared small_table 24" "\<not> bit_cleared small_table 5" "\<not> bit_cleared small_table 25"
    "\<not> bit_cleared small_table 800" by code_simp+
  then show ?thesis
    using rle_lookup_correct[OF small_table_encoded, of "[5, 24, 3]"]
      rle_lookup_correct[OF small_table_encoded, of "[5, 25, 800]"]
    by (simp add: length_small_table)
qed

text \<open>
  C15: The encoder never writes more than the room it was given, and the absolute value of its
  result is the number of bytes it wrote.  A positive result does not say that all of the table was encoded.
\<close>

theorem rle_encode_bounds:
  assumes "bitfield_encode room addr d = (c, e)"
  shows "length e \<le> room \<and> abs c = int (length e)"
proof (cases "room = 0")
  case True
  then show ?thesis using assms by (auto simp: bitfield_encode_def Let_def split: prod.splits if_splits)
next
  case False
  let ?s = "syn_room (room - 1)"
  define st0 where "st0 = \<lparr>synb = init_synb (length d), num_syn = 0, r_out = [], t_len = room - 1 - ?s\<rparr>"
  obtain st s_len where loop: "encode_loop (length d) addr d st0 = (st, s_len)"
    by (cases "encode_loop (length d) addr d st0")
  define syn where "syn = (if num_syn st \<noteq> 0 then (if num_syn st * SYNC_SIZE < ?s then num_syn st * SYNC_SIZE else ?s) else 0)"
  note eq = bitfield_encode_eq[OF False loop[unfolded st0_def] syn_def refl]
  have "length (r_out st) + t_len st = room - 1 - ?s"
    using encode_loop_room[of "length d" addr d st0] loop by (simp add: st0_def)
  moreover have "syn \<le> ?s" by (auto simp: syn_def)
  ultimately show ?thesis using assms False syn_room_le[of "room - 1"] unfolding eq by auto
qed

theorem rle_encode_bounds_witness:
  "length small_encoded \<le> 100 \<and> abs (34 :: int) = int (length small_encoded)"
  by (rule rle_encode_bounds[OF small_table_encoded])

text \<open>
  When the room is used up inside of the last element the encoder still reports success.  Six
  zero bytes in four bytes of room: the result is positive, but only two bytes of the table can be
  decoded again.
\<close>

theorem rle_encode_truncates:
  "bitfield_encode 4 0 [0, 0, 0, 0, 0, 0] = (4, [0, 129, 0, 0]) \<and>
   bitfield_decode (replicate 6 9) [0, 129, 0, 0] = Some (2, [0, 0, 9, 9, 9, 9])"
  by code_simp

text \<open>
  The decoder trusts the length of copied bytes: for an input that ends inside of them
  \<open>s_len\<close> wraps around and the decoder reads behind the input.
\<close>

theorem rle_decode_overruns: "bitfield_decode (replicate 10 9) [0, 0x83, 1] = None"
  by code_simp

end
