(* ===== verification/QHT_Table.thy ===== *)
theory QHT_Table
  imports Bitfield_RLE_Index
begin

text \<open>
  Query hash tables, \<^verbatim>\<open>G2QHT.c\<close>: resetting a table, collecting the fragments of a patch, applying
  the patch, keeping the table compressed, aggregating tables and computing the fragments that
  turn one table into another.

  A table is a bit field; a cleared bit marks a hash value.  What the functions take from their
  surroundings is the record \<open>qht_env\<close>: the settings, the clock, the two scratch areas of the thread
  (with whatever they contain; \<open>None\<close> if there is no memory), fresh memory, \<^verbatim>\<open>zlib\<close>, and the routine
  \<open>memxorcpy\<close>, of which the build chooses one for the machine (\<open>xor_mem\<close>: the bytes at the target, from two
  sources of the same length; \<open>memxor\<close> is \<open>memxorcpy\<close> with the target as the first source).  The value
  \<open>None\<close> stands for an access outside of an object or a division by zero.
\<close>

type_synonym g2_qht_comp = nat

definition COMP_NONE :: g2_qht_comp where "COMP_NONE = 0"
definition COMP_DEFLATE :: g2_qht_comp where "COMP_DEFLATE = 1"
definition COMP_RLE :: g2_qht_comp where "COMP_RLE = 2"

definition QHT_RLE_MAXSIZE :: nat where "QHT_RLE_MAXSIZE = 16384"
definition MAX_BYTES_QHT :: nat where "MAX_BYTES_QHT = 524288"
definition QHT_PATCH_HEADER_BYTES :: nat where "QHT_PATCH_HEADER_BYTES = 5"
definition QHT_RESET_HEADER_BYTES :: nat where "QHT_RESET_HEADER_BYTES = 6"
definition QHT_DEFAULT_BYTES :: nat where "QHT_DEFAULT_BYTES = 131072"
definition NORM_BUFF_CAPACITY :: nat where "NORM_BUFF_CAPACITY = 4072"
definition Z_OK :: int where "Z_OK = 0"
definition Z_STREAM_END :: int where "Z_STREAM_END = 1"

text \<open>A list of fragments linked by \<open>next\<close> is a list; \<open>length\<close> is the length of the data.\<close>

record qht_fragment =
  frag_nr :: nat
  frag_count :: nat
  frag_comp :: g2_qht_comp
  frag_data :: "byte list"

record qhtable =
  refcnt :: int
  data_length :: nat
  entries :: nat
  used :: nat
  table_bits :: nat
  time_stamp :: int
  fragments :: "qht_fragment list"
  compressed :: g2_qht_comp
  reset_needed :: bool
  table_data :: "byte list option"

record 'z qht_env =
  compress_internal :: bool
  local_time_now :: int
  scratch1 :: "nat \<Rightarrow> byte list option"
  scratch2 :: "nat \<Rightarrow> byte list option"
  data_alloc :: "nat \<Rightarrow> byte list option"
  frag_malloc :: "nat \<Rightarrow> nat \<Rightarrow> byte list option"
  xor_mem :: "byte list \<Rightarrow> byte list \<Rightarrow> byte list"
  inflateInit :: "'z option"
  inflate :: "'z \<Rightarrow> byte list \<Rightarrow> nat \<Rightarrow> int \<times> 'z \<times> byte list \<times> byte list"

definition qht_size :: "qhtable \<Rightarrow> nat" where
  "qht_size t = DIV_ROUNDUP (entries t) 8"

subsection \<open>Blocks of memory\<close>

text \<open>
  The memory routines on a block inside of a target: \<open>memneg\<close> and \<open>memand\<close> byte by byte (which is what the
  routines of \<open>Mem_Ops\<close> do), \<open>memxor\<close> with the routine of the machine.
\<close>

definition block_at :: "(byte \<Rightarrow> byte \<Rightarrow> byte) \<Rightarrow> byte list \<Rightarrow> nat \<Rightarrow> byte list \<Rightarrow> byte list option" where
  "block_at f target p src =
     (if p + length src \<le> length target then
        Some (take p target @ map2 f (take (length src) (drop p target)) src @ drop (p + length src) target)
      else None)"

definition memneg_at :: "byte list \<Rightarrow> nat \<Rightarrow> byte list \<Rightarrow> byte list option" where
  "memneg_at = block_at (\<lambda>d s. NOT s)"

definition memxor_at ::
    "(byte list \<Rightarrow> byte list \<Rightarrow> byte list) \<Rightarrow> byte list \<Rightarrow> nat \<Rightarrow> byte list \<Rightarrow> byte list option" where
  "memxor_at memxorcpy target p src =
     (if p + length src \<le> length target then
        Some (take p target @ memxorcpy (take (length src) (drop p target)) src @ drop (p + length src) target)
      else None)"

definition memand_at :: "byte list \<Rightarrow> nat \<Rightarrow> byte list \<Rightarrow> byte list option" where
  "memand_at = block_at (AND)"

definition memcpy_at :: "byte list \<Rightarrow> nat \<Rightarrow> byte list \<Rightarrow> byte list option" where
  "memcpy_at = block_at (\<lambda>d s. s)"

definition mempopcnt :: "byte list \<Rightarrow> nat" where
  "mempopcnt bs = sum_list (map (\<lambda>b. length (filter (bit b) [0..<8])) bs)"

subsection \<open>Resetting a table\<close>

definition g2_qht_clean :: "bool \<Rightarrow> qhtable \<Rightarrow> qhtable" where
  "g2_qht_clean needed t =
     (let t = t\<lparr>entries := 0, used := 0, table_bits := 0, time_stamp := 0, fragments := [],
            compressed := COMP_NONE, reset_needed := False\<rparr>
      in if needed then t\<lparr>reset_needed := True\<rparr>
         else t\<lparr>table_data := map_option (\<lambda>d. replicate (length d) 0xFF) (table_data t)\<rparr>)"

definition g2_qht_alloc :: qhtable where
  "g2_qht_alloc = \<lparr>refcnt = 0, data_length = 0, entries = 0, used = 0, table_bits = 0, time_stamp = 0,
     fragments = [], compressed = COMP_NONE, reset_needed = False, table_data = None\<rparr>"

text \<open>
  The result is the return value (true is failure) and the table.  \<open>table_alloc\<close> tells whether there
  is memory for a table.
\<close>

definition g2_qht_reset ::
    "'z qht_env \<Rightarrow> bool \<Rightarrow> qhtable option \<Rightarrow> u32 \<Rightarrow> bool \<Rightarrow> bool \<times> qhtable option" where
  "g2_qht_reset env table_alloc ttable qht_ent try_compress =
     (let w_size = DIV_ROUNDUP (unat qht_ent) 8 in
      if qht_ent = 0 \<or> w_size > MAX_BYTES_QHT then (True, ttable)
      else
        (let bits = flsst (unat qht_ent) - 1 in
         case (case ttable of
                 Some t \<Rightarrow> Some t
               | None \<Rightarrow> if table_alloc then Some (g2_qht_alloc\<lparr>refcnt := 1\<rparr>) else None) of
           None \<Rightarrow> (True, None)
         | Some t \<Rightarrow>
             (let t = t\<lparr>reset_needed := True\<rparr>;
                  (t, ent) =
                    (if \<not> try_compress then
                       (if data_length t < w_size then
                          (case data_alloc env w_size of
                             Some mem \<Rightarrow> (t\<lparr>table_data := Some mem, data_length := w_size\<rparr>, unat qht_ent)
                           | None \<Rightarrow> (t, entries t))
                        else (t, unat qht_ent))
                     else if table_data t \<noteq> None then (t\<lparr>table_data := None, data_length := 0\<rparr>, unat qht_ent)
                     else (t, unat qht_ent));
                  t = g2_qht_clean True t
              in (False, Some (t\<lparr>entries := ent, table_bits := bits, time_stamp := local_time_now env\<rparr>)))))"

subsection \<open>Collecting fragments\<close>

text \<open>The loop over the fragments that are there: where it stops, and their total length.\<close>

fun frag_walk :: "qht_fragment list \<Rightarrow> nat \<Rightarrow> qht_fragment list \<times> nat" where
  "frag_walk [] total_len = ([], total_len)"
| "frag_walk (n # ns) total_len = frag_walk ns (total_len + length (frag_data n))"

text \<open>\<open>bytes\<close> is the data of the fragment, copied once everything is checked.\<close>

definition g2_qht_add_frag :: "qhtable \<Rightarrow> qht_fragment \<Rightarrow> byte list \<Rightarrow> int \<times> qhtable" where
  "g2_qht_add_frag t frag bytes =
     (if frag_comp frag \<noteq> COMP_NONE \<and> frag_comp frag \<noteq> COMP_DEFLATE then (-1, t)
      else if (case fragments t of
                 n # _ \<Rightarrow> frag_count frag \<noteq> frag_count n \<or> frag_comp frag \<noteq> frag_comp n
               | [] \<Rightarrow> frag_nr frag \<noteq> 1) then (-1, t)
      else
        (let (n, total_len) = frag_walk (fragments t) 0 in
         if (case n of m # _ \<Rightarrow> frag_nr frag \<noteq> frag_nr m + 1 | [] \<Rightarrow> False) then (-1, t)
         else
           (let legal_len = DIV_ROUNDUP (entries t) 8 in
            if total_len + length (frag_data frag) > legal_len then (-1, t)
            else
              (let frag = frag\<lparr>frag_data := take (length (frag_data frag)) bytes\<rparr>
               in (if frag_nr frag \<ge> frag_count frag then 1 else 0,
                   t\<lparr>fragments := fragments t @ [frag]\<rparr>)))))"

subsection \<open>Applying a patch\<close>

definition qht_compress_table :: "'z qht_env \<Rightarrow> qhtable \<Rightarrow> byte list \<Rightarrow> (bool \<times> qhtable) option" where
  "qht_compress_table env t bytes =
     (case scratch1 env QHT_DEFAULT_BYTES of
        None \<Rightarrow> None
      | Some _ \<Rightarrow>
          (let (res, ndata) = bitfield_encode QHT_RLE_MAXSIZE 0 bytes;
               (tcomp, ndata) = (if res < 0 then (COMP_NONE, bytes) else (COMP_RLE, take (nat res) ndata))
           in case data_alloc env (length ndata) of
                None \<Rightarrow> Some (False, t)
              | Some _ \<Rightarrow> Some (True, t\<lparr>compressed := tcomp, data_length := length ndata,
                                        table_data := Some ndata\<rparr>)))"

text \<open>Where the patch is applied: \<open>Some None\<close> if the function gives up.\<close>

definition patch_target :: "'z qht_env \<Rightarrow> qhtable \<Rightarrow> byte list option option" where
  "patch_target env t =
     (if compressed t = COMP_RLE \<or> reset_needed t then
        (case scratch2 env (qht_size t) of
           None \<Rightarrow> Some None
         | Some buf \<Rightarrow>
             if compressed t = COMP_RLE \<and> \<not> reset_needed t then
               (case table_data t of
                  None \<Rightarrow> None
                | Some d \<Rightarrow>
                    (case bitfield_decode buf d of
                       None \<Rightarrow> None
                     | Some (res, buf) \<Rightarrow> if res < 0 then Some None else Some (Some buf)))
             else Some (Some buf))
      else map_option Some (table_data t))"

fun patch_frags ::
    "(byte list \<Rightarrow> byte list \<Rightarrow> byte list) \<Rightarrow> bool \<Rightarrow> byte list \<Rightarrow> nat \<Rightarrow> qht_fragment list \<Rightarrow> byte list option" where
  "patch_frags memxorcpy reset target p [] = Some target"
| "patch_frags memxorcpy reset target p (frag # frags) =
     (case (if reset then memneg_at else memxor_at memxorcpy) target p (frag_data frag) of
        None \<Rightarrow> None
      | Some target \<Rightarrow> patch_frags memxorcpy reset target (p + length (frag_data frag)) frags)"

fun inflate_loop ::
    "('z \<Rightarrow> byte list \<Rightarrow> nat \<Rightarrow> int \<times> 'z \<times> byte list \<times> byte list) \<Rightarrow> 'z \<Rightarrow> byte list \<Rightarrow> nat \<Rightarrow> byte list \<Rightarrow>
     qht_fragment list \<Rightarrow> byte list option" where
  "inflate_loop infl z avail_in avail_out acc frags =
     (let (res, z, avail_in, out) = infl z avail_in avail_out;
          acc = acc @ out; avail_out = avail_out - length out
      in if res = Z_OK \<and> avail_in = [] then
           (case frags of
              [] \<Rightarrow> None
            | frag # frags \<Rightarrow> inflate_loop infl z (frag_data frag) avail_out acc frags)
         else if res \<noteq> Z_STREAM_END then None
         else Some acc)"

text \<open>The share of marked bits in tenths of a percent, and storing the patched bytes.\<close>

definition qht_promille :: "nat \<Rightarrow> byte list \<Rightarrow> nat" where
  "qht_promille ent bytes = (size_sub ent (mempopcnt bytes) * 1000) mod (SIZE_MAX + 1) div ent"

definition patch_store :: "'z qht_env \<Rightarrow> qhtable \<Rightarrow> byte list \<Rightarrow> string \<Rightarrow> (string option \<times> qhtable) option" where
  "patch_store env t target txt =
     (if entries t = 0 \<or> qht_size t > length target then None
      else
        (let bytes = take (qht_size t) target;
             t = t\<lparr>used := qht_promille (entries t) bytes\<rparr>;
             in_scratch = (compressed t = COMP_RLE \<or> reset_needed t);
             t = (if in_scratch then t else t\<lparr>table_data := Some target\<rparr>)
         in if compress_internal env \<and> in_scratch then
              (case qht_compress_table env t bytes of
                 None \<Rightarrow> None
               | Some (ok, t) \<Rightarrow>
                   if \<not> ok then Some (None, t) else Some (Some txt, t\<lparr>reset_needed := False\<rparr>))
            else Some (Some txt, t\<lparr>reset_needed := False\<rparr>)))"

definition patch_deflate ::
    "'z qht_env \<Rightarrow> qhtable \<Rightarrow> byte list \<Rightarrow> qht_fragment \<Rightarrow> qht_fragment list \<Rightarrow> (string option \<times> qhtable) option" where
  "patch_deflate env t target frag frags =
     (case (scratch1 env (qht_size t), inflateInit env) of
        (Some tmp, Some z) \<Rightarrow>
          (case inflate_loop (inflate env) z (frag_data frag) (qht_size t) [] frags of
             None \<Rightarrow> Some (None, t)
           | Some out \<Rightarrow>
               (let tmp = out @ drop (length out) tmp in
                case (if reset_needed t then memneg_at else memxor_at (xor_mem env)) target 0 tmp of
                  None \<Rightarrow> None
                | Some target \<Rightarrow> patch_store env t target ''compressed patch applied''))
      | _ \<Rightarrow> Some (None, t))"

definition g2_qht_patch ::
    "'z qht_env \<Rightarrow> qhtable \<Rightarrow> qht_fragment list \<Rightarrow> (string option \<times> qhtable) option" where
  "g2_qht_patch env t frags =
     (case frags of
        [] \<Rightarrow> Some (None, t)
      | frag # rest \<Rightarrow>
          (case patch_target env t of
             None \<Rightarrow> None
           | Some None \<Rightarrow> Some (None, t)
           | Some (Some target) \<Rightarrow>
               map_option (\<lambda>(ret, t). (ret, t\<lparr>time_stamp := local_time_now env\<rparr>))
                 (if frag_comp frag = COMP_DEFLATE then patch_deflate env t target frag rest
                  else if frag_comp frag = COMP_NONE then
                    (case patch_frags (xor_mem env) (reset_needed t) target 0 frags of
                       None \<Rightarrow> None
                     | Some target \<Rightarrow> patch_store env t target ''patch applied'')
                  else Some (None, t))))"

subsection \<open>Aggregating tables\<close>

definition g2_qht_aggregate :: "'z qht_env \<Rightarrow> qhtable \<Rightarrow> qhtable \<Rightarrow> qhtable option" where
  "g2_qht_aggregate env to frm =
     (let qs = min (qht_size to) (qht_size frm) in
      case (table_data to, table_data frm) of
        (Some td, Some fd) \<Rightarrow>
          if reset_needed to \<or> compressed frm \<noteq> COMP_RLE then
            (case (if compressed frm = COMP_RLE then
                     (case scratch1 env qs of
                        None \<Rightarrow> Some None
                      | Some buf \<Rightarrow> map_option (\<lambda>(res, buf). Some buf) (bitfield_decode buf fd))
                   else if qs \<le> length fd then Some (Some (take qs fd)) else None) of
               None \<Rightarrow> None
             | Some None \<Rightarrow> Some to
             | Some (Some from_ptr) \<Rightarrow>
                 if reset_needed to then
                   map_option (\<lambda>d. to\<lparr>table_data := Some d, reset_needed := False\<rparr>) (memcpy_at td 0 from_ptr)
                 else map_option (\<lambda>d. to\<lparr>table_data := Some d\<rparr>) (memand_at td 0 from_ptr))
          else if qs \<le> length td then
            map_option (\<lambda>(res, d). to\<lparr>table_data := Some (d @ drop qs td)\<rparr>) (bitfield_and (take qs td) fd)
          else None
      | _ \<Rightarrow> None)"

subsection \<open>Fragments that turn a table into another\<close>

text \<open>
  The loop for uncompressed fragments.  Five bytes at the front of every fragment are left for the
  header of the packet.  The list is built in reverse.
\<close>

function diff_loop ::
    "(byte list \<Rightarrow> byte list \<Rightarrow> byte list) \<Rightarrow> (nat \<Rightarrow> nat \<Rightarrow> byte list option) \<Rightarrow> byte list option \<Rightarrow> byte list \<Rightarrow> nat \<Rightarrow> nat \<Rightarrow> nat \<Rightarrow> qht_fragment list \<Rightarrow>
     qht_fragment list" where
  "diff_loop memxorcpy malloc org new len p frags n =
     (let frag_len = (if len > NORM_BUFF_CAPACITY - QHT_PATCH_HEADER_BYTES then NORM_BUFF_CAPACITY
                      else len + QHT_PATCH_HEADER_BYTES)
      in case malloc frags frag_len of
           None \<Rightarrow> n
         | Some mem \<Rightarrow>
             (let frags = frags + 1;
                  frag_len = frag_len - QHT_PATCH_HEADER_BYTES;
                  len = len - frag_len;
                  src = take frag_len (drop p new);
                  content = (case org of
                               None \<Rightarrow> map NOT src
                             | Some od \<Rightarrow> memxorcpy (take frag_len (drop p od)) src);
                  t = \<lparr>frag_nr = frags, frag_count = 0, frag_comp = COMP_NONE,
                       frag_data = take QHT_PATCH_HEADER_BYTES mem @ content\<rparr>;
                  n = t # n
              in if len = 0 then n else diff_loop memxorcpy malloc org new len (p + frag_len) frags n))"
  by pat_completeness auto
termination
  by (relation "measure (\<lambda>(memxorcpy, malloc, org, new, len, p, frags, n). len)")
    (auto simp: NORM_BUFF_CAPACITY_def QHT_PATCH_HEADER_BYTES_def split: if_splits)

declare diff_loop.simps [simp del]

definition g2_qht_diff_get_frag ::
    "'z qht_env \<Rightarrow> qhtable option \<Rightarrow> qhtable option \<Rightarrow> qht_fragment list option" where
  "g2_qht_diff_get_frag env org new =
     (case new of
        None \<Rightarrow> Some []
      | Some nt \<Rightarrow>
          (let len = (case org of Some ot \<Rightarrow> data_length ot | None \<Rightarrow> data_length nt);
               len = (if data_length nt < len then data_length nt else len)
           in case (table_data nt, map_option table_data org) of
                (Some nd, None) \<Rightarrow> 
                  (let n = diff_loop (xor_mem env) (frag_malloc env) None nd len 0 0 []
                   in Some (map (\<lambda>f. f\<lparr>frag_count := length n\<rparr>) (rev n)))
              | (Some nd, Some (Some od)) \<Rightarrow>
                  (let n = diff_loop (xor_mem env) (frag_malloc env) (Some od) nd len 0 0 []
                   in Some (map (\<lambda>f. f\<lparr>frag_count := length n\<rparr>) (rev n)))
              | _ \<Rightarrow> None))"

end
