(* ===== verification/QHT_Table_Correct.thy ===== *)
theory QHT_Table_Correct
  imports QHT_Table
begin

text \<open>
  What a query hash table holds, and that patching and aggregating tables act on it as on a plain
  list of bytes, in whatever form the table is kept.
\<close>

subsection \<open>The contents of a table\<close>

text \<open>
  A table that needs a reset counts as empty, a table in run length encoding holds what it rle_of,
  and a plain table holds the first bytes of its data.
\<close>

definition rle_of :: "byte list \<Rightarrow> byte list \<Rightarrow> bool" where
  "rle_of e bs \<longleftrightarrow> (\<exists>ts sb. encoding_of bs e ts sb)"

definition holds :: "qhtable \<Rightarrow> byte list \<Rightarrow> bool" where
  "holds t bs \<longleftrightarrow> length bs = qht_size t \<and>
     (if reset_needed t then bs = replicate (qht_size t) 0xFF
      else
        (case table_data t of
           None \<Rightarrow> False
         | Some d \<Rightarrow> length d = data_length t \<and>
             (if compressed t = COMP_RLE then rle_of d bs
              else compressed t = COMP_NONE \<and> length bs \<le> length d \<and> take (length bs) d = bs)))"

lemma holds_upd [simp]:
  "holds (t\<lparr>time_stamp := x\<rparr>) bs = holds t bs" "holds (t\<lparr>fragments := fs\<rparr>) bs = holds t bs"
  "holds (t\<lparr>used := u\<rparr>) bs = holds t bs"
  unfolding holds_def qht_size_def by (simp_all split: option.split)

text \<open>There is memory, and the scratch areas are as large as asked for.\<close>

definition env_ok :: "'z qht_env \<Rightarrow> bool" where
  "env_ok env \<longleftrightarrow> (\<forall>n. \<exists>b. scratch1 env n = Some b \<and> length b = n) \<and>
     (\<forall>n. \<exists>b. scratch2 env n = Some b \<and> length b = n) \<and> (\<forall>n. data_alloc env n \<noteq> None)"

text \<open>The encoder either gives up on a table or has room to spare.\<close>

definition rle_fits :: "byte list \<Rightarrow> bool" where
  "rle_fits bs \<longleftrightarrow> fst (bitfield_encode QHT_RLE_MAXSIZE 0 bs) < int QHT_RLE_MAXSIZE - 32"

lemma COMP_distinct [simp]:
  "COMP_NONE \<noteq> COMP_RLE" "COMP_RLE \<noteq> COMP_NONE" "COMP_NONE \<noteq> COMP_DEFLATE" "COMP_DEFLATE \<noteq> COMP_NONE"
  by (simp_all add: COMP_NONE_def COMP_RLE_def COMP_DEFLATE_def)

lemma encode_result:
  assumes "bitfield_encode room addr d = (c, e)" "room \<noteq> 0"
  shows "c \<noteq> 0 \<and> length e = nat (abs c)"
proof -
  let ?s = "syn_room (room - 1)"
  obtain st s_len where loop: "encode_loop (length d) addr d
      \<lparr>synb = init_synb (length d), num_syn = 0, r_out = [], t_len = room - 1 - ?s\<rparr> = (st, s_len)"
    by (cases "encode_loop (length d) addr d
      \<lparr>synb = init_synb (length d), num_syn = 0, r_out = [], t_len = room - 1 - ?s\<rparr>")
  from bitfield_encode_eq[OF assms(2) loop refl refl] assms(1) show ?thesis by (auto split: if_splits)
qed

lemma rle_of_encode:
  assumes "bitfield_encode QHT_RLE_MAXSIZE 0 d = (c, e)" "0 \<le> c" "rle_fits d" "length d < 2 ^ 31"
  shows "rle_of e d \<and> nat c = length e"
proof -
  have "c \<noteq> 0" "length e = nat (abs c)" using encode_result[OF assms(1)] by (auto simp: QHT_RLE_MAXSIZE_def)
  moreover have "c + 32 < int QHT_RLE_MAXSIZE" using assms(1,3) by (simp add: rle_fits_def)
  ultimately show ?thesis
    using encode_toks[OF assms(1)] assms(2,4) by (auto simp: rle_of_def QHT_RLE_MAXSIZE_def)
qed

lemma rle_of_decode: "rle_of e d \<Longrightarrow> length res = length d \<Longrightarrow> bitfield_decode res e = Some (int (length d), d)"
  and rle_of_and: "rle_of e d \<Longrightarrow> length res = length d \<Longrightarrow> bitfield_and res e = Some (int (length d), map2 (AND) res d)"
  and rle_of_lookup: "rle_of e d \<Longrightarrow> 8 * length d < 2 ^ 32 \<Longrightarrow>
    bitfield_lookup vals e = Some (if \<exists>v \<in> set vals. bit_cleared d (unat v) then -1 else 0)"
  using decode_encoding lookup_encoding by (auto simp: rle_of_def)

text \<open>An element of the encoding has at most twice the size of what it encodes, so small tables fit.\<close>

lemma flsst_le_self: "flsst n \<le> n"
  by (induction n rule: flsst.induct) (subst flsst.simps, auto)

lemma encode_ff_small: "0 < f \<Longrightarrow> length (snd (encode_ff f room)) \<le> 2 * f"
  using flsst_le_self[of "f - 1"] by (auto simp: encode_ff_def Let_def)

lemma encode_literal_small: "length (encode_literal room row) \<le> 2 * length row"
proof (induction room row rule: encode_literal.induct)
  case (1 room row)
  show ?case
  proof (cases "room = 0 \<or> row = []")
    case False
    then show ?thesis
      using "1.IH"[OF False refl refl refl] encode_literal.simps[of 0]
      by (subst encode_literal.simps) (cases row; auto simp: Let_def)
  qed (subst encode_literal.simps, simp)
qed

lemma encode_loop_small:
  "length (r_out (fst (encode_loop os addr data st))) \<le> length (r_out st) + 2 * length data"
proof (induction os addr data st rule: encode_loop.induct)
  case (1 os addr data st)
  show ?case
  proof (cases "t_len st = 0 \<or> data = []")
    case False
    let ?st = "emit_sync os (length data) st" and ?f = "mem_spn_ff data" and ?o = "literal_row addr data"
    have f: "hd data = 0xFF \<Longrightarrow> 0 < ?f" "?f \<le> length data" and o: "hd data \<noteq> 0xFF \<Longrightarrow> 0 < ?o"
      using False mem_spn_ff_pos literal_row_pos by (auto simp: mem_spn_ff_def length_takeWhile_le)
    show ?thesis
    proof (cases "hd data = 0xFF")
      case True
      obtain ok bs where ff: "encode_ff ?f (t_len ?st) = (ok, bs)" by (cases "encode_ff ?f (t_len ?st)")
      then have "length bs \<le> 2 * ?f" using encode_ff_small[of ?f "t_len ?st"] f(1) True by simp
      then show ?thesis
        using "1.IH"(1)[OF False refl refl True refl ff[symmetric] refl] False True ff f(2)
        by (subst encode_loop.simps) (auto simp: Let_def put_out_def)
    next
      case ne: False
      have "1 \<le> length data" using False by (cases data) auto
      then show ?thesis
        using "1.IH"(2,3)[OF False refl refl ne refl] encode_literal_small[of "t_len ?st" "take ?o data"] o False ne
        by (subst encode_loop.simps) (auto simp: Let_def put_out_def)
    qed
  qed (subst encode_loop.simps, auto)
qed

lemma rle_small_fits:
  assumes "length bs \<le> 8000"
  shows "rle_fits bs"
proof -
  let ?r = "QHT_RLE_MAXSIZE"
  let ?s = "syn_room (?r - 1)"
  let ?st = "\<lparr>synb = init_synb (length bs), num_syn = 0, r_out = [], t_len = ?r - 1 - ?s\<rparr>"
  have s: "?s = 32" by (simp add: syn_room_def NUM_SYNC_MAX_def SYNC_SIZE_def QHT_RLE_MAXSIZE_def)
  obtain st s_len where loop: "encode_loop (length bs) 0 bs ?st = (st, s_len)"
    by (cases "encode_loop (length bs) 0 bs ?st")
  then have "length (r_out st) \<le> 16000" using encode_loop_small[of "length bs" 0 bs ?st] assms by simp
  moreover have "?r \<noteq> 0" by (simp add: QHT_RLE_MAXSIZE_def)
  note bitfield_encode_eq[OF this loop refl refl]
  ultimately show ?thesis using s by (auto simp: rle_fits_def QHT_RLE_MAXSIZE_def)
qed

subsection \<open>Blocks\<close>

lemma block_at_split:
  "length y = length src \<Longrightarrow> block_at f (x @ y @ w) (length x) src = Some (x @ map2 f y src @ w)"
  by (simp add: block_at_def)

lemma map2_second: "length xs = length ys \<Longrightarrow> map2 (\<lambda>d s. s) xs ys = ys"
  by (induction xs ys rule: list_induct2) simp_all

definition patch_op :: "bool \<Rightarrow> byte \<Rightarrow> byte \<Rightarrow> byte" where
  "patch_op reset = (if reset then (\<lambda>d s. NOT s) else (XOR))"

text \<open>The documented behaviour of \<open>memxorcpy\<close>.\<close>

definition bytewise_xor :: "(byte list \<Rightarrow> byte list \<Rightarrow> byte list) \<Rightarrow> bool" where
  "bytewise_xor memxorcpy \<longleftrightarrow> (\<forall>a b. length a = length b \<longrightarrow> memxorcpy a b = map2 (XOR) a b)"

lemma memxor_block:
  "bytewise_xor mx \<Longrightarrow> length y = length s \<Longrightarrow> memxor_at mx (x @ y @ w) (length x) s = Some (x @ map2 (XOR) y s @ w)"
  by (simp add: memxor_at_def bytewise_xor_def)

lemma patch_frags_split:
  "reset \<or> bytewise_xor mx \<Longrightarrow> length y = length (concat (map frag_data frags)) \<Longrightarrow>
   patch_frags mx reset (x @ y @ w) (length x) frags =
     Some (x @ map2 (patch_op reset) y (concat (map frag_data frags)) @ w)"
proof (induction frags arbitrary: x y)
  case (Cons f fs)
  define y1 y2 where y12: "y1 = take (length (frag_data f)) y" "y2 = drop (length (frag_data f)) y"
  then have y: "y = y1 @ y2" "length y1 = length (frag_data f)"
    "length y2 = length (concat (map frag_data fs))" using Cons.prems(2) by auto
  let ?z = "map2 (patch_op reset) y1 (frag_data f)"
  have "patch_frags mx reset (x @ y @ w) (length x) (f # fs) = patch_frags mx reset ((x @ ?z) @ y2 @ w) (length (x @ ?z)) fs"
    using block_at_split[OF y(2), of _ x "y2 @ w"] y(1,2)
      memxor_block[of mx y1 "frag_data f" x "y2 @ w"] Cons.prems(1)
    by (auto simp: memneg_at_def patch_op_def)
  also have "\<dots> = Some ((x @ ?z) @ map2 (patch_op reset) y2 (concat (map frag_data fs)) @ w)"
    by (rule Cons.IH[OF Cons.prems(1) y(3)])
  finally show ?case using y by (simp add: zip_append)
qed simp

lemma patch_frags_whole:
  assumes "reset \<or> bytewise_xor mx" "length bs = length (concat (map frag_data frags))"
  shows "patch_frags mx reset (bs @ w) 0 frags = Some (map2 (patch_op reset) bs (concat (map frag_data frags)) @ w)"
  using patch_frags_split[OF assms, of "[]" w] by simp

lemma patch_op_reset: "map2 (patch_op True) xs ys = map2 (XOR) (replicate (length xs) 0xFF) ys"
proof (induction xs arbitrary: ys)
  case (Cons x xs)
  have "NOT s = 0xFF XOR s" for s :: byte by (simp add: byte_all_ones)
  then show ?case using Cons.IH by (cases ys) (simp_all add: patch_op_def)
qed (simp add: patch_op_def)

subsection \<open>Patching\<close>

lemma scratch_given:
  assumes "env_ok env"
  obtains a b where "scratch1 env n = Some a" "length a = n" "scratch2 env n = Some b" "length b = n"
  using assms unfolding env_ok_def by metis

lemma compress_holds:
  assumes env: "env_ok env" and fits: "rle_fits bs" and len: "length bs = qht_size t" "length bs < 2 ^ 31"
  shows "\<exists>c d. qht_compress_table env t bs =
      Some (True, t\<lparr>compressed := c, data_length := length d, table_data := Some d\<rparr>) \<and>
    holds (t\<lparr>compressed := c, data_length := length d, table_data := Some d, reset_needed := False\<rparr>) bs"
proof -
  obtain c e where enc: "bitfield_encode QHT_RLE_MAXSIZE 0 bs = (c, e)" by (cases "bitfield_encode QHT_RLE_MAXSIZE 0 bs")
  obtain a where a: "scratch1 env QHT_DEFAULT_BYTES = Some a" using scratch_given[OF env] by metis
  have mem: "\<exists>m. data_alloc env n = Some m" for n using env by (auto simp: env_ok_def)
  show ?thesis
  proof (cases "c < 0")
    case True
    obtain m where "data_alloc env (length bs) = Some m" using mem by blast
    then have "qht_compress_table env t bs =
        Some (True, t\<lparr>compressed := COMP_NONE, data_length := length bs, table_data := Some bs\<rparr>)"
      using enc a True by (simp add: qht_compress_table_def Let_def)
    then show ?thesis using len by (intro exI[of _ COMP_NONE] exI[of _ bs]) (simp add: holds_def qht_size_def)
  next
    case False
    then have e: "rle_of e bs" "nat c = length e" using rle_of_encode[OF enc] fits len(2) by auto
    obtain m where "data_alloc env (length e) = Some m" using mem by blast
    then have "qht_compress_table env t bs =
        Some (True, t\<lparr>compressed := COMP_RLE, data_length := length e, table_data := Some e\<rparr>)"
      using enc a False e(2) by (simp add: qht_compress_table_def Let_def)
    then show ?thesis using len e(1) by (intro exI[of _ COMP_RLE] exI[of _ e]) (simp add: holds_def qht_size_def)
  qed
qed

text \<open>Where the patch goes: the contents of the table, or, after a reset, old scratch memory.\<close>

lemma patch_target_holds:
  assumes "env_ok env" "holds t bs"
  shows "\<exists>target w. patch_target env t = Some (Some (target @ w)) \<and> length target = qht_size t \<and>
    (\<not> reset_needed t \<longrightarrow> target = bs) \<and>
    (compressed t = COMP_RLE \<or> reset_needed t \<longrightarrow> w = []) \<and>
    (compressed t \<noteq> COMP_RLE \<and> \<not> reset_needed t \<longrightarrow>
       compressed t = COMP_NONE \<and> table_data t = Some (target @ w) \<and> data_length t = length (target @ w))"
proof -
  obtain b where b: "scratch2 env (qht_size t) = Some b" "length b = qht_size t"
    using scratch_given[OF assms(1)] by metis
  have len: "length bs = qht_size t" using assms(2) by (simp add: holds_def)
  consider "reset_needed t" | d where "\<not> reset_needed t" "compressed t = COMP_RLE" "table_data t = Some d" "rle_of d bs"
    | d where "\<not> reset_needed t" "compressed t = COMP_NONE" "table_data t = Some d" "take (length bs) d = bs"
        "length d = data_length t"
    using assms(2) by (auto simp: holds_def split: option.splits if_splits)
  then show ?thesis
  proof cases
    case 1
    then show ?thesis using b by (intro exI[of _ b] exI[of _ "[]"]) (simp add: patch_target_def)
  next
    case 2
    then show ?thesis using b len rle_of_decode[OF 2(4), of b]
      by (intro exI[of _ bs] exI[of _ "[]"]) (simp add: patch_target_def)
  next
    case 3
    then have "bs @ drop (length bs) d = d" by (metis append_take_drop_id)
    then show ?thesis using 3 len
      by (intro exI[of _ bs] exI[of _ "drop (length bs) d"]) (simp add: patch_target_def)
  qed
qed

lemma patch_store_holds:
  assumes env: "env_ok env" and fits: "rle_fits bs" and len: "length bs = qht_size t" "length bs < 2 ^ 31"
    and ent: "entries t \<noteq> 0" and conf: "compress_internal env \<or> compressed t \<noteq> COMP_RLE \<and> \<not> reset_needed t"
    and comp: "compressed t = COMP_RLE \<or> reset_needed t \<or> compressed t = COMP_NONE \<and> data_length t = length (bs @ w)"
  shows "\<exists>t'. patch_store env t (bs @ w) txt = Some (Some txt, t') \<and> holds t' bs \<and>
    used t' = qht_promille (entries t) bs \<and> entries t' = entries t \<and> fragments t' = fragments t \<and> \<not> reset_needed t'"
proof (cases "compressed t = COMP_RLE \<or> reset_needed t")
  case True
  let ?t = "t\<lparr>used := qht_promille (entries t) bs\<rparr>"
  have "length bs = qht_size ?t" using len(1) by (simp add: qht_size_def)
  from compress_holds[OF env fits this len(2)] obtain c d where
    "qht_compress_table env ?t bs = Some (True, ?t\<lparr>compressed := c, data_length := length d, table_data := Some d\<rparr>)"
    "holds (?t\<lparr>compressed := c, data_length := length d, table_data := Some d, reset_needed := False\<rparr>) bs" by blast
  then show ?thesis using True conf ent len by (auto simp: patch_store_def Let_def)
next
  case False
  then show ?thesis using comp ent len by (auto simp: patch_store_def Let_def holds_def qht_size_def)
qed

text \<open>
  An uncompressed patch of the size of the table: the contents of the table are xored with it,
  whatever form the table has before and after.
\<close>

lemma patch_holds:
  assumes env: "env_ok env" and h: "holds t bs" and ent: "entries t \<noteq> 0" "qht_size t < 2 ^ 31"
    and conf: "compress_internal env \<or> compressed t \<noteq> COMP_RLE \<and> \<not> reset_needed t"
    and frags: "frags \<noteq> []" "list_all (\<lambda>f. frag_comp f = COMP_NONE) frags"
    and p: "p = concat (map frag_data frags)" "length p = qht_size t" and xor: "reset_needed t \<or> bytewise_xor (xor_mem env)"
    and fits: "rle_fits (map2 (XOR) bs p)"
  shows "\<exists>t'. g2_qht_patch env t frags = Some (Some ''patch applied'', t') \<and> holds t' (map2 (XOR) bs p) \<and>
    used t' = qht_promille (entries t) (map2 (XOR) bs p) \<and> entries t' = entries t \<and>
    fragments t' = fragments t \<and> \<not> reset_needed t'"
proof -
  obtain target w where tw: "patch_target env t = Some (Some (target @ w))" "length target = qht_size t"
    "\<not> reset_needed t \<longrightarrow> target = bs"
    "compressed t \<noteq> COMP_RLE \<and> \<not> reset_needed t \<longrightarrow>
       compressed t = COMP_NONE \<and> table_data t = Some (target @ w) \<and> data_length t = length (target @ w)"
    using patch_target_holds[OF env h] by blast
  let ?bs = "map2 (XOR) bs p"
  have len: "length bs = qht_size t" and ones: "reset_needed t \<Longrightarrow> bs = replicate (qht_size t) 0xFF"
    using h by (auto simp: holds_def)
  have "map2 (patch_op (reset_needed t)) target p = ?bs"
  proof (cases "reset_needed t")
    case True
    then show ?thesis using ones[OF True] tw(2) len by (metis patch_op_reset)
  qed (use tw(3) in \<open>simp add: patch_op_def\<close>)
  then have frgs: "patch_frags (xor_mem env) (reset_needed t) (target @ w) 0 frags = Some (?bs @ w)"
    using patch_frags_whole[OF xor, of target frags w] p tw(2) by simp
  have "length ?bs = qht_size t" "length ?bs < 2 ^ 31" using len p(2) ent(2) by simp_all
  with tw(2,4) have "\<exists>t'. patch_store env t (?bs @ w) ''patch applied'' = Some (Some ''patch applied'', t') \<and>
      holds t' ?bs \<and> used t' = qht_promille (entries t) ?bs \<and> entries t' = entries t \<and>
      fragments t' = fragments t \<and> \<not> reset_needed t'"
    by (intro patch_store_holds[OF env fits _ _ ent(1) conf]) auto
  then obtain t' where t': "patch_store env t (?bs @ w) ''patch applied'' = Some (Some ''patch applied'', t')"
    "holds t' ?bs" "used t' = qht_promille (entries t) ?bs" "entries t' = entries t"
    "fragments t' = fragments t" "\<not> reset_needed t'" by blast
  obtain f fs where fr: "frags = f # fs" "frag_comp f = COMP_NONE" using frags by (cases frags) auto
  let ?t = "t'\<lparr>time_stamp := local_time_now env\<rparr>"
  have "g2_qht_patch env t frags = Some (Some ''patch applied'', ?t)"
    using tw(1) frgs t'(1) fr by (simp add: g2_qht_patch_def)
  moreover have "holds ?t ?bs" using t'(2) by simp
  ultimately show ?thesis using t'(3-) by auto
qed

subsection \<open>Aggregating\<close>

text \<open>The target of an aggregation is a plain table.\<close>

lemma aggregate_holds:
  assumes env: "env_ok env" and to: "holds t bs" "compressed t = COMP_NONE" "table_data t = Some td" "qht_size t \<le> length td" "length td = data_length t"
    and frm: "holds f fs" "\<not> reset_needed f" and size: "qht_size f = qht_size t"
  shows "\<exists>t'. g2_qht_aggregate env t f = Some t' \<and> holds t' (map2 (AND) bs fs) \<and> \<not> reset_needed t'"
proof -
  let ?n = "qht_size t"
  have len: "length bs = ?n" "length fs = ?n" using to(1) frm(1) size by (auto simp: holds_def)
  obtain b where b: "scratch1 env ?n = Some b" "length b = ?n" using scratch_given[OF env] by metis
  obtain fd where fd: "table_data f = Some fd" and enc: "compressed f = COMP_RLE \<Longrightarrow> rle_of fd fs"
    and plain: "compressed f \<noteq> COMP_RLE \<Longrightarrow> ?n \<le> length fd \<and> take ?n fd = fs"
    using frm size len by (cases "compressed f = COMP_RLE") (auto simp: holds_def split: option.splits)
  have td: "td = take ?n td @ drop ?n td" "length (take ?n td) = ?n" using to(4) by auto
  have blk: "block_at g td 0 fs = Some (map2 g (take ?n td) fs @ drop ?n td)" for g
    using block_at_split[of "take ?n td" fs g "[]" "drop ?n td"] td len by simp
  let ?r = "map2 (AND) bs fs"
  have cut: "take (length ?r) (x @ y) = x" "length ?r \<le> length (x @ y)" if "length x = ?n" for x y :: "byte list"
    using that len by auto
  have fin: "holds (t\<lparr>table_data := Some (?r @ drop ?n td), reset_needed := False\<rparr>) ?r"
    using to(2,4,5) len by (auto simp: holds_def qht_size_def)
  show ?thesis
  proof (cases "reset_needed t")
    case True
    then have "bs = replicate ?n 0xFF" using to(1) len by (simp add: holds_def)
    moreover have "map2 (AND) (replicate (length fs) 0xFF) fs = fs" by (induction fs) (simp_all add: byte_all_ones)
    ultimately have r: "?r = fs" using len by simp
    have "map2 (\<lambda>d s. s) (take ?n td) fs = fs" using td(2) len by (intro map2_second) simp
    then show ?thesis
      using True b fd enc plain len fin size to(3) r blk[of "\<lambda>d s. s"] rle_of_decode[of fd fs b]
      by (cases "compressed f = COMP_RLE") (auto simp: g2_qht_aggregate_def memcpy_at_def Let_def)
  next
    case False
    then have "take ?n td = bs" using to len by (simp add: holds_def)
    moreover have "holds (t\<lparr>table_data := Some (?r @ drop ?n td)\<rparr>) ?r" using fin False by (cases t) simp
    ultimately show ?thesis
      using False b fd enc plain len size to(3,4) blk[of "(AND)"] rle_of_and[of fd fs bs]
      by (cases "compressed f = COMP_RLE") (auto simp: g2_qht_aggregate_def memand_at_def Let_def)
  qed
qed

section \<open>The properties\<close>

text \<open>A machine for the examples, and tables of sixteen entries.\<close>

definition plain_env :: "bool \<Rightarrow> unit qht_env" where
  "plain_env ci = \<lparr>compress_internal = ci, local_time_now = 5,
     scratch1 = (\<lambda>n. Some (replicate n 7)), scratch2 = (\<lambda>n. Some (replicate n 7)),
     data_alloc = (\<lambda>n. Some (replicate n 0)), frag_malloc = (\<lambda>k n. Some (replicate n 0)), xor_mem = map2 (XOR),
     inflateInit = None, inflate = (\<lambda>z i n. (-3, z, [], []))\<rparr>"

definition fresh_table :: qhtable where
  "fresh_table = \<lparr>refcnt = 1, data_length = 2, entries = 16, used = 0, table_bits = 4, time_stamp = 0,
     fragments = [], compressed = COMP_NONE, reset_needed = True, table_data = Some [9, 9]\<rparr>"

definition small_frags :: "qht_fragment list" where
  "small_frags = [\<lparr>frag_nr = 1, frag_count = 2, frag_comp = COMP_NONE, frag_data = [0x81]\<rparr>,
     \<lparr>frag_nr = 2, frag_count = 2, frag_comp = COMP_NONE, frag_data = [0x10]\<rparr>]"

lemma env_ok_plain: "env_ok (plain_env ci)"
  by (simp add: env_ok_def plain_env_def)

lemma xor_plain: "bytewise_xor (xor_mem (plain_env ci))"
  by (simp add: bytewise_xor_def plain_env_def)

lemma fresh_holds: "holds fresh_table [0xFF, 0xFF]" "qht_size fresh_table = 2"
  by (simp_all add: holds_def fresh_table_def qht_size_def DIV_ROUNDUP_def numeral_2_eq_2)

text \<open>
  C18: An uncompressed patch as long as the table changes the contents of the table, bit by bit, by
  exclusive or, whether the table is fresh after a reset, plain or run length encoded, and whatever
  form it is stored in afterwards; the share of used bits is computed from the new contents.  The routine
  \<open>memxorcpy\<close> of the machine does the bytewise exclusive or, unless the table is fresh, where it is not called; internal
  compression is on, unless the table is plain and filled; and the new contents are not so dense that their encoding
  is cut off (\<open>rle_fits\<close>).
\<close>

theorem qht_patch_correct:
  assumes "env_ok env" "holds t bs" "entries t \<noteq> 0" "qht_size t < 2 ^ 31"
    and "compress_internal env \<or> compressed t \<noteq> COMP_RLE \<and> \<not> reset_needed t"
    and "frags \<noteq> []" "list_all (\<lambda>f. frag_comp f = COMP_NONE) frags"
    and "length (concat (map frag_data frags)) = qht_size t"
    and "reset_needed t \<or> bytewise_xor (xor_mem env)"
    and "rle_fits (map2 (XOR) bs (concat (map frag_data frags)))"
  shows "\<exists>t'. g2_qht_patch env t frags = Some (Some ''patch applied'', t') \<and>
    holds t' (map2 (XOR) bs (concat (map frag_data frags))) \<and>
    used t' = qht_promille (entries t) (map2 (XOR) bs (concat (map frag_data frags))) \<and>
    entries t' = entries t \<and> \<not> reset_needed t'"
  using patch_holds[OF assms(1-7) refl assms(8-10)] by blast

theorem qht_patch_correct_witness:
  "\<exists>t'. g2_qht_patch (plain_env True) fresh_table small_frags = Some (Some ''patch applied'', t') \<and>
    holds t' [0x7E, 0xEF] \<and> used t' = 187"
proof -
  have p: "qht_promille 16 [0x7E, 0xEF] = 187"
    by (simp add: qht_promille_def mempopcnt_def SIZE_MAX_def upt_rec bit_numeral_rec)
  have "map2 (XOR) [0xFF, 0xFF] (concat (map frag_data small_frags)) = [0x7E, 0xEF]"
    by (simp add: small_frags_def)
  then show ?thesis
    using qht_patch_correct[OF env_ok_plain[of True] fresh_holds(1), of small_frags] fresh_holds(2) p
      rle_small_fits[of "[0x7E, 0xEF]"]
    by (auto simp: small_frags_def plain_env_def fresh_table_def)
qed

text \<open>
  Without internal compression the first patch after a reset is lost: it is applied to scratch
  memory only, the table keeps the uninitialised bytes it got from the reset, and counts as filled.
\<close>

theorem qht_patch_lost:
  assumes "env_ok env" "\<not> compress_internal env" "reset_needed t" "entries t \<noteq> 0"
    and "frags \<noteq> []" "list_all (\<lambda>f. frag_comp f = COMP_NONE) frags"
    and "length (concat (map frag_data frags)) = qht_size t"
  shows "\<exists>t'. g2_qht_patch env t frags = Some (Some ''patch applied'', t') \<and>
    table_data t' = table_data t \<and> \<not> reset_needed t'"
proof -
  obtain b where b: "scratch2 env (qht_size t) = Some b" "length b = qht_size t"
    using scratch_given[OF assms(1)] by metis
  obtain f fs where fr: "frags = f # fs" "frag_comp f = COMP_NONE" using assms(5,6) by (cases frags) auto
  show ?thesis
    using patch_frags_whole[of True "xor_mem env" b frags "[]"] assms b fr
    by (auto simp: g2_qht_patch_def patch_target_def patch_store_def Let_def)
qed

theorem qht_patch_lost_witness:
  "\<exists>t'. g2_qht_patch (plain_env False) fresh_table small_frags = Some (Some ''patch applied'', t') \<and>
    table_data t' = Some [9, 9] \<and> \<not> reset_needed t'"
  using qht_patch_lost[OF env_ok_plain[of False], of fresh_table small_frags] fresh_holds(2)
  by (simp add: small_frags_def plain_env_def fresh_table_def)

text \<open>
  A patch that is shorter than the table is not refused.  After a reset the part of the table
  behind the patch is what the scratch memory of the thread happens to contain.
\<close>

theorem qht_patch_short:
  assumes "env_ok env" "compress_internal env" "reset_needed t" "entries t \<noteq> 0" "qht_size t < 2 ^ 31"
    and "frags \<noteq> []" "list_all (\<lambda>f. frag_comp f = COMP_NONE) frags"
    and "p = concat (map frag_data frags)" "length p \<le> qht_size t" "scratch2 env (qht_size t) = Some b"
    and "rle_fits (map NOT p @ drop (length p) b)"
  shows "\<exists>t'. g2_qht_patch env t frags = Some (Some ''patch applied'', t') \<and>
    holds t' (map NOT p @ drop (length p) b)"
proof -
  let ?bs = "map NOT p @ drop (length p) b"
  have b: "length b = qht_size t" using assms(1,10) unfolding env_ok_def by (metis option.inject)
  have split: "b = take (length p) b @ drop (length p) b" "length (take (length p) b) = length p"
    using b assms(9) by auto
  have "map2 (patch_op True) xs ys = map NOT ys" if "length xs = length ys" for xs ys
    using that by (induction xs ys rule: list_induct2) (simp_all add: patch_op_def)
  then have "patch_frags (xor_mem env) True b 0 frags = Some ?bs"
    using patch_frags_whole[of True "xor_mem env" "take (length p) b" frags "drop (length p) b"] split assms(8) by simp
  moreover obtain f fs where fr: "frags = f # fs" "frag_comp f = COMP_NONE" using assms(6,7) by (cases frags) auto
  moreover have "length ?bs = qht_size t" using b assms(9) by simp
  moreover have "\<exists>t'. patch_store env t ?bs ''patch applied'' = Some (Some ''patch applied'', t') \<and> holds t' ?bs"
    using patch_store_holds[OF assms(1,11) calculation(4) _ assms(4), of "[]" "''patch applied''"] assms(2,3,5)
      calculation(4) by auto
  ultimately show ?thesis using assms(3,10)
    by (auto simp: g2_qht_patch_def patch_target_def)
qed

theorem qht_patch_short_witness:
  "\<exists>t'. g2_qht_patch (plain_env True) fresh_table [hd small_frags] = Some (Some ''patch applied'', t') \<and>
    holds t' [NOT 0x81, 7]"
proof -
  have "scratch2 (plain_env True) 2 = Some [7, 7]" "compress_internal (plain_env True)"
    by (simp_all add: plain_env_def numeral_2_eq_2)
  moreover have "reset_needed fresh_table" "entries fresh_table \<noteq> 0" by (simp_all add: fresh_table_def)
  moreover have "frag_comp (hd small_frags) = COMP_NONE" "frag_data (hd small_frags) = [0x81]"
    by (simp_all add: small_frags_def)
  ultimately show ?thesis
    using qht_patch_short[OF env_ok_plain[of True], of fresh_table "[hd small_frags]" "[0x81]" "[7, 7]"]
      rle_small_fits[of "[NOT 0x81, 7]"] fresh_holds(2) by simp
qed

text \<open>
  C19: Aggregating a table into a plain one of the same size gives the conjunction of the contents: a
  hash is marked in the result if it is marked in one of the two.
\<close>

theorem qht_aggregate_correct:
  assumes "env_ok env" "holds t bs" "compressed t = COMP_NONE" "table_data t = Some td"
    and "qht_size t \<le> length td" "length td = data_length t"
    and "holds f fs" "\<not> reset_needed f" "qht_size f = qht_size t"
  shows "\<exists>t'. g2_qht_aggregate env t f = Some t' \<and> holds t' (map2 (AND) bs fs) \<and> \<not> reset_needed t'"
  by (rule aggregate_holds[OF assms])

theorem qht_aggregate_correct_witness:
  "\<exists>t'. g2_qht_aggregate (plain_env True) fresh_table
      (fresh_table\<lparr>reset_needed := False, table_data := Some [3, 9]\<rparr>) = Some t' \<and>
    holds t' [3, 9] \<and> \<not> reset_needed t'"
proof -
  have "holds (fresh_table\<lparr>reset_needed := False, table_data := Some [3, 9]\<rparr>) [3, 9]"
    by (simp add: holds_def fresh_table_def qht_size_def DIV_ROUNDUP_def)
  from qht_aggregate_correct[OF env_ok_plain[of True] fresh_holds(1) _ _ _ _ this] show ?thesis
    using fresh_holds(2) by (simp add: fresh_table_def qht_size_def)
qed

text \<open>
  Whatever fragments arrive, what is collected is never longer than the table; a fragment that
  is refused leaves the table alone.
\<close>

theorem qht_frags_bounded:
  assumes "g2_qht_add_frag t f bytes = (r, t')" "length (concat (map frag_data (fragments t))) \<le> qht_size t"
  shows "length (concat (map frag_data (fragments t'))) \<le> qht_size t' \<and> (r < 0 \<longrightarrow> t' = t)"
proof -
  have walk: "frag_walk fs n = ([], n + length (concat (map frag_data fs)))" for fs n
    by (induction fs arbitrary: n) simp_all
  show ?thesis
    using assms by (auto simp: g2_qht_add_frag_def walk Let_def qht_size_def split: if_splits)
qed

theorem qht_frags_bounded_witness:
  "length (concat (map frag_data (fragments (snd (g2_qht_add_frag fresh_table (hd small_frags) [0x81]))))) \<le> 2"
  using qht_frags_bounded[of fresh_table "hd small_frags" "[0x81]", OF prod.collapse[symmetric]]
  by (simp add: fresh_table_def small_frags_def g2_qht_add_frag_def qht_size_def DIV_ROUNDUP_def)

text \<open>
  The number of a fragment is only looked at for the first one.  Any later fragment is taken,
  whatever is missing before it, and completes the patch if its number is the last one.
\<close>

theorem qht_frag_gap:
  assumes "fragments t = n # ns" "frag_count f = frag_count n" "frag_comp f = frag_comp n"
    and "frag_comp f = COMP_NONE \<or> frag_comp f = COMP_DEFLATE"
    and "length (concat (map frag_data (fragments t))) + length (frag_data f) \<le> qht_size t"
  shows "fst (g2_qht_add_frag t f bytes) = (if frag_nr f \<ge> frag_count f then 1 else 0)"
proof -
  have walk: "frag_walk fs k = ([], k + length (concat (map frag_data fs)))" for fs k
    by (induction fs arbitrary: k) simp_all
  show ?thesis using assms by (auto simp: g2_qht_add_frag_def walk Let_def qht_size_def)
qed

theorem qht_frag_gap_witness:
  "fst (g2_qht_add_frag (fresh_table\<lparr>fragments := [\<lparr>frag_nr = 1, frag_count = 9, frag_comp = COMP_NONE, frag_data = [1]\<rparr>]\<rparr>)
     \<lparr>frag_nr = 9, frag_count = 9, frag_comp = COMP_NONE, frag_data = [2]\<rparr> [2]) = 1"
  using qht_frag_gap[of "fresh_table\<lparr>fragments := [\<lparr>frag_nr = 1, frag_count = 9, frag_comp = COMP_NONE, frag_data = [1]\<rparr>]\<rparr>"
      _ "[]" "\<lparr>frag_nr = 9, frag_count = 9, frag_comp = COMP_NONE, frag_data = [2]\<rparr>" "[2]"]
  by (simp add: fresh_table_def qht_size_def DIV_ROUNDUP_def)

end
