(* ===== verification/Con_Registry.thy ===== *)
theory Con_Registry
  imports QHT_Table_Correct Combo_Addr "HOL-Library.Multiset"
begin

text \<open>
  The connection registry, \<^verbatim>\<open>G2ConRegistry.c\<close>: a hash table of the connections by IP whose buckets are
  again tables, a tree of fixed depth with chains at the bottom, and the list of the neighbouring hubs.  Locks are left
  out, the operations are sequential.  Connections are numbers, what they contain is in \<open>cons\<close>.  \<open>None\<close> stands for
  taking the wrong member of the union in a bucket.
\<close>

definition LEVEL_SHIFT :: nat where "LEVEL_SHIFT = 2"
definition LEVEL_SIZE :: nat where "LEVEL_SIZE = 2 ^ LEVEL_SHIFT"
definition LEVEL_MASK :: u32 where "LEVEL_MASK = word_of_nat (LEVEL_SIZE - 1)"
definition CHAIN_FILL_FACTOR :: nat where "CHAIN_FILL_FACTOR = 8"
definition UPDATE_INTERVAL :: int where "UPDATE_INTERVAL = 60"
definition QHT_DEFAULT_BITS :: nat where "QHT_DEFAULT_BITS = 20"

text \<open>What is used of a connection; \<open>registry\<close> and \<open>hub_list\<close> tell whether it is linked there.\<close>

record g2_connection =
  remote_host :: combo_addr
  qht :: "qhtable option"
  upeer :: bool
  dismissed :: bool
  registry :: bool
  hub_list :: bool

record g2_ht_chain =
  c_list :: "nat list"
  c_qht :: "qhtable option"
  c_dirty :: bool

datatype g2_ht_bucket =
    Bucket (b_qht: "qhtable option") (b_dirty: bool) (d_b: "g2_ht_bucket list")
  | Last_Bucket (b_qht: "qhtable option") (b_dirty: bool) (d_c: "g2_ht_chain list")

record conreg =
  ht_root :: g2_ht_bucket
  neighbour_hubs :: "nat list"
  ht_seed :: u32
  level_count :: nat
  act_hub_sum :: int
  max_hub_sum :: int
  cons :: "nat \<Rightarrow> g2_connection"

text \<open>Loops over the members of a bucket, with a state; the second one also replaces the members.\<close>

fun for_each :: "('b \<Rightarrow> 's \<Rightarrow> 's option) \<Rightarrow> 'b list \<Rightarrow> 's \<Rightarrow> 's option" where
  "for_each f [] st = Some st"
| "for_each f (b # bs) st = do { st \<leftarrow> f b st; for_each f bs st }"

fun sweep :: "('b \<Rightarrow> 's \<Rightarrow> ('b \<times> 's) option) \<Rightarrow> 'b list \<Rightarrow> 's \<Rightarrow> ('b list \<times> 's) option" where
  "sweep f [] st = Some ([], st)"
| "sweep f (b # bs) st = do { (b, st) \<leftarrow> f b st; (bs, st) \<leftarrow> sweep f bs st; Some (b # bs, st) }"

subsection \<open>Start\<close>

definition roundup_power_of_2 :: "u64 \<Rightarrow> u64" where
  "roundup_power_of_2 c =
     (let c = c - 1; c = c OR drop_bit 1 c; c = c OR drop_bit 2 c; c = c OR drop_bit 4 c; c = c OR drop_bit 8 c;
          c = c OR drop_bit 16 c; c = c OR drop_bit 16 (drop_bit 16 c)
      in c + 1)"

definition conreg_level_count :: "nat \<Rightarrow> nat" where
  "conreg_level_count max_connection_sum =
     (let count_c = max_connection_sum div CHAIN_FILL_FACTOR;
          count_c = count_c + (if count_c = 0 then 1 else 0);
          count_c = unat (roundup_power_of_2 (word_of_nat count_c));
          count_c = flsst count_c - 1;
          count_c = count_c div LEVEL_SHIFT + (if count_c mod LEVEL_SHIFT \<ge> LEVEL_SHIFT div 2 then 1 else 0);
          count_c = count_c + (if count_c = 0 then 1 else 0)
      in if count_c * LEVEL_SHIFT > 32 then 32 div LEVEL_SHIFT else count_c)"

text \<open>The number of levels below decides which member of the union is filled.\<close>

primrec init_alloc_bucket :: "nat \<Rightarrow> g2_ht_bucket" where
  "init_alloc_bucket 0 = Last_Bucket None False (replicate LEVEL_SIZE \<lparr>c_list = [], c_qht = None, c_dirty = False\<rparr>)"
| "init_alloc_bucket (Suc n) = Bucket None False (replicate LEVEL_SIZE (init_alloc_bucket n))"

fun set_qht :: "qhtable option \<Rightarrow> g2_ht_bucket \<Rightarrow> g2_ht_bucket" where
  "set_qht t (Bucket q d bs) = Bucket t d bs"
| "set_qht t (Last_Bucket q d cs) = Last_Bucket t d cs"

text \<open>Filling the master table, which is plain, with ones; there is nothing to fill without memory.\<close>

definition fill_master :: "qhtable \<Rightarrow> qhtable option" where
  "fill_master t = (case table_data t of
     None \<Rightarrow> None
   | Some d \<Rightarrow> if data_length t \<le> length d
       then Some (t\<lparr>table_data := Some (replicate (data_length t) 0xFF @ drop (data_length t) d), reset_needed := False\<rparr>)
       else None)"

definition g2_conreg_init :: "'z qht_env \<Rightarrow> bool \<Rightarrow> nat \<Rightarrow> int \<Rightarrow> u32 \<Rightarrow> (nat \<Rightarrow> g2_connection) \<Rightarrow> conreg option" where
  "g2_conreg_init env table_alloc max_con max_hub seed cs =
     (let levels = conreg_level_count max_con;
          (failed, t) = g2_qht_reset env table_alloc None (2 ^ QHT_DEFAULT_BITS) False
      in if failed then None
         else do {
           t \<leftarrow> t;
           t \<leftarrow> fill_master t;
           Some \<lparr>ht_root = set_qht (Some t) (init_alloc_bucket (levels - 1)), neighbour_hubs = [], ht_seed = seed,
             level_count = levels, act_hub_sum = 0, max_hub_sum = max_hub, cons = cs\<rparr> })"

subsection \<open>Finding a chain\<close>

definition level_index :: "u32 \<Rightarrow> nat" where
  "level_index h = unat (h AND LEVEL_MASK)"

primrec find_chain :: "nat \<Rightarrow> u32 \<Rightarrow> g2_ht_bucket \<Rightarrow> g2_ht_chain option" where
  "find_chain 0 h b = (case b of Last_Bucket q d cs \<Rightarrow> Some (cs ! level_index h) | _ \<Rightarrow> None)"
| "find_chain (Suc n) h b = (case b of Bucket q d bs \<Rightarrow> find_chain n (drop_bit LEVEL_SHIFT h) (bs ! level_index h) | _ \<Rightarrow> None)"

definition g2_conreg_find_chain :: "conreg \<Rightarrow> combo_addr \<Rightarrow> g2_ht_chain option" where
  "g2_conreg_find_chain r addr = find_chain (level_count r - 1) (combo_addr_hash_ip addr (ht_seed r)) (ht_root r)"

primrec find_chain_and_mark_dirty_rec ::
    "(g2_ht_chain \<Rightarrow> g2_ht_chain option) \<Rightarrow> nat \<Rightarrow> u32 \<Rightarrow> g2_ht_bucket \<Rightarrow> g2_ht_bucket option" where
  "find_chain_and_mark_dirty_rec callback 0 h b =
     (case b of
        Last_Bucket q d cs \<Rightarrow> do {
          c \<leftarrow> callback (cs ! level_index h);
          Some (Last_Bucket q True (cs[level_index h := c])) }
      | _ \<Rightarrow> None)"
| "find_chain_and_mark_dirty_rec callback (Suc n) h b =
     (case b of
        Bucket q d bs \<Rightarrow> do {
          b \<leftarrow> find_chain_and_mark_dirty_rec callback n (drop_bit LEVEL_SHIFT h) (bs ! level_index h);
          Some (Bucket q True (bs[level_index h := b])) }
      | _ \<Rightarrow> None)"

definition con_hash :: "conreg \<Rightarrow> nat \<Rightarrow> u32" where
  "con_hash r c = combo_addr_hash_ip (remote_host (cons r c)) (ht_seed r)"

definition g2_conreg_find_chain_and_mark_dirty ::
    "nat \<Rightarrow> (g2_ht_chain \<Rightarrow> g2_ht_chain option) \<Rightarrow> conreg \<Rightarrow> conreg option" where
  "g2_conreg_find_chain_and_mark_dirty c callback r = do {
     b \<leftarrow> find_chain_and_mark_dirty_rec callback (level_count r - 1) (con_hash r c) (ht_root r);
     Some (r\<lparr>ht_root := b\<rparr>) }"

subsection \<open>Connections come and go\<close>

definition chain_callback_dirty :: "g2_ht_chain \<Rightarrow> g2_ht_chain option" where
  "chain_callback_dirty ch = Some (ch\<lparr>c_dirty := True\<rparr>)"

definition g2_conreg_mark_dirty :: "nat \<Rightarrow> conreg \<Rightarrow> conreg option" where
  "g2_conreg_mark_dirty c r =
     (if \<not> registry (cons r c) then Some r
      else g2_conreg_find_chain_and_mark_dirty c chain_callback_dirty r)"

definition chain_callback_add :: "nat \<Rightarrow> g2_ht_chain \<Rightarrow> g2_ht_chain option" where
  "chain_callback_add c ch = Some (ch\<lparr>c_list := c # c_list ch, c_dirty := True\<rparr>)"

definition upd_con :: "nat \<Rightarrow> (g2_connection \<Rightarrow> g2_connection) \<Rightarrow> conreg \<Rightarrow> conreg" where
  "upd_con c f r = r\<lparr>cons := (cons r)(c := f (cons r c))\<rparr>"

definition g2_conreg_add :: "nat \<Rightarrow> conreg \<Rightarrow> (bool \<times> conreg) option" where
  "g2_conreg_add c r =
     (if registry (cons r c) then Some (False, r)
      else do {
        r \<leftarrow> g2_conreg_find_chain_and_mark_dirty c (chain_callback_add c) r;
        Some (True, upd_con c (registry_update (\<lambda>_. True)) r) })"

text \<open>\<open>hlist_del\<close> takes a connection out of the chain it is in, which has to be the one that is marked.\<close>

definition chain_callback_remove :: "nat \<Rightarrow> g2_ht_chain \<Rightarrow> g2_ht_chain option" where
  "chain_callback_remove c ch =
     (if c \<in> set (c_list ch) then Some (ch\<lparr>c_list := remove1 c (c_list ch), c_dirty := True\<rparr>) else None)"

definition g2_conreg_demote_hub :: "nat \<Rightarrow> conreg \<Rightarrow> conreg" where
  "g2_conreg_demote_hub c r =
     (if \<not> hub_list (cons r c) then r
      else upd_con c (hub_list_update (\<lambda>_. False))
        (r\<lparr>neighbour_hubs := remove1 c (neighbour_hubs r), act_hub_sum := act_hub_sum r - 1\<rparr>))"

definition g2_conreg_remove :: "nat \<Rightarrow> conreg \<Rightarrow> (bool \<times> conreg) option" where
  "g2_conreg_remove c r =
     (if \<not> registry (cons r c) then Some (False, r)
      else do {
        let r = (if hub_list (cons r c)
          then upd_con c (hub_list_update (\<lambda>_. False))
            (r\<lparr>neighbour_hubs := remove1 c (neighbour_hubs r), act_hub_sum := act_hub_sum r - 1\<rparr>)
          else r);
        r \<leftarrow> g2_conreg_find_chain_and_mark_dirty c (chain_callback_remove c) r;
        Some (True, upd_con c (registry_update (\<lambda>_. False)) r) })"

definition g2_conreg_promote_hub :: "nat \<Rightarrow> conreg \<Rightarrow> bool \<times> conreg" where
  "g2_conreg_promote_hub c r =
     (if hub_list (cons r c) then (False, r)
      else if act_hub_sum r + 1 \<ge> max_hub_sum r then (False, r)
      else (True, upd_con c (hub_list_update (\<lambda>_. True))
        (r\<lparr>neighbour_hubs := neighbour_hubs r @ [c], act_hub_sum := act_hub_sum r + 1\<rparr>)))"

subsection \<open>Looking connections up\<close>

definition g2_conreg_is_neighbour_hub :: "conreg \<Rightarrow> combo_addr \<Rightarrow> bool option" where
  "g2_conreg_is_neighbour_hub r addr = do {
     ch \<leftarrow> g2_conreg_find_chain r addr;
     Some (case find (\<lambda>c. combo_addr_eq (remote_host (cons r c)) addr) (c_list ch) of
       None \<Rightarrow> False | Some c \<Rightarrow> upeer (cons r c)) }"

text \<open>
  Callbacks get a connection and change a state of their own.  The results are combined with a bitwise or.
\<close>

type_synonym 's con_callback = "nat \<Rightarrow> 's \<Rightarrow> u64 \<times> 's"

definition or_callback :: "'s con_callback \<Rightarrow> nat \<Rightarrow> u64 \<times> 's \<Rightarrow> (u64 \<times> 's) option" where
  "or_callback callback c = (\<lambda>(res, st). let (x, st) = callback c st in Some (res OR x, st))"

primrec do_callback_level :: "'s con_callback \<Rightarrow> nat \<Rightarrow> g2_ht_bucket \<Rightarrow> u64 \<times> 's \<Rightarrow> (u64 \<times> 's) option" where
  "do_callback_level callback 0 b st =
     (case b of Last_Bucket q d cs \<Rightarrow> for_each (\<lambda>ch. for_each (or_callback callback) (c_list ch)) cs st | _ \<Rightarrow> None)"
| "do_callback_level callback (Suc n) b st =
     (case b of Bucket q d bs \<Rightarrow> for_each (do_callback_level callback n) bs st | _ \<Rightarrow> None)"

definition g2_conreg_all_con :: "'s con_callback \<Rightarrow> conreg \<Rightarrow> 's \<Rightarrow> (u64 \<times> 's) option" where
  "g2_conreg_all_con callback r st = do_callback_level callback (level_count r - 1) (ht_root r) (0, st)"

definition filtered :: "conreg \<Rightarrow> combo_addr option \<Rightarrow> nat \<Rightarrow> bool" where
  "filtered r flt c = (case flt of None \<Rightarrow> False | Some a \<Rightarrow> combo_addr_eq (remote_host (cons r c)) a)"

definition g2_conreg_all_hub :: "combo_addr option \<Rightarrow> 's con_callback \<Rightarrow> conreg \<Rightarrow> 's \<Rightarrow> (u64 \<times> 's) option" where
  "g2_conreg_all_hub flt callback r st =
     for_each (\<lambda>c st. if filtered r flt c then Some st else or_callback callback c st) (neighbour_hubs r) (0, st)"

definition call_first :: "(nat \<Rightarrow> bool) \<Rightarrow> 's con_callback \<Rightarrow> nat list \<Rightarrow> 's \<Rightarrow> u64 \<times> 's" where
  "call_first P callback cs st = (case find P cs of None \<Rightarrow> (0, st) | Some c \<Rightarrow> callback c st)"

definition g2_conreg_random_hub :: "combo_addr option \<Rightarrow> 's con_callback \<Rightarrow> conreg \<Rightarrow> 's \<Rightarrow> u64 \<times> 's" where
  "g2_conreg_random_hub flt callback r st = call_first (\<lambda>c. \<not> filtered r flt c) callback (neighbour_hubs r) st"

definition g2_conreg_for_addr :: "combo_addr \<Rightarrow> 's con_callback \<Rightarrow> conreg \<Rightarrow> 's \<Rightarrow> (u64 \<times> 's) option" where
  "g2_conreg_for_addr addr callback r st = do {
     ch \<leftarrow> g2_conreg_find_chain r addr;
     Some (call_first (\<lambda>c. combo_addr_eq (remote_host (cons r c)) addr) callback (c_list ch) st) }"

definition g2_conreg_for_ip :: "combo_addr \<Rightarrow> 's con_callback \<Rightarrow> conreg \<Rightarrow> 's \<Rightarrow> (u64 \<times> 's) option" where
  "g2_conreg_for_ip addr callback r st = do {
     ch \<leftarrow> g2_conreg_find_chain r addr;
     Some (call_first (\<lambda>c. combo_addr_eq_ip (remote_host (cons r c)) addr) callback (c_list ch) st) }"

definition g2_conreg_have_ip :: "conreg \<Rightarrow> combo_addr \<Rightarrow> bool option" where
  "g2_conreg_have_ip r addr = do {
     ch \<leftarrow> g2_conreg_find_chain r addr;
     Some (\<exists>c\<in>set (c_list ch). combo_addr_eq_ip (remote_host (cons r c)) addr) }"

subsection \<open>The master table\<close>

text \<open>A table below is put into the one above it, which is plain.\<close>

definition add_to_master :: "qhtable \<Rightarrow> qhtable \<Rightarrow> qhtable option" where
  "add_to_master new_master new_sub =
     (case (table_data new_master, table_data new_sub) of
        (Some md, Some sd) \<Rightarrow>
          if data_length new_master > length sd then None
          else if reset_needed new_master then
            map_option (\<lambda>d. new_master\<lparr>table_data := Some d, reset_needed := False\<rparr>) (memcpy_at md 0 (take (data_length new_master) sd))
          else map_option (\<lambda>d. new_master\<lparr>table_data := Some d\<rparr>) (memand_at md 0 (take (data_length new_master) sd))
      | _ \<Rightarrow> None)"

text \<open>\<open>max_promille\<close> is the setting for tables that are too full.\<close>

definition aggregate_con :: "'z qht_env \<Rightarrow> nat \<Rightarrow> (nat \<Rightarrow> g2_connection) \<Rightarrow> nat \<Rightarrow> qhtable \<Rightarrow> qhtable option" where
  "aggregate_con env max_promille cs c new_sub =
     (case qht (cs c) of
        None \<Rightarrow> Some new_sub
      | Some t \<Rightarrow>
          if \<not> reset_needed t \<and> \<not> upeer (cs c) \<and> used t < max_promille then g2_qht_aggregate env new_sub t else Some new_sub)"

definition do_global_update_chain ::
    "'z qht_env \<Rightarrow> bool \<Rightarrow> nat \<Rightarrow> (nat \<Rightarrow> g2_connection) \<Rightarrow> g2_ht_chain \<Rightarrow> qhtable \<Rightarrow> (g2_ht_chain \<times> qhtable) option" where
  "do_global_update_chain env table_alloc max_promille cs c new_master = do {
     (new_sub, c) \<leftarrow>
       (if c_list c = [] then Some (None, c\<lparr>c_qht := None\<rparr>)
        else if c_dirty c then
          (let (failed, new_sub) = g2_qht_reset env table_alloc None (2 ^ QHT_DEFAULT_BITS) False
           in if failed then Some (new_sub, c)
              else do {
                new_sub \<leftarrow> new_sub;
                new_sub \<leftarrow> for_each (aggregate_con env max_promille cs) (c_list c) new_sub;
                Some (Some new_sub, c\<lparr>c_dirty := False, c_qht := Some new_sub\<rparr>) })
        else Some (c_qht c, c));
     new_master \<leftarrow> (case new_sub of
         None \<Rightarrow> Some new_master
       | Some t \<Rightarrow> if \<not> reset_needed t then add_to_master new_master t else Some new_master);
     Some (c, new_master) }"

text \<open>
  The tables of a bucket, of those below it, and the master table above it.  \<open>new_master\<close> is \<open>None\<close> at the root.
\<close>

definition update_finish :: "qhtable option \<Rightarrow> qhtable \<Rightarrow> (qhtable option \<times> qhtable) option" where
  "update_finish new_master new_sub = do {
     new_sub \<leftarrow> (if new_master = None \<and> reset_needed new_sub then fill_master new_sub else Some new_sub);
     new_master \<leftarrow> (case new_master of
         None \<Rightarrow> Some None
       | Some m \<Rightarrow> if \<not> reset_needed new_sub then map_option Some (add_to_master m new_sub) else Some (Some m));
     Some (new_master, new_sub) }"

primrec do_global_update ::
    "'z qht_env \<Rightarrow> bool \<Rightarrow> nat \<Rightarrow> (nat \<Rightarrow> g2_connection) \<Rightarrow> nat \<Rightarrow> g2_ht_bucket \<Rightarrow> qhtable option \<Rightarrow>
     (g2_ht_bucket \<times> qhtable option) option" where
  "do_global_update env table_alloc max_promille cs 0 b new_master =
     (if \<not> b_dirty b then Some (b, new_master)
      else (case b of
        Last_Bucket q d chs \<Rightarrow> do {
          new_sub \<leftarrow> snd (g2_qht_reset env table_alloc None (2 ^ QHT_DEFAULT_BITS) False);
          (chs, new_sub) \<leftarrow> sweep (do_global_update_chain env table_alloc max_promille cs) chs new_sub;
          (new_master, new_sub) \<leftarrow> update_finish new_master new_sub;
          Some (Last_Bucket (Some new_sub) False chs, new_master) }
      | _ \<Rightarrow> None))"
| "do_global_update env table_alloc max_promille cs (Suc n) b new_master =
     (if \<not> b_dirty b then Some (b, new_master)
      else (case b of
        Bucket q d bs \<Rightarrow> do {
          new_sub \<leftarrow> snd (g2_qht_reset env table_alloc None (2 ^ QHT_DEFAULT_BITS) False);
          (bs, new_sub) \<leftarrow> sweep (do_global_update env table_alloc max_promille cs n) bs (Some new_sub);
          new_sub \<leftarrow> new_sub;
          (new_master, new_sub) \<leftarrow> update_finish new_master new_sub;
          Some (Bucket (Some new_sub) False bs, new_master) }
      | _ \<Rightarrow> None))"

text \<open>The second component is the time of the last update.\<close>

definition g2_qht_global_update :: "'z qht_env \<Rightarrow> bool \<Rightarrow> nat \<Rightarrow> conreg \<times> int \<Rightarrow> (conreg \<times> int) option" where
  "g2_qht_global_update env table_alloc max_promille = (\<lambda>(r, last_update).
     (if \<bar>local_time_now env - last_update\<bar> < UPDATE_INTERVAL then Some (r, last_update)
      else do {
        (root, _) \<leftarrow> do_global_update env table_alloc max_promille (cons r) (level_count r - 1) (ht_root r) None;
        Some (r\<lparr>ht_root := root\<rparr>, local_time_now env) }))"

subsection \<open>Searching\<close>

text \<open>
  The test of a bit in a plain table, with the test of the bound as it is written: the bit behind the last one is still
  read.  \<open>None\<close> is reading outside of the data.
\<close>

definition table_hit :: "byte list \<Rightarrow> u32 \<Rightarrow> bool option" where
  "table_hit d n = (if unat n div 8 < length d then Some (\<not> bit (d ! (unat n div 8)) (unat n mod 8)) else None)"

fun match_loop :: "nat \<Rightarrow> byte list \<Rightarrow> u32 list \<Rightarrow> u32 list option" where
  "match_loop ents d [] = Some []"
| "match_loop ents d (n # ns) =
     (if unat n > ents then Some []
      else do {
        hit \<leftarrow> table_hit d n;
        ms \<leftarrow> match_loop ents d ns;
        Some (if hit then n # ms else ms) })"

text \<open>The loop over the hashes in a leaf stops at the first hit.\<close>

fun leaf_loop :: "nat \<Rightarrow> byte list \<Rightarrow> u32 list \<Rightarrow> bool option" where
  "leaf_loop ents d [] = Some False"
| "leaf_loop ents d (n # ns) =
     (if unat n > ents then Some False
      else do {
        hit \<leftarrow> table_hit d n;
        if hit then Some True else leaf_loop ents d ns })"

text \<open>\<open>hashes\<close> are the hashes that are left; the result are those that are marked here, \<open>None\<close> if none is.\<close>

definition g2_qht_global_search_bucket :: "u32 list \<Rightarrow> qhtable \<Rightarrow> u32 list option option" where
  "g2_qht_global_search_bucket hashes t =
     (case table_data t of
        None \<Rightarrow> Some None
      | Some d \<Rightarrow>
          if compressed t = COMP_RLE \<or> reset_needed t then Some None
          else do {
            ms \<leftarrow> match_loop (entries t) d hashes;
            Some (if ms = [] then None else Some ms) })"

text \<open>Whether \<open>g2_packet_leaf_qht_match\<close> is called for a connection.\<close>

definition g2_qht_global_search_chain :: "nat \<Rightarrow> u32 list \<Rightarrow> g2_connection \<Rightarrow> bool option" where
  "g2_qht_global_search_chain max_promille hashes con =
     (if dismissed con then Some False
      else (case qht con of
        None \<Rightarrow> Some False
      | Some t \<Rightarrow>
          if reset_needed t then Some False
          else if used t \<ge> max_promille then Some False
          else (case table_data t of
            None \<Rightarrow> Some False
          | Some d \<Rightarrow>
              if compressed t = COMP_RLE then map_option (\<lambda>r. r \<noteq> 0) (bitfield_lookup hashes d)
              else leaf_loop (entries t) d hashes)))"

text \<open>The state is the list of the connections that matched.\<close>

definition search_con :: "nat \<Rightarrow> (nat \<Rightarrow> g2_connection) \<Rightarrow> u32 list \<Rightarrow> nat \<Rightarrow> nat list \<Rightarrow> nat list option" where
  "search_con max_promille cs hashes c found =
     (case qht (cs c) of
        None \<Rightarrow> Some found
      | Some t \<Rightarrow>
          if reset_needed t then Some found
          else if upeer (cs c) then Some found
          else do {
            m \<leftarrow> g2_qht_global_search_chain max_promille hashes (cs c);
            Some (if m then found @ [c] else found) })"

definition do_global_search_chain :: "nat \<Rightarrow> (nat \<Rightarrow> g2_connection) \<Rightarrow> u32 list \<Rightarrow> g2_ht_chain \<Rightarrow> nat list \<Rightarrow> nat list option" where
  "do_global_search_chain max_promille cs hashes ch found = for_each (search_con max_promille cs hashes) (c_list ch) found"

text \<open>One member of a bucket: its table, and how the search goes on below.\<close>

definition search_member :: "u32 list \<Rightarrow> qhtable option \<Rightarrow> (u32 list \<Rightarrow> nat list \<Rightarrow> nat list option) \<Rightarrow> nat list \<Rightarrow> nat list option" where
  "search_member hashes t below found =
     (case t of
        None \<Rightarrow> Some found
      | Some t \<Rightarrow> do {
          ms \<leftarrow> g2_qht_global_search_bucket hashes t;
          (case ms of None \<Rightarrow> Some found | Some ms \<Rightarrow> below ms found) })"

primrec do_global_search ::
    "nat \<Rightarrow> (nat \<Rightarrow> g2_connection) \<Rightarrow> nat \<Rightarrow> u32 list \<Rightarrow> g2_ht_bucket \<Rightarrow> nat list \<Rightarrow> nat list option" where
  "do_global_search max_promille cs 0 hashes b found =
     (case b of
        Last_Bucket q d chs \<Rightarrow>
          for_each (\<lambda>ch. search_member hashes (c_qht ch) (\<lambda>hs. do_global_search_chain max_promille cs hs ch)) chs found
      | _ \<Rightarrow> None)"
| "do_global_search max_promille cs (Suc n) hashes b found =
     (case b of
        Bucket q d bs \<Rightarrow>
          for_each (\<lambda>b. search_member hashes (b_qht b) (\<lambda>hs. do_global_search max_promille cs n hs b)) bs found
      | _ \<Rightarrow> None)"

definition g2_qht_global_search :: "nat \<Rightarrow> conreg \<Rightarrow> u32 list \<Rightarrow> nat list option" where
  "g2_qht_global_search max_promille r hashes =
     do_global_search max_promille (cons r) (level_count r - 1) hashes (ht_root r) []"

definition g2_qht_match_leafs :: "nat \<Rightarrow> conreg \<Rightarrow> u32 list \<Rightarrow> nat list option" where
  "g2_qht_match_leafs max_promille r hashes =
     (case b_qht (ht_root r) of
        None \<Rightarrow> Some []
      | Some master_qht \<Rightarrow>
          if reset_needed master_qht then Some []
          else (case table_data master_qht of
            None \<Rightarrow> Some []
          | Some d \<Rightarrow>
              if compressed master_qht = COMP_RLE then Some []
              else do {
                ms \<leftarrow> match_loop (entries master_qht) d hashes;
                if ms = [] then Some [] else g2_qht_global_search max_promille r ms }))"

text \<open>
  Queries for other hubs: every neighbour gets the query if its table has one of the hashes, or if it has no table.  The result for a
  hub is \<open>Some True\<close> for \<open>g2_packet_hub_qht_match\<close>, \<open>Some False\<close> for \<open>g2_packet_hub_qht_done\<close>, and \<open>None\<close> if nothing is called.
\<close>

definition hub_match :: "u32 list \<Rightarrow> g2_connection \<Rightarrow> bool option option" where
  "hub_match hashes con =
     (if dismissed con then Some None
      else (case qht con of
        None \<Rightarrow> Some (Some True)
      | Some t \<Rightarrow>
          if reset_needed t then Some (Some False)
          else if used t \<ge> 1000 then Some (Some False)
          else (case table_data t of
            None \<Rightarrow> Some (Some True)
          | Some d \<Rightarrow>
              if compressed t = COMP_RLE then map_option (\<lambda>r. Some (r \<noteq> 0)) (bitfield_lookup hashes d)
              else map_option Some (leaf_loop (entries t) d hashes))))"

text \<open>The calls in their order; the state of the callback is \<open>None\<close> after reading outside of a table.\<close>

definition hub_match_callback :: "(nat \<Rightarrow> g2_connection) \<Rightarrow> u32 list \<Rightarrow> (nat \<times> bool) list option con_callback" where
  "hub_match_callback cs hashes c st = (0, do {
     calls \<leftarrow> st;
     m \<leftarrow> hub_match hashes (cs c);
     Some (case m of None \<Rightarrow> calls | Some x \<Rightarrow> calls @ [(c, x)]) })"

definition g2_qht_match_hubs :: "conreg \<Rightarrow> u32 list \<Rightarrow> (nat \<times> bool) list option" where
  "g2_qht_match_hubs r hashes = do {
     (_, calls) \<leftarrow> g2_conreg_all_hub None (hub_match_callback (cons r) hashes) r (Some []);
     calls }"

subsection \<open>The end\<close>

text \<open>The state is the list of the connections that are closed.\<close>

definition cleanup_chain :: "g2_ht_chain \<Rightarrow> nat list \<Rightarrow> (g2_ht_chain \<times> nat list) option" where
  "cleanup_chain ch closed =
     Some (if c_qht ch = None then (ch, closed) else (ch\<lparr>c_qht := None, c_list := []\<rparr>, closed @ c_list ch))"

primrec do_cleanup_level :: "nat \<Rightarrow> g2_ht_bucket \<Rightarrow> nat list \<Rightarrow> (g2_ht_bucket \<times> nat list) option" where
  "do_cleanup_level 0 b closed =
     (case b of
        Last_Bucket q d chs \<Rightarrow> do {
          (chs, closed) \<leftarrow> sweep cleanup_chain chs closed;
          Some (Last_Bucket q d chs, closed) }
      | _ \<Rightarrow> None)"
| "do_cleanup_level (Suc n) b closed =
     (case b of
        Bucket q d bs \<Rightarrow> do {
          (bs, closed) \<leftarrow> sweep (\<lambda>b closed. if b_qht b = None then Some (b, closed) else do_cleanup_level n (set_qht None b) closed) bs closed;
          Some (Bucket q d bs, closed) }
      | _ \<Rightarrow> None)"

definition g2_conreg_cleanup :: "conreg \<Rightarrow> (conreg \<times> nat list) option" where
  "g2_conreg_cleanup r = do {
     (root, closed) \<leftarrow> do_cleanup_level (level_count r - 1) (ht_root r) [];
     Some (r\<lparr>ht_root := set_qht None root\<rparr>, closed) }"

end
