(* ===== verification/Con_Registry_Correct.thy ===== *)
theory Con_Registry_Correct
  imports Con_Registry
begin

text \<open>
  The connection registry in every state it can get into: a connection is in the chain its hash leads to and in no other, so looking
  up an address finds it, and the list of the neighbouring hubs is counted right and stays below its limit.
\<close>

subsection \<open>Every connection is in its chain\<close>

fun all_cons :: "g2_ht_bucket \<Rightarrow> nat list" where
  "all_cons (Bucket q d bs) = concat (map all_cons bs)"
| "all_cons (Last_Bucket q d cs) = concat (map c_list cs)"

text \<open>A tree of the given depth in which every connection is where its hash leads.\<close>

primrec placed :: "nat \<Rightarrow> (nat \<Rightarrow> u32) \<Rightarrow> g2_ht_bucket \<Rightarrow> bool" where
  "placed 0 hash b = (case b of
     Last_Bucket q d cs \<Rightarrow> length cs = LEVEL_SIZE \<and> (\<forall>i<LEVEL_SIZE. \<forall>c\<in>set (c_list (cs ! i)). level_index (hash c) = i)
   | _ \<Rightarrow> False)"
| "placed (Suc n) hash b = (case b of
     Bucket q d bs \<Rightarrow> length bs = LEVEL_SIZE \<and> (\<forall>i<LEVEL_SIZE. placed n (\<lambda>c. drop_bit LEVEL_SHIFT (hash c)) (bs ! i) \<and>
       (\<forall>c\<in>set (all_cons (bs ! i)). level_index (hash c) = i))
   | _ \<Rightarrow> False)"

lemma placed_0E:
  assumes "placed 0 hash b"
  obtains q d cs where "b = Last_Bucket q d cs" "length cs = LEVEL_SIZE"
    "\<And>i c. i < LEVEL_SIZE \<Longrightarrow> c \<in> set (c_list (cs ! i)) \<Longrightarrow> level_index (hash c) = i"
  using assms by (cases b) auto

lemma placed_SucE:
  assumes "placed (Suc n) hash b"
  obtains q d bs where "b = Bucket q d bs" "length bs = LEVEL_SIZE"
    "\<And>i. i < LEVEL_SIZE \<Longrightarrow> placed n (\<lambda>c. drop_bit LEVEL_SHIFT (hash c)) (bs ! i)"
    "\<And>i c. i < LEVEL_SIZE \<Longrightarrow> c \<in> set (all_cons (bs ! i)) \<Longrightarrow> level_index (hash c) = i"
  using assms by (cases b) auto

lemma level_index_less [simp]: "level_index h < LEVEL_SIZE"
proof -
  have "h AND 3 \<le> 3" by (rule word_and_le1)
  then show ?thesis by (simp add: level_index_def LEVEL_MASK_def LEVEL_SIZE_def LEVEL_SHIFT_def word_le_nat_alt)
qed

lemma mset_concat_update:
  assumes "i < length xs"
  shows "mset (concat (map f (xs[i := y]))) + mset (f (xs ! i)) = mset (concat (map f xs)) + mset (f y)"
proof -
  have "xs = take i xs @ xs ! i # drop (Suc i) xs" using assms by (rule id_take_nth_drop)
  then have "mset (concat (map f xs)) = mset (concat (map f (take i xs))) + mset (f (xs ! i)) + mset (concat (map f (drop (Suc i) xs)))"
    by (metis add.assoc concat.simps(2) concat_append list.map(2) map_append mset_append)
  then show ?thesis using assms by (simp add: upd_conv_take_nth_drop)
qed

lemma mset_swap: "X + a = Y + (b :: 'c multiset) \<Longrightarrow> b + old = a + new \<Longrightarrow> X + old = Y + new"
proof -
  assume "X + a = Y + b" "b + old = a + new"
  then have "X + old + a = Y + new + a" by (metis add.assoc add.commute)
  then show ?thesis by simp
qed

lemma member_after: "mset xs' + old = mset xs + new \<Longrightarrow> c \<in> set xs' \<Longrightarrow> c \<in> set xs \<or> c \<in># new"
  by (metis set_mset_mset union_iff)

lemma concat_nth: "i < length xs \<Longrightarrow> c \<in> set (f (xs ! i)) \<Longrightarrow> c \<in> set (concat (map f xs))"
  by (auto intro!: bexI[of _ "xs ! i"])

lemma concat_index:
  assumes "\<And>i c. i < length xs \<Longrightarrow> c \<in> set (f (xs ! i)) \<Longrightarrow> g c = i" "c \<in> set (concat (map f xs))"
  shows "c \<in> set (f (xs ! g c))"
proof -
  from assms(2) obtain x where "x \<in> set xs" "c \<in> set (f x)" by auto
  then show ?thesis using assms(1) by (metis in_set_conv_nth)
qed

text \<open>What the way down finds, and what marking it does.\<close>

lemma find_chain_spec:
  assumes "placed n hash b"
  shows "\<exists>ch. find_chain n h b = Some ch \<and> set (c_list ch) \<subseteq> set (all_cons b) \<and>
    (\<forall>c\<in>set (all_cons b). hash c = h \<longrightarrow> c \<in> set (c_list ch))"
  using assms
proof (induction n arbitrary: hash h b)
  case 0
  then obtain q d cs where b: "b = Last_Bucket q d cs" "length cs = LEVEL_SIZE"
    "\<And>i c. i < LEVEL_SIZE \<Longrightarrow> c \<in> set (c_list (cs ! i)) \<Longrightarrow> level_index (hash c) = i" by (rule placed_0E) blast
  show ?case
    using concat_nth[of "level_index h" cs _ c_list] concat_index[of cs c_list "\<lambda>c. level_index (hash c)"] b
    by auto
next
  case (Suc n)
  from Suc(2) obtain q d bs where b: "b = Bucket q d bs" "length bs = LEVEL_SIZE"
    "\<And>i. i < LEVEL_SIZE \<Longrightarrow> placed n (\<lambda>c. drop_bit LEVEL_SHIFT (hash c)) (bs ! i)"
    "\<And>i c. i < LEVEL_SIZE \<Longrightarrow> c \<in> set (all_cons (bs ! i)) \<Longrightarrow> level_index (hash c) = i" by (rule placed_SucE) blast
  obtain ch where ch: "find_chain n (drop_bit LEVEL_SHIFT h) (bs ! level_index h) = Some ch"
    "set (c_list ch) \<subseteq> set (all_cons (bs ! level_index h))"
    "\<And>c. c \<in> set (all_cons (bs ! level_index h)) \<Longrightarrow> drop_bit LEVEL_SHIFT (hash c) = drop_bit LEVEL_SHIFT h \<Longrightarrow> c \<in> set (c_list ch)"
    using Suc(1)[OF b(3)[OF level_index_less]] by blast
  have "c \<in> set (c_list ch)" if "c \<in> set (all_cons b)" "hash c = h" for c
    using concat_index[of bs all_cons "\<lambda>c. level_index (hash c)" c] that b ch(3) by auto
  moreover have "set (c_list ch) \<subseteq> set (all_cons b)"
    using ch(2) concat_nth[of "level_index h" bs _ all_cons] b(1,2) by auto
  ultimately show ?case using ch(1) b(1) by auto
qed

text \<open>A callback that takes some connections out of the chain and puts others in that belong there.\<close>

lemma mark_dirty_spec:
  assumes "placed n hash b" "\<forall>c\<in>#new. hash c = h"
    and "\<And>ch. \<forall>c\<in>set (all_cons b). hash c = h \<longrightarrow> c \<in> set (c_list ch) \<Longrightarrow>
      \<exists>ch'. callback ch = Some ch' \<and> mset (c_list ch') + old = mset (c_list ch) + new"
  shows "\<exists>b'. find_chain_and_mark_dirty_rec callback n h b = Some b' \<and> placed n hash b' \<and>
    mset (all_cons b') + old = mset (all_cons b) + new"
  using assms
proof (induction n arbitrary: hash h b)
  case 0
  from 0(1) obtain q d cs where b: "b = Last_Bucket q d cs" "length cs = LEVEL_SIZE"
    "\<And>i c. i < LEVEL_SIZE \<Longrightarrow> c \<in> set (c_list (cs ! i)) \<Longrightarrow> level_index (hash c) = i" by (rule placed_0E) blast
  let ?i = "level_index h"
  have i: "?i < length cs" using b(2) by simp
  have "\<forall>c\<in>set (all_cons b). hash c = h \<longrightarrow> c \<in> set (c_list (cs ! ?i))"
    using concat_index[of cs c_list "\<lambda>c. level_index (hash c)"] b by auto
  then obtain ch' where ch': "callback (cs ! ?i) = Some ch'" "mset (c_list ch') + old = mset (c_list (cs ! ?i)) + new"
    using 0(3) by blast
  have "level_index (hash c) = ?i" if "c \<in> set (c_list ch')" for c
    using member_after[OF ch'(2) that] b(3)[of ?i c] 0(2) by auto
  then have "placed 0 hash (Last_Bucket q True (cs[?i := ch']))" using b by (auto simp: nth_list_update)
  moreover have "mset (all_cons (Last_Bucket q True (cs[?i := ch']))) + old = mset (all_cons b) + new"
    using mset_swap[OF mset_concat_update[OF i, of c_list ch'] ch'(2)] b(1) by simp
  ultimately show ?case using b(1) ch'(1) by simp
next
  case (Suc n)
  from Suc(2) obtain q d bs where b: "b = Bucket q d bs" "length bs = LEVEL_SIZE"
    "\<And>i. i < LEVEL_SIZE \<Longrightarrow> placed n (\<lambda>c. drop_bit LEVEL_SHIFT (hash c)) (bs ! i)"
    "\<And>i c. i < LEVEL_SIZE \<Longrightarrow> c \<in> set (all_cons (bs ! i)) \<Longrightarrow> level_index (hash c) = i" by (rule placed_SucE) blast
  let ?i = "level_index h"
  have i: "?i < length bs" using b(2) by simp
  have "\<exists>b'. find_chain_and_mark_dirty_rec callback n (drop_bit LEVEL_SHIFT h) (bs ! ?i) = Some b' \<and>
      placed n (\<lambda>c. drop_bit LEVEL_SHIFT (hash c)) b' \<and> mset (all_cons b') + old = mset (all_cons (bs ! ?i)) + new"
  proof (rule Suc(1)[OF b(3)[OF level_index_less]])
    fix ch :: g2_ht_chain
    assume "\<forall>c\<in>set (all_cons (bs ! ?i)). drop_bit LEVEL_SHIFT (hash c) = drop_bit LEVEL_SHIFT h \<longrightarrow> c \<in> set (c_list ch)"
    then have "\<forall>c\<in>set (all_cons b). hash c = h \<longrightarrow> c \<in> set (c_list ch)"
      using concat_index[of bs all_cons "\<lambda>c. level_index (hash c)"] b by auto
    then show "\<exists>ch'. callback ch = Some ch' \<and> mset (c_list ch') + old = mset (c_list ch) + new" by (rule Suc(4))
  qed (use Suc(3) in auto)
  then obtain b' where b': "find_chain_and_mark_dirty_rec callback n (drop_bit LEVEL_SHIFT h) (bs ! ?i) = Some b'"
    "placed n (\<lambda>c. drop_bit LEVEL_SHIFT (hash c)) b'" "mset (all_cons b') + old = mset (all_cons (bs ! ?i)) + new" by blast
  have "level_index (hash c) = ?i" if "c \<in> set (all_cons b')" for c
    using member_after[OF b'(3) that] b(4)[of ?i c] Suc(3) by auto
  then have "placed (Suc n) hash (Bucket q True (bs[?i := b']))" using b b'(2) by (auto simp: nth_list_update)
  moreover have "mset (all_cons (Bucket q True (bs[?i := b']))) + old = mset (all_cons b) + new"
    using mset_swap[OF mset_concat_update[OF i, of all_cons b'] b'(3)] b(1) by simp
  ultimately show ?case using b(1) b'(1) by simp
qed

subsection \<open>Tables leave the connections alone\<close>

lemma sweep_all2:
  assumes "sweep f xs st = Some (ys, st')" "\<And>x y st st'. x \<in> set xs \<Longrightarrow> f x st = Some (y, st') \<Longrightarrow> R x y"
  shows "list_all2 R xs ys"
  using assms by (induction f xs st arbitrary: ys rule: sweep.induct) (auto split: bind_splits)

lemma update_chain_frame: "do_global_update_chain env ta mp cs c m = Some (c', m') \<Longrightarrow> c_list c' = c_list c"
  by (auto simp: do_global_update_chain_def Let_def split: bind_splits if_splits option.splits prod.splits)

lemma all_cons_map: "list_all2 (\<lambda>x y. f y = f x) xs ys \<Longrightarrow> map f ys = map f xs"
  by (induction rule: list_all2_induct) auto

lemma update_frame:
  assumes "do_global_update env ta mp cs n b m = Some (b', m')"
  shows "all_cons b' = all_cons b \<and> (placed n hash b \<longrightarrow> placed n hash b')"
  using assms
proof (induction n arbitrary: b m b' m' hash)
  case 0
  show ?case
  proof (cases "b_dirty b")
    case True
    with 0 obtain q d chs chs' new new' q' where b: "b = Last_Bucket q d chs" "b' = Last_Bucket q' False chs'"
      "sweep (do_global_update_chain env ta mp cs) chs new = Some (chs', new')"
      by (cases b) (auto simp: Option.bind_eq_Some_conv)
    have same: "list_all2 (\<lambda>x y. c_list y = c_list x) chs chs'" by (rule sweep_all2[OF b(3)]) (rule update_chain_frame)
    have "c_list (chs' ! i) = c_list (chs ! i)" if "i < length chs" for i
      using list_all2_nthD[OF same that] .
    moreover have "map c_list chs' = map c_list chs" using same by (rule all_cons_map)
    ultimately show ?thesis using list_all2_lengthD[OF same] b(1,2) by simp
  qed (use 0 in simp)
next
  case (Suc n)
  show ?case
  proof (cases "b_dirty b")
    case True
    with Suc(2) obtain q d bs bs' new new' q' where b: "b = Bucket q d bs" "b' = Bucket q' False bs'"
      "sweep (do_global_update env ta mp cs n) bs new = Some (bs', new')"
      by (cases b) (auto simp: Option.bind_eq_Some_conv)
    let ?h = "\<lambda>c. drop_bit LEVEL_SHIFT (hash c)"
    have same: "list_all2 (\<lambda>x y. all_cons y = all_cons x \<and> (placed n ?h x \<longrightarrow> placed n ?h y)) bs bs'"
      by (rule sweep_all2[OF b(3)]) (rule Suc(1))
    then have "all_cons (bs' ! i) = all_cons (bs ! i) \<and> (placed n ?h (bs ! i) \<longrightarrow> placed n ?h (bs' ! i))" if "i < length bs" for i
      using that list_all2_nthD by blast
    moreover have "map all_cons bs' = map all_cons bs" using same by (intro all_cons_map) (auto elim: list_all2_mono)
    ultimately show ?thesis using list_all2_lengthD[OF same] b(1,2) by auto
  qed (use Suc(2) in simp)
qed

subsection \<open>Everything that happens to a registry\<close>

text \<open>
  Besides the operations of the registry there are those of the handlers on a connection: they may change its table and its flags, and
  a connection that is not registered may be taken for another peer.
\<close>

inductive reg_step :: "conreg \<Rightarrow> conreg \<Rightarrow> bool" where
  add: "g2_conreg_add c r = Some (res, r') \<Longrightarrow> reg_step r r'"
| remove: "g2_conreg_remove c r = Some (res, r') \<Longrightarrow> reg_step r r'"
| dirty: "g2_conreg_mark_dirty c r = Some r' \<Longrightarrow> reg_step r r'"
| promote: "reg_step r (snd (g2_conreg_promote_hub c r))"
| demote: "reg_step r (g2_conreg_demote_hub c r)"
| update: "g2_qht_global_update (env :: unit qht_env) ta mp (r, t) = Some (r', t') \<Longrightarrow> reg_step r r'"
| con: "registry v = registry (cons r c) \<Longrightarrow> hub_list v = hub_list (cons r c) \<Longrightarrow>
    registry v \<longrightarrow> remote_host v = remote_host (cons r c) \<Longrightarrow> reg_step r (upd_con c (\<lambda>_. v) r)"

definition conreg_start :: "conreg \<Rightarrow> bool" where
  "conreg_start r \<longleftrightarrow> (\<exists>env :: unit qht_env. \<exists>ta n m s cs. g2_conreg_init env ta n m s cs = Some r \<and>
     (\<forall>c. \<not> registry (cs c) \<and> \<not> hub_list (cs c)))"

definition reg_ok :: "conreg \<Rightarrow> bool" where
  "reg_ok r \<longleftrightarrow> placed (level_count r - 1) (con_hash r) (ht_root r) \<and> distinct (all_cons (ht_root r)) \<and>
     set (all_cons (ht_root r)) = {c. registry (cons r c)} \<and>
     distinct (neighbour_hubs r) \<and> set (neighbour_hubs r) = {c. hub_list (cons r c)} \<and>
     act_hub_sum r = int (length (neighbour_hubs r)) \<and> (neighbour_hubs r = [] \<or> act_hub_sum r < max_hub_sum r)"

lemma placed_cong: "\<forall>c\<in>set (all_cons b). hash c = hash' c \<Longrightarrow> placed n hash b = placed n hash' b"
proof (induction n arbitrary: b hash hash')
  case 0
  show ?case
  proof (cases b)
    case (Last_Bucket q d cs)
    then have "\<forall>c\<in>set (c_list (cs ! i)). hash c = hash' c" if "i < length cs" for i
      using 0 that concat_nth[of i cs _ c_list] by auto
    then show ?thesis using Last_Bucket by auto
  qed simp
next
  case (Suc n)
  show ?case
  proof (cases b)
    case (Bucket q d bs)
    have "\<forall>c\<in>set (all_cons (bs ! i)). hash c = hash' c" if "i < length bs" for i
      using Suc(2) that concat_nth[of i bs _ all_cons] Bucket by auto
    then show ?thesis using Suc(1)[of "bs ! _" "\<lambda>c. drop_bit LEVEL_SHIFT (hash c)" "\<lambda>c. drop_bit LEVEL_SHIFT (hash' c)"] Bucket by auto
  qed simp
qed

lemma init_placed: "placed n hash (init_alloc_bucket n)" "all_cons (init_alloc_bucket n) = []"
proof -
  show e: "all_cons (init_alloc_bucket n) = []" for n by (induction n) simp_all
  show "placed n hash (init_alloc_bucket n)" by (induction n arbitrary: hash) (simp_all add: e)
qed

lemma set_qht_frame [simp]: "all_cons (set_qht t b) = all_cons b" "placed n hash (set_qht t b) = placed n hash b"
proof -
  show "all_cons (set_qht t b) = all_cons b" by (cases b) simp_all
  show "placed n hash (set_qht t b) = placed n hash b" by (cases b; cases n) simp_all
qed

lemma init_ok:
  assumes "g2_conreg_init env ta n m sd cs = Some r" "\<And>c. \<not> registry (cs c) \<and> \<not> hub_list (cs c)"
  shows "reg_ok r"
proof -
  obtain failed t where "g2_qht_reset env ta None (2 ^ QHT_DEFAULT_BITS) False = (failed, t)" by fastforce
  then have "\<exists>t. r = \<lparr>ht_root = set_qht (Some t) (init_alloc_bucket (conreg_level_count n - 1)), neighbour_hubs = [], ht_seed = sd,
      level_count = conreg_level_count n, act_hub_sum = 0, max_hub_sum = m, cons = cs\<rparr>"
    using assms(1) by (auto simp: g2_conreg_init_def Let_def Option.bind_eq_Some_conv split: if_splits)
  then show ?thesis using assms(2) by (auto simp: reg_ok_def init_placed)
qed

lemma reg_ok_start: "conreg_start r \<Longrightarrow> reg_ok r"
  unfolding conreg_start_def using init_ok by metis

lemma upd_con_sel [simp]:
  "ht_root (upd_con c f r) = ht_root r" "neighbour_hubs (upd_con c f r) = neighbour_hubs r" "ht_seed (upd_con c f r) = ht_seed r"
  "level_count (upd_con c f r) = level_count r" "act_hub_sum (upd_con c f r) = act_hub_sum r"
  "max_hub_sum (upd_con c f r) = max_hub_sum r" "cons (upd_con c f r) = (cons r)(c := f (cons r c))"
  by (simp_all add: upd_con_def)

lemma con_hash_upd [simp]:
  "con_hash (r\<lparr>ht_root := b\<rparr>) = con_hash r" "con_hash (r\<lparr>neighbour_hubs := l, act_hub_sum := k\<rparr>) = con_hash r"
  "(\<And>v. remote_host (f v) = remote_host v) \<Longrightarrow> con_hash (upd_con c f r) = con_hash r"
  by (auto simp: con_hash_def fun_eq_iff)

text \<open>The three ways a chain is marked.\<close>

lemma mark_dirty_ok:
  assumes "reg_ok r"
  shows "\<exists>b. g2_conreg_find_chain_and_mark_dirty c chain_callback_dirty r = Some (r\<lparr>ht_root := b\<rparr>) \<and>
    placed (level_count r - 1) (con_hash r) b \<and> mset (all_cons b) = mset (all_cons (ht_root r))"
  using mark_dirty_spec[of "level_count r - 1" "con_hash r" "ht_root r" "{#}" "con_hash r c" chain_callback_dirty "{#}"] assms
  by (auto simp: reg_ok_def g2_conreg_find_chain_and_mark_dirty_def chain_callback_dirty_def)

lemma mark_add_ok:
  assumes "reg_ok r"
  shows "\<exists>b. g2_conreg_find_chain_and_mark_dirty c (chain_callback_add c) r = Some (r\<lparr>ht_root := b\<rparr>) \<and>
    placed (level_count r - 1) (con_hash r) b \<and> mset (all_cons b) = add_mset c (mset (all_cons (ht_root r)))"
  using mark_dirty_spec[of "level_count r - 1" "con_hash r" "ht_root r" "{#c#}" "con_hash r c" "chain_callback_add c" "{#}"] assms
  by (auto simp: reg_ok_def g2_conreg_find_chain_and_mark_dirty_def chain_callback_add_def)

lemma mark_remove_ok:
  assumes "reg_ok r" "registry (cons r c)"
  shows "\<exists>b. g2_conreg_find_chain_and_mark_dirty c (chain_callback_remove c) r = Some (r\<lparr>ht_root := b\<rparr>) \<and>
    placed (level_count r - 1) (con_hash r) b \<and> add_mset c (mset (all_cons b)) = mset (all_cons (ht_root r))"
proof -
  have "c \<in> set (all_cons (ht_root r))" using assms by (simp add: reg_ok_def)
  then have "\<exists>b'. find_chain_and_mark_dirty_rec (chain_callback_remove c) (level_count r - 1) (con_hash r c) (ht_root r) = Some b' \<and>
      placed (level_count r - 1) (con_hash r) b' \<and> mset (all_cons b') + {#c#} = mset (all_cons (ht_root r)) + {#}"
    using assms(1) by (intro mark_dirty_spec) (auto simp: reg_ok_def chain_callback_remove_def)
  then show ?thesis by (auto simp: g2_conreg_find_chain_and_mark_dirty_def)
qed

lemma mset_members: "mset xs = add_mset c (mset ys) \<Longrightarrow> set xs = insert c (set ys) \<and> (distinct xs \<longleftrightarrow> c \<notin> set ys \<and> distinct ys)"
  by (metis distinct.simps(2) list.simps(15) mset.simps(2) mset_eq_imp_distinct_iff set_mset_mset)

lemma reg_add_ok:
  assumes "reg_ok r"
  shows "\<exists>r'. g2_conreg_add c r = Some (\<not> registry (cons r c), r') \<and> reg_ok r' \<and>
    cons r' = (cons r)(c := (cons r c)\<lparr>registry := True\<rparr>)"
proof (cases "registry (cons r c)")
  case True
  then have "(cons r)(c := (cons r c)\<lparr>registry := True\<rparr>) = cons r" by (auto simp: fun_eq_iff)
  then show ?thesis using True assms by (simp add: g2_conreg_add_def)
next
  case False
  obtain b where b: "g2_conreg_find_chain_and_mark_dirty c (chain_callback_add c) r = Some (r\<lparr>ht_root := b\<rparr>)"
    "placed (level_count r - 1) (con_hash r) b" "mset (all_cons b) = add_mset c (mset (all_cons (ht_root r)))"
    using mark_add_ok[OF assms] by blast
  have "reg_ok (upd_con c (registry_update (\<lambda>_. True)) (r\<lparr>ht_root := b\<rparr>))"
    using assms b(2) mset_members[OF b(3)] False unfolding reg_ok_def by auto
  then show ?thesis using False b(1) by (simp add: g2_conreg_add_def)
qed

lemma int_length_remove1: "c \<in> set xs \<Longrightarrow> int (length (remove1 c xs)) = int (length xs) - 1"
  by (induction xs) (auto simp: length_remove1)

lemma demote_ok: "reg_ok r \<Longrightarrow> reg_ok (g2_conreg_demote_hub c r)"
  by (auto simp: reg_ok_def g2_conreg_demote_hub_def int_length_remove1)

lemma promote_ok: "reg_ok r \<Longrightarrow> reg_ok (snd (g2_conreg_promote_hub c r))"
  by (auto simp: reg_ok_def g2_conreg_promote_hub_def)

lemma reg_remove_ok:
  assumes "reg_ok r"
  shows "\<exists>r'. g2_conreg_remove c r = Some (registry (cons r c), r') \<and> reg_ok r' \<and>
    (registry (cons r c) \<longrightarrow> cons r' = (cons r)(c := (cons r c)\<lparr>registry := False, hub_list := False\<rparr>))"
proof (cases "registry (cons r c)")
  case True
  let ?r = "g2_conreg_demote_hub c r"
  have r: "reg_ok ?r" "registry (cons ?r c)" using demote_ok[OF assms] True by (auto simp: g2_conreg_demote_hub_def)
  obtain b where b: "g2_conreg_find_chain_and_mark_dirty c (chain_callback_remove c) ?r = Some (?r\<lparr>ht_root := b\<rparr>)"
    "placed (level_count ?r - 1) (con_hash ?r) b" "add_mset c (mset (all_cons b)) = mset (all_cons (ht_root ?r))"
    using mark_remove_ok[OF r] by blast
  have "reg_ok (upd_con c (registry_update (\<lambda>_. False)) (?r\<lparr>ht_root := b\<rparr>))"
    using r(1) b(2) mset_members[OF b(3)[symmetric]] unfolding reg_ok_def by auto
  moreover have "g2_conreg_remove c r = Some (True, upd_con c (registry_update (\<lambda>_. False)) (?r\<lparr>ht_root := b\<rparr>))"
    using b(1) True by (simp add: g2_conreg_remove_def g2_conreg_demote_hub_def Let_def split: if_splits)
  moreover have "cons ?r c = (cons r c)\<lparr>hub_list := False\<rparr>" by (simp add: g2_conreg_demote_hub_def)
  ultimately show ?thesis using True by (auto simp: g2_conreg_demote_hub_def fun_eq_iff)
qed (use assms in \<open>simp add: g2_conreg_remove_def\<close>)

lemma reg_step_ok: "reg_step r r' \<Longrightarrow> reg_ok r \<Longrightarrow> reg_ok r'"
proof (induction rule: reg_step.induct)
  case (add c r res r')
  then show ?case using reg_add_ok[of r c] by auto
next
  case (remove c r res r')
  then show ?case using reg_remove_ok[of r c] by auto
next
  case (dirty c r r')
  then show ?case using mark_dirty_ok[OF dirty(2), of c] unfolding reg_ok_def g2_conreg_mark_dirty_def
    by (auto split: if_splits dest: mset_eq_setD mset_eq_imp_distinct_iff)
next
  case (update env ta mp r t r' t')
  show ?case
  proof (cases "r' = r")
    case False
    then obtain root m where u: "do_global_update env ta mp (cons r) (level_count r - 1) (ht_root r) None = Some (root, m)"
      "r' = r\<lparr>ht_root := root\<rparr>"
      using update(1) by (auto simp: g2_qht_global_update_def Option.bind_eq_Some_conv split: if_splits)
    from update_frame[OF u(1), of "con_hash r"] show ?thesis using update(2) u(2) unfolding reg_ok_def by auto
  qed (use update(2) in simp)
next
  case (con v r c)
  have "placed (level_count r - 1) (con_hash (upd_con c (\<lambda>_. v) r)) (ht_root r) = placed (level_count r - 1) (con_hash r) (ht_root r)"
    by (rule placed_cong) (use con in \<open>auto simp: reg_ok_def con_hash_def\<close>)
  then show ?case using con unfolding reg_ok_def by auto
qed (simp_all add: promote_ok demote_ok)

lemma reg_reachable_ok:
  assumes "reg_step\<^sup>*\<^sup>* r0 r" "conreg_start r0"
  shows "reg_ok r"
  using assms by (induction rule: rtranclp_induct) (auto intro: reg_ok_start reg_step_ok)

subsection \<open>Looking up\<close>

lemma eq_ip_hash: "combo_addr_eq_ip a b \<Longrightarrow> combo_addr_hash_ip a s = combo_addr_hash_ip b s"
  by (cases a; cases b) (auto simp: combo_addr_hash_ip_def)

lemma eq_addr_ip: "combo_addr_eq a b \<Longrightarrow> combo_addr_eq_ip a b"
  by (cases a; cases b) auto

text \<open>The chain of an address has all registered connections of its IP, and only registered ones.\<close>

lemma chain_of_addr:
  assumes "reg_ok r"
  obtains ch where "g2_conreg_find_chain r addr = Some ch" "\<And>c. c \<in> set (c_list ch) \<Longrightarrow> registry (cons r c)"
    "\<And>c. registry (cons r c) \<Longrightarrow> combo_addr_eq_ip (remote_host (cons r c)) addr \<Longrightarrow> c \<in> set (c_list ch)"
proof -
  let ?h = "combo_addr_hash_ip addr (ht_seed r)"
  obtain ch where "find_chain (level_count r - 1) ?h (ht_root r) = Some ch" "set (c_list ch) \<subseteq> {c. registry (cons r c)}"
    "\<And>c. registry (cons r c) \<Longrightarrow> con_hash r c = ?h \<Longrightarrow> c \<in> set (c_list ch)"
    using find_chain_spec[of "level_count r - 1" "con_hash r" "ht_root r" ?h] assms by (auto simp: reg_ok_def)
  then show thesis using that[of ch] eq_ip_hash by (auto simp: g2_conreg_find_chain_def con_hash_def)
qed

lemma call_first_cases:
  obtains "call_first P cb cs st = (0, st)" "\<forall>c\<in>set cs. \<not> P c"
  | c where "call_first P cb cs st = cb c st" "c \<in> set cs" "P c"
  by (cases "find P cs") (auto simp: call_first_def find_None_iff find_Some_iff intro: that)

lemma for_each_append: "for_each f (xs @ ys) st = Option.bind (for_each f xs st) (for_each f ys)"
  by (induction f xs st rule: for_each.induct) (auto split: bind_splits)

lemma for_each_concat: "for_each (\<lambda>x. for_each f (g x)) xs st = for_each f (concat (map g xs)) st"
  by (induction xs arbitrary: st) (auto simp: for_each_append cong: bind_option_cong)

lemma for_each_cong: "(\<And>x st. x \<in> set xs \<Longrightarrow> f x st = g x st) \<Longrightarrow> for_each f xs st = for_each g xs st"
  by (induction xs arbitrary: st) (auto cong: bind_option_cong)

lemma callback_level_spec:
  "placed n hash b \<Longrightarrow> do_callback_level cb n b st = for_each (or_callback cb) (all_cons b) st"
proof (induction n arbitrary: hash b st)
  case 0
  then show ?case by (cases b) (auto simp: for_each_concat)
next
  case (Suc n)
  from Suc(2) obtain q d bs where b: "b = Bucket q d bs" "length bs = LEVEL_SIZE"
    "\<And>i. i < LEVEL_SIZE \<Longrightarrow> placed n (\<lambda>c. drop_bit LEVEL_SHIFT (hash c)) (bs ! i)" by (rule placed_SucE) blast
  have "for_each (do_callback_level cb n) bs st = for_each (\<lambda>b. for_each (or_callback cb) (all_cons b)) bs st"
    using b(2) Suc(1)[OF b(3)] by (intro for_each_cong) (auto simp: in_set_conv_nth)
  then show ?case using b(1) by (simp add: for_each_concat)
qed

text \<open>The callback for the connection with a given IP.\<close>

lemma for_ip_ok:
  assumes "reg_ok r"
  shows "if \<exists>c. registry (cons r c) \<and> combo_addr_eq_ip (remote_host (cons r c)) addr
     then \<exists>c. registry (cons r c) \<and> combo_addr_eq_ip (remote_host (cons r c)) addr \<and> g2_conreg_for_ip addr callback r st = Some (callback c st)
     else g2_conreg_for_ip addr callback r st = Some (0, st)"
proof -
  obtain ch where ch: "g2_conreg_find_chain r addr = Some ch" "\<And>c. c \<in> set (c_list ch) \<Longrightarrow> registry (cons r c)"
    "\<And>c. registry (cons r c) \<Longrightarrow> combo_addr_eq_ip (remote_host (cons r c)) addr \<Longrightarrow> c \<in> set (c_list ch)"
    by (rule chain_of_addr[OF assms, of addr]) blast
  let ?P = "\<lambda>c. combo_addr_eq_ip (remote_host (cons r c)) addr"
  have "g2_conreg_for_ip addr callback r st = Some (call_first ?P callback (c_list ch) st)"
    using ch(1) by (simp add: g2_conreg_for_ip_def)
  then show ?thesis using ch(2,3) by (cases rule: call_first_cases[of ?P callback "c_list ch" st]) auto
qed

section \<open>The properties\<close>

text \<open>
  C34: In every state the registry can get into, looking up an IP tells whether a connection with that IP is registered, the
  callback is called for such a connection if there is one, and walking over all connections calls it once for every
  registered one.  Adding and removing never fail and do what they say.
\<close>

theorem conreg_correct:
  assumes "conreg_start r0" "reg_step\<^sup>*\<^sup>* r0 r"
  shows "g2_conreg_have_ip r addr = Some (\<exists>c. registry (cons r c) \<and> combo_addr_eq_ip (remote_host (cons r c)) addr) \<and>
    (if \<exists>c. registry (cons r c) \<and> combo_addr_eq_ip (remote_host (cons r c)) addr
     then \<exists>c. registry (cons r c) \<and> combo_addr_eq_ip (remote_host (cons r c)) addr \<and> g2_conreg_for_ip addr callback r st = Some (callback c st)
     else g2_conreg_for_ip addr callback r st = Some (0, st)) \<and>
    (\<exists>cs. distinct cs \<and> set cs = {c. registry (cons r c)} \<and> g2_conreg_all_con callback r st = for_each (or_callback callback) cs (0, st)) \<and>
    (\<exists>r'. g2_conreg_add c r = Some (\<not> registry (cons r c), r') \<and> cons r' = (cons r)(c := (cons r c)\<lparr>registry := True\<rparr>)) \<and>
    (\<exists>r'. g2_conreg_remove c r = Some (registry (cons r c), r') \<and>
       (registry (cons r c) \<longrightarrow> cons r' = (cons r)(c := (cons r c)\<lparr>registry := False, hub_list := False\<rparr>)))"
    (is "?have \<and> ?for \<and> ?all \<and> ?add \<and> ?remove")
proof (intro conjI)
  have ok: "reg_ok r" using reg_reachable_ok assms by blast
  obtain ch where ch: "g2_conreg_find_chain r addr = Some ch" "\<And>c. c \<in> set (c_list ch) \<Longrightarrow> registry (cons r c)"
    "\<And>c. registry (cons r c) \<Longrightarrow> combo_addr_eq_ip (remote_host (cons r c)) addr \<Longrightarrow> c \<in> set (c_list ch)"
    by (rule chain_of_addr[OF ok, of addr]) blast
  show ?have using ch by (auto simp: g2_conreg_have_ip_def)
  show ?for by (rule for_ip_ok[OF ok])
  show ?all using ok callback_level_spec[of "level_count r - 1" "con_hash r" "ht_root r" callback "(0, st)"]
    unfolding reg_ok_def by (auto simp: g2_conreg_all_con_def)
  show ?add using reg_add_ok[OF ok, of c] by blast
  show ?remove using reg_remove_ok[OF ok, of c] by blast
qed

text \<open>A registry with room for 64 connections and ten hubs, and connections of different addresses.\<close>

definition idle_con :: "nat \<Rightarrow> g2_connection" where
  "idle_con c = \<lparr>remote_host = In (word_of_nat c) 5, qht = None, upeer = False, dismissed = False, registry = False, hub_list = False\<rparr>"

lemma example_start: "\<exists>r0. conreg_start r0 \<and> cons r0 = idle_con \<and> max_hub_sum r0 = 10"
proof -
  have "\<exists>t. g2_qht_reset (plain_env True) True None (2 ^ QHT_DEFAULT_BITS) False = (False, Some t) \<and>
      table_data t = Some (replicate (data_length t) 0)"
    by (simp add: g2_qht_reset_def g2_qht_clean_def g2_qht_alloc_def plain_env_def DIV_ROUNDUP_def MAX_BYTES_QHT_def QHT_DEFAULT_BITS_def Let_def)
  then obtain t where t: "g2_qht_reset (plain_env True) True None (2 ^ QHT_DEFAULT_BITS) False = (False, Some t)"
      "table_data t = Some (replicate (data_length t) 0)" by blast
  from t(2) obtain t' where "fill_master t = Some t'" by (simp add: fill_master_def)
  then have "\<exists>r0. g2_conreg_init (plain_env True) True 64 10 77 idle_con = Some r0 \<and> cons r0 = idle_con \<and> max_hub_sum r0 = 10"
    using t(1) by (simp add: g2_conreg_init_def Let_def)
  moreover have "\<not> registry (idle_con c) \<and> \<not> hub_list (idle_con c)" for c by (simp add: idle_con_def)
  ultimately show ?thesis unfolding conreg_start_def by blast
qed

theorem conreg_correct_witness:
  "\<exists>r0 r. conreg_start r0 \<and> reg_step\<^sup>*\<^sup>* r0 r \<and> g2_conreg_have_ip r (In 3 9) = Some True \<and> g2_conreg_have_ip r (In 4 9) = Some False \<and>
     g2_conreg_for_ip (In 3 9) (\<lambda>c st. (1, c)) r 0 = Some (1, 3)"
proof -
  obtain r0 where r0: "conreg_start r0" "cons r0 = idle_con" using example_start by blast
  obtain r where r: "g2_conreg_add 3 r0 = Some (True, r)" "cons r = idle_con(3 := (idle_con 3)\<lparr>registry := True\<rparr>)"
    using conreg_correct[OF r0(1) rtranclp.rtrancl_refl, of "In 3 9" "\<lambda>c st. (1, c)" 0 3] r0(2) by (auto simp: idle_con_def)
  have reach: "reg_step\<^sup>*\<^sup>* r0 r" using reg_step.add[OF r(1)] by blast
  have only: "registry (cons r c) \<and> combo_addr_eq_ip (remote_host (cons r c)) (In n 9) \<longleftrightarrow> c = 3 \<and> n = 3" for c n
    using r(2) by (auto simp: idle_con_def)
  note at3 = conreg_correct[OF r0(1) reach, of "In 3 9" "\<lambda>c st. (1, c)" 0]
    and at4 = conreg_correct[OF r0(1) reach, of "In 4 9" "\<lambda>c st. (1, c)" 0]
  have "g2_conreg_have_ip r (In 3 9) = Some True" "g2_conreg_have_ip r (In 4 9) = Some False"
    using conjunct1[OF at3] conjunct1[OF at4] by (simp_all add: only)
  moreover have "\<exists>c. registry (cons r c) \<and> combo_addr_eq_ip (remote_host (cons r c)) (In 3 9)" using only[of 3 3] by blast
  then obtain c where "registry (cons r c)" "combo_addr_eq_ip (remote_host (cons r c)) (In 3 9)"
    "g2_conreg_for_ip (In 3 9) (\<lambda>c st. (1, c)) r 0 = Some (1, c)"
    using conjunct1[OF conjunct2[OF at3]] by metis
  moreover from this(1,2) have "c = 3" using only[of c 3] by blast
  ultimately show ?thesis using r0(1) reach by blast
qed

text \<open>
  C35: The number of neighbouring hubs is always the number of connections in the list of hubs, and it never reaches the
  configured maximum.
\<close>

theorem conreg_hubs_bounded:
  assumes "conreg_start r0" "reg_step\<^sup>*\<^sup>* r0 r"
  shows "act_hub_sum r = int (card {c. hub_list (cons r c)}) \<and> (act_hub_sum r = 0 \<or> act_hub_sum r < max_hub_sum r)"
proof -
  have "reg_ok r" using reg_reachable_ok assms by blast
  then have "act_hub_sum r = int (length (neighbour_hubs r))" "distinct (neighbour_hubs r)"
    "set (neighbour_hubs r) = {c. hub_list (cons r c)}" "neighbour_hubs r = [] \<or> act_hub_sum r < max_hub_sum r"
    by (auto simp: reg_ok_def)
  then show ?thesis using distinct_card[of "neighbour_hubs r"] by auto
qed

theorem conreg_hubs_bounded_witness:
  "\<exists>r0. conreg_start r0 \<and> act_hub_sum (snd (g2_conreg_promote_hub 3 r0)) = 1 \<and> 1 < max_hub_sum r0"
proof -
  obtain r0 where r0: "conreg_start r0" "cons r0 = idle_con" "max_hub_sum r0 = 10" using example_start by blast
  have z: "act_hub_sum r0 = 0" using conreg_hubs_bounded[OF r0(1) rtranclp.rtrancl_refl] r0(2) by (simp add: idle_con_def)
  have "reg_step\<^sup>*\<^sup>* r0 (snd (g2_conreg_promote_hub 3 r0))" using reg_step.promote by blast
  from conreg_hubs_bounded[OF r0(1) this] show ?thesis
    using r0 z by (auto simp: g2_conreg_promote_hub_def idle_con_def)
qed

end
