(* ===== verification/Con_Tables.thy ===== *)
theory Con_Tables
  imports Con_Registry_Correct
begin

text \<open>
  The tables in the connection registry: what \<open>g2_qht_global_update\<close> computes, what \<open>g2_qht_match_leafs\<close> finds, and how the
  two work together.  A table stands for the set of the hashes it marks.
\<close>

subsection \<open>Marks\<close>

definition marks :: "qhtable \<Rightarrow> nat set" where
  "marks t = {i. \<exists>bs. holds t bs \<and> bit_cleared bs i}"

definition plain :: "qhtable \<Rightarrow> bool" where
  "plain t \<longleftrightarrow> compressed t = COMP_NONE \<and> entries t = 2 ^ QHT_DEFAULT_BITS \<and> data_length t = QHT_DEFAULT_BYTES \<and>
     (\<exists>d. table_data t = Some d \<and> length d = QHT_DEFAULT_BYTES)"

text \<open>There is memory, and it has the size that was asked for.\<close>

definition mem_ok :: "'z qht_env \<Rightarrow> bool" where
  "mem_ok env \<longleftrightarrow> env_ok env \<and> (\<forall>n. \<exists>m. data_alloc env n = Some m \<and> length m = n)"

lemma holds_unique: "holds t a \<Longrightarrow> holds t b \<Longrightarrow> a = b"
proof -
  assume h: "holds t a" "holds t b"
  then have len: "length a = length b" by (simp add: holds_def)
  show "a = b"
  proof (cases "\<not> reset_needed t \<and> compressed t = COMP_RLE")
    case True
    then obtain d where d: "rle_of d a" "rle_of d b" using h by (auto simp: holds_def split: option.splits)
    have "bitfield_decode a d = Some (int (length a), a)" "bitfield_decode a d = Some (int (length b), b)"
      using rle_of_decode[OF d(1)] rle_of_decode[OF d(2)] len by blast+
    then show ?thesis by (metis option.inject prod.inject)
  qed (use h len in \<open>auto simp: holds_def split: option.splits if_splits\<close>)
qed

lemma marks_holds: "holds t bs \<Longrightarrow> marks t = Collect (bit_cleared bs)"
  unfolding marks_def using holds_unique by blast

lemma qht_size_default: "entries t = 2 ^ QHT_DEFAULT_BITS \<Longrightarrow> qht_size t = QHT_DEFAULT_BYTES"
  by (simp add: qht_size_def DIV_ROUNDUP_def QHT_DEFAULT_BITS_def QHT_DEFAULT_BYTES_def)

lemma plain_holds:
  assumes "plain t"
  obtains bs where "holds t bs" "length bs = QHT_DEFAULT_BYTES"
    "reset_needed t \<Longrightarrow> bs = replicate QHT_DEFAULT_BYTES 0xFF" "\<not> reset_needed t \<Longrightarrow> table_data t = Some bs"
proof (cases "reset_needed t")
  case True
  then show thesis using assms that[of "replicate QHT_DEFAULT_BYTES 0xFF"] by (simp add: plain_def holds_def qht_size_default)
next
  case False
  obtain d where "table_data t = Some d" "length d = QHT_DEFAULT_BYTES" using assms by (auto simp: plain_def)
  then show thesis using assms False that[of d] by (simp add: plain_def holds_def qht_size_default)
qed

lemma marks_reset: "plain t \<Longrightarrow> reset_needed t \<Longrightarrow> marks t = {}"
  by (elim plain_holds) (simp add: marks_holds bit_cleared_ones)

lemma marks_plain: "plain t \<Longrightarrow> \<not> reset_needed t \<Longrightarrow> table_data t = Some d \<Longrightarrow> marks t = Collect (bit_cleared d)"
  by (elim plain_holds) (simp add: marks_holds)

lemma bit_cleared_and: "length a = length b \<Longrightarrow> bit_cleared (map2 (AND) a b) i \<longleftrightarrow> bit_cleared a i \<or> bit_cleared b i"
  by (auto simp: bit_cleared_def bit_and_iff)

lemma reset_plain:
  assumes "mem_ok env"
  obtains t where "g2_qht_reset env True None (2 ^ QHT_DEFAULT_BITS) False = (False, Some t)" "plain t" "reset_needed t" "marks t = {}"
proof -
  obtain m where m: "data_alloc env QHT_DEFAULT_BYTES = Some m" "length m = QHT_DEFAULT_BYTES" using assms by (auto simp: mem_ok_def)
  have "\<exists>t. g2_qht_reset env True None (2 ^ QHT_DEFAULT_BITS) False = (False, Some t) \<and> plain t \<and> reset_needed t"
    using m by (simp add: g2_qht_reset_def g2_qht_clean_def g2_qht_alloc_def DIV_ROUNDUP_def MAX_BYTES_QHT_def QHT_DEFAULT_BITS_def
        QHT_DEFAULT_BYTES_def plain_def Let_def)
  then show thesis using that marks_reset by blast
qed

text \<open>Putting a table into the one above, and one of a leaf into the one of its chain.\<close>

lemma add_to_master_ok:
  assumes "plain m" "plain s" "\<not> reset_needed s"
  shows "\<exists>m'. add_to_master m s = Some m' \<and> plain m' \<and> \<not> reset_needed m' \<and> marks m' = marks m \<union> marks s"
proof -
  obtain md sd where d: "table_data m = Some md" "table_data s = Some sd" "length md = QHT_DEFAULT_BYTES" "length sd = QHT_DEFAULT_BYTES"
    "data_length m = QHT_DEFAULT_BYTES" using assms by (auto simp: plain_def)
  have s: "marks s = Collect (bit_cleared sd)" using marks_plain[OF assms(2,3) d(2)] .
  have blk: "block_at f md 0 sd = Some (map2 f md sd)" for f using d by (simp add: block_at_def)
  show ?thesis
  proof (cases "reset_needed m")
    case True
    let ?m = "m\<lparr>table_data := Some sd, reset_needed := False\<rparr>"
    have "add_to_master m s = Some ?m" using True d map2_second[of md sd] by (simp add: add_to_master_def memcpy_at_def blk)
    moreover have p: "plain ?m" using assms(1) d by (simp add: plain_def)
    moreover have "marks ?m = marks m \<union> marks s" using marks_plain[OF p, of sd] marks_reset[OF assms(1) True] s by simp
    ultimately show ?thesis by auto
  next
    case False
    let ?m = "m\<lparr>table_data := Some (map2 (AND) md sd)\<rparr>"
    have "add_to_master m s = Some ?m" using False d by (simp add: add_to_master_def memand_at_def blk)
    moreover have p: "plain ?m" using assms(1) d by (simp add: plain_def)
    moreover have "marks ?m = marks m \<union> marks s"
      using marks_plain[OF p, of "map2 (AND) md sd"] marks_plain[OF assms(1) False d(1)] s d(3,4) False
      by (auto simp: bit_cleared_and)
    ultimately show ?thesis using False by auto
  qed
qed

lemma aggregate_fields:
  "g2_qht_aggregate env t f = Some t' \<Longrightarrow> compressed t' = compressed t \<and> entries t' = entries t \<and> data_length t' = data_length t"
  by (auto simp: g2_qht_aggregate_def Let_def split: option.splits if_splits)

lemma aggregate_ok:
  assumes "mem_ok env" "plain t" "holds f fs" "\<not> reset_needed f" "entries f = 2 ^ QHT_DEFAULT_BITS"
  shows "\<exists>t'. g2_qht_aggregate env t f = Some t' \<and> plain t' \<and> \<not> reset_needed t' \<and> marks t' = marks t \<union> marks f"
proof -
  obtain bs where bs: "holds t bs" "length bs = QHT_DEFAULT_BYTES" by (rule plain_holds[OF assms(2)]) blast
  obtain d where d: "table_data t = Some d" "length d = QHT_DEFAULT_BYTES" "compressed t = COMP_NONE"
    "entries t = 2 ^ QHT_DEFAULT_BITS" "data_length t = QHT_DEFAULT_BYTES" using assms(2) by (auto simp: plain_def)
  have size: "qht_size t = QHT_DEFAULT_BYTES" "qht_size f = QHT_DEFAULT_BYTES" using d(4) assms(5) by (simp_all add: qht_size_default)
  obtain t' where t': "g2_qht_aggregate env t f = Some t'" "holds t' (map2 (AND) bs fs)" "\<not> reset_needed t'"
    using aggregate_holds[of env t bs d f fs] assms(1,3,4) bs d size by (auto simp: mem_ok_def)
  have "length fs = QHT_DEFAULT_BYTES" using assms(3) size(2) by (simp add: holds_def)
  then have "marks t' = marks t \<union> marks f"
    using bs(2) by (auto simp: marks_holds[OF t'(2)] marks_holds[OF bs(1)] marks_holds[OF assms(3)] bit_cleared_and)
  moreover have "plain t'"
    using aggregate_fields[OF t'(1)] t'(2,3) d(3-5) by (auto simp: plain_def holds_def split: option.splits)
  ultimately show ?thesis using t'(1,3) by blast
qed

subsection \<open>What connections mark\<close>

text \<open>The tables of leafs that are not too full; only they count.\<close>

definition con_marks :: "nat \<Rightarrow> g2_connection \<Rightarrow> nat set" where
  "con_marks mp con = (case qht con of
     None \<Rightarrow> {}
   | Some t \<Rightarrow> if \<not> reset_needed t \<and> \<not> upeer con \<and> used t < mp then marks t else {})"

definition list_marks :: "nat \<Rightarrow> (nat \<Rightarrow> g2_connection) \<Rightarrow> nat list \<Rightarrow> nat set" where
  "list_marks mp cs l = (\<Union>c\<in>set l. con_marks mp (cs c))"

text \<open>All tables have the default size.\<close>

definition con_ok :: "g2_connection \<Rightarrow> bool" where
  "con_ok con \<longleftrightarrow> (\<forall>t. qht con = Some t \<longrightarrow> \<not> reset_needed t \<longrightarrow> (\<exists>bs. holds t bs) \<and> entries t = 2 ^ QHT_DEFAULT_BITS)"

lemma list_marks_simps [simp]:
  "list_marks mp cs [] = {}" "list_marks mp cs (a @ b) = list_marks mp cs a \<union> list_marks mp cs b"
  "list_marks mp cs (c # l) = con_marks mp (cs c) \<union> list_marks mp cs l"
  by (auto simp: list_marks_def)

lemma aggregate_con_ok:
  assumes "mem_ok env" "con_ok (cs c)" "plain t"
  shows "\<exists>t'. aggregate_con env mp cs c t = Some t' \<and> plain t' \<and> marks t' = marks t \<union> con_marks mp (cs c)"
proof (cases "qht (cs c)")
  case (Some f)
  show ?thesis
  proof (cases "\<not> reset_needed f \<and> \<not> upeer (cs c) \<and> used f < mp")
    case True
    then obtain fs where fs: "holds f fs" "entries f = 2 ^ QHT_DEFAULT_BITS" using assms(2) Some by (auto simp: con_ok_def)
    then show ?thesis using aggregate_ok[OF assms(1,3) fs(1) _ fs(2)] True Some by (auto simp: aggregate_con_def con_marks_def)
  qed (use Some assms(3) in \<open>auto simp: aggregate_con_def con_marks_def\<close>)
qed (use assms(3) in \<open>auto simp: aggregate_con_def con_marks_def\<close>)

lemma aggregate_cons_ok:
  assumes "mem_ok env" "\<And>c. con_ok (cs c)"
  shows "plain t \<Longrightarrow> \<exists>t'. for_each (aggregate_con env mp cs) l t = Some t' \<and> plain t' \<and> marks t' = marks t \<union> list_marks mp cs l"
proof (induction l arbitrary: t)
  case (Cons c l)
  obtain t1 where t1: "aggregate_con env mp cs c t = Some t1" "plain t1" "marks t1 = marks t \<union> con_marks mp (cs c)"
    using aggregate_con_ok[where cs = cs and c = c and mp = mp, OF assms(1) assms(2) Cons(2)] by blast
  from Cons(1)[OF t1(2)] t1 show ?case by (auto simp: Un_assoc)
qed simp

subsection \<open>Updating the tables\<close>

text \<open>A chain whose table is right, and one whose table is right or marked as dirty.\<close>

definition current :: "nat \<Rightarrow> (nat \<Rightarrow> g2_connection) \<Rightarrow> g2_ht_chain \<Rightarrow> bool" where
  "current mp cs ch \<longleftrightarrow> (\<forall>t. c_qht ch = Some t \<longrightarrow> plain t) \<and>
     (c_list ch \<noteq> [] \<longrightarrow> (\<exists>t. c_qht ch = Some t \<and> marks t = list_marks mp cs (c_list ch)))"

definition fresh :: "nat \<Rightarrow> (nat \<Rightarrow> g2_connection) \<Rightarrow> g2_ht_chain \<Rightarrow> bool" where
  "fresh mp cs ch \<longleftrightarrow> (\<forall>t. c_qht ch = Some t \<longrightarrow> plain t) \<and> (c_dirty ch \<or> current mp cs ch)"

lemma chain_update_ok:
  assumes "mem_ok env" "\<And>c. con_ok (cs c)" "fresh mp cs ch" "plain m"
  shows "\<exists>ch' m'. do_global_update_chain env True mp cs ch m = Some (ch', m') \<and> c_list ch' = c_list ch \<and> current mp cs ch' \<and>
    plain m' \<and> marks m' = marks m \<union> list_marks mp cs (c_list ch)"
proof -
  have add: "\<exists>m'. (if \<not> reset_needed s then add_to_master m s else Some m) = Some m' \<and> plain m' \<and> marks m' = marks m \<union> marks s"
    if "plain s" for s using add_to_master_ok[OF assms(4) that] marks_reset[OF that] assms(4) by (cases "reset_needed s") auto
  consider "c_list ch = []" | "c_list ch \<noteq> []" "c_dirty ch" | s where "c_list ch \<noteq> []" "\<not> c_dirty ch" "c_qht ch = Some s" "plain s"
      "marks s = list_marks mp cs (c_list ch)"
    using assms(3) by (auto simp: fresh_def current_def)
  then show ?thesis
  proof cases
    case 1
    then show ?thesis using assms(4) by (simp add: do_global_update_chain_def current_def)
  next
    case 2
    obtain t where t: "g2_qht_reset env True None (2 ^ QHT_DEFAULT_BITS) False = (False, Some t)" "plain t" "marks t = {}"
      by (rule reset_plain[OF assms(1)]) blast
    obtain s where s: "for_each (aggregate_con env mp cs) (c_list ch) t = Some s" "plain s" "marks s = list_marks mp cs (c_list ch)"
      using aggregate_cons_ok[where cs = cs and mp = mp and l = "c_list ch", OF assms(1,2) t(2)] t(3) by auto
    show ?thesis using 2 t(1) s add[OF s(2)] by (auto simp: do_global_update_chain_def Let_def current_def)
  next
    case 3
    then show ?thesis using add[OF 3(4)] by (auto simp: do_global_update_chain_def current_def)
  qed
qed

lemma finish_ok:
  assumes "plain s" "\<And>m. nm = Some m \<Longrightarrow> plain m"
  shows "\<exists>nm' s'. update_finish nm s = Some (nm', s') \<and> plain s' \<and> marks s' = marks s \<and>
    (case nm of None \<Rightarrow> nm' = None \<and> \<not> reset_needed s' | Some m \<Rightarrow> \<exists>m'. nm' = Some m' \<and> plain m' \<and> marks m' = marks m \<union> marks s)"
proof (cases nm)
  case None
  show ?thesis
  proof (cases "reset_needed s")
    case True
    obtain d where d: "table_data s = Some d" "length d = QHT_DEFAULT_BYTES" "data_length s = QHT_DEFAULT_BYTES" using assms(1) by (auto simp: plain_def)
    let ?d = "replicate QHT_DEFAULT_BYTES 0xFF"
    let ?s = "s\<lparr>table_data := Some ?d, reset_needed := False\<rparr>"
    have p: "plain ?s" using assms(1) by (simp add: plain_def)
    have "marks ?s = Collect (bit_cleared ?d)" using marks_plain[OF p, of ?d] by simp
    then have "marks ?s = marks s" using marks_reset[OF assms(1) True] by (simp add: bit_cleared_ones)
    then show ?thesis using None True d p by (simp add: update_finish_def fill_master_def)
  qed (use None assms(1) in \<open>simp add: update_finish_def\<close>)
next
  case (Some m)
  then show ?thesis using add_to_master_ok[OF assms(2)[OF Some] assms(1)] marks_reset[OF assms(1)] assms
    by (cases "reset_needed s") (auto simp: update_finish_def)
qed

text \<open>
  The connections below dirty buckets.  Only their tables reach the table of the bucket: a bucket that is not dirty keeps
  its own table but does not hand it on.
\<close>

fun dirty_cons :: "g2_ht_bucket \<Rightarrow> nat list" where
  "dirty_cons (Bucket q d bs) = (if d then concat (map dirty_cons bs) else [])"
| "dirty_cons (Last_Bucket q d cs) = (if d then concat (map c_list cs) else [])"

text \<open>Every chain has the right table or is marked, every table of a bucket is a plain one.\<close>

fun tables_ok :: "nat \<Rightarrow> (nat \<Rightarrow> g2_connection) \<Rightarrow> g2_ht_bucket \<Rightarrow> bool" where
  "tables_ok mp cs (Bucket q d bs) \<longleftrightarrow> (\<forall>t. q = Some t \<longrightarrow> plain t) \<and> (\<forall>b\<in>set bs. tables_ok mp cs b)"
| "tables_ok mp cs (Last_Bucket q d chs) \<longleftrightarrow> (\<forall>t. q = Some t \<longrightarrow> plain t) \<and> (\<forall>ch\<in>set chs. fresh mp cs ch)"

lemma current_fresh: "current mp cs ch \<Longrightarrow> fresh mp cs ch"
  by (simp add: fresh_def current_def)

text \<open>What a sweep over the members does, from what one step does.\<close>

lemma sweep_marks:
  assumes step: "\<And>b m. b \<in> set bs \<Longrightarrow> plain m \<Longrightarrow>
      \<exists>b' m'. f b (wrap m) = Some (b', wrap m') \<and> R b b' \<and> plain m' \<and> marks m' = marks m \<union> g b"
    and "plain m"
  shows "\<exists>bs' m'. sweep f bs (wrap m) = Some (bs', wrap m') \<and> list_all2 R bs bs' \<and> plain m' \<and> marks m' = marks m \<union> (\<Union>b\<in>set bs. g b)"
  using assms
proof (induction bs arbitrary: m)
  case (Cons b bs)
  obtain b' m1 where b': "f b (wrap m) = Some (b', wrap m1)" "R b b'" "plain m1" "marks m1 = marks m \<union> g b"
    using Cons(2)[of b m] Cons(3) by auto
  obtain bs' m2 where "sweep f bs (wrap m1) = Some (bs', wrap m2)" "list_all2 R bs bs'" "plain m2" "marks m2 = marks m1 \<union> (\<Union>b\<in>set bs. g b)"
    using Cons(1)[OF Cons(2) b'(3)] by auto
  then show ?case using b' by auto
qed auto

lemma list_marks_concat: "list_marks mp cs (concat (map f bs)) = (\<Union>b\<in>set bs. list_marks mp cs (f b))"
  by (auto simp: list_marks_def)

text \<open>
  The tables below a bucket are good enough for a search if every one marks what the connections below it mark.  They are
  after an update if all buckets with connections were dirty.  Dirty buckets are below dirty buckets, so an update leaves none.
\<close>

fun covered :: "nat \<Rightarrow> (nat \<Rightarrow> g2_connection) \<Rightarrow> g2_ht_bucket \<Rightarrow> bool" where
  "covered mp cs (Bucket q d bs) \<longleftrightarrow> (\<forall>b\<in>set bs. covered mp cs b \<and> (\<forall>t. b_qht b = Some t \<longrightarrow> plain t) \<and>
     (all_cons b \<noteq> [] \<longrightarrow> (\<exists>t. b_qht b = Some t \<and> list_marks mp cs (all_cons b) \<subseteq> marks t)))"
| "covered mp cs (Last_Bucket q d chs) \<longleftrightarrow> (\<forall>ch\<in>set chs. current mp cs ch)"

fun ready :: "g2_ht_bucket \<Rightarrow> bool" where
  "ready (Bucket q d bs) \<longleftrightarrow> concat (map all_cons bs) = [] \<or> d \<and> (\<forall>b\<in>set bs. ready b)"
| "ready (Last_Bucket q d chs) \<longleftrightarrow> concat (map c_list chs) = [] \<or> d"

fun dirty_up :: "g2_ht_bucket \<Rightarrow> bool" where
  "dirty_up (Bucket q d bs) \<longleftrightarrow> (\<forall>b\<in>set bs. dirty_up b \<and> (b_dirty b \<longrightarrow> d))"
| "dirty_up (Last_Bucket q d chs) \<longleftrightarrow> True"

fun clean :: "g2_ht_bucket \<Rightarrow> bool" where
  "clean (Bucket q d bs) \<longleftrightarrow> \<not> d \<and> (\<forall>b\<in>set bs. clean b)"
| "clean (Last_Bucket q d chs) \<longleftrightarrow> \<not> d"

lemma dirty_cons_subset: "set (dirty_cons b) \<subseteq> set (all_cons b)"
  by (induction b) auto

lemma ready_marks: "ready b \<Longrightarrow> list_marks mp cs (dirty_cons b) = list_marks mp cs (all_cons b)"
proof (induction b)
  case (Bucket q d bs)
  show ?case
  proof (cases "all_cons (Bucket q d bs) = []")
    case True
    then have "set (dirty_cons (Bucket q d bs)) = {}" using dirty_cons_subset[of "Bucket q d bs"] by (metis empty_set subset_empty)
    then have "dirty_cons (Bucket q d bs) = []" by blast
    then show ?thesis using True by (simp only: list_marks_simps)
  qed (use Bucket in \<open>auto simp: list_marks_concat\<close>)
qed (auto simp: list_marks_concat)

lemma ready_dirty: "ready b \<Longrightarrow> all_cons b \<noteq> [] \<Longrightarrow> b_dirty b"
  by (cases b) auto

lemma clean_dirty_up: "dirty_up b \<Longrightarrow> \<not> b_dirty b \<Longrightarrow> clean b"
  by (induction b) auto

lemma tables_ok_plain: "tables_ok mp cs b \<Longrightarrow> b_qht b = Some t \<Longrightarrow> plain t"
  by (cases b) auto

lemma covered_empty: "tables_ok mp cs b \<Longrightarrow> all_cons b = [] \<Longrightarrow> covered mp cs b"
  by (induction b) (auto simp: current_def fresh_def dest: tables_ok_plain)

definition after :: "nat \<Rightarrow> (nat \<Rightarrow> g2_connection) \<Rightarrow> g2_ht_bucket \<Rightarrow> g2_ht_bucket \<Rightarrow> bool" where
  "after mp cs b b' \<longleftrightarrow> tables_ok mp cs b' \<and> (ready b \<longrightarrow> covered mp cs b') \<and> (dirty_up b \<longrightarrow> clean b') \<and> all_cons b' = all_cons b \<and>
     (b_dirty b \<longrightarrow> (\<exists>t. b_qht b' = Some t \<and> plain t \<and> marks t = list_marks mp cs (dirty_cons b)))"

lemma after_clean: "tables_ok mp cs b \<Longrightarrow> \<not> b_dirty b \<Longrightarrow> after mp cs b b \<and> dirty_cons b = []"
  using ready_dirty[of b] covered_empty[of mp cs b] clean_dirty_up[of b] by (cases b) (auto simp: after_def)

lemma after_table: "after mp cs b b' \<Longrightarrow> ready b \<Longrightarrow> all_cons b' \<noteq> [] \<Longrightarrow>
    \<exists>t. b_qht b' = Some t \<and> list_marks mp cs (all_cons b') \<subseteq> marks t"
  using ready_dirty[of b] ready_marks[of b mp cs] by (auto simp: after_def)

lemma after_Last:
  assumes "list_all2 (\<lambda>ch ch'. c_list ch' = c_list ch \<and> current mp cs ch') chs chs'" "plain s" "marks s = list_marks mp cs (concat (map c_list chs))"
  shows "after mp cs (Last_Bucket q True chs) (Last_Bucket (Some s) False chs')"
proof -
  have "\<forall>ch\<in>set chs'. current mp cs ch" using assms(1) by (auto simp: list_all2_conv_all_nth in_set_conv_nth)
  moreover have "map c_list chs' = map c_list chs" using assms(1) by (intro all_cons_map) (auto elim: list_all2_mono)
  ultimately show ?thesis using assms(2,3) current_fresh by (auto simp: after_def)
qed

lemma after_Bucket:
  assumes "list_all2 (after mp cs) bs bs'" "plain s" "marks s = list_marks mp cs (concat (map dirty_cons bs))"
  shows "after mp cs (Bucket q True bs) (Bucket (Some s) False bs')"
proof -
  have all: "\<exists>b\<in>set bs. after mp cs b b'" if "b' \<in> set bs'" for b'
    using assms(1) that by (metis list_all2_conv_all_nth in_set_conv_nth)
  have same: "map all_cons bs' = map all_cons bs" using assms(1) by (intro all_cons_map) (auto elim: list_all2_mono simp: after_def)
  have ok: "tables_ok mp cs (Bucket (Some s) False bs')" using all assms(2) by (auto simp: after_def)
  have "covered mp cs (Bucket (Some s) False bs')" if r: "ready (Bucket q True bs)"
  proof (cases "concat (map all_cons bs) = []")
    case True
    then show ?thesis using covered_empty[OF ok] same by simp
  next
    case False
    then have "\<forall>b\<in>set bs. ready b" using r by (metis ready.simps(1))
    then show ?thesis using all after_table ok tables_ok_plain by (fastforce simp: after_def)
  qed
  moreover have "clean (Bucket (Some s) False bs')" if "dirty_up (Bucket q True bs)" using all that by (auto simp: after_def)
  ultimately show ?thesis unfolding after_def using ok same assms(2,3) by simp
qed

lemma update_tree:
  assumes env: "mem_ok env" and cons: "\<And>c. con_ok (cs c)"
  shows "placed n hash b \<Longrightarrow> tables_ok mp cs b \<Longrightarrow> (\<And>m. nm = Some m \<Longrightarrow> plain m) \<Longrightarrow>
    \<exists>b' nm'. do_global_update env True mp cs n b nm = Some (b', nm') \<and> after mp cs b b' \<and>
      (case nm of None \<Rightarrow> nm' = None \<and> (b_dirty b \<longrightarrow> \<not> reset_needed (the (b_qht b')))
       | Some m \<Rightarrow> \<exists>m'. nm' = Some m' \<and> plain m' \<and> marks m' = marks m \<union> list_marks mp cs (dirty_cons b))"
proof (induction n arbitrary: hash b nm)
  case 0
  obtain q d chs where b: "b = Last_Bucket q d chs" using 0(1) by (rule placed_0E) blast
  show ?case
  proof (cases d)
    case True
    obtain t where t: "g2_qht_reset env True None (2 ^ QHT_DEFAULT_BITS) False = (False, Some t)" "plain t" "marks t = {}"
      by (rule reset_plain[OF env]) blast
    have "\<exists>chs' s. sweep (do_global_update_chain env True mp cs) chs (id t) = Some (chs', id s) \<and>
        list_all2 (\<lambda>ch ch'. c_list ch' = c_list ch \<and> current mp cs ch') chs chs' \<and> plain s \<and>
        marks s = marks t \<union> (\<Union>ch\<in>set chs. list_marks mp cs (c_list ch))"
      by (rule sweep_marks[where g = "\<lambda>ch. list_marks mp cs (c_list ch)"])
        (use chain_update_ok[where cs = cs, OF env cons] 0(2) b t(2) in fastforce)+
    then obtain chs' s where s: "sweep (do_global_update_chain env True mp cs) chs t = Some (chs', s)"
      "list_all2 (\<lambda>ch ch'. c_list ch' = c_list ch \<and> current mp cs ch') chs chs'" "plain s" "marks s = list_marks mp cs (concat (map c_list chs))"
      using t(3) by (auto simp: list_marks_concat)
    obtain nm' s' where f: "update_finish nm s = Some (nm', s')" "plain s'" "marks s' = marks s"
      "case nm of None \<Rightarrow> nm' = None \<and> \<not> reset_needed s' | Some m \<Rightarrow> \<exists>m'. nm' = Some m' \<and> plain m' \<and> marks m' = marks m \<union> marks s"
      using finish_ok[OF s(3) 0(3)] by blast
    have "after mp cs b (Last_Bucket (Some s') False chs')" using after_Last[OF s(2) f(2)] f(3) s(4) b True by simp
    then show ?thesis using b True t(1) s(1,4) f(1,4) by (cases nm) auto
  next
    case False
    then show ?thesis using after_clean[OF 0(2)] 0(3) b by (cases nm) auto
  qed
next
  case (Suc n)
  from Suc(2) obtain q d bs where b: "b = Bucket q d bs" "length bs = LEVEL_SIZE"
    "\<And>i. i < LEVEL_SIZE \<Longrightarrow> placed n (\<lambda>c. drop_bit LEVEL_SHIFT (hash c)) (bs ! i)" by (rule placed_SucE) blast
  have pl: "placed n (\<lambda>c. drop_bit LEVEL_SHIFT (hash c)) x" if "x \<in> set bs" for x using that b(2,3) by (auto simp: in_set_conv_nth)
  show ?case
  proof (cases d)
    case True
    obtain t where t: "g2_qht_reset env True None (2 ^ QHT_DEFAULT_BITS) False = (False, Some t)" "plain t" "marks t = {}"
      by (rule reset_plain[OF env]) blast
    have "\<exists>bs' s. sweep (do_global_update env True mp cs n) bs (Some t) = Some (bs', Some s) \<and>
        list_all2 (after mp cs) bs bs' \<and> plain s \<and> marks s = marks t \<union> (\<Union>b\<in>set bs. list_marks mp cs (dirty_cons b))"
    proof (rule sweep_marks)
      fix x m assume x: "x \<in> set bs" "plain m"
      have "tables_ok mp cs x" using Suc(3) b(1) x(1) by simp
      from Suc(1)[OF pl[OF x(1)] this, of "Some m"] x(2) show "\<exists>b' m'. do_global_update env True mp cs n x (Some m) = Some (b', Some m') \<and>
          after mp cs x b' \<and> plain m' \<and> marks m' = marks m \<union> list_marks mp cs (dirty_cons x)" by auto
    qed (rule t(2))
    then obtain bs' s where s: "sweep (do_global_update env True mp cs n) bs (Some t) = Some (bs', Some s)"
      "list_all2 (after mp cs) bs bs'" "plain s" "marks s = list_marks mp cs (concat (map dirty_cons bs))"
      using t(3) by (auto simp: list_marks_concat)
    obtain nm' s' where f: "update_finish nm s = Some (nm', s')" "plain s'" "marks s' = marks s"
      "case nm of None \<Rightarrow> nm' = None \<and> \<not> reset_needed s' | Some m \<Rightarrow> \<exists>m'. nm' = Some m' \<and> plain m' \<and> marks m' = marks m \<union> marks s"
      using finish_ok[OF s(3) Suc(4)] by blast
    have "after mp cs b (Bucket (Some s') False bs')" using after_Bucket[OF s(2) f(2)] f(3) s(4) b(1) True by simp
    then show ?thesis using b(1) True t(1) s(1,4) f(1,4) by (cases nm) auto
  next
    case False
    then show ?thesis using after_clean[OF Suc(3)] Suc(4) b(1) by (cases nm) auto
  qed
qed

subsection \<open>Searching the tables\<close>

definition con_hit :: "nat \<Rightarrow> (nat \<Rightarrow> g2_connection) \<Rightarrow> u32 list \<Rightarrow> nat \<Rightarrow> bool" where
  "con_hit mp cs hashes c \<longleftrightarrow> \<not> dismissed (cs c) \<and> (\<exists>h\<in>set hashes. unat h \<in> con_marks mp (cs c))"

definition small :: "u32 list \<Rightarrow> bool" where
  "small hashes \<longleftrightarrow> (\<forall>h\<in>set hashes. unat h < 2 ^ QHT_DEFAULT_BITS)"

lemma small_Cons [simp]: "small [] = True" "small (h # hs) \<longleftrightarrow> unat h < 2 ^ QHT_DEFAULT_BITS \<and> small hs"
  by (auto simp: small_def)

lemma table_hit_ok:
  assumes "QHT_DEFAULT_BYTES \<le> length d" "unat h < 2 ^ QHT_DEFAULT_BITS"
  shows "table_hit d h = Some (bit_cleared d (unat h))"
  using assms by (auto simp: table_hit_def bit_cleared_def QHT_DEFAULT_BYTES_def QHT_DEFAULT_BITS_def)

lemma match_loop_ok:
  "QHT_DEFAULT_BYTES \<le> length d \<Longrightarrow> small hs \<Longrightarrow>
   match_loop (2 ^ QHT_DEFAULT_BITS) d hs = Some (filter (\<lambda>h. bit_cleared d (unat h)) hs)"
  by (induction hs) (simp_all add: table_hit_ok)

lemma leaf_loop_ok:
  "QHT_DEFAULT_BYTES \<le> length d \<Longrightarrow> small hs \<Longrightarrow>
   leaf_loop (2 ^ QHT_DEFAULT_BITS) d hs = Some (\<exists>h\<in>set hs. bit_cleared d (unat h))"
  by (induction hs) (simp_all add: table_hit_ok)

lemma search_bucket_ok:
  assumes "plain t" "small hs"
  shows "g2_qht_global_search_bucket hs t =
    Some (let ms = filter (\<lambda>h. unat h \<in> marks t) hs in if ms = [] then None else Some ms)"
proof -
  obtain d where d: "table_data t = Some d" "length d = QHT_DEFAULT_BYTES" "compressed t = COMP_NONE" "entries t = 2 ^ QHT_DEFAULT_BITS"
    using assms(1) by (auto simp: plain_def)
  show ?thesis
  proof (cases "reset_needed t")
    case True
    then show ?thesis using marks_reset[OF assms(1)] d by (simp add: g2_qht_global_search_bucket_def)
  next
    case False
    then show ?thesis using d marks_plain[OF assms(1) False d(1)] match_loop_ok[OF eq_refl[OF d(2)[symmetric]] assms(2)]
      by (simp add: g2_qht_global_search_bucket_def Let_def)
  qed
qed

text \<open>The test of one connection does what its name says.\<close>

lemma search_con_ok:
  assumes "con_ok (cs c)" "small hs"
  shows "search_con mp cs hs c found = Some (found @ (if con_hit mp cs hs c then [c] else []))"
proof (cases "qht (cs c)")
  case (Some t)
  show ?thesis
  proof (cases "dismissed (cs c) \<or> reset_needed t \<or> upeer (cs c) \<or> used t \<ge> mp")
    case True
    then show ?thesis using Some by (auto simp: search_con_def g2_qht_global_search_chain_def con_hit_def con_marks_def)
  next
    case False
    then obtain bs where bs: "holds t bs" "entries t = 2 ^ QHT_DEFAULT_BITS" using assms(1) Some by (auto simp: con_ok_def)
    then have len: "length bs = QHT_DEFAULT_BYTES" by (simp add: holds_def qht_size_default)
    have hit: "con_hit mp cs hs c \<longleftrightarrow> (\<exists>h\<in>set hs. bit_cleared bs (unat h))"
      using False Some marks_holds[OF bs(1)] by (simp add: con_hit_def con_marks_def)
    obtain d where d: "table_data t = Some d" and rle: "compressed t = COMP_RLE \<Longrightarrow> rle_of d bs"
      and pl: "compressed t \<noteq> COMP_RLE \<Longrightarrow> length bs \<le> length d \<and> take (length bs) d = bs"
      using bs(1) False by (cases "compressed t = COMP_RLE") (auto simp: holds_def split: option.splits)
    have "g2_qht_global_search_chain mp hs (cs c) = Some (con_hit mp cs hs c)"
    proof (cases "compressed t = COMP_RLE")
      case True
      then have "bitfield_lookup hs d = Some (if \<exists>v\<in>set hs. bit_cleared bs (unat v) then -1 else 0)"
        using rle_of_lookup[OF rle] len by (simp add: QHT_DEFAULT_BYTES_def)
      then show ?thesis using True False Some d hit by (simp add: g2_qht_global_search_chain_def)
    next
      case rp: False
      have "bit_cleared d (unat h) = bit_cleared bs (unat h)" if "h \<in> set hs" for h
      proof -
        have "unat h div 8 < length bs" using that assms(2) len by (simp add: small_def QHT_DEFAULT_BYTES_def QHT_DEFAULT_BITS_def less_mult_imp_div_less)
        then show ?thesis using pl[OF rp] by (metis (no_types, lifting) bit_cleared_def nth_take order_less_le_trans)
      qed
      moreover have "leaf_loop (entries t) d hs = Some (\<exists>h\<in>set hs. bit_cleared d (unat h))"
        using leaf_loop_ok[OF _ assms(2), of d] pl[OF rp] len bs(2) by simp
      ultimately show ?thesis using rp False Some d hit by (simp add: g2_qht_global_search_chain_def)
    qed
    then show ?thesis using Some False by (simp add: search_con_def)
  qed
qed (simp add: search_con_def con_hit_def con_marks_def)

text \<open>The same for a hub, whose table is asked with other limits.\<close>

lemma hub_match_ok:
  assumes "con_ok con" "small hs" "qht con = Some t" "\<not> reset_needed t" "\<not> dismissed con"
  shows "hub_match hs con = Some (Some (used t < 1000 \<and> (\<exists>h\<in>set hs. unat h \<in> marks t)))"
proof -
  let ?c = "con\<lparr>upeer := False\<rparr>"
  have "con_ok ?c" using assms(1) by (simp add: con_ok_def)
  from search_con_ok[of "\<lambda>_. ?c" 0 hs 1000 "[]", OF this assms(2)]
  have "search_con 1000 (\<lambda>_. ?c) hs 0 [] = Some (if con_hit 1000 (\<lambda>_. ?c) hs 0 then [0] else [])" by simp
  moreover have "table_data t \<noteq> None" using assms(1,3,4) by (auto simp: con_ok_def holds_def split: option.splits)
  ultimately show ?thesis using assms(3-5)
    by (auto simp: hub_match_def search_con_def g2_qht_global_search_chain_def con_hit_def con_marks_def Option.bind_eq_Some_conv split: if_splits)
qed

lemma search_chain_ok:
  assumes "\<And>c. con_ok (cs c)" "small hs"
  shows "for_each (search_con mp cs hs) l found = Some (found @ filter (con_hit mp cs hs) l)"
  by (induction l arbitrary: found) (simp_all add: search_con_ok[where cs = cs, OF assms])

text \<open>A table that marks enough neither stops the search too early nor drops a hash that is needed below.\<close>

lemma search_member_ok:
  assumes "small hs" "\<And>t. q = Some t \<Longrightarrow> plain t"
    and "l \<noteq> [] \<Longrightarrow> \<exists>t. q = Some t \<and> list_marks mp cs l \<subseteq> marks t"
    and below: "\<And>ms. small ms \<Longrightarrow> below ms found = Some (found @ filter (con_hit mp cs ms) l)"
  shows "search_member hs q below found = Some (found @ filter (con_hit mp cs hs) l)"
proof (cases q)
  case None
  then show ?thesis using assms(3) by (cases "l = []") (auto simp: search_member_def)
next
  case (Some t)
  define ms where "ms = filter (\<lambda>h. unat h \<in> marks t) hs"
  have same: "con_hit mp cs ms c = con_hit mp cs hs c" if "c \<in> set l" for c
  proof -
    have "con_marks mp (cs c) \<subseteq> marks t" using assms(3) that Some by (cases l) (auto simp: list_marks_def)
    then show ?thesis by (auto simp: con_hit_def ms_def)
  qed
  then have eq: "filter (con_hit mp cs ms) l = filter (con_hit mp cs hs) l" by (intro filter_cong) auto
  have "small ms" using assms(1) by (auto simp: small_def ms_def)
  from below[OF this] have "search_member hs q below found = Some (if ms = [] then found else found @ filter (con_hit mp cs ms) l)"
    using search_bucket_ok[OF assms(2)[OF Some] assms(1), folded ms_def] Some by (simp add: search_member_def Let_def)
  moreover have "filter (con_hit mp cs ms) l = []" if "ms = []" using that by (simp add: con_hit_def)
  ultimately show ?thesis using eq by (cases "ms = []") simp_all
qed

lemma for_each_filter:
  assumes "\<And>b found. b \<in> set bs \<Longrightarrow> f b found = Some (found @ filter P (g b))"
  shows "for_each f bs found = Some (found @ filter P (concat (map g bs)))"
  using assms by (induction bs arbitrary: found) auto

lemma search_tree:
  assumes cons: "\<And>c. con_ok (cs c)"
  shows "placed n hash b \<Longrightarrow> covered mp cs b \<Longrightarrow> small hs \<Longrightarrow>
    do_global_search mp cs n hs b found = Some (found @ filter (con_hit mp cs hs) (all_cons b))"
proof (induction n arbitrary: hash b hs found)
  case 0
  obtain q d chs where b: "b = Last_Bucket q d chs" using 0(1) by (rule placed_0E) blast
  have "search_member hs (c_qht ch) (\<lambda>hs. do_global_search_chain mp cs hs ch) found = Some (found @ filter (con_hit mp cs hs) (c_list ch))"
    if "ch \<in> set chs" for ch found
    using 0(2,3) that b search_chain_ok[where cs = cs, OF cons]
    by (intro search_member_ok) (auto simp: current_def do_global_search_chain_def)
  then show ?case using b by (simp add: for_each_filter)
next
  case (Suc n)
  from Suc(2) obtain q d bs where b: "b = Bucket q d bs" "length bs = LEVEL_SIZE"
    "\<And>i. i < LEVEL_SIZE \<Longrightarrow> placed n (\<lambda>c. drop_bit LEVEL_SHIFT (hash c)) (bs ! i)" by (rule placed_SucE) blast
  have "search_member hs (b_qht x) (\<lambda>hs. do_global_search mp cs n hs x) found = Some (found @ filter (con_hit mp cs hs) (all_cons x))"
    if x: "x \<in> set bs" for x found
  proof (rule search_member_ok[OF Suc(4)])
    have "placed n (\<lambda>c. drop_bit LEVEL_SHIFT (hash c)) x" using x b(2,3) by (auto simp: in_set_conv_nth)
    then show "do_global_search mp cs n ms x found = Some (found @ filter (con_hit mp cs ms) (all_cons x))" if "small ms" for ms
      using Suc(1)[of _ x ms found] Suc(3) b(1) x that by auto
  qed (use Suc(3) b(1) x in auto)
  then show ?case using b(1) by (simp add: for_each_filter)
qed

text \<open>The whole search, with the table at the root.\<close>

lemma match_leafs_master:
  assumes "small hs" "b_qht (ht_root r) = Some t" "plain t" "\<not> reset_needed t"
  shows "g2_qht_match_leafs mp r hs =
    (if \<forall>h\<in>set hs. unat h \<notin> marks t then Some [] else g2_qht_global_search mp r (filter (\<lambda>h. unat h \<in> marks t) hs))"
proof -
  obtain d where d: "table_data t = Some d" "length d = QHT_DEFAULT_BYTES" "compressed t = COMP_NONE" "entries t = 2 ^ QHT_DEFAULT_BITS"
    using assms(3) by (auto simp: plain_def)
  have "match_loop (entries t) d hs = Some (filter (\<lambda>h. unat h \<in> marks t) hs)"
    using match_loop_ok[OF eq_refl[OF d(2)[symmetric]] assms(1)] marks_plain[OF assms(3,4) d(1)] d(4) by simp
  then show ?thesis using assms(2,4) d(1,3) by (simp add: g2_qht_match_leafs_def filter_empty_conv)
qed

lemma match_leafs_ok:
  assumes cons: "\<And>c. con_ok (cons r c)" and "reg_ok r" "small hs" "b_qht (ht_root r) = Some t" "plain t" "\<not> reset_needed t"
    and "covered mp (cons r) (ht_root r)" "list_marks mp (cons r) (all_cons (ht_root r)) \<subseteq> marks t"
  shows "g2_qht_match_leafs mp r hs = Some (filter (con_hit mp (cons r) hs) (all_cons (ht_root r)))"
proof -
  define ms where "ms = filter (\<lambda>h. unat h \<in> marks t) hs"
  have "small ms" using assms(3) by (auto simp: small_def ms_def)
  then have "g2_qht_global_search mp r ms = Some (filter (con_hit mp (cons r) ms) (all_cons (ht_root r)))"
    using search_tree[where cs = "cons r", OF cons _ assms(7)] assms(2) by (auto simp: g2_qht_global_search_def reg_ok_def)
  moreover have "con_hit mp (cons r) ms c = con_hit mp (cons r) hs c" if "c \<in> set (all_cons (ht_root r))" for c
    using assms(8) that by (auto simp: con_hit_def list_marks_def ms_def)
  then have "filter (con_hit mp (cons r) ms) (all_cons (ht_root r)) = filter (con_hit mp (cons r) hs) (all_cons (ht_root r))"
    by (intro filter_cong) auto
  moreover have "filter (con_hit mp (cons r) hs) (all_cons (ht_root r)) = []" if "\<forall>h\<in>set hs. unat h \<notin> marks t"
    using that assms(8) by (auto simp: filter_empty_conv con_hit_def list_marks_def)
  ultimately show ?thesis using match_leafs_master[OF assms(3-6), of mp, folded ms_def] by simp
qed

subsection \<open>An update of the registry\<close>

lemma update_reg:
  assumes "mem_ok env" "\<And>c. con_ok (cons r c)" "reg_ok r" "tables_ok mp (cons r) (ht_root r)" "b_dirty (ht_root r)"
    and "\<bar>local_time_now env - t\<bar> \<ge> UPDATE_INTERVAL"
  obtains r' m where "g2_qht_global_update env True mp (r, t) = Some (r', local_time_now env)" "reg_ok r'" "cons r' = cons r"
    "ht_seed r' = ht_seed r" "level_count r' = level_count r" "after mp (cons r) (ht_root r) (ht_root r')"
    "b_qht (ht_root r') = Some m" "plain m" "\<not> reset_needed m" "marks m = list_marks mp (cons r) (dirty_cons (ht_root r))"
proof -
  have pl: "placed (level_count r - 1) (con_hash r) (ht_root r)" using assms(3) by (simp add: reg_ok_def)
  obtain b' where b': "do_global_update env True mp (cons r) (level_count r - 1) (ht_root r) None = Some (b', None)"
    "after mp (cons r) (ht_root r) b'" "\<not> reset_needed (the (b_qht b'))"
    using update_tree[where cs = "cons r", OF assms(1,2) pl assms(4), of None] assms(5) by auto
  have "reg_ok (r\<lparr>ht_root := b'\<rparr>)" using update_frame[OF b'(1), of "con_hash r"] assms(3) unfolding reg_ok_def by auto
  moreover have "g2_qht_global_update env True mp (r, t) = Some (r\<lparr>ht_root := b'\<rparr>, local_time_now env)"
    using b'(1) assms(6) by (simp add: g2_qht_global_update_def)
  moreover obtain m where "b_qht b' = Some m" "plain m" "marks m = list_marks mp (cons r) (dirty_cons (ht_root r))"
    using b'(2) assms(5) by (auto simp: after_def)
  ultimately show thesis using that[of "r\<lparr>ht_root := b'\<rparr>" m] b'(2,3) by simp
qed

lemma clean_no_dirty: "clean b \<Longrightarrow> dirty_cons b = []"
  by (cases b) auto

text \<open>In a clean tree a mark makes only the way to one chain dirty.\<close>

lemma mark_keeps_tables:
  assumes "placed n hash b" "find_chain_and_mark_dirty_rec chain_callback_dirty n h b = Some b'"
  shows "(tables_ok mp cs b \<longrightarrow> tables_ok mp cs b') \<and> b_dirty b'"
  using assms
proof (induction n arbitrary: hash h b b')
  case 0
  from 0(1) obtain q d chs where b: "b = Last_Bucket q d chs" "length chs = LEVEL_SIZE" by (rule placed_0E) blast
  let ?i = "level_index h"
  have b': "b' = Last_Bucket q True (chs[?i := (chs ! ?i)\<lparr>c_dirty := True\<rparr>])" using 0(2) b(1) by (simp add: chain_callback_dirty_def)
  have "fresh mp cs ch" if "\<forall>ch\<in>set chs. fresh mp cs ch" "ch \<in> set (chs[?i := (chs ! ?i)\<lparr>c_dirty := True\<rparr>])" for ch
  proof -
    have "fresh mp cs (chs ! ?i)" using that(1) b(2) by simp
    then have "fresh mp cs ((chs ! ?i)\<lparr>c_dirty := True\<rparr>)" by (simp add: fresh_def)
    then show ?thesis using that set_update_subset_insert by fast
  qed
  then show ?case using b(1) b' by auto
next
  case (Suc n)
  from Suc(2) obtain q d bs where b: "b = Bucket q d bs" "length bs = LEVEL_SIZE"
    "\<And>i. i < LEVEL_SIZE \<Longrightarrow> placed n (\<lambda>c. drop_bit LEVEL_SHIFT (hash c)) (bs ! i)" by (rule placed_SucE) blast
  let ?i = "level_index h"
  obtain x where x: "find_chain_and_mark_dirty_rec chain_callback_dirty n (drop_bit LEVEL_SHIFT h) (bs ! ?i) = Some x"
    "b' = Bucket q True (bs[?i := x])" using Suc(3) b(1) by (auto simp: Option.bind_eq_Some_conv)
  have "tables_ok mp cs y" if "\<forall>b\<in>set bs. tables_ok mp cs b" "y \<in> set (bs[?i := x])" for y
  proof -
    have "tables_ok mp cs x" using Suc(1)[OF b(3)[OF level_index_less] x(1)] that(1) b(2) by simp
    then show ?thesis using that set_update_subset_insert by fast
  qed
  then show ?case using b(1) x(2) by auto
qed

lemma mark_dirty_way:
  assumes "placed (Suc n) hash b" "find_chain_and_mark_dirty_rec chain_callback_dirty (Suc n) h b = Some b'" "clean b"
    and "c \<in> set (dirty_cons b')"
  shows "level_index (hash c) = level_index h \<and> c \<in> set (all_cons b)"
proof -
  from assms(1) obtain q d bs where b: "b = Bucket q d bs" "length bs = LEVEL_SIZE"
    "\<And>i. i < LEVEL_SIZE \<Longrightarrow> placed n (\<lambda>c. drop_bit LEVEL_SHIFT (hash c)) (bs ! i)"
    "\<And>i c. i < LEVEL_SIZE \<Longrightarrow> c \<in> set (all_cons (bs ! i)) \<Longrightarrow> level_index (hash c) = i" by (rule placed_SucE) blast
  let ?i = "level_index h"
  obtain x where x: "find_chain_and_mark_dirty_rec chain_callback_dirty n (drop_bit LEVEL_SHIFT h) (bs ! ?i) = Some x"
    "b' = Bucket q True (bs[?i := x])" using assms(2) b(1) by (auto simp: Option.bind_eq_Some_conv)
  have "mset (all_cons x) = mset (all_cons (bs ! ?i))"
    using mark_dirty_spec[OF b(3)[OF level_index_less], of "{#}" "drop_bit LEVEL_SHIFT h" h chain_callback_dirty "{#}"] x(1)
    by (auto simp: chain_callback_dirty_def)
  then have same: "set (all_cons x) = set (all_cons (bs ! ?i))" by (rule mset_eq_setD)
  from assms(4) x(2) obtain y where y: "y \<in> set (bs[?i := x])" "c \<in> set (dirty_cons y)" by auto
  have "y = x"
  proof (rule ccontr)
    assume "y \<noteq> x"
    then have "y \<in> set bs" using y(1) set_update_subset_insert by fast
    then show False using y(2) clean_no_dirty[of y] assms(3) b(1) by auto
  qed
  then have "c \<in> set (all_cons (bs ! ?i))" using y(2) dirty_cons_subset same by blast
  then show ?thesis using b(1,2,4) concat_nth[of ?i bs c all_cons] by auto
qed

section \<open>The properties\<close>

text \<open>
  C32: If all buckets with connections are dirty, as they are when connections came or got tables since the start (a later update forgets the
  leafs below clean buckets), then an update that is due, followed by a search, finds exactly the registered leafs whose table marks one of the hashes, each once.  The leafs may
  keep their tables plain or run length encoded; connections that are dismissed, and tables that are empty, too full, or of hubs do not count.  All tables have the default size, the
  hashes are below it, and there is memory for the tables.
\<close>

theorem search_after_update:
  assumes "mem_ok env" "\<And>c. con_ok (cons r c)" "reg_ok r" "tables_ok mp (cons r) (ht_root r)" "b_dirty (ht_root r)" "ready (ht_root r)"
    and "\<bar>local_time_now env - t\<bar> \<ge> UPDATE_INTERVAL" "small hashes"
  shows "\<exists>r' found. g2_qht_global_update env True mp (r, t) = Some (r', local_time_now env) \<and>
    g2_qht_match_leafs mp r' hashes = Some found \<and> distinct found \<and> set found = {c. registry (cons r c) \<and> con_hit mp (cons r) hashes c}"
proof -
  obtain r' m where u: "g2_qht_global_update env True mp (r, t) = Some (r', local_time_now env)" "reg_ok r'" "cons r' = cons r"
    "after mp (cons r) (ht_root r) (ht_root r')" "b_qht (ht_root r') = Some m" "plain m" "\<not> reset_needed m"
    "marks m = list_marks mp (cons r) (dirty_cons (ht_root r))"
    by (rule update_reg[OF assms(1-5,7)]) blast
  have "covered mp (cons r') (ht_root r')" "list_marks mp (cons r') (all_cons (ht_root r')) \<subseteq> marks m"
    using u(3,4,8) ready_marks[OF assms(6), of mp "cons r"] assms(6) by (auto simp: after_def)
  then have "g2_qht_match_leafs mp r' hashes = Some (filter (con_hit mp (cons r) hashes) (all_cons (ht_root r')))"
    using match_leafs_ok[of r' hashes m mp] assms(2,8) u by simp
  then show ?thesis using u(1,2,3) unfolding reg_ok_def by auto
qed

text \<open>
  A registry of two levels with two connections in different buckets, of which the second has a table, right after they
  were added.
\<close>

definition marked_table :: qhtable where
  "marked_table = \<lparr>refcnt = 1, data_length = QHT_DEFAULT_BYTES, entries = 2 ^ QHT_DEFAULT_BITS, used = 500, table_bits = 20, time_stamp = 0,
     fragments = [], compressed = COMP_NONE, reset_needed = False, table_data = Some (replicate QHT_DEFAULT_BYTES 0)\<rparr>"

definition two_cons :: "nat \<Rightarrow> g2_connection" where
  "two_cons c = \<lparr>remote_host = In (word_of_nat c) 5, qht = (if c = 2 then Some marked_table else None), upeer = False, dismissed = False,
     registry = (c = 1 \<or> c = 2), hub_list = False\<rparr>"

definition dirty_bucket :: "nat list list \<Rightarrow> g2_ht_bucket" where
  "dirty_bucket ls = Last_Bucket None True (map (\<lambda>l. \<lparr>c_list = l, c_qht = None, c_dirty = True\<rparr>) ls)"

definition two_reg :: conreg where
  "two_reg = \<lparr>ht_root = Bucket None True [dirty_bucket [[2], [], [], []], dirty_bucket [[], [], [], []],
       dirty_bucket [[], [], [], []], dirty_bucket [[], [], [1], []]],
     neighbour_hubs = [], ht_seed = 77, level_count = 2, act_hub_sum = 0, max_hub_sum = 10, cons = two_cons\<rparr>"

lemma two_hash:
  "level_index (combo_addr_hash_ip (In 1 5) 77) = 3" "level_index (drop_bit LEVEL_SHIFT (combo_addr_hash_ip (In 1 5) 77)) = 2"
  "level_index (combo_addr_hash_ip (In 2 5) 77) = 0" "level_index (drop_bit LEVEL_SHIFT (combo_addr_hash_ip (In 2 5) 77)) = 0"
  by code_simp+

lemma two_reg_ok: "reg_ok two_reg"
proof -
  have less4: "(\<forall>i<LEVEL_SIZE. P i) \<longleftrightarrow> P 0 \<and> P 1 \<and> P 2 \<and> P 3" for P
    by (auto simp: LEVEL_SIZE_def LEVEL_SHIFT_def numeral_eq_Suc less_Suc_eq)
  have pl: "placed (Suc 0) hash (ht_root two_reg)" if "level_index (hash 1) = 3" "level_index (drop_bit LEVEL_SHIFT (hash 1)) = 2"
    "level_index (hash 2) = 0" "level_index (drop_bit LEVEL_SHIFT (hash 2)) = 0" for hash
    using that by (simp add: two_reg_def dirty_bucket_def less4) (simp add: LEVEL_SIZE_def LEVEL_SHIFT_def)
  have "con_hash two_reg 1 = combo_addr_hash_ip (In 1 5) 77" "con_hash two_reg 2 = combo_addr_hash_ip (In 2 5) 77"
    by (simp_all add: con_hash_def two_reg_def two_cons_def)
  then have "placed (Suc 0) (con_hash two_reg) (ht_root two_reg)" using two_hash by (intro pl) (simp_all only:)
  then show ?thesis by (auto simp: reg_ok_def two_reg_def dirty_bucket_def two_cons_def)
qed

lemma two_marks: "con_marks 1000 (two_cons c) = (if c = 2 then {i. i < 2 ^ QHT_DEFAULT_BITS} else {})"
proof -
  have p: "plain marked_table" by (simp add: plain_def marked_table_def)
  have "marks marked_table = Collect (bit_cleared (replicate QHT_DEFAULT_BYTES 0))"
    using marks_plain[OF p, of "replicate QHT_DEFAULT_BYTES 0"] by (simp add: marked_table_def)
  also have "\<dots> = {i. i < 2 ^ QHT_DEFAULT_BITS}"
    by (auto simp: bit_cleared_def QHT_DEFAULT_BYTES_def QHT_DEFAULT_BITS_def)
  finally show ?thesis by (simp add: con_marks_def two_cons_def marked_table_def)
qed

lemma two_ok: "con_ok (cons two_reg c)" "tables_ok 1000 (cons two_reg) (ht_root two_reg)" "b_dirty (ht_root two_reg)"
  "ready (ht_root two_reg)" "dirty_up (ht_root two_reg)" "cons two_reg = two_cons" "mem_ok (plain_env True)" "local_time_now (plain_env True) = 5"
proof -
  have "plain marked_table" by (simp add: plain_def marked_table_def)
  then obtain bs where "holds marked_table bs" by (rule plain_holds)
  then show "con_ok (cons two_reg c)" by (auto simp: con_ok_def two_reg_def two_cons_def marked_table_def)
qed (simp_all add: two_reg_def dirty_bucket_def fresh_def mem_ok_def env_ok_plain, simp_all add: plain_env_def)

theorem search_after_update_witness:
  "\<exists>r'. g2_qht_global_update (plain_env True) True 1000 (two_reg, -100) = Some (r', 5) \<and> g2_qht_match_leafs 1000 r' [7] = Some [2]"
proof -
  have "{c. registry (two_cons c) \<and> con_hit 1000 two_cons [7] c} = {2}"
    by (auto simp: con_hit_def two_marks QHT_DEFAULT_BITS_def) (auto simp: two_cons_def)
  moreover have "found = [2]" if "distinct found" "set found = {2 :: nat}" for found
    using that distinct_card[of found] by (cases found; cases "tl found") auto
  ultimately show ?thesis
    using search_after_update[of "plain_env True" two_reg 1000 "-100" "[7]"] two_reg_ok two_ok
    by (auto simp: UPDATE_INTERVAL_def QHT_DEFAULT_BITS_def)
qed

text \<open>
  C33: An update forgets leafs.  If the registry was updated and then one connection is marked as changed, the next update
  builds a master table without the leafs in the other buckets of the first level, since the table of a bucket
  that is not dirty is not handed on: a search for a hash that only such leafs have finds nothing.
\<close>

theorem global_update_forgets:
  assumes "mem_ok env" "\<And>c. con_ok (cons r c)" "reg_ok r" "tables_ok mp (cons r) (ht_root r)" "clean (ht_root r)"
    and "level_count r \<ge> 2" "registry (cons r a)" "unat h < 2 ^ QHT_DEFAULT_BITS"
    and "\<And>c. registry (cons r c) \<Longrightarrow> unat h \<in> con_marks mp (cons r c) \<Longrightarrow> level_index (con_hash r c) \<noteq> level_index (con_hash r a)"
    and "\<bar>local_time_now env - t\<bar> \<ge> UPDATE_INTERVAL"
  shows "\<exists>r1 r2. g2_conreg_mark_dirty a r = Some r1 \<and> g2_qht_global_update env True mp (r1, t) = Some (r2, local_time_now env) \<and>
    g2_qht_match_leafs mp r2 [h] = Some []"
proof -
  obtain n where n: "level_count r - 1 = Suc n" using assms(6) by (cases "level_count r - 1") auto
  have pl: "placed (Suc n) (con_hash r) (ht_root r)" using assms(3) n by (simp add: reg_ok_def)
  obtain b where b: "find_chain_and_mark_dirty_rec chain_callback_dirty (Suc n) (con_hash r a) (ht_root r) = Some b"
    "g2_conreg_mark_dirty a r = Some (r\<lparr>ht_root := b\<rparr>)"
    using mark_dirty_ok[OF assms(3), of a] assms(7) n by (auto simp: g2_conreg_mark_dirty_def g2_conreg_find_chain_and_mark_dirty_def Option.bind_eq_Some_conv)
  let ?r = "r\<lparr>ht_root := b\<rparr>"
  have ok: "reg_ok ?r" using reg_step_ok[OF reg_step.dirty[OF b(2)] assms(3)] .
  have tab: "tables_ok mp (cons ?r) (ht_root ?r)" "b_dirty (ht_root ?r)"
    using mark_keeps_tables[OF pl b(1), of mp "cons r"] assms(4) by simp_all
  obtain r' m where u: "g2_qht_global_update env True mp (?r, t) = Some (r', local_time_now env)" "reg_ok r'" "cons r' = cons r"
    "b_qht (ht_root r') = Some m" "plain m" "\<not> reset_needed m" "marks m = list_marks mp (cons r) (dirty_cons b)"
    by (rule update_reg[of env ?r mp t]) (use assms(1,2,10) ok tab in auto)
  have "unat h \<notin> marks m"
  proof
    assume "unat h \<in> marks m"
    then obtain c where c: "c \<in> set (dirty_cons b)" "unat h \<in> con_marks mp (cons r c)" using u(7) by (auto simp: list_marks_def)
    from mark_dirty_way[OF pl b(1) assms(5) c(1)] show False using assms(3) assms(9)[OF _ c(2)] by (auto simp: reg_ok_def)
  qed
  then have "g2_qht_match_leafs mp r' [h] = Some []" using match_leafs_master[OF _ u(4-6), of "[h]" mp] assms(8) by simp
  then show ?thesis using b(2) u(1) by blast
qed

theorem global_update_forgets_witness:
  "\<exists>r r1 r2. g2_qht_global_update (plain_env True) True 1000 (two_reg, -100) = Some (r, 5) \<and> g2_conreg_mark_dirty 1 r = Some r1 \<and>
     g2_qht_global_update (plain_env True) True 1000 (r1, 5 - 60) = Some (r2, 5) \<and>
     g2_qht_match_leafs 1000 r2 [7] = Some [] \<and> registry (cons r 2) \<and> con_hit 1000 (cons r) [7] 2"
proof -
  obtain r m where r: "g2_qht_global_update (plain_env True) True 1000 (two_reg, -100) = Some (r, 5)" "reg_ok r" "cons r = two_cons"
    "ht_seed r = 77" "level_count r = 2" "after 1000 two_cons (ht_root two_reg) (ht_root r)"
    by (rule update_reg[of "plain_env True" two_reg 1000 "-100"])
      (use two_reg_ok two_ok in \<open>auto simp: UPDATE_INTERVAL_def two_reg_def\<close>)
  have away: "level_index (con_hash r c) \<noteq> level_index (con_hash r 1)" if "registry (cons r c)" "unat (7 :: u32) \<in> con_marks 1000 (cons r c)" for c
    using that r(3,4) two_hash two_marks[of c] by (cases "c = 2") (auto simp: con_hash_def two_cons_def)
  have "con_ok (cons r c)" "tables_ok 1000 (cons r) (ht_root r)" "clean (ht_root r)" "registry (cons r 1)" "level_count r \<ge> 2" for c
    using r(3,5,6) two_ok(1)[of c] two_ok(5,6) by (auto simp: after_def two_cons_def)
  moreover have "unat (7 :: u32) < 2 ^ QHT_DEFAULT_BITS" "\<bar>local_time_now (plain_env True) - (5 - 60)\<bar> \<ge> UPDATE_INTERVAL"
    by (simp_all add: QHT_DEFAULT_BITS_def UPDATE_INTERVAL_def two_ok)
  ultimately have "\<exists>r1 r2. g2_conreg_mark_dirty 1 r = Some r1 \<and> g2_qht_global_update (plain_env True) True 1000 (r1, 5 - 60) = Some (r2, 5) \<and>
      g2_qht_match_leafs 1000 r2 [7] = Some []"
    using global_update_forgets[of "plain_env True" r 1000 1 7 "5 - 60", OF two_ok(7) _ r(2) _ _ _ _ _ away] two_ok(8) by simp
  moreover have "registry (cons r 2)" "con_hit 1000 (cons r) [7] 2"
    using r(3) two_marks[of 2] by (auto simp: con_hit_def two_cons_def QHT_DEFAULT_BITS_def)
  ultimately show ?thesis using r(1) by blast
qed

text \<open>
  Every neighbouring hub that is not about to be closed is asked once, in the order of the list: the query is meant for it if it has no
  table, or if its table is neither empty nor full and marks one of the hashes.
\<close>

definition hub_hit :: "u32 list \<Rightarrow> g2_connection \<Rightarrow> bool" where
  "hub_hit hashes con = (case qht con of
     None \<Rightarrow> True | Some t \<Rightarrow> \<not> reset_needed t \<and> used t < 1000 \<and> (\<exists>h\<in>set hashes. unat h \<in> marks t))"

theorem match_hubs_correct:
  assumes "\<And>c. con_ok (cons r c)" "small hashes"
  shows "g2_qht_match_hubs r hashes =
    Some (map (\<lambda>c. (c, hub_hit hashes (cons r c))) (filter (\<lambda>c. \<not> dismissed (cons r c)) (neighbour_hubs r)))"
proof -
  have one: "hub_match hashes (cons r c) = Some (if dismissed (cons r c) then None else Some (hub_hit hashes (cons r c)))" for c
  proof (cases "\<exists>t. qht (cons r c) = Some t \<and> \<not> reset_needed t \<and> \<not> dismissed (cons r c)")
    case True
    then show ?thesis using hub_match_ok[OF assms(1,2)] by (auto simp: hub_hit_def)
  qed (auto simp: hub_match_def hub_hit_def split: option.splits)
  have "for_each (\<lambda>c st. if filtered r None c then Some st else or_callback (hub_match_callback (cons r) hashes) c st) hs (0, Some calls) =
      Some (0, Some (calls @ map (\<lambda>c. (c, hub_hit hashes (cons r c))) (filter (\<lambda>c. \<not> dismissed (cons r c)) hs)))" for hs calls
    by (induction hs arbitrary: calls) (auto simp: filtered_def or_callback_def hub_match_callback_def one)
  then show ?thesis by (simp add: g2_qht_match_hubs_def g2_conreg_all_hub_def)
qed

theorem match_hubs_correct_witness:
  "g2_qht_match_hubs (two_reg\<lparr>neighbour_hubs := [1, 2]\<rparr>) [7] = Some [(1, True), (2, True)]"
proof -
  have "unat (7 :: u32) \<in> con_marks 1000 (two_cons 2)" by (simp add: two_marks QHT_DEFAULT_BITS_def)
  then have "hub_hit [7] (two_cons 1)" "hub_hit [7] (two_cons 2)"
    by (auto simp: hub_hit_def two_cons_def con_marks_def split: if_splits)
  moreover have "\<not> dismissed (two_cons c)" for c by (simp add: two_cons_def)
  ultimately show ?thesis
    using match_hubs_correct[of "two_reg\<lparr>neighbour_hubs := [1, 2]\<rparr>" "[7]"] two_ok(1,6) by (simp add: QHT_DEFAULT_BITS_def)
qed

end
