(* ===== verification/Sec_Buffer.thy ===== *)
theory Sec_Buffer
  imports G2_Prelude
begin

text \<open>
  The buffers of \<^verbatim>\<open>lib/sec_buffer.h\<close>.  The three C structures differ in where the bytes
  are (in the structure or behind a pointer); all have \<open>pos\<close>, \<open>limit\<close>, \<open>capacity\<close> and \<open>data\<close>,
  and the macros work on all of them, so one record models them.  \<open>data\<close> is the memory that
  starts at the \<open>data\<close> pointer, \<open>None\<close> the null pointer.
\<close>

record pointer_buff =
  pos :: nat
  limit :: nat
  capacity :: nat
  data :: "byte list option"

type_synonym norm_buff = pointer_buff
type_synonym big_buff = pointer_buff

definition buffer_remaining :: "pointer_buff \<Rightarrow> nat" where
  "buffer_remaining x = size_sub (limit x) (pos x)"

text \<open>The memory at \<open>buffer_start(x)\<close>, and the access \<open>*buffer_start(x)\<close>.\<close>

definition buffer_start :: "pointer_buff \<Rightarrow> byte list option" where
  "buffer_start x = map_option (drop (pos x)) (data x)"

definition buffer_get :: "pointer_buff \<Rightarrow> byte option" where
  "buffer_get x =
     (case data x of
        None \<Rightarrow> None
      | Some d \<Rightarrow> if pos x < length d then Some (d ! pos x) else None)"

text \<open>\<open>*buffer_start(x) = b\<close>.\<close>

definition buffer_put :: "byte \<Rightarrow> pointer_buff \<Rightarrow> pointer_buff option" where
  "buffer_put b x =
     (case data x of
        None \<Rightarrow> None
      | Some d \<Rightarrow> if pos x < length d then Some (x\<lparr>data := Some (d[pos x := b])\<rparr>) else None)"

text \<open>\<open>memcpy\<close> from and to \<open>buffer_start(x)\<close>.\<close>

definition buffer_read :: "nat \<Rightarrow> pointer_buff \<Rightarrow> byte list option" where
  "buffer_read n x =
     (if n = 0 then Some []
      else case data x of
        None \<Rightarrow> None
      | Some d \<Rightarrow> if pos x + n \<le> length d then Some (take n (drop (pos x) d)) else None)"

definition buffer_write :: "byte list \<Rightarrow> pointer_buff \<Rightarrow> pointer_buff option" where
  "buffer_write bs x =
     (if bs = [] then Some x
      else case data x of
        None \<Rightarrow> None
      | Some d \<Rightarrow>
          if pos x + length bs \<le> length d
          then Some (x\<lparr>data := Some (take (pos x) d @ bs @ drop (pos x + length bs) d)\<rparr>)
          else None)"

definition buffer_clear :: "pointer_buff \<Rightarrow> pointer_buff" where
  "buffer_clear x = x\<lparr>pos := 0, limit := capacity x\<rparr>"

definition buffer_flip :: "pointer_buff \<Rightarrow> pointer_buff" where
  "buffer_flip x = x\<lparr>limit := pos x, pos := 0\<rparr>"

definition buffer_unflip :: "pointer_buff \<Rightarrow> pointer_buff" where
  "buffer_unflip x = x\<lparr>pos := buffer_remaining x, limit := capacity x\<rparr>"

text \<open>\<open>memmove\<close> of the remaining bytes to the front.\<close>

definition buffer_compact :: "pointer_buff \<Rightarrow> pointer_buff option" where
  "buffer_compact x =
     (if buffer_remaining x \<noteq> 0 \<and> pos x \<noteq> 0 then
        Option.bind (buffer_read (buffer_remaining x) x)
          (\<lambda>bs. map_option (\<lambda>y. buffer_unflip (y\<lparr>pos := pos x\<rparr>)) (buffer_write bs (x\<lparr>pos := 0\<rparr>)))
      else Some (buffer_unflip x))"

definition buffer_skip :: "pointer_buff \<Rightarrow> pointer_buff" where
  "buffer_skip x = x\<lparr>pos := limit x\<rparr>"

definition buffer_headroom :: "pointer_buff \<Rightarrow> nat" where
  "buffer_headroom x = size_sub (capacity x) (limit x)"

definition buffer_possible_remaining :: "pointer_buff \<Rightarrow> nat" where
  "buffer_possible_remaining x = size_sub (capacity x) (pos x)"

definition buffer_cempty :: "pointer_buff \<Rightarrow> bool" where
  "buffer_cempty x = (pos x = 0)"

definition INIT_PBUF :: pointer_buff where
  "INIT_PBUF = \<lparr>pos = 0, limit = 0, capacity = 0, data = None\<rparr>"

subsection \<open>Well-formed buffers\<close>

definition wf_buff :: "pointer_buff \<Rightarrow> bool" where
  "wf_buff x \<longleftrightarrow>
     pos x \<le> limit x \<and> limit x \<le> capacity x \<and> capacity x \<le> SIZE_MAX \<and>
     (case data x of None \<Rightarrow> capacity x = 0 | Some d \<Rightarrow> capacity x \<le> length d)"

text \<open>The bytes between \<open>pos\<close> and \<open>limit\<close>: what a reader still gets.\<close>

definition buffer_bytes :: "pointer_buff \<Rightarrow> byte list" where
  "buffer_bytes x =
     (case data x of None \<Rightarrow> [] | Some d \<Rightarrow> take (limit x - pos x) (drop (pos x) d))"

text \<open>The bytes before \<open>pos\<close>: what a writer has written.\<close>

definition buffer_written :: "pointer_buff \<Rightarrow> byte list" where
  "buffer_written x = (case data x of None \<Rightarrow> [] | Some d \<Rightarrow> take (pos x) d)"

lemma wf_buff_pos: "wf_buff x \<Longrightarrow> pos x \<le> limit x"
  by (simp add: wf_buff_def)

lemma wf_buff_limit: "wf_buff x \<Longrightarrow> limit x \<le> capacity x"
  by (simp add: wf_buff_def)

lemma wf_buff_data: "wf_buff x \<Longrightarrow> data x = Some d \<Longrightarrow> capacity x \<le> length d"
  by (simp add: wf_buff_def)

lemma wf_INIT_PBUF [simp]: "wf_buff INIT_PBUF"
  by (simp add: wf_buff_def INIT_PBUF_def)

lemma wf_buffer_clear [simp]: "wf_buff x \<Longrightarrow> wf_buff (buffer_clear x)"
  by (auto simp: wf_buff_def buffer_clear_def split: option.splits)

lemma wf_buffer_flip [simp]: "wf_buff x \<Longrightarrow> wf_buff (buffer_flip x)"
  by (auto simp: wf_buff_def buffer_flip_def split: option.splits)

lemma wf_buffer_skip [simp]: "wf_buff x \<Longrightarrow> wf_buff (buffer_skip x)"
  by (auto simp: wf_buff_def buffer_skip_def split: option.splits)

lemma buffer_remaining_wf: "wf_buff x \<Longrightarrow> buffer_remaining x = limit x - pos x"
  by (simp add: buffer_remaining_def wf_buff_def)

lemma length_buffer_bytes: "wf_buff x \<Longrightarrow> length (buffer_bytes x) = buffer_remaining x"
  by (auto simp: buffer_bytes_def buffer_remaining_wf wf_buff_def split: option.splits)

lemma buffer_bytes_Nil: "wf_buff x \<Longrightarrow> buffer_bytes x = [] \<longleftrightarrow> buffer_remaining x = 0"
  using length_buffer_bytes[of x] by auto

lemma wf_buffer_unflip [simp]: "wf_buff x \<Longrightarrow> wf_buff (buffer_unflip x)"
  by (auto simp: wf_buff_def buffer_unflip_def buffer_remaining_def split: option.splits)

text \<open>A flip turns what was written into what is read; clearing gives the whole capacity.\<close>

lemma buffer_bytes_flip: "wf_buff x \<Longrightarrow> buffer_bytes (buffer_flip x) = buffer_written x"
  by (auto simp: buffer_bytes_def buffer_flip_def buffer_written_def split: option.splits)

lemma buffer_remaining_clear: "wf_buff x \<Longrightarrow> buffer_remaining (buffer_clear x) = capacity x"
  by (simp add: buffer_remaining_def buffer_clear_def)

subsection \<open>Reading\<close>

lemma buffer_get_wf:
  assumes "wf_buff x" and "buffer_remaining x \<noteq> 0"
  shows "buffer_get x = Some (hd (buffer_bytes x))"
  using assms
  by (auto simp: buffer_get_def buffer_bytes_def buffer_remaining_wf wf_buff_def hd_drop_conv_nth
      split: option.splits)

lemma buffer_bytes_advance:
  "pos x + n \<le> limit x \<Longrightarrow> buffer_bytes (x\<lparr>pos := pos x + n\<rparr>) = drop n (buffer_bytes x)"
  by (auto simp: buffer_bytes_def drop_take add.commute split: option.splits)

lemma wf_buff_advance: "wf_buff x \<Longrightarrow> pos x + n \<le> limit x \<Longrightarrow> wf_buff (x\<lparr>pos := pos x + n\<rparr>)"
  by (auto simp: wf_buff_def split: option.splits)

lemma buffer_remaining_advance:
  "wf_buff x \<Longrightarrow> pos x + n \<le> limit x \<Longrightarrow>
   buffer_remaining (x\<lparr>pos := pos x + n\<rparr>) = buffer_remaining x - n"
  by (simp add: buffer_remaining_def)

lemma buffer_read_wf:
  assumes "wf_buff x" and "n \<le> buffer_remaining x"
  shows "buffer_read n x = Some (take n (buffer_bytes x))"
  using assms
  by (auto simp: buffer_read_def buffer_bytes_def buffer_remaining_wf wf_buff_def min_def
      split: option.splits)

subsection \<open>Writing\<close>

lemma buffer_put_wf:
  assumes "wf_buff x" and "buffer_remaining x \<noteq> 0"
  obtains y where "buffer_put b x = Some y" and "wf_buff y" and "pos y = pos x"
    and "limit y = limit x" and "capacity y = capacity x"
    and "buffer_written (y\<lparr>pos := pos x + 1\<rparr>) = buffer_written x @ [b]"
proof -
  from assms obtain d where d: "data x = Some d" and lt: "pos x < length d"
    by (cases "data x") (auto simp: wf_buff_def buffer_remaining_wf)
  let ?y = "x\<lparr>data := Some (d[pos x := b])\<rparr>"
  have "buffer_put b x = Some ?y" using d lt by (simp add: buffer_put_def)
  moreover have "wf_buff ?y" using assms d by (simp add: wf_buff_def)
  moreover have "buffer_written (?y\<lparr>pos := pos x + 1\<rparr>) = buffer_written x @ [b]"
    using d lt by (simp add: buffer_written_def take_Suc_conv_app_nth)
  ultimately show thesis using that[of ?y] by simp
qed

lemma buffer_write_wf:
  assumes "wf_buff x" and "length bs \<le> buffer_remaining x"
  obtains y where "buffer_write bs x = Some y" and "wf_buff y" and "pos y = pos x"
    and "limit y = limit x" and "capacity y = capacity x"
    and "buffer_written (y\<lparr>pos := pos x + length bs\<rparr>) = buffer_written x @ bs"
proof (cases "bs = []")
  case True
  with assms show thesis using that[of x] by (simp add: buffer_write_def)
next
  case False
  with assms obtain d where d: "data x = Some d" and lt: "pos x + length bs \<le> length d"
    by (cases "data x") (auto simp: wf_buff_def buffer_remaining_wf)
  let ?y = "x\<lparr>data := Some (take (pos x) d @ bs @ drop (pos x + length bs) d)\<rparr>"
  have "buffer_write bs x = Some ?y" using d lt False by (simp add: buffer_write_def)
  moreover have "wf_buff ?y" using assms d lt by (simp add: wf_buff_def)
  moreover have "buffer_written (?y\<lparr>pos := pos x + length bs\<rparr>) = buffer_written x @ bs"
    using d lt by (simp add: buffer_written_def)
  ultimately show thesis using that[of ?y] by simp
qed

text \<open>Compacting keeps the remaining bytes and puts them before \<open>pos\<close>, ready to be appended to.\<close>

lemma buffer_compact_wf:
  assumes "wf_buff x"
  obtains y where "buffer_compact x = Some y" and "wf_buff y"
    and "buffer_written y = buffer_bytes x" and "limit y = capacity x"
proof (cases "buffer_remaining x \<noteq> 0 \<and> pos x \<noteq> 0")
  case True
  let ?n = "buffer_remaining x" and ?x0 = "x\<lparr>pos := 0\<rparr>"
  have rd: "buffer_read ?n x = Some (buffer_bytes x)"
    using buffer_read_wf[OF assms, of ?n] length_buffer_bytes[OF assms] by simp
  have wf0: "wf_buff ?x0" using assms by (auto simp: wf_buff_def split: option.splits)
  have fits: "length (buffer_bytes x) \<le> buffer_remaining ?x0"
    using assms length_buffer_bytes[OF assms] by (simp add: buffer_remaining_def wf_buff_def)
  have w0: "buffer_written ?x0 = []" by (simp add: buffer_written_def split: option.split)
  obtain y where y: "buffer_write (buffer_bytes x) ?x0 = Some y" "wf_buff y" "pos y = 0"
    "limit y = limit x" "capacity y = capacity x"
    "buffer_written (y\<lparr>pos := length (buffer_bytes x)\<rparr>) = buffer_bytes x"
    by (rule buffer_write_wf[OF wf0 fits]) (simp add: w0)
  let ?z = "buffer_unflip (y\<lparr>pos := pos x\<rparr>)"
  have wfp: "wf_buff (y\<lparr>pos := pos x\<rparr>)"
    using y assms by (auto simp: wf_buff_def split: option.splits)
  have "pos ?z = length (buffer_bytes x)"
    using y assms length_buffer_bytes[OF assms] by (simp add: buffer_unflip_def buffer_remaining_def)
  then have "buffer_written ?z = buffer_bytes x"
    using y(6) by (auto simp: buffer_written_def buffer_unflip_def split: option.splits)
  moreover have "buffer_compact x = Some ?z" using True rd y(1) by (simp add: buffer_compact_def)
  moreover have "limit ?z = capacity x" using y by (simp add: buffer_unflip_def)
  ultimately show thesis using that wf_buffer_unflip[OF wfp] by blast
next
  case False
  then have "buffer_written (buffer_unflip x) = buffer_bytes x"
    using assms by (auto simp: buffer_written_def buffer_unflip_def buffer_bytes_def
        buffer_remaining_wf split: option.splits)
  moreover have "buffer_compact x = Some (buffer_unflip x)"
    using False by (auto simp: buffer_compact_def)
  moreover have "limit (buffer_unflip x) = capacity x" by (simp add: buffer_unflip_def)
  ultimately show thesis using that wf_buffer_unflip[OF assms] by blast
qed

end
