(* ===== verification/Packet_Typer.thy ===== *)
theory Packet_Typer
  imports G2_Prelude
begin

text \<open>
  The packet types of the G2 protocol and the packet typer: the list of names in
  \<^verbatim>\<open>G2Packet.h\<close> (\<open>G2_PACKET_TYPES\<close>), the generator of the lookup table
  (\<^verbatim>\<open>G2PacketTyperGenerator.c\<close>, \<open>new_p_table\<close>) and the lookup in \<^verbatim>\<open>G2Packet.c\<close>
  (\<open>g2_packet_find_type\<close>).  The generator is run inside the logic, so the table the lookup
  works on is the one the build generates for a little endian target.
\<close>

subsection \<open>The packet type names\<close>

type_synonym g2_ptype = nat

text \<open>Name and sorting weight of every packet type, in the order of the enumeration.\<close>

definition G2_PACKET_TYPES :: "(string \<times> int) list" where
  "G2_PACKET_TYPES =
    [(''UNKNOWN'', 0), (''CRAWLA'', 0), (''CRAWLR'', 487), (''HAW'', 34051),
     (''KHL'', 297420), (''LNI'', 728729), (''PI'', 692539), (''PO'', 2834), (''PUSH'', 1),
     (''Q2'', 11284567), (''QA'', 739476), (''QH2'', 1134526), (''QHT'', 325942),
     (''QKR'', 4745308), (''QKA'', 436910), (''UPROC'', 16862), (''UPROD'', 0),
     (''KHLR'', 152), (''KHLA'', 0), (''DIS'', 1), (''JCT'', 9), (''G2CDc'', 0),
     (''DN'', 1697902), (''GU'', 748251), (''HS'', 70477), (''LS'', 728715),
     (''NA'', 778302), (''MD'', 988417), (''TS'', 304622), (''URN'', 20762681),
     (''NH'', 37200), (''CH'', 8083694), (''UKHLID'', 144), (''YOURIP'', 0), (''CV'', 1),
     (''V'', 778288), (''FW'', 302111), (''RTR'', 618), (''UP'', 1202), (''HA'', 1198),
     (''NFW'', 3), (''TCPNFW'', 3), (''UDPFW'', 1), (''UDPNFW'', 3), (''BUP'', 14715),
     (''BH'', 14473), (''BUSY'', 1), (''UNSTA'', 3050), (''H'', 1), (''HG'', 1),
     (''PCH'', 14133), (''UPRO'', 1), (''CS'', 1), (''CSC'', 1), (''COM'', 1), (''G'', 1),
     (''ID'', 1), (''PART'', 1), (''PVU'', 1), (''SZ'', 1), (''URL'', 1), (''SS'', 1),
     (''QKY'', 1), (''I'', 8176060), (''SZR'', 7530362), (''UDP'', 11359940), (''G1'', 4285),
     (''SV'', 1), (''G1PP'', 0), (''NOG1'', 561), (''D'', 56182), (''FR'', 1), (''RA'', 152),
     (''S'', 854114), (''NICK'', 1), (''SNA'', 1370245), (''QNA'', 1008435),
     (''QK'', 472136), (''CACHED'', 1), (''RNA'', 163513), (''REF'', 1), (''RLEAF'', 487),
     (''RNAME'', 487), (''RGPS'', 487), (''REXT'', 487), (''NL'', 0), (''SELF'', 0),
     (''HUB'', 0), (''LEAF'', 0), (''GPS'', 1200), (''NAME'', 0), (''RELAY'', 79960),
     (''TO'', 1), (''XML'', 1), (''g2core'', 1), (''dna'', 2630633), (''CR'', 117310),
     (''NAT'', 9662), (''QH1'', 28456), (''IDENT'', 784), (''NBW'', 1202), (''PM'', 0),
     (''CM'', 1200), (''TFW'', 810), (''G2NS'', 154), (''CLOSE'', 332), (''HURN'', 12711),
     (''HKEY'', 14131), (''MAXIMUM'', 0)]"

definition PT_UNKNOWN :: g2_ptype where
  "PT_UNKNOWN = 0"

definition PT_MAXIMUM :: g2_ptype where
  "PT_MAXIMUM = 108"

text \<open>A \<open>char[8]\<close> initialised with a string literal is padded with zero bytes.\<close>

definition char8 :: "string \<Rightarrow> byte list" where
  "char8 s = take 8 (map of_char s @ replicate 8 0)"

definition g2_ptype_names :: "byte list list" where
  "g2_ptype_names = map (char8 \<circ> fst) G2_PACKET_TYPES"

definition g2_ptype_names_length :: "nat list" where
  "g2_ptype_names_length = map (length \<circ> fst) G2_PACKET_TYPES"

text \<open>Loading a \<open>uint32_t\<close> from four bytes on a little endian machine.\<close>

definition load_le32 :: "byte list \<Rightarrow> nat \<Rightarrow> u32" where
  "load_le32 bs off =
     ucast (bs ! off) OR push_bit 8 (ucast (bs ! (off + 1))) OR
     push_bit 16 (ucast (bs ! (off + 2))) OR push_bit 24 (ucast (bs ! (off + 3)))"

subsection \<open>The table generator\<close>

record p_table =
  start :: u32
  ptype :: g2_ptype
  idx :: nat
  weight :: int

definition p_table_cmp :: "p_table \<Rightarrow> p_table \<Rightarrow> int" where
  "p_table_cmp aa bb =
     (let diff = sint (start aa - start bb)
      in if diff \<noteq> 0 then diff else signed_take_bit 31 (weight bb - weight aa))"

text \<open>
  \<open>qsort\<close>: C leaves the order of elements that compare equal open.  The comparison separates
  all entries of the table (\<open>p_table_cmp_separates\<close>), so every \<open>qsort\<close> has this result.
\<close>

fun qsort_merge :: "p_table list \<Rightarrow> p_table list \<Rightarrow> p_table list" where
  "qsort_merge [] ys = ys"
| "qsort_merge xs [] = xs"
| "qsort_merge (x # xs) (y # ys) =
     (if p_table_cmp x y \<le> 0 then x # qsort_merge xs (y # ys)
      else y # qsort_merge (x # xs) ys)"

fun qsort_p_table :: "p_table list \<Rightarrow> p_table list" where
  "qsort_p_table [] = []"
| "qsort_p_table [x] = [x]"
| "qsort_p_table (x # y # zs) =
     (let xs = x # y # zs; n = length xs div 2
      in qsort_merge (qsort_p_table (take n xs)) (qsort_p_table (drop n xs)))"

text \<open>
  Adding all packets: entry \<open>i - 1\<close> holds the first four characters of name \<open>i\<close>; a name with
  more than three characters gets a second entry behind the \<open>PT_MAXIMUM - 1\<close> first ones, with
  the other four characters.  The two parts of the array are returned separately.
\<close>

fun add_packets ::
    "(string \<times> int) list \<Rightarrow> nat \<Rightarrow> nat \<Rightarrow> p_table list \<times> p_table list" where
  "add_packets [] i back_index = ([], [])"
| "add_packets ((nm, w) # names) i back_index =
     (let c = char8 nm in
      if c ! 3 \<noteq> 0 then
        (let (fs, bs) = add_packets names (Suc i) (Suc back_index)
         in (\<lparr>start = load_le32 c 0, ptype = PT_UNKNOWN, idx = back_index, weight = w\<rparr> # fs,
             \<lparr>start = load_le32 c 4, ptype = i, idx = 0, weight = w\<rparr> # bs))
      else
        (let (fs, bs) = add_packets names (Suc i) back_index
         in (\<lparr>start = load_le32 c 0, ptype = i, idx = 0, weight = w\<rparr> # fs, bs)))"

definition remove_nth :: "nat \<Rightarrow> 'a list \<Rightarrow> 'a list" where
  "remove_nth i xs = take i xs @ drop (Suc i) xs"

text \<open>\<open>while(f[j].idx != 0) j = f[j].idx;\<close>\<close>

partial_function (option) chain_end :: "p_table list \<Rightarrow> nat \<Rightarrow> nat option" where
  "chain_end f j =
     (if \<not> j < length f then None
      else if idx (f ! j) \<noteq> 0 then chain_end f (idx (f ! j)) else Some j)"

text \<open>Remove and chain duplicates among the first \<open>base_num\<close> entries.\<close>

partial_function (option) chain_duplicates ::
    "nat \<Rightarrow> nat \<Rightarrow> p_table list \<Rightarrow> (nat \<times> p_table list) option" where
  "chain_duplicates i base_num f =
     (if \<not> i < base_num then Some (base_num, f)
      else if \<not> i < length f then None
      else if start (f ! (i - 1)) \<noteq> start (f ! i) then chain_duplicates (i + 1) base_num f
      else Option.bind (chain_end f (idx (f ! (i - 1))))
        (\<lambda>j. let f = f[j := (f ! j)\<lparr>idx := idx (f ! i)\<rparr>];
                 f = remove_nth i f;
                 f = map (\<lambda>e. if idx e \<noteq> 0 then e\<lparr>idx := idx e - 1\<rparr> else e) f
             in chain_duplicates i (base_num - 1) f))"

text \<open>Fold names of four characters back into their first entry.\<close>

partial_function (option) fold_second ::
    "nat \<Rightarrow> nat \<Rightarrow> p_table list \<Rightarrow> p_table list option" where
  "fold_second i base_num f =
     (if \<not> i < base_num then Some f
      else if \<not> i < length f then None
      else (let j = idx (f ! (i - 1)) in
        if drop_bit 24 (start (f ! (i - 1))) = 0 then fold_second (i + 1) base_num f
        else if \<not> j < length f then None
        else if start (f ! j) \<noteq> 0 then fold_second (i + 1) base_num f
        else if idx (f ! j) \<noteq> 0 then fold_second (i + 1) base_num f
        else (let f = f[i - 1 := (f ! (i - 1))\<lparr>ptype := ptype (f ! j), idx := 0\<rparr>];
                  f = remove_nth j f;
                  f = map (\<lambda>e. if idx e < j then e
                               else if idx e \<noteq> 0 then e\<lparr>idx := idx e - 1\<rparr> else e) f
              in fold_second (i + 1) base_num f)))"

definition swap_nth :: "nat \<Rightarrow> nat \<Rightarrow> 'a list \<Rightarrow> 'a list" where
  "swap_nth a b xs = xs[a := xs ! b, b := xs ! a]"

text \<open>The first entry that points to \<open>from\<close> is made to point to \<open>to\<close>.\<close>

fun relink_first :: "nat \<Rightarrow> nat \<Rightarrow> p_table list \<Rightarrow> p_table list" where
  "relink_first from to [] = []"
| "relink_first from to (e # es) =
     (if idx e = from then e\<lparr>idx := to\<rparr> # es else e # relink_first from to es)"

text \<open>Move the chain that starts at \<open>ix\<close> to the places from \<open>back_index\<close> on.\<close>

partial_function (option) sort_chain ::
    "nat \<Rightarrow> nat \<Rightarrow> p_table list \<Rightarrow> (nat \<times> p_table list) option" where
  "sort_chain ix back_index f =
     (if \<not> (ix < length f) then None
      else (let u = idx (f ! ix) in
        if u = 0 then Some (back_index, f)
        else if \<not> (u < length f \<and> back_index < length f) then None
        else (let f = (if u \<noteq> back_index then
                         (let f = relink_first back_index u (swap_nth u back_index f)
                          in f[ix := (f ! ix)\<lparr>idx := back_index\<rparr>])
                       else f)
              in sort_chain back_index (back_index + 1) f)))"

partial_function (option) sort_second ::
    "nat \<Rightarrow> nat \<Rightarrow> nat \<Rightarrow> p_table list \<Rightarrow> p_table list option" where
  "sort_second i base_num back_index f =
     (if \<not> i < base_num then Some f
      else if \<not> i < length f then None
      else (let ix = idx (f ! i) in
        if ix = 0 then sort_second (i + 1) base_num back_index f
        else if \<not> (ix < length f \<and> back_index < length f) then None
        else (let f = (if ix \<noteq> back_index
                       then relink_first back_index ix (swap_nth back_index ix f) else f);
                  f = f[i := (f ! i)\<lparr>idx := back_index\<rparr>]
              in Option.bind (sort_chain back_index (back_index + 1) f)
                   (\<lambda>(back_index, f). sort_second (i + 1) base_num back_index f))))"

text \<open>\<open>table_base_num\<close> and the table; \<open>None\<close> where the generator gives up.\<close>

definition new_p_table :: "(nat \<times> p_table list) option" where
  "new_p_table =
     (let (fs, bs) = add_packets (take (PT_MAXIMUM - 1) (tl G2_PACKET_TYPES)) 1 (PT_MAXIMUM - 1)
      in Option.bind (chain_duplicates 1 (PT_MAXIMUM - 1) (qsort_p_table fs @ bs))
        (\<lambda>(base_num, f). Option.bind (fold_second 1 base_num f)
          (\<lambda>f. Option.bind (sort_second 0 base_num base_num f)
            (\<lambda>f. if list_all (\<lambda>e. idx e \<le> 0xffff) f then Some (base_num, f) else None))))"

declare chain_end.simps [code] chain_duplicates.simps [code] fold_second.simps [code]
  sort_chain.simps [code] sort_second.simps [code]

subsection \<open>The packet typer\<close>

text \<open>A row of the generated table: \<open>c\<close>, \<open>t\<close>, \<open>idx\<close>.\<close>

type_synonym ptyper_row = "u32 \<times> g2_ptype \<times> nat"

definition T_NUM_BASE :: u32 where
  "T_NUM_BASE = word_of_nat (fst (the new_p_table))"

definition g2_ptyper_table :: "ptyper_row list" where
  "g2_ptyper_table = map (\<lambda>e. (start e, ptype e, idx e)) (snd (the new_p_table))"

text \<open>
  The bisection of \<open>g2_packet_find_type\<close> with its \<open>unsigned\<close> variables.  The result is the last
  \<open>mid\<close>; \<open>None\<close> is an access outside of the table.
\<close>

partial_function (option) ptyper_bsearch ::
    "ptyper_row list \<Rightarrow> u32 \<Rightarrow> u32 \<Rightarrow> u32 \<Rightarrow> u32 option" where
  "ptyper_bsearch tab key low high =
     (let mid = (low + high) div 2 in
      if \<not> mid < word_of_nat (length tab) then None
      else (let mval = fst (tab ! unat mid) in
        if mval < key then
          (let low = mid + 1 in
           if low \<le> high then ptyper_bsearch tab key low high else Some mid)
        else if mval > key then
          (let high = mid - 1 in
           if low \<le> high then ptyper_bsearch tab key low high else Some mid)
        else Some mid))"

text \<open>The walk along the second tier.\<close>

partial_function (option) ptyper_chain ::
    "ptyper_row list \<Rightarrow> u32 \<Rightarrow> nat \<Rightarrow> g2_ptype option" where
  "ptyper_chain tab key mid =
     (if \<not> mid < length tab then None
      else (let mid = snd (snd (tab ! mid)) in
        if \<not> mid < length tab then None
        else (let (c, t, ix) = tab ! mid in
          if c = key then Some t
          else if ix \<noteq> 0 then ptyper_chain tab key mid
          else Some PT_UNKNOWN)))"

declare ptyper_bsearch.simps [code] ptyper_chain.simps [code]

definition find_type_in :: "ptyper_row list \<Rightarrow> u32 \<Rightarrow> u32 \<Rightarrow> u32 \<Rightarrow> g2_ptype option" where
  "find_type_in tab num_base type0 type1 =
     Option.bind (ptyper_bsearch tab type0 0 (num_base - 1))
       (\<lambda>mid. let (mval, t, _) = tab ! unat mid in
          if mval = type0 then
            (if t \<noteq> PT_UNKNOWN then Some (if type1 = 0 then t else PT_UNKNOWN)
             else ptyper_chain tab type1 (unat mid))
          else Some PT_UNKNOWN)"

text \<open>
  \<open>g2_packet_find_type(packet, type)\<close> on the eight bytes of the type: the value that
  \<open>packet->type\<close> gets.
\<close>

definition g2_packet_find_type :: "byte list \<Rightarrow> g2_ptype option" where
  "g2_packet_find_type ty =
     find_type_in g2_ptyper_table T_NUM_BASE (load_le32 ty 0) (load_le32 ty 4)"

end
