(* ===== verification/Packet_Typer_Table.thy ===== *)
theory Packet_Typer_Table
  imports Packet_Typer
begin

text \<open>
  The table generator run by the simplifier, phase by phase: what \<open>new_p_table\<close> computes for
  the packet types of \<^verbatim>\<open>G2Packet.h\<close>.  The named lists are the contents of the array \<open>f\<close>
  after the phases of the generator.
\<close>

definition mk_row :: "u32 \<Rightarrow> g2_ptype \<Rightarrow> nat \<Rightarrow> int \<Rightarrow> p_table" where
  "mk_row s t i w = \<lparr>start = s, ptype = t, idx = i, weight = w\<rparr>"

definition typer_fs :: "p_table list" where
  "typer_fs =
    [mk_row 1463898691 0 107 0, mk_row 1463898691 0 108 487, mk_row 5718344 3 0 34051,
     mk_row 4999243 4 0 297420, mk_row 4804172 5 0 728729, mk_row 18768 6 0 692539,
     mk_row 20304 7 0 2834, mk_row 1213420880 0 109 1, mk_row 12881 9 0 11284567,
     mk_row 16721 10 0 739476, mk_row 3295313 11 0 1134526, mk_row 5523537 12 0 325942,
     mk_row 5393233 13 0 4745308, mk_row 4279121 14 0 436910, mk_row 1330794581 0 110 16862,
     mk_row 1330794581 0 111 0, mk_row 1380730955 0 112 152, mk_row 1095518283 0 113 0,
     mk_row 5458244 19 0 1, mk_row 5522250 20 0 9, mk_row 1145254471 0 114 0,
     mk_row 20036 22 0 1697902, mk_row 21831 23 0 748251, mk_row 21320 24 0 70477,
     mk_row 21324 25 0 728715, mk_row 16718 26 0 778302, mk_row 17485 27 0 988417,
     mk_row 21332 28 0 304622, mk_row 5132885 29 0 20762681, mk_row 18510 30 0 37200,
     mk_row 18499 31 0 8083694, mk_row 1279806293 0 115 144, mk_row 1381322585 0 116 0,
     mk_row 22083 34 0 1, mk_row 86 35 0 778288, mk_row 22342 36 0 302111,
     mk_row 5395538 37 0 618, mk_row 20565 38 0 1202, mk_row 16712 39 0 1198,
     mk_row 5719630 40 0 3, mk_row 1313882964 0 117 3, mk_row 1179665493 0 118 1,
     mk_row 1313883221 0 119 3, mk_row 5264706 44 0 14715, mk_row 18498 45 0 14473,
     mk_row 1498633538 0 120 1, mk_row 1414745685 0 121 3050, mk_row 72 48 0 1,
     mk_row 18248 49 0 1, mk_row 4735824 50 0 14133, mk_row 1330794581 0 122 1,
     mk_row 21315 52 0 1, mk_row 4412227 53 0 1, mk_row 5066563 54 0 1,
     mk_row 71 55 0 1, mk_row 17481 56 0 1, mk_row 1414676816 0 123 1,
     mk_row 5592656 58 0 1, mk_row 23123 59 0 1, mk_row 5001813 60 0 1,
     mk_row 21331 61 0 1, mk_row 5851985 62 0 1, mk_row 73 63 0 8176060,
     mk_row 5397075 64 0 7530362, mk_row 5260373 65 0 11359940, mk_row 12615 66 0 4285,
     mk_row 22099 67 0 1, mk_row 1347432775 0 124 0, mk_row 826756942 0 125 561,
     mk_row 68 70 0 56182, mk_row 21062 71 0 1, mk_row 16722 72 0 152,
     mk_row 83 73 0 854114, mk_row 1262700878 0 126 1, mk_row 4279891 75 0 1370245,
     mk_row 4279889 76 0 1008435, mk_row 19281 77 0 472136, mk_row 1212367171 0 127 1,
     mk_row 4279890 79 0 163513, mk_row 4605266 80 0 1, mk_row 1095060562 0 128 487,
     mk_row 1296125522 0 129 487, mk_row 1397770066 0 130 487, mk_row 1415071058 0 131 487,
     mk_row 19534 85 0 0, mk_row 1179403603 0 132 0, mk_row 4347208 87 0 0,
     mk_row 1178682700 0 133 0, mk_row 5460039 89 0 1200, mk_row 1162690894 0 134 0,
     mk_row 1095517522 0 135 79960, mk_row 20308 92 0 1, mk_row 5000536 93 0 1,
     mk_row 1868771943 0 136 1, mk_row 6385252 95 0 2630633, mk_row 21059 96 0 117310,
     mk_row 5521742 97 0 9662, mk_row 3229777 98 0 28456, mk_row 1313162313 0 137 784,
     mk_row 5718606 100 0 1202, mk_row 19792 101 0 0, mk_row 19779 102 0 1200,
     mk_row 5719636 103 0 810, mk_row 1397633607 0 138 154, mk_row 1397705795 0 139 332,
     mk_row 1314018632 0 140 12711, mk_row 1497713480 0 141 14131]"

definition typer_bs :: "p_table list" where
  "typer_bs =
    [mk_row 16716 1 0 0, mk_row 21068 2 0 487, mk_row 0 8 0 1,
     mk_row 67 15 0 16862, mk_row 68 16 0 0, mk_row 0 17 0 152,
     mk_row 0 18 0 0, mk_row 99 21 0 0, mk_row 17481 32 0 144,
     mk_row 20553 33 0 0, mk_row 22342 41 0 3, mk_row 87 42 0 1,
     mk_row 22342 43 0 3, mk_row 0 46 0 1, mk_row 65 47 0 3050,
     mk_row 0 51 0 1, mk_row 0 57 0 1, mk_row 0 68 0 0,
     mk_row 0 69 0 561, mk_row 0 74 0 1, mk_row 17477 78 0 1,
     mk_row 70 81 0 487, mk_row 69 82 0 487, mk_row 0 83 0 487,
     mk_row 0 84 0 487, mk_row 0 86 0 0, mk_row 0 88 0 0,
     mk_row 0 90 0 0, mk_row 89 91 0 79960, mk_row 25970 94 0 1,
     mk_row 84 99 0 784, mk_row 0 104 0 154, mk_row 69 105 0 332,
     mk_row 0 106 0 12711, mk_row 0 107 0 14131]"

definition typer_sorted :: "p_table list" where
  "typer_sorted =
    [mk_row 68 70 0 56182, mk_row 71 55 0 1, mk_row 72 48 0 1,
     mk_row 73 63 0 8176060, mk_row 83 73 0 854114, mk_row 86 35 0 778288,
     mk_row 12615 66 0 4285, mk_row 12881 9 0 11284567, mk_row 16712 39 0 1198,
     mk_row 16718 26 0 778302, mk_row 16721 10 0 739476, mk_row 16722 72 0 152,
     mk_row 17481 56 0 1, mk_row 17485 27 0 988417, mk_row 18248 49 0 1,
     mk_row 18498 45 0 14473, mk_row 18499 31 0 8083694, mk_row 18510 30 0 37200,
     mk_row 18768 6 0 692539, mk_row 19281 77 0 472136, mk_row 19534 85 0 0,
     mk_row 19779 102 0 1200, mk_row 19792 101 0 0, mk_row 20036 22 0 1697902,
     mk_row 20304 7 0 2834, mk_row 20308 92 0 1, mk_row 20565 38 0 1202,
     mk_row 21059 96 0 117310, mk_row 21062 71 0 1, mk_row 21315 52 0 1,
     mk_row 21320 24 0 70477, mk_row 21324 25 0 728715, mk_row 21331 61 0 1,
     mk_row 21332 28 0 304622, mk_row 21831 23 0 748251, mk_row 22083 34 0 1,
     mk_row 22099 67 0 1, mk_row 22342 36 0 302111, mk_row 23123 59 0 1,
     mk_row 3229777 98 0 28456, mk_row 3295313 11 0 1134526, mk_row 4279121 14 0 436910,
     mk_row 4279889 76 0 1008435, mk_row 4279890 79 0 163513, mk_row 4279891 75 0 1370245,
     mk_row 4347208 87 0 0, mk_row 4412227 53 0 1, mk_row 4605266 80 0 1,
     mk_row 4735824 50 0 14133, mk_row 4804172 5 0 728729, mk_row 4999243 4 0 297420,
     mk_row 5000536 93 0 1, mk_row 5001813 60 0 1, mk_row 5066563 54 0 1,
     mk_row 5132885 29 0 20762681, mk_row 5260373 65 0 11359940, mk_row 5264706 44 0 14715,
     mk_row 5393233 13 0 4745308, mk_row 5395538 37 0 618, mk_row 5397075 64 0 7530362,
     mk_row 5458244 19 0 1, mk_row 5460039 89 0 1200, mk_row 5521742 97 0 9662,
     mk_row 5522250 20 0 9, mk_row 5523537 12 0 325942, mk_row 5592656 58 0 1,
     mk_row 5718344 3 0 34051, mk_row 5718606 100 0 1202, mk_row 5719630 40 0 3,
     mk_row 5719636 103 0 810, mk_row 5851985 62 0 1, mk_row 6385252 95 0 2630633,
     mk_row 826756942 0 125 561, mk_row 1095060562 0 128 487, mk_row 1095517522 0 135 79960,
     mk_row 1095518283 0 113 0, mk_row 1145254471 0 114 0, mk_row 1162690894 0 134 0,
     mk_row 1178682700 0 133 0, mk_row 1179403603 0 132 0, mk_row 1179665493 0 118 1,
     mk_row 1212367171 0 127 1, mk_row 1213420880 0 109 1, mk_row 1262700878 0 126 1,
     mk_row 1279806293 0 115 144, mk_row 1296125522 0 129 487, mk_row 1313162313 0 137 784,
     mk_row 1313882964 0 117 3, mk_row 1313883221 0 119 3, mk_row 1314018632 0 140 12711,
     mk_row 1330794581 0 110 16862, mk_row 1330794581 0 122 1, mk_row 1330794581 0 111 0,
     mk_row 1347432775 0 124 0, mk_row 1380730955 0 112 152, mk_row 1381322585 0 116 0,
     mk_row 1397633607 0 138 154, mk_row 1397705795 0 139 332, mk_row 1397770066 0 130 487,
     mk_row 1414676816 0 123 1, mk_row 1414745685 0 121 3050, mk_row 1415071058 0 131 487,
     mk_row 1463898691 0 108 487, mk_row 1463898691 0 107 0, mk_row 1497713480 0 141 14131,
     mk_row 1498633538 0 120 1, mk_row 1868771943 0 136 1]"

definition typer_chained :: "p_table list" where
  "typer_chained =
    [mk_row 68 70 0 56182, mk_row 71 55 0 1, mk_row 72 48 0 1,
     mk_row 73 63 0 8176060, mk_row 83 73 0 854114, mk_row 86 35 0 778288,
     mk_row 12615 66 0 4285, mk_row 12881 9 0 11284567, mk_row 16712 39 0 1198,
     mk_row 16718 26 0 778302, mk_row 16721 10 0 739476, mk_row 16722 72 0 152,
     mk_row 17481 56 0 1, mk_row 17485 27 0 988417, mk_row 18248 49 0 1,
     mk_row 18498 45 0 14473, mk_row 18499 31 0 8083694, mk_row 18510 30 0 37200,
     mk_row 18768 6 0 692539, mk_row 19281 77 0 472136, mk_row 19534 85 0 0,
     mk_row 19779 102 0 1200, mk_row 19792 101 0 0, mk_row 20036 22 0 1697902,
     mk_row 20304 7 0 2834, mk_row 20308 92 0 1, mk_row 20565 38 0 1202,
     mk_row 21059 96 0 117310, mk_row 21062 71 0 1, mk_row 21315 52 0 1,
     mk_row 21320 24 0 70477, mk_row 21324 25 0 728715, mk_row 21331 61 0 1,
     mk_row 21332 28 0 304622, mk_row 21831 23 0 748251, mk_row 22083 34 0 1,
     mk_row 22099 67 0 1, mk_row 22342 36 0 302111, mk_row 23123 59 0 1,
     mk_row 3229777 98 0 28456, mk_row 3295313 11 0 1134526, mk_row 4279121 14 0 436910,
     mk_row 4279889 76 0 1008435, mk_row 4279890 79 0 163513, mk_row 4279891 75 0 1370245,
     mk_row 4347208 87 0 0, mk_row 4412227 53 0 1, mk_row 4605266 80 0 1,
     mk_row 4735824 50 0 14133, mk_row 4804172 5 0 728729, mk_row 4999243 4 0 297420,
     mk_row 5000536 93 0 1, mk_row 5001813 60 0 1, mk_row 5066563 54 0 1,
     mk_row 5132885 29 0 20762681, mk_row 5260373 65 0 11359940, mk_row 5264706 44 0 14715,
     mk_row 5393233 13 0 4745308, mk_row 5395538 37 0 618, mk_row 5397075 64 0 7530362,
     mk_row 5458244 19 0 1, mk_row 5460039 89 0 1200, mk_row 5521742 97 0 9662,
     mk_row 5522250 20 0 9, mk_row 5523537 12 0 325942, mk_row 5592656 58 0 1,
     mk_row 5718344 3 0 34051, mk_row 5718606 100 0 1202, mk_row 5719630 40 0 3,
     mk_row 5719636 103 0 810, mk_row 5851985 62 0 1, mk_row 6385252 95 0 2630633,
     mk_row 826756942 0 122 561, mk_row 1095060562 0 125 487, mk_row 1095517522 0 132 79960,
     mk_row 1095518283 0 110 0, mk_row 1145254471 0 111 0, mk_row 1162690894 0 131 0,
     mk_row 1178682700 0 130 0, mk_row 1179403603 0 129 0, mk_row 1179665493 0 115 1,
     mk_row 1212367171 0 124 1, mk_row 1213420880 0 106 1, mk_row 1262700878 0 123 1,
     mk_row 1279806293 0 112 144, mk_row 1296125522 0 126 487, mk_row 1313162313 0 134 784,
     mk_row 1313882964 0 114 3, mk_row 1313883221 0 116 3, mk_row 1314018632 0 137 12711,
     mk_row 1330794581 0 107 16862, mk_row 1347432775 0 121 0, mk_row 1380730955 0 109 152,
     mk_row 1381322585 0 113 0, mk_row 1397633607 0 135 154, mk_row 1397705795 0 136 332,
     mk_row 1397770066 0 127 487, mk_row 1414676816 0 120 1, mk_row 1414745685 0 118 3050,
     mk_row 1415071058 0 128 487, mk_row 1463898691 0 105 487, mk_row 1497713480 0 138 14131,
     mk_row 1498633538 0 117 1, mk_row 1868771943 0 133 1, mk_row 16716 1 0 0,
     mk_row 21068 2 104 487, mk_row 0 8 0 1, mk_row 67 15 119 16862,
     mk_row 68 16 0 0, mk_row 0 17 0 152, mk_row 0 18 0 0,
     mk_row 99 21 0 0, mk_row 17481 32 0 144, mk_row 20553 33 0 0,
     mk_row 22342 41 0 3, mk_row 87 42 0 1, mk_row 22342 43 0 3,
     mk_row 0 46 0 1, mk_row 65 47 0 3050, mk_row 0 51 108 1,
     mk_row 0 57 0 1, mk_row 0 68 0 0, mk_row 0 69 0 561,
     mk_row 0 74 0 1, mk_row 17477 78 0 1, mk_row 70 81 0 487,
     mk_row 69 82 0 487, mk_row 0 83 0 487, mk_row 0 84 0 487,
     mk_row 0 86 0 0, mk_row 0 88 0 0, mk_row 0 90 0 0,
     mk_row 89 91 0 79960, mk_row 25970 94 0 1, mk_row 84 99 0 784,
     mk_row 0 104 0 154, mk_row 69 105 0 332, mk_row 0 106 0 12711,
     mk_row 0 107 0 14131]"

definition typer_folded :: "p_table list" where
  "typer_folded =
    [mk_row 68 70 0 56182, mk_row 71 55 0 1, mk_row 72 48 0 1,
     mk_row 73 63 0 8176060, mk_row 83 73 0 854114, mk_row 86 35 0 778288,
     mk_row 12615 66 0 4285, mk_row 12881 9 0 11284567, mk_row 16712 39 0 1198,
     mk_row 16718 26 0 778302, mk_row 16721 10 0 739476, mk_row 16722 72 0 152,
     mk_row 17481 56 0 1, mk_row 17485 27 0 988417, mk_row 18248 49 0 1,
     mk_row 18498 45 0 14473, mk_row 18499 31 0 8083694, mk_row 18510 30 0 37200,
     mk_row 18768 6 0 692539, mk_row 19281 77 0 472136, mk_row 19534 85 0 0,
     mk_row 19779 102 0 1200, mk_row 19792 101 0 0, mk_row 20036 22 0 1697902,
     mk_row 20304 7 0 2834, mk_row 20308 92 0 1, mk_row 20565 38 0 1202,
     mk_row 21059 96 0 117310, mk_row 21062 71 0 1, mk_row 21315 52 0 1,
     mk_row 21320 24 0 70477, mk_row 21324 25 0 728715, mk_row 21331 61 0 1,
     mk_row 21332 28 0 304622, mk_row 21831 23 0 748251, mk_row 22083 34 0 1,
     mk_row 22099 67 0 1, mk_row 22342 36 0 302111, mk_row 23123 59 0 1,
     mk_row 3229777 98 0 28456, mk_row 3295313 11 0 1134526, mk_row 4279121 14 0 436910,
     mk_row 4279889 76 0 1008435, mk_row 4279890 79 0 163513, mk_row 4279891 75 0 1370245,
     mk_row 4347208 87 0 0, mk_row 4412227 53 0 1, mk_row 4605266 80 0 1,
     mk_row 4735824 50 0 14133, mk_row 4804172 5 0 728729, mk_row 4999243 4 0 297420,
     mk_row 5000536 93 0 1, mk_row 5001813 60 0 1, mk_row 5066563 54 0 1,
     mk_row 5132885 29 0 20762681, mk_row 5260373 65 0 11359940, mk_row 5264706 44 0 14715,
     mk_row 5393233 13 0 4745308, mk_row 5395538 37 0 618, mk_row 5397075 64 0 7530362,
     mk_row 5458244 19 0 1, mk_row 5460039 89 0 1200, mk_row 5521742 97 0 9662,
     mk_row 5522250 20 0 9, mk_row 5523537 12 0 325942, mk_row 5592656 58 0 1,
     mk_row 5718344 3 0 34051, mk_row 5718606 100 0 1202, mk_row 5719630 40 0 3,
     mk_row 5719636 103 0 810, mk_row 5851985 62 0 1, mk_row 6385252 95 0 2630633,
     mk_row 826756942 69 0 561, mk_row 1095060562 0 117 487, mk_row 1095517522 0 119 79960,
     mk_row 1095518283 18 0 0, mk_row 1145254471 0 108 0, mk_row 1162690894 90 0 0,
     mk_row 1178682700 88 0 0, mk_row 1179403603 86 0 0, mk_row 1179665493 0 112 1,
     mk_row 1212367171 0 116 1, mk_row 1213420880 8 0 1, mk_row 1262700878 74 0 1,
     mk_row 1279806293 0 109 144, mk_row 1296125522 0 118 487, mk_row 1313162313 0 121 784,
     mk_row 1313882964 0 111 3, mk_row 1313883221 0 113 3, mk_row 1314018632 106 0 12711,
     mk_row 1330794581 0 106 16862, mk_row 1347432775 68 0 0, mk_row 1380730955 17 0 152,
     mk_row 1381322585 0 110 0, mk_row 1397633607 104 0 154, mk_row 1397705795 0 122 332,
     mk_row 1397770066 83 0 487, mk_row 1414676816 57 0 1, mk_row 1414745685 0 114 3050,
     mk_row 1415071058 84 0 487, mk_row 1463898691 0 105 487, mk_row 1497713480 107 0 14131,
     mk_row 1498633538 46 0 1, mk_row 1868771943 0 120 1, mk_row 16716 1 0 0,
     mk_row 21068 2 104 487, mk_row 67 15 115 16862, mk_row 68 16 0 0,
     mk_row 99 21 0 0, mk_row 17481 32 0 144, mk_row 20553 33 0 0,
     mk_row 22342 41 0 3, mk_row 87 42 0 1, mk_row 22342 43 0 3,
     mk_row 65 47 0 3050, mk_row 0 51 107 1, mk_row 17477 78 0 1,
     mk_row 70 81 0 487, mk_row 69 82 0 487, mk_row 89 91 0 79960,
     mk_row 25970 94 0 1, mk_row 84 99 0 784, mk_row 69 105 0 332]"

definition typer_final :: "p_table list" where
  "typer_final =
    [mk_row 68 70 0 56182, mk_row 71 55 0 1, mk_row 72 48 0 1,
     mk_row 73 63 0 8176060, mk_row 83 73 0 854114, mk_row 86 35 0 778288,
     mk_row 12615 66 0 4285, mk_row 12881 9 0 11284567, mk_row 16712 39 0 1198,
     mk_row 16718 26 0 778302, mk_row 16721 10 0 739476, mk_row 16722 72 0 152,
     mk_row 17481 56 0 1, mk_row 17485 27 0 988417, mk_row 18248 49 0 1,
     mk_row 18498 45 0 14473, mk_row 18499 31 0 8083694, mk_row 18510 30 0 37200,
     mk_row 18768 6 0 692539, mk_row 19281 77 0 472136, mk_row 19534 85 0 0,
     mk_row 19779 102 0 1200, mk_row 19792 101 0 0, mk_row 20036 22 0 1697902,
     mk_row 20304 7 0 2834, mk_row 20308 92 0 1, mk_row 20565 38 0 1202,
     mk_row 21059 96 0 117310, mk_row 21062 71 0 1, mk_row 21315 52 0 1,
     mk_row 21320 24 0 70477, mk_row 21324 25 0 728715, mk_row 21331 61 0 1,
     mk_row 21332 28 0 304622, mk_row 21831 23 0 748251, mk_row 22083 34 0 1,
     mk_row 22099 67 0 1, mk_row 22342 36 0 302111, mk_row 23123 59 0 1,
     mk_row 3229777 98 0 28456, mk_row 3295313 11 0 1134526, mk_row 4279121 14 0 436910,
     mk_row 4279889 76 0 1008435, mk_row 4279890 79 0 163513, mk_row 4279891 75 0 1370245,
     mk_row 4347208 87 0 0, mk_row 4412227 53 0 1, mk_row 4605266 80 0 1,
     mk_row 4735824 50 0 14133, mk_row 4804172 5 0 728729, mk_row 4999243 4 0 297420,
     mk_row 5000536 93 0 1, mk_row 5001813 60 0 1, mk_row 5066563 54 0 1,
     mk_row 5132885 29 0 20762681, mk_row 5260373 65 0 11359940, mk_row 5264706 44 0 14715,
     mk_row 5393233 13 0 4745308, mk_row 5395538 37 0 618, mk_row 5397075 64 0 7530362,
     mk_row 5458244 19 0 1, mk_row 5460039 89 0 1200, mk_row 5521742 97 0 9662,
     mk_row 5522250 20 0 9, mk_row 5523537 12 0 325942, mk_row 5592656 58 0 1,
     mk_row 5718344 3 0 34051, mk_row 5718606 100 0 1202, mk_row 5719630 40 0 3,
     mk_row 5719636 103 0 810, mk_row 5851985 62 0 1, mk_row 6385252 95 0 2630633,
     mk_row 826756942 69 0 561, mk_row 1095060562 0 104 487, mk_row 1095517522 0 105 79960,
     mk_row 1095518283 18 0 0, mk_row 1145254471 0 106 0, mk_row 1162690894 90 0 0,
     mk_row 1178682700 88 0 0, mk_row 1179403603 86 0 0, mk_row 1179665493 0 107 1,
     mk_row 1212367171 0 108 1, mk_row 1213420880 8 0 1, mk_row 1262700878 74 0 1,
     mk_row 1279806293 0 109 144, mk_row 1296125522 0 110 487, mk_row 1313162313 0 111 784,
     mk_row 1313882964 0 112 3, mk_row 1313883221 0 113 3, mk_row 1314018632 106 0 12711,
     mk_row 1330794581 0 114 16862, mk_row 1347432775 68 0 0, mk_row 1380730955 17 0 152,
     mk_row 1381322585 0 117 0, mk_row 1397633607 104 0 154, mk_row 1397705795 0 118 332,
     mk_row 1397770066 83 0 487, mk_row 1414676816 57 0 1, mk_row 1414745685 0 119 3050,
     mk_row 1415071058 84 0 487, mk_row 1463898691 0 120 487, mk_row 1497713480 107 0 14131,
     mk_row 1498633538 46 0 1, mk_row 1868771943 0 122 1, mk_row 70 81 0 487,
     mk_row 89 91 0 79960, mk_row 99 21 0 0, mk_row 87 42 0 1,
     mk_row 17477 78 0 1, mk_row 17481 32 0 144, mk_row 69 82 0 487,
     mk_row 84 99 0 784, mk_row 22342 41 0 3, mk_row 22342 43 0 3,
     mk_row 67 15 115 16862, mk_row 0 51 116 1, mk_row 68 16 0 0,
     mk_row 20553 33 0 0, mk_row 69 105 0 332, mk_row 65 47 0 3050,
     mk_row 21068 2 121 487, mk_row 16716 1 0 0, mk_row 25970 94 0 1]"

lemma add_packets_eval:
  "add_packets (take (PT_MAXIMUM - 1) (tl G2_PACKET_TYPES)) 1 (PT_MAXIMUM - 1) =
     (typer_fs, typer_bs)"
  by (simp add: typer_fs_def typer_bs_def mk_row_def G2_PACKET_TYPES_def PT_MAXIMUM_def
      PT_UNKNOWN_def load_le32_def char8_def)

lemma qsort_eval: "qsort_p_table typer_fs = typer_sorted"
  by code_simp

lemma chain_duplicates_eval:
  "chain_duplicates 1 (PT_MAXIMUM - 1) (typer_sorted @ typer_bs) = Some (104, typer_chained)"
  by code_simp

lemma fold_second_eval: "fold_second 1 104 typer_chained = Some typer_folded"
  by code_simp

lemma sort_second_eval: "sort_second 0 104 104 typer_folded = Some typer_final"
  by code_simp

lemma typer_final_small: "list_all (\<lambda>e. idx e \<le> 0xffff) typer_final"
  by (simp add: typer_final_def mk_row_def)

theorem new_p_table_eval: "new_p_table = Some (104, typer_final)"
  by (simp only: new_p_table_def add_packets_eval qsort_eval chain_duplicates_eval
      fold_second_eval sort_second_eval typer_final_small Let_def prod.case
      Option.bind.bind_lunit if_True)

lemma T_NUM_BASE_eval [code]: "T_NUM_BASE = 104"
  by (simp add: T_NUM_BASE_def new_p_table_eval)

definition ptyper_rows :: "ptyper_row list" where
  "ptyper_rows =
    [(68, 70, 0), (71, 55, 0), (72, 48, 0), (73, 63, 0), (83, 73, 0),
     (86, 35, 0), (12615, 66, 0), (12881, 9, 0), (16712, 39, 0), (16718, 26, 0),
     (16721, 10, 0), (16722, 72, 0), (17481, 56, 0), (17485, 27, 0), (18248, 49, 0),
     (18498, 45, 0), (18499, 31, 0), (18510, 30, 0), (18768, 6, 0), (19281, 77, 0),
     (19534, 85, 0), (19779, 102, 0), (19792, 101, 0), (20036, 22, 0), (20304, 7, 0),
     (20308, 92, 0), (20565, 38, 0), (21059, 96, 0), (21062, 71, 0), (21315, 52, 0),
     (21320, 24, 0), (21324, 25, 0), (21331, 61, 0), (21332, 28, 0), (21831, 23, 0),
     (22083, 34, 0), (22099, 67, 0), (22342, 36, 0), (23123, 59, 0), (3229777, 98, 0),
     (3295313, 11, 0), (4279121, 14, 0), (4279889, 76, 0), (4279890, 79, 0), (4279891, 75, 0),
     (4347208, 87, 0), (4412227, 53, 0), (4605266, 80, 0), (4735824, 50, 0), (4804172, 5, 0),
     (4999243, 4, 0), (5000536, 93, 0), (5001813, 60, 0), (5066563, 54, 0), (5132885, 29, 0),
     (5260373, 65, 0), (5264706, 44, 0), (5393233, 13, 0), (5395538, 37, 0), (5397075, 64, 0),
     (5458244, 19, 0), (5460039, 89, 0), (5521742, 97, 0), (5522250, 20, 0), (5523537, 12, 0),
     (5592656, 58, 0), (5718344, 3, 0), (5718606, 100, 0), (5719630, 40, 0), (5719636, 103, 0),
     (5851985, 62, 0), (6385252, 95, 0), (826756942, 69, 0), (1095060562, 0, 104), (1095517522, 0, 105),
     (1095518283, 18, 0), (1145254471, 0, 106), (1162690894, 90, 0), (1178682700, 88, 0), (1179403603, 86, 0),
     (1179665493, 0, 107), (1212367171, 0, 108), (1213420880, 8, 0), (1262700878, 74, 0), (1279806293, 0, 109),
     (1296125522, 0, 110), (1313162313, 0, 111), (1313882964, 0, 112), (1313883221, 0, 113), (1314018632, 106, 0),
     (1330794581, 0, 114), (1347432775, 68, 0), (1380730955, 17, 0), (1381322585, 0, 117), (1397633607, 104, 0),
     (1397705795, 0, 118), (1397770066, 83, 0), (1414676816, 57, 0), (1414745685, 0, 119), (1415071058, 84, 0),
     (1463898691, 0, 120), (1497713480, 107, 0), (1498633538, 46, 0), (1868771943, 0, 122), (70, 81, 0),
     (89, 91, 0), (99, 21, 0), (87, 42, 0), (17477, 78, 0), (17481, 32, 0),
     (69, 82, 0), (84, 99, 0), (22342, 41, 0), (22342, 43, 0), (67, 15, 115),
     (0, 51, 116), (68, 16, 0), (20553, 33, 0), (69, 105, 0), (65, 47, 0),
     (21068, 2, 121), (16716, 1, 0), (25970, 94, 0)]"

lemma g2_ptyper_table_eval [code]: "g2_ptyper_table = ptyper_rows"
  by (simp add: g2_ptyper_table_def new_p_table_eval typer_final_def ptyper_rows_def mk_row_def)

text \<open>The names and their lengths, evaluated.\<close>

lemma g2_ptype_names_length_eval [code]:
  "g2_ptype_names_length =
    [7, 6, 6, 3, 3, 3, 2, 2, 4, 2, 2, 3, 3, 3, 3, 5, 5, 4, 4, 3, 3, 5, 2, 2, 2, 2, 2, 2, 2, 3,
     2, 2, 6, 6, 2, 1, 2, 3, 2, 2, 3, 6, 5, 6, 3, 2, 4, 5, 1, 2, 3, 4, 2, 3, 3, 1, 2, 4, 3, 2,
     3, 2, 3, 1, 3, 3, 2, 2, 4, 4, 1, 2, 2, 1, 4, 3, 3, 2, 6, 3, 3, 5, 5, 4, 4, 2, 4, 3, 4, 3,
     4, 5, 2, 3, 6, 3, 2, 3, 3, 5, 3, 2, 2, 3, 4, 5, 4, 4, 7]"
  by (simp add: g2_ptype_names_length_def G2_PACKET_TYPES_def)

lemma g2_ptype_names_eval [code]:
  "g2_ptype_names =
    [[85, 78, 75, 78, 79, 87, 78, 0], [67, 82, 65, 87, 76, 65, 0, 0],
     [67, 82, 65, 87, 76, 82, 0, 0], [72, 65, 87, 0, 0, 0, 0, 0], [75, 72, 76, 0, 0, 0, 0, 0],
     [76, 78, 73, 0, 0, 0, 0, 0], [80, 73, 0, 0, 0, 0, 0, 0], [80, 79, 0, 0, 0, 0, 0, 0],
     [80, 85, 83, 72, 0, 0, 0, 0], [81, 50, 0, 0, 0, 0, 0, 0], [81, 65, 0, 0, 0, 0, 0, 0],
     [81, 72, 50, 0, 0, 0, 0, 0], [81, 72, 84, 0, 0, 0, 0, 0], [81, 75, 82, 0, 0, 0, 0, 0],
     [81, 75, 65, 0, 0, 0, 0, 0], [85, 80, 82, 79, 67, 0, 0, 0], [85, 80, 82, 79, 68, 0, 0, 0],
     [75, 72, 76, 82, 0, 0, 0, 0], [75, 72, 76, 65, 0, 0, 0, 0], [68, 73, 83, 0, 0, 0, 0, 0],
     [74, 67, 84, 0, 0, 0, 0, 0], [71, 50, 67, 68, 99, 0, 0, 0], [68, 78, 0, 0, 0, 0, 0, 0],
     [71, 85, 0, 0, 0, 0, 0, 0], [72, 83, 0, 0, 0, 0, 0, 0], [76, 83, 0, 0, 0, 0, 0, 0],
     [78, 65, 0, 0, 0, 0, 0, 0], [77, 68, 0, 0, 0, 0, 0, 0], [84, 83, 0, 0, 0, 0, 0, 0],
     [85, 82, 78, 0, 0, 0, 0, 0], [78, 72, 0, 0, 0, 0, 0, 0], [67, 72, 0, 0, 0, 0, 0, 0],
     [85, 75, 72, 76, 73, 68, 0, 0], [89, 79, 85, 82, 73, 80, 0, 0],
     [67, 86, 0, 0, 0, 0, 0, 0], [86, 0, 0, 0, 0, 0, 0, 0], [70, 87, 0, 0, 0, 0, 0, 0],
     [82, 84, 82, 0, 0, 0, 0, 0], [85, 80, 0, 0, 0, 0, 0, 0], [72, 65, 0, 0, 0, 0, 0, 0],
     [78, 70, 87, 0, 0, 0, 0, 0], [84, 67, 80, 78, 70, 87, 0, 0],
     [85, 68, 80, 70, 87, 0, 0, 0], [85, 68, 80, 78, 70, 87, 0, 0],
     [66, 85, 80, 0, 0, 0, 0, 0], [66, 72, 0, 0, 0, 0, 0, 0], [66, 85, 83, 89, 0, 0, 0, 0],
     [85, 78, 83, 84, 65, 0, 0, 0], [72, 0, 0, 0, 0, 0, 0, 0], [72, 71, 0, 0, 0, 0, 0, 0],
     [80, 67, 72, 0, 0, 0, 0, 0], [85, 80, 82, 79, 0, 0, 0, 0], [67, 83, 0, 0, 0, 0, 0, 0],
     [67, 83, 67, 0, 0, 0, 0, 0], [67, 79, 77, 0, 0, 0, 0, 0], [71, 0, 0, 0, 0, 0, 0, 0],
     [73, 68, 0, 0, 0, 0, 0, 0], [80, 65, 82, 84, 0, 0, 0, 0], [80, 86, 85, 0, 0, 0, 0, 0],
     [83, 90, 0, 0, 0, 0, 0, 0], [85, 82, 76, 0, 0, 0, 0, 0], [83, 83, 0, 0, 0, 0, 0, 0],
     [81, 75, 89, 0, 0, 0, 0, 0], [73, 0, 0, 0, 0, 0, 0, 0], [83, 90, 82, 0, 0, 0, 0, 0],
     [85, 68, 80, 0, 0, 0, 0, 0], [71, 49, 0, 0, 0, 0, 0, 0], [83, 86, 0, 0, 0, 0, 0, 0],
     [71, 49, 80, 80, 0, 0, 0, 0], [78, 79, 71, 49, 0, 0, 0, 0], [68, 0, 0, 0, 0, 0, 0, 0],
     [70, 82, 0, 0, 0, 0, 0, 0], [82, 65, 0, 0, 0, 0, 0, 0], [83, 0, 0, 0, 0, 0, 0, 0],
     [78, 73, 67, 75, 0, 0, 0, 0], [83, 78, 65, 0, 0, 0, 0, 0], [81, 78, 65, 0, 0, 0, 0, 0],
     [81, 75, 0, 0, 0, 0, 0, 0], [67, 65, 67, 72, 69, 68, 0, 0], [82, 78, 65, 0, 0, 0, 0, 0],
     [82, 69, 70, 0, 0, 0, 0, 0], [82, 76, 69, 65, 70, 0, 0, 0], [82, 78, 65, 77, 69, 0, 0, 0],
     [82, 71, 80, 83, 0, 0, 0, 0], [82, 69, 88, 84, 0, 0, 0, 0], [78, 76, 0, 0, 0, 0, 0, 0],
     [83, 69, 76, 70, 0, 0, 0, 0], [72, 85, 66, 0, 0, 0, 0, 0], [76, 69, 65, 70, 0, 0, 0, 0],
     [71, 80, 83, 0, 0, 0, 0, 0], [78, 65, 77, 69, 0, 0, 0, 0], [82, 69, 76, 65, 89, 0, 0, 0],
     [84, 79, 0, 0, 0, 0, 0, 0], [88, 77, 76, 0, 0, 0, 0, 0],
     [103, 50, 99, 111, 114, 101, 0, 0], [100, 110, 97, 0, 0, 0, 0, 0],
     [67, 82, 0, 0, 0, 0, 0, 0], [78, 65, 84, 0, 0, 0, 0, 0], [81, 72, 49, 0, 0, 0, 0, 0],
     [73, 68, 69, 78, 84, 0, 0, 0], [78, 66, 87, 0, 0, 0, 0, 0], [80, 77, 0, 0, 0, 0, 0, 0],
     [67, 77, 0, 0, 0, 0, 0, 0], [84, 70, 87, 0, 0, 0, 0, 0], [71, 50, 78, 83, 0, 0, 0, 0],
     [67, 76, 79, 83, 69, 0, 0, 0], [72, 85, 82, 78, 0, 0, 0, 0], [72, 75, 69, 89, 0, 0, 0, 0],
     [77, 65, 88, 73, 77, 85, 77, 0]]"
  by (simp add: g2_ptype_names_def G2_PACKET_TYPES_def char8_def numeral_eq_Suc)

end
