(* ===== verification/Packet_Typer_Correct.thy ===== *)
theory Packet_Typer_Correct
  imports Packet_Typer_Table
begin

text \<open>
  Correctness of the packet typer on the generated table: the bisection ends on the row of the
  key, the rows and chains hold exactly the known names, hence \<open>g2_packet_find_type\<close> finds the
  type of every name whose first word is not below the first row.  A smaller first word makes
  \<open>high = mid - 1\<close> wrap around and the lookup read outside of the table.
\<close>

subsection \<open>The bisection\<close>

definition ptyper_sorted :: "ptyper_row list \<Rightarrow> nat \<Rightarrow> bool" where
  "ptyper_sorted tab b \<longleftrightarrow>
     0 < b \<and> b \<le> length tab \<and> length tab < 2 ^ 31 \<and> sorted_wrt (<) (map fst (take b tab))"

lemma ptyper_sorted_nth:
  "ptyper_sorted tab b \<Longrightarrow> i < j \<Longrightarrow> j < b \<Longrightarrow> fst (tab ! i) < fst (tab ! j)"
  by (auto simp: ptyper_sorted_def sorted_wrt_iff_nth_less)

lemma unat_mid:
  fixes low high :: u32
  assumes "unat low + unat high < 2 ^ 32"
  shows "unat ((low + high) div 2) = (unat low + unat high) div 2"
proof -
  have "unat (low + high) = unat low + unat high"
    using assms unat_add_lem[of low high] by simp
  then show ?thesis by (simp add: unat_div)
qed

lemma unat_mid_small:
  fixes mid :: u32
  shows "length tab < 2 ^ 31 \<Longrightarrow> mid < word_of_nat (length tab) \<longleftrightarrow> unat mid < length tab"
  by (simp add: word_less_nat_alt unat_of_nat take_bit_nat_eq_self)

lemma ptyper_key_right:
  "ptyper_sorted tab b \<Longrightarrow> m < b \<Longrightarrow> fst (tab ! m) < key \<Longrightarrow> i < b \<Longrightarrow>
   fst (tab ! i) = key \<Longrightarrow> m < i"
  using ptyper_sorted_nth[of tab b i m] by (metis linorder_neqE_nat order_less_asym)

lemma ptyper_key_left:
  "ptyper_sorted tab b \<Longrightarrow> m < b \<Longrightarrow> key < fst (tab ! m) \<Longrightarrow> i < b \<Longrightarrow>
   fst (tab ! i) = key \<Longrightarrow> i < m"
  using ptyper_sorted_nth[of tab b m i] by (metis linorder_neqE_nat order_less_asym)

lemma ptyper_key_unique:
  "ptyper_sorted tab b \<Longrightarrow> i < b \<Longrightarrow> j < b \<Longrightarrow> fst (tab ! i) = fst (tab ! j) \<Longrightarrow> i = j"
  using ptyper_sorted_nth[of tab b i j] ptyper_sorted_nth[of tab b j i]
  by (metis linorder_neqE_nat order_less_irrefl)

lemma ptyper_bsearch_step:
  assumes "mid = (low + high) div 2" and "unat mid < length tab" and "length tab < 2 ^ 31"
  shows "ptyper_bsearch tab key low high =
     (if fst (tab ! unat mid) < key then
        (if mid + 1 \<le> high then ptyper_bsearch tab key (mid + 1) high else Some mid)
      else if fst (tab ! unat mid) > key then
        (if low \<le> mid - 1 then ptyper_bsearch tab key low (mid - 1) else Some mid)
      else Some mid)"
  using assms unat_mid_small[OF assms(3), of mid]
  by (subst ptyper_bsearch.simps) (simp add: Let_def)

lemma no_between:
  fixes l h b :: nat
  shows "\<forall>i<b. P i \<longrightarrow> l \<le> i \<and> i \<le> h \<Longrightarrow> \<not> l \<le> h \<Longrightarrow> \<forall>i<b. \<not> P i"
  by auto

lemma ptyper_bsearch_finds:
  assumes srt: "ptyper_sorted tab b" and first: "fst (tab ! 0) \<le> key"
  shows "unat low \<le> unat high \<Longrightarrow> unat high < b \<Longrightarrow>
     (\<forall>i<b. fst (tab ! i) = key \<longrightarrow> unat low \<le> i \<and> i \<le> unat high) \<Longrightarrow>
     \<exists>mid. ptyper_bsearch tab key low high = Some mid \<and> unat mid < b \<and>
       (\<forall>i<b. fst (tab ! i) = key \<longrightarrow> i = unat mid)"
proof (induction "unat high - unat low" arbitrary: low high rule: less_induct)
  case less
  define mid where "mid = (low + high) div 2"
  have len: "b \<le> length tab" "length tab < 2 ^ 31" using srt by (auto simp: ptyper_sorted_def)
  have mid: "unat mid = (unat low + unat high) div 2"
    unfolding mid_def by (rule unat_mid) (use less.prems len in simp)
  have midb: "unat mid < b" "unat low \<le> unat mid" "unat mid \<le> unat high"
    using mid less.prems by auto
  have "unat mid < length tab" using midb len by simp
  note unf = ptyper_bsearch_step[OF mid_def this len(2)]
  consider (lt) "fst (tab ! unat mid) < key" | (gt) "key < fst (tab ! unat mid)"
    | (eq) "fst (tab ! unat mid) = key" by fastforce
  then show ?case
  proof cases
    case lt
    have u: "unat (mid + 1) = unat mid + 1"
      using unat_add_lem[of mid 1] midb len by simp
    have rng: "\<forall>i<b. fst (tab ! i) = key \<longrightarrow> unat (mid + 1) \<le> i \<and> i \<le> unat high"
      using ptyper_key_right[OF srt midb(1) lt] less.prems(3) by (auto simp: u Suc_le_eq)
    have step: "ptyper_bsearch tab key low high =
        (if mid + 1 \<le> high then ptyper_bsearch tab key (mid + 1) high else Some mid)"
      using lt by (simp only: unf if_True)
    have "unat (mid + 1) \<le> unat high \<Longrightarrow> ?thesis"
      unfolding step by (simp add: word_le_nat_alt, rule less.hyps) (use less.prems midb u rng in auto)
    moreover have "\<not> unat (mid + 1) \<le> unat high \<Longrightarrow> \<forall>i<b. fst (tab ! i) \<noteq> key"
      using rng by (rule no_between)
    then have "\<not> unat (mid + 1) \<le> unat high \<Longrightarrow> ?thesis"
      unfolding step using midb by (simp add: word_le_nat_alt)
    ultimately show ?thesis by blast
  next
    case gt
    have m0: "0 < unat mid" using gt first by (metis leD neq0_conv)
    then have u: "unat (mid - 1) = unat mid - 1"
      by (metis unat_eq_zero unat_minus_one less_numeral_extra(3))
    have rng: "\<forall>i<b. fst (tab ! i) = key \<longrightarrow> unat low \<le> i \<and> i \<le> unat (mid - 1)"
      using ptyper_key_left[OF srt midb(1) gt] less.prems(3) m0 by (fastforce simp: u)
    have step: "ptyper_bsearch tab key low high =
        (if low \<le> mid - 1 then ptyper_bsearch tab key low (mid - 1) else Some mid)"
      using gt by (simp only: unf if_True if_False order_less_not_sym)
    have "unat low \<le> unat (mid - 1) \<Longrightarrow> ?thesis"
      unfolding step by (simp add: word_le_nat_alt, rule less.hyps) (use less.prems midb u rng m0 in auto)
    moreover have "\<not> unat low \<le> unat (mid - 1) \<Longrightarrow> \<forall>i<b. fst (tab ! i) \<noteq> key"
      using rng by (rule no_between)
    then have "\<not> unat low \<le> unat (mid - 1) \<Longrightarrow> ?thesis"
      unfolding step using midb by (simp add: word_le_nat_alt)
    ultimately show ?thesis by blast
  next
    case eq
    then have "ptyper_bsearch tab key low high = Some mid" by (simp only: unf order_less_irrefl if_False)
    moreover have "\<forall>i<b. fst (tab ! i) = key \<longrightarrow> i = unat mid"
      by (intro allI impI, rule ptyper_key_unique[OF srt _ midb(1)]) (simp_all add: eq)
    ultimately show ?thesis using midb by blast
  qed
qed

text \<open>
  A key below the first row: \<open>high = mid - 1\<close> wraps around at \<open>mid = 0\<close> and the next probe is
  far outside of the table.
\<close>

lemma ptyper_bsearch_below:
  assumes srt: "ptyper_sorted tab b" and first: "key < fst (tab ! 0)"
  shows "unat high < b \<Longrightarrow> ptyper_bsearch tab key 0 high = None"
proof (induction "unat high" arbitrary: high rule: less_induct)
  case less
  define mid where "mid = high div 2"
  have len: "b \<le> length tab" "length tab < 2 ^ 31" using srt by (auto simp: ptyper_sorted_def)
  have mid: "unat mid = unat high div 2" by (simp add: mid_def unat_div)
  have ok: "mid < word_of_nat (length tab)"
    using unat_mid_small[OF len(2)] mid less.prems len by auto
  have above: "key < fst (tab ! unat mid)"
    using first ptyper_sorted_nth[OF srt, of 0 "unat mid"] mid less.prems
    by (cases "unat mid = 0") (auto intro: less_trans)
  then have unf: "ptyper_bsearch tab key 0 high = ptyper_bsearch tab key 0 (mid - 1)"
    using ok by (subst ptyper_bsearch.simps) (auto simp: mid_def Let_def)
  show ?case
  proof (cases "mid = 0")
    case True
    have "\<not> (0 + (0 - 1)) div 2 < (word_of_nat (length tab) :: u32)"
      using unat_mid_small[OF len(2), of "(0 + (0 - 1)) div 2"] len by simp
    then have "ptyper_bsearch tab key 0 (0 - 1) = None"
      by (subst ptyper_bsearch.simps) (simp add: Let_def)
    with unf True show ?thesis by simp
  next
    case False
    then have "unat (mid - 1) = unat mid - 1" by (metis unat_minus_one)
    moreover have "unat mid \<noteq> 0" using False by (simp add: unat_eq_zero)
    ultimately have "unat (mid - 1) < unat high" using mid by auto
    then show ?thesis using less.hyps[of "mid - 1"] less.prems unf by simp
  qed
qed


subsection \<open>The table holds exactly the packet names\<close>

definition type_words :: "byte list \<Rightarrow> u32 \<times> u32" where
  "type_words ty = (load_le32 ty 0, load_le32 ty 4)"

definition name_words :: "(u32 \<times> u32) list" where
  "name_words =
    [(1313558101, 5134159), (1463898691, 16716), (1463898691, 21068), (5718344, 0), (4999243, 0),
     (4804172, 0), (18768, 0), (20304, 0), (1213420880, 0), (12881, 0),
     (16721, 0), (3295313, 0), (5523537, 0), (5393233, 0), (4279121, 0),
     (1330794581, 67), (1330794581, 68), (1380730955, 0), (1095518283, 0), (5458244, 0),
     (5522250, 0), (1145254471, 99), (20036, 0), (21831, 0), (21320, 0),
     (21324, 0), (16718, 0), (17485, 0), (21332, 0), (5132885, 0),
     (18510, 0), (18499, 0), (1279806293, 17481), (1381322585, 20553), (22083, 0),
     (86, 0), (22342, 0), (5395538, 0), (20565, 0), (16712, 0),
     (5719630, 0), (1313882964, 22342), (1179665493, 87), (1313883221, 22342), (5264706, 0),
     (18498, 0), (1498633538, 0), (1414745685, 65), (72, 0), (18248, 0),
     (4735824, 0), (1330794581, 0), (21315, 0), (4412227, 0), (5066563, 0),
     (71, 0), (17481, 0), (1414676816, 0), (5592656, 0), (23123, 0),
     (5001813, 0), (21331, 0), (5851985, 0), (73, 0), (5397075, 0),
     (5260373, 0), (12615, 0), (22099, 0), (1347432775, 0), (826756942, 0),
     (68, 0), (21062, 0), (16722, 0), (83, 0), (1262700878, 0),
     (4279891, 0), (4279889, 0), (19281, 0), (1212367171, 17477), (4279890, 0),
     (4605266, 0), (1095060562, 70), (1296125522, 69), (1397770066, 0), (1415071058, 0),
     (19534, 0), (1179403603, 0), (4347208, 0), (1178682700, 0), (5460039, 0),
     (1162690894, 0), (1095517522, 89), (20308, 0), (5000536, 0), (1868771943, 25970),
     (6385252, 0), (21059, 0), (5521742, 0), (3229777, 0), (1313162313, 84),
     (5718606, 0), (19792, 0), (19779, 0), (5719636, 0), (1397633607, 0),
     (1397705795, 69), (1314018632, 0), (1497713480, 0), (1230520653, 5068109)]"

lemma name_words_eval: "map type_words g2_ptype_names = name_words"
  by (simp add: name_words_def g2_ptype_names_def G2_PACKET_TYPES_def type_words_def
      load_le32_def char8_def)

text \<open>The second words and types of a chain, for at most \<open>n\<close> links.\<close>

fun chain_pairs :: "ptyper_row list \<Rightarrow> nat \<Rightarrow> nat \<Rightarrow> (u32 \<times> g2_ptype) list option" where
  "chain_pairs tab 0 mid = None"
| "chain_pairs tab (Suc n) mid =
     (if \<not> mid < length tab then None
      else (let m = snd (snd (tab ! mid)) in
        if \<not> m < length tab then None
        else (let (c, t, ix) = tab ! m in
          if ix \<noteq> 0 then map_option (Cons (c, t)) (chain_pairs tab n m) else Some [(c, t)])))"

lemma ptyper_chain_pairs:
  "chain_pairs tab n mid = Some ps \<Longrightarrow>
   ptyper_chain tab key mid = Some (case map_of ps key of None \<Rightarrow> PT_UNKNOWN | Some t \<Rightarrow> t)"
proof (induction n arbitrary: mid ps)
  case 0
  then show ?case by simp
next
  case (Suc n)
  then show ?case
    by (subst ptyper_chain.simps) (auto simp: Let_def split: if_splits prod.splits)
qed

definition row_pairs :: "ptyper_row list \<Rightarrow> nat \<Rightarrow> (u32 \<times> g2_ptype) list option" where
  "row_pairs tab mid =
     (let (c, t, ix) = tab ! mid in if t \<noteq> PT_UNKNOWN then Some [(0, t)] else chain_pairs tab 4 mid)"

definition row_ok :: "ptyper_row list \<Rightarrow> nat \<Rightarrow> bool" where
  "row_ok tab mid =
     (case row_pairs tab mid of
        None \<Rightarrow> False
      | Some ps \<Rightarrow> distinct (map fst ps) \<and>
          list_all (\<lambda>(k, t). t \<noteq> 0 \<and> t < PT_MAXIMUM \<and> name_words ! t = (fst (tab ! mid), k)) ps)"

definition row_types :: "ptyper_row list \<Rightarrow> nat \<Rightarrow> g2_ptype list" where
  "row_types tab mid = (case row_pairs tab mid of None \<Rightarrow> [] | Some ps \<Rightarrow> map snd ps)"

lemma ptyper_rows_ok: "list_all (row_ok ptyper_rows) [0..<104]"
  by code_simp

lemma ptyper_rows_types: "sort (concat (map (row_types ptyper_rows) [0..<104])) = [1..<PT_MAXIMUM]"
  by code_simp

lemma ptyper_rows_length [simp]: "length ptyper_rows = 123"
  by (simp add: ptyper_rows_def)

lemma ptyper_rows_succ: "successively (<) (map fst (take 104 ptyper_rows))"
  by code_simp

lemma ptyper_rows_strict: "sorted_wrt (<) (map fst (take 104 ptyper_rows))"
  using ptyper_rows_succ by (simp add: successively_iff_sorted_wrt_strong)

lemma ptyper_rows_sorted: "ptyper_sorted ptyper_rows 104"
  by (simp add: ptyper_sorted_def ptyper_rows_strict)

lemma ptyper_rows_first: "fst (ptyper_rows ! 0) = 68"
  by (simp add: ptyper_rows_def)

lemma T_NUM_BASE_unat: "unat (T_NUM_BASE - 1) = 103"
  by (simp add: T_NUM_BASE_eval)

text \<open>
  The first probe at or above the first row: the bisection ends inside the table, on the row of
  the key if there is one.
\<close>

lemma find_type_row:
  assumes "68 \<le> w0"
  obtains mid where "ptyper_bsearch ptyper_rows w0 0 (T_NUM_BASE - 1) = Some mid"
    and "unat mid < 104" and "\<And>i. i < 104 \<Longrightarrow> fst (ptyper_rows ! i) = w0 \<Longrightarrow> i = unat mid"
  using ptyper_bsearch_finds[OF ptyper_rows_sorted, of w0 0 "T_NUM_BASE - 1"] assms
  by (auto simp: ptyper_rows_first T_NUM_BASE_unat)

text \<open>What the rest of the lookup makes of the row it found.\<close>

lemma row_pairs_lookup:
  assumes "row_pairs tab (unat mid) = Some ps" and "fst (tab ! unat mid) = w0"
  shows "(let (mval, t, _) = tab ! unat mid in
            if mval = w0 then
              (if t \<noteq> PT_UNKNOWN then Some (if w1 = 0 then t else PT_UNKNOWN)
               else ptyper_chain tab w1 (unat mid))
            else Some PT_UNKNOWN) =
         Some (case map_of ps w1 of None \<Rightarrow> PT_UNKNOWN | Some t \<Rightarrow> t)"
  using assms ptyper_chain_pairs[of tab 4 "unat mid" ps w1]
  by (auto simp: row_pairs_def Let_def split: if_splits prod.splits)

lemma find_type_in_rows:
  assumes "68 \<le> w0"
  shows "\<exists>mid<104. \<exists>ps. row_pairs ptyper_rows mid = Some ps \<and> row_ok ptyper_rows mid \<and>
    (\<forall>i<104. fst (ptyper_rows ! i) = w0 \<longrightarrow> i = mid) \<and>
    find_type_in ptyper_rows T_NUM_BASE w0 w1 =
      Some (if fst (ptyper_rows ! mid) = w0
            then (case map_of ps w1 of None \<Rightarrow> PT_UNKNOWN | Some t \<Rightarrow> t) else PT_UNKNOWN)"
proof -
  obtain mid where mid: "ptyper_bsearch ptyper_rows w0 0 (T_NUM_BASE - 1) = Some mid"
    "unat mid < 104" "\<And>i. i < 104 \<Longrightarrow> fst (ptyper_rows ! i) = w0 \<Longrightarrow> i = unat mid"
    using find_type_row[OF assms] by blast
  have ok: "row_ok ptyper_rows (unat mid)"
    using ptyper_rows_ok mid(2) by (auto simp: list_all_iff)
  then obtain ps where ps: "row_pairs ptyper_rows (unat mid) = Some ps"
    by (auto simp: row_ok_def split: option.splits)
  have "find_type_in ptyper_rows T_NUM_BASE w0 w1 =
      Some (if fst (ptyper_rows ! unat mid) = w0
            then (case map_of ps w1 of None \<Rightarrow> PT_UNKNOWN | Some t \<Rightarrow> t) else PT_UNKNOWN)"
  proof (cases "fst (ptyper_rows ! unat mid) = w0")
    case True
    then show ?thesis using row_pairs_lookup[OF ps True]
      by (simp add: find_type_in_def mid(1))
  next
    case False
    then show ?thesis by (auto simp: find_type_in_def mid(1) Let_def split: prod.splits)
  qed
  with mid ok ps show ?thesis by blast
qed

lemma name_words_nth: "i < PT_MAXIMUM \<Longrightarrow> name_words ! i = type_words (g2_ptype_names ! i)"
  unfolding name_words_eval[symmetric]
  by (rule nth_map) (simp add: g2_ptype_names_def G2_PACKET_TYPES_def PT_MAXIMUM_def)

lemma known_row:
  assumes "0 < i" and "i < PT_MAXIMUM"
  obtains mid ps k where "mid < 104" "row_pairs ptyper_rows mid = Some ps" "(k, i) \<in> set ps"
    "type_words (g2_ptype_names ! i) = (fst (ptyper_rows ! mid), k)"
proof -
  have "i \<in> set (sort (concat (map (row_types ptyper_rows) [0..<104])))"
    unfolding ptyper_rows_types using assms by simp
  then obtain mid where mid: "mid < 104" "i \<in> set (row_types ptyper_rows mid)" by auto
  then obtain ps k where ps: "row_pairs ptyper_rows mid = Some ps" "(k, i) \<in> set ps"
    by (cases "row_pairs ptyper_rows mid") (auto simp: row_types_def)
  have "row_ok ptyper_rows mid" using ptyper_rows_ok mid(1) by (auto simp: list_all_iff)
  with ps have "name_words ! i = (fst (ptyper_rows ! mid), k)"
    by (auto simp: row_ok_def list_all_iff)
  with that mid ps show thesis using name_words_nth[OF assms(2)] by metis
qed

lemma fst_name_words_ge: "list_all (\<lambda>w. 68 \<le> fst w) (tl name_words)"
  by (simp add: name_words_def)

lemma known_above:
  assumes "0 < i" and "i < PT_MAXIMUM"
  shows "68 \<le> load_le32 (g2_ptype_names ! i) 0"
proof -
  have "length name_words = 109" by (simp add: name_words_def)
  then have "68 \<le> fst (tl name_words ! (i - 1))"
    using fst_name_words_ge assms by (auto simp: list_all_length PT_MAXIMUM_def)
  moreover have "tl name_words ! (i - 1) = name_words ! i"
    using assms \<open>length name_words = 109\<close> by (simp add: nth_tl PT_MAXIMUM_def)
  ultimately show ?thesis using name_words_nth[OF assms(2)] by (simp add: type_words_def)
qed

lemma find_type_known:
  assumes "0 < i" and "i < PT_MAXIMUM" and "type_words ty = type_words (g2_ptype_names ! i)"
  shows "g2_packet_find_type ty = Some i"
proof -
  obtain w0 w1 where w: "type_words ty = (w0, w1)" by (cases "type_words ty")
  obtain m ps k where m: "m < 104" "row_pairs ptyper_rows m = Some ps" "(k, i) \<in> set ps"
    "type_words (g2_ptype_names ! i) = (fst (ptyper_rows ! m), k)"
    using known_row[OF assms(1,2)] by blast
  have "68 \<le> w0" using known_above[OF assms(1,2)] assms(3) w by (auto simp: type_words_def)
  then obtain mid ps' where r: "row_pairs ptyper_rows mid = Some ps'" "row_ok ptyper_rows mid"
    "\<forall>i<104. fst (ptyper_rows ! i) = w0 \<longrightarrow> i = mid"
    "find_type_in ptyper_rows T_NUM_BASE w0 w1 =
      Some (if fst (ptyper_rows ! mid) = w0
            then (case map_of ps' w1 of None \<Rightarrow> PT_UNKNOWN | Some t \<Rightarrow> t) else PT_UNKNOWN)"
    using find_type_in_rows by metis
  have mm: "fst (ptyper_rows ! m) = w0" "w1 = k" using m(4) assms(3) w by auto
  with r m have mm2: "m = mid" "ps = ps'" by auto
  have "map_of ps' w1 = Some i"
    using r(2) r(1) m(3) mm mm2 by (auto simp: row_ok_def)
  with mm mm2 r(4) w show ?thesis
    by (simp add: g2_packet_find_type_def g2_ptyper_table_eval type_words_def)
qed

lemma find_type_above:
  assumes "68 \<le> load_le32 ty 0"
  shows "\<exists>t. g2_packet_find_type ty = Some t \<and>
    (t = PT_UNKNOWN \<or> 0 < t \<and> t < PT_MAXIMUM \<and> type_words (g2_ptype_names ! t) = type_words ty)"
proof -
  obtain mid ps where r: "row_pairs ptyper_rows mid = Some ps" "row_ok ptyper_rows mid"
    "find_type_in ptyper_rows T_NUM_BASE (load_le32 ty 0) (load_le32 ty 4) =
      Some (if fst (ptyper_rows ! mid) = load_le32 ty 0
            then (case map_of ps (load_le32 ty 4) of None \<Rightarrow> PT_UNKNOWN | Some t \<Rightarrow> t)
            else PT_UNKNOWN)"
    using find_type_in_rows[OF assms] by metis
  show ?thesis
  proof (cases "fst (ptyper_rows ! mid) = load_le32 ty 0 \<and> map_of ps (load_le32 ty 4) \<noteq> None")
    case True
    then obtain t where t: "map_of ps (load_le32 ty 4) = Some t" by auto
    then have "(load_le32 ty 4, t) \<in> set ps" by (rule map_of_SomeD)
    with r(1,2) True have "0 < t" "t < PT_MAXIMUM" "name_words ! t = type_words ty"
      by (auto simp: row_ok_def list_all_iff type_words_def)
    then show ?thesis using r(3) True t name_words_nth[of t]
      by (auto simp: g2_packet_find_type_def g2_ptyper_table_eval)
  next
    case False
    then show ?thesis using r(3)
      by (auto simp: g2_packet_find_type_def g2_ptyper_table_eval)
  qed
qed

lemma find_type_below:
  "load_le32 ty 0 < 68 \<Longrightarrow> g2_packet_find_type ty = None"
  using ptyper_bsearch_below[OF ptyper_rows_sorted, of "load_le32 ty 0" "T_NUM_BASE - 1"]
  by (simp add: g2_packet_find_type_def g2_ptyper_table_eval find_type_in_def ptyper_rows_first
      T_NUM_BASE_unat)

subsection \<open>Back from words to names\<close>

lemma load_le32_bytes:
  "(ucast (load_le32 bs n) :: byte) = bs ! n"
  "(ucast (drop_bit 8 (load_le32 bs n)) :: byte) = bs ! (n + 1)"
  "(ucast (drop_bit 16 (load_le32 bs n)) :: byte) = bs ! (n + 2)"
  "(ucast (drop_bit 24 (load_le32 bs n)) :: byte) = bs ! (n + 3)"
  by (rule bit_word_eqI; auto simp: load_le32_def bit_simps dest: bit_imp_le_length)+

lemma type_words_inj:
  assumes "type_words xs = type_words ys" and "length xs = 8" and "length ys = 8"
  shows "xs = ys"
proof (rule nth_equalityI)
  fix i assume "i < length xs"
  then have "i \<in> {0, 1, 2, 3, 4, 5, 6, 7}" using assms(2) by auto
  moreover have "load_le32 xs 0 = load_le32 ys 0" "load_le32 xs 4 = load_le32 ys 4"
    using assms(1) by (auto simp: type_words_def)
  ultimately show "xs ! i = ys ! i"
    using load_le32_bytes[of xs 0] load_le32_bytes[of ys 0]
      load_le32_bytes[of xs 4] load_le32_bytes[of ys 4]
    by (auto simp: numeral_eq_Suc)
qed (use assms in simp)

lemma length_char8 [simp]: "length (char8 s) = 8"
  by (simp add: char8_def)

lemma length_ptypes [simp]: "length G2_PACKET_TYPES = 109"
  by (simp add: G2_PACKET_TYPES_def)

lemma length_ptype_names [simp]: "length g2_ptype_names = 109"
  by (simp add: g2_ptype_names_def)

lemma length_ptype_name: "i < PT_MAXIMUM \<Longrightarrow> length (g2_ptype_names ! i) = 8"
  by (simp add: g2_ptype_names_def PT_MAXIMUM_def)

text \<open>The specification of the typer: the number of the name, if it is a known one.\<close>

definition ptype_of_name :: "byte list \<Rightarrow> g2_ptype" where
  "ptype_of_name ty =
     (case find (\<lambda>i. g2_ptype_names ! i = ty) [1..<PT_MAXIMUM] of
        None \<Rightarrow> PT_UNKNOWN | Some i \<Rightarrow> i)"

lemma find_type_spec:
  assumes "length ty = 8" and "68 \<le> load_le32 ty 0"
  shows "g2_packet_find_type ty = Some (ptype_of_name ty)"
proof (cases "find (\<lambda>i. g2_ptype_names ! i = ty) [1..<PT_MAXIMUM]")
  case None
  obtain t where t: "g2_packet_find_type ty = Some t"
    "t = PT_UNKNOWN \<or> 0 < t \<and> t < PT_MAXIMUM \<and> type_words (g2_ptype_names ! t) = type_words ty"
    using find_type_above[OF assms(2)] by blast
  have "t = PT_UNKNOWN"
    using t(2) None type_words_inj[of "g2_ptype_names ! t" ty] length_ptype_name[of t] assms(1)
    by (auto simp: find_None_iff)
  with t(1) None show ?thesis by (simp add: ptype_of_name_def)
next
  case (Some i)
  then have "0 < i" "i < PT_MAXIMUM" "g2_ptype_names ! i = ty"
    by (auto simp: find_Some_iff)
  with find_type_known[of i ty] Some show ?thesis by (simp add: ptype_of_name_def)
qed

subsection \<open>The order of the table\<close>

text \<open>The comparison separates all entries, so the result does not depend on the \<open>qsort\<close> used.\<close>

definition row_before :: "p_table \<Rightarrow> p_table \<Rightarrow> bool" where
  "row_before a b \<longleftrightarrow> start a < start b \<or> start a = start b \<and> weight b < weight a"

lemma transp_row_before: "transp row_before"
  by (rule transpI) (auto simp: row_before_def)

lemma typer_sorted_before: "sorted_wrt row_before typer_sorted"
  unfolding successively_conv_sorted_wrt[OF transp_row_before, symmetric]
  by (simp add: typer_sorted_def row_before_def mk_row_def)

lemma p_table_cmp_0:
  assumes "p_table_cmp a b = 0" "0 \<le> weight a" "weight a < 2 ^ 30" "0 \<le> weight b" "weight b < 2 ^ 30"
  shows "start a = start b \<and> weight a = weight b"
proof -
  have "start a - start b = 0"
    using assms(1) by (auto simp: p_table_cmp_def Let_def signed_eq_0_iff split: if_splits)
  moreover from this have "signed_take_bit 31 (weight b - weight a) = 0"
    using assms(1) by (simp add: p_table_cmp_def)
  then have "weight b - weight a = 0"
    using signed_take_bit_int_eq_self[of 31 "weight b - weight a"] assms by simp
  ultimately show ?thesis by simp
qed

lemma p_table_cmp_separates:
  assumes "i < length typer_sorted" "j < length typer_sorted" "i \<noteq> j"
  shows "p_table_cmp (typer_sorted ! i) (typer_sorted ! j) \<noteq> 0"
proof
  assume z: "p_table_cmp (typer_sorted ! i) (typer_sorted ! j) = 0"
  have "list_all (\<lambda>e. 0 \<le> weight e \<and> weight e < 2 ^ 30) typer_sorted"
    by (simp add: typer_sorted_def mk_row_def)
  then have "start (typer_sorted ! i) = start (typer_sorted ! j) \<and>
      weight (typer_sorted ! i) = weight (typer_sorted ! j)"
    using p_table_cmp_0[OF z] assms by (simp add: list_all_length)
  moreover have "row_before (typer_sorted ! i) (typer_sorted ! j) \<or>
      row_before (typer_sorted ! j) (typer_sorted ! i)"
    using assms sorted_wrt_nth_less[OF typer_sorted_before] by (metis linorder_neqE_nat)
  ultimately show False by (auto simp: row_before_def)
qed

end
