(* ===== verification/G2_Packet.thy ===== *)
theory G2_Packet
  imports Sec_Buffer Packet_Typer_Correct
begin

text \<open>
  The packet structure of \<^verbatim>\<open>G2Packet.h\<close> and the states of the decoder and of the encoder
  (\<^verbatim>\<open>G2PacketSerializerStates.h\<close>).  The links of the C list are not part of the record: a
  packet with its children is a tree (\<open>g2_ptree\<close>).
\<close>

datatype g2_packet_decoder_states =
    CHECK_CONTROLL_BYTE
  | READ_LENGTH
  | READ_TYPE
  | DECIDE_DECODE
  | START_EXTRACT_PACKET_FROM_STREAM
  | EXTRACT_PACKET_FROM_STREAM
  | START_EXTRACT_PACKET_FROM_STREAM_TRUNK
  | PACKET_EXTRACTION_COMPLETE
  | GET_PACKET_DATA
  | EXTRACT_PACKET_DATA
  | FINISH_PACKET_DATA
  | GET_CHILD_PACKETS
  | DECODE_FINISHED
  | MAX_DECODER_STATE

text \<open>\<open>packet_decode++\<close>: the next enumerator.\<close>

fun decoder_next :: "g2_packet_decoder_states \<Rightarrow> g2_packet_decoder_states" where
  "decoder_next CHECK_CONTROLL_BYTE = READ_LENGTH"
| "decoder_next READ_LENGTH = READ_TYPE"
| "decoder_next READ_TYPE = DECIDE_DECODE"
| "decoder_next DECIDE_DECODE = START_EXTRACT_PACKET_FROM_STREAM"
| "decoder_next START_EXTRACT_PACKET_FROM_STREAM = EXTRACT_PACKET_FROM_STREAM"
| "decoder_next EXTRACT_PACKET_FROM_STREAM = START_EXTRACT_PACKET_FROM_STREAM_TRUNK"
| "decoder_next START_EXTRACT_PACKET_FROM_STREAM_TRUNK = PACKET_EXTRACTION_COMPLETE"
| "decoder_next PACKET_EXTRACTION_COMPLETE = GET_PACKET_DATA"
| "decoder_next GET_PACKET_DATA = EXTRACT_PACKET_DATA"
| "decoder_next EXTRACT_PACKET_DATA = FINISH_PACKET_DATA"
| "decoder_next FINISH_PACKET_DATA = GET_CHILD_PACKETS"
| "decoder_next GET_CHILD_PACKETS = DECODE_FINISHED"
| "decoder_next DECODE_FINISHED = MAX_DECODER_STATE"
| "decoder_next MAX_DECODER_STATE = MAX_DECODER_STATE"

datatype g2_packet_encoder_states =
    DECIDE_ENCODE
  | PREPARE_SERIALIZATION_MIN
  | PREPARE_SERIALIZATION
  | SERIALIZATION_PREPARED_MIN
  | SERIALIZE_CONTROL
  | SERIALIZE_LENGTH1
  | SERIALIZE_LENGTH2
  | SERIALIZE_LENGTH3
  | SERIALIZE_TYPE1
  | SERIALIZE_TYPE2
  | SERIALIZE_TYPE3
  | SERIALIZE_TYPE4
  | SERIALIZE_TYPE5
  | SERIALIZE_TYPE6
  | SERIALIZE_TYPE7
  | SERIALIZE_TYPE8
  | SERIALIZATION_PREPARED
  | IOVEC_HEADER
  | IOVEC_CHILD
  | IOVEC_ZERO
  | IOVEC_DATA
  | IOVEC_CLEANAFTER
  | SERIALIZE_CHILDREN
  | BEWARE_OF_ZERO
  | SERIALIZE_DATA_PREP
  | SERIALIZE_DATA
  | ENCODE_FINISHED
  | MAX_ENCODER_STATE

record g2_packet =
  plength :: u32
  type_length :: byte
  length_length :: byte
  packet_type :: g2_ptype
  big_endian :: bool
  is_compound :: bool
  c_reserved :: bool
  packet_decode :: g2_packet_decoder_states
  packet_encode :: g2_packet_encoder_states
  more_bytes_needed :: bool
  is_freeable :: bool
  data_trunk_is_freeable :: bool
  is_literal :: bool
  pd :: "byte list"
  data_trunk :: pointer_buff

text \<open>\<open>sizeof(pd.out)\<close> and \<open>sizeof(pd.in.buf)\<close>; \<open>pd.in.type\<close> are the first eight bytes of \<open>pd\<close>.\<close>

definition PD_OUT_SIZE :: nat where
  "PD_OUT_SIZE = 48"

definition PD_IN_BUF_SIZE :: nat where
  "PD_IN_BUF_SIZE = 40"

datatype g2_ptree = G2_Packet (hdr: g2_packet) (children: "g2_ptree list")

text \<open>
  \<open>g2_packet_init\<close> wipes everything up to the data trunk; \<open>g2_packet_init_on_stack\<close> leaves the
  fields before \<open>is_compound\<close> as they were and empties the data trunk.
\<close>

definition g2_packet_init :: "g2_packet \<Rightarrow> g2_packet" where
  "g2_packet_init p =
     \<lparr>plength = 0, type_length = 0, length_length = 0, packet_type = PT_UNKNOWN,
      big_endian = False, is_compound = False, c_reserved = False,
      packet_decode = CHECK_CONTROLL_BYTE, packet_encode = DECIDE_ENCODE,
      more_bytes_needed = False, is_freeable = False, data_trunk_is_freeable = False,
      is_literal = False, pd = replicate PD_OUT_SIZE 0, data_trunk = data_trunk p\<rparr>"

definition g2_packet_init_on_stack :: "g2_packet \<Rightarrow> g2_packet" where
  "g2_packet_init_on_stack x =
     x\<lparr>is_compound := False, c_reserved := False,
       packet_decode := CHECK_CONTROLL_BYTE, packet_encode := DECIDE_ENCODE,
       more_bytes_needed := False, is_freeable := False, data_trunk_is_freeable := False,
       is_literal := False, data_trunk := INIT_PBUF\<rparr>"

text \<open>\<open>g2_packet_calloc\<close> on freshly allocated memory.\<close>

definition g2_packet_calloc :: "g2_packet \<Rightarrow> g2_packet" where
  "g2_packet_calloc t = (g2_packet_init t)\<lparr>data_trunk := INIT_PBUF, is_freeable := True\<rparr>"

text \<open>\<open>g2_packet_clone\<close>: a copy of the structure without the children.\<close>

definition g2_packet_clone :: "g2_ptree \<Rightarrow> g2_ptree" where
  "g2_packet_clone p = G2_Packet ((hdr p)\<lparr>is_freeable := True\<rparr>) []"

definition g2_packet_clean :: "g2_ptree \<Rightarrow> g2_ptree" where
  "g2_packet_clean p =
     (let q = g2_packet_init (hdr p)
      in G2_Packet (q\<lparr>data_trunk := buffer_clear (data_trunk q),
                      data_trunk_is_freeable := data_trunk_is_freeable (hdr p),
                      is_freeable := is_freeable (hdr p)\<rparr>) [])"

text \<open>
  \<open>malloc\<close> is the allocator of the C library: the contents of a fresh block of the wanted size,
  or \<open>None\<close> if there is no memory.
\<close>

definition g2_packet_steal_data_space ::
    "(nat \<Rightarrow> byte list option) \<Rightarrow> g2_packet \<Rightarrow> nat \<Rightarrow> bool \<times> g2_packet" where
  "g2_packet_steal_data_space malloc p bytes =
     (if PD_OUT_SIZE < bytes then
        (case malloc bytes of
           None \<Rightarrow> (False, p)
         | Some m \<Rightarrow>
             (True, p\<lparr>data_trunk := buffer_clear ((data_trunk p)\<lparr>data := Some m, capacity := bytes\<rparr>),
                      data_trunk_is_freeable := True\<rparr>))
      else
        (True, p\<lparr>data_trunk := \<lparr>pos = PD_OUT_SIZE - bytes, limit = PD_OUT_SIZE,
                                capacity = PD_OUT_SIZE, data = Some (pd p)\<rparr>,
                 data_trunk_is_freeable := False\<rparr>))"

definition g2_packet_steal_data_space_lit ::
    "(nat \<Rightarrow> byte list option) \<Rightarrow> g2_packet \<Rightarrow> nat \<Rightarrow> bool \<times> g2_packet" where
  "g2_packet_steal_data_space_lit malloc p bytes =
     (let (have_bytes, buf_start) =
            (if packet_type p \<noteq> PT_UNKNOWN then (PD_OUT_SIZE, pd p)
             else (PD_OUT_SIZE - unat (type_length p), drop (unat (type_length p)) (pd p)))
      in if have_bytes < bytes then
           (case malloc bytes of
              None \<Rightarrow> (False, p)
            | Some m \<Rightarrow>
                (True, p\<lparr>data_trunk :=
                           buffer_clear ((data_trunk p)\<lparr>data := Some m, capacity := bytes\<rparr>),
                         data_trunk_is_freeable := True\<rparr>))
         else
           (True, p\<lparr>data_trunk := \<lparr>pos = have_bytes - bytes, limit = have_bytes,
                                   capacity = have_bytes, data = Some buf_start\<rparr>,
                    data_trunk_is_freeable := False\<rparr>))"

text \<open>A trunk of the wanted size: exactly the requested number of bytes is left to write.\<close>

lemma steal_data_space_ok:
  assumes "length (pd p) = PD_OUT_SIZE" and "\<And>n m. malloc n = Some m \<Longrightarrow> length m = n"
    and "bytes \<le> SIZE_MAX" and "g2_packet_steal_data_space malloc p bytes = (True, q)"
  shows "wf_buff (data_trunk q) \<and> buffer_remaining (data_trunk q) = bytes"
  using assms
  by (auto simp: g2_packet_steal_data_space_def wf_buff_def buffer_clear_def buffer_remaining_def
      PD_OUT_SIZE_def SIZE_MAX_def split: if_splits option.splits)

lemma steal_data_space_lit_ok:
  assumes "length (pd p) = PD_OUT_SIZE" and "\<And>n m. malloc n = Some m \<Longrightarrow> length m = n"
    and "bytes \<le> SIZE_MAX" and "g2_packet_steal_data_space_lit malloc p bytes = (True, q)"
  shows "wf_buff (data_trunk q) \<and> buffer_remaining (data_trunk q) = bytes"
  using assms
  by (auto simp: g2_packet_steal_data_space_lit_def wf_buff_def buffer_clear_def Let_def
      buffer_remaining_def PD_OUT_SIZE_def SIZE_MAX_def split: if_splits option.splits)

end
