(* ===== verification/Packet_Decode.thy ===== *)
theory Packet_Decode
  imports G2_Packet
begin

text \<open>
  The decoding half of \<^verbatim>\<open>G2PacketSerializer.c\<close>: the three header readers, the decoder for
  complete buffers (\<open>g2_packet_decode\<close>), the walk over the children of a packet
  (\<open>g2_packet_decode_from_packet\<close>) and the decoder for byte streams
  (\<open>g2_packet_extract_from_stream_b\<close>).  A function of the source that returns an \<open>int\<close> or a
  \<open>bool\<close> and writes through its pointers returns all of it; \<open>None\<close> is an access outside of an
  object.  Reading through \<open>data_trunk.data\<close> of a decoded packet sees the memory of the buffer
  it was attached to at the time of the decoding.
\<close>

subsection \<open>Reading the header\<close>

definition check_control_byte_p ::
    "pointer_buff \<Rightarrow> g2_packet \<Rightarrow> (int \<times> pointer_buff \<times> g2_packet) option" where
  "check_control_byte_p source target =
     (if 1 > buffer_remaining source then Some (0, source, target\<lparr>more_bytes_needed := True\<rparr>)
      else do {
        control \<leftarrow> buffer_get source;
        let source = source\<lparr>pos := pos source + 1\<rparr>;
        if control = 0 then Some (-1, source, target)
        else Some (1, source,
          target\<lparr>length_length := drop_bit 6 control AND 0x03,
                 type_length := (drop_bit 3 control AND 0x07) + 1,
                 c_reserved := (control AND 0x01 \<noteq> 0),
                 big_endian := (control AND 0x02 \<noteq> 0),
                 is_compound := (control AND 0x04 \<noteq> 0),
                 packet_decode := decoder_next (packet_decode target)\<rparr>)
      })"

text \<open>The loop over the length bytes; \<open>n\<close> of them are left, \<open>i\<close> are done.\<close>

fun read_length_loop ::
    "nat \<Rightarrow> nat \<Rightarrow> pointer_buff \<Rightarrow> g2_packet \<Rightarrow> (pointer_buff \<times> g2_packet) option" where
  "read_length_loop 0 i source target = Some (source, target)"
| "read_length_loop (Suc n) i source target =
     do {
       tmp_byte \<leftarrow> buffer_get source;
       let source = source\<lparr>pos := pos source + 1\<rparr>;
       let target =
         (if \<not> big_endian target
          then target\<lparr>plength := plength target OR push_bit (i * 8) (ucast tmp_byte)\<rparr>
          else target\<lparr>plength := push_bit 8 (plength target) OR ucast tmp_byte\<rparr>);
       read_length_loop n (i + 1) source target
     }"

definition read_length_p ::
    "pointer_buff \<Rightarrow> g2_packet \<Rightarrow> nat \<Rightarrow> (int \<times> pointer_buff \<times> g2_packet) option" where
  "read_length_p source target max_len =
     (if unat (length_length target) > buffer_remaining source
      then Some (0, source, target\<lparr>more_bytes_needed := True\<rparr>)
      else do {
        (source, target) \<leftarrow>
          read_length_loop (unat (length_length target)) 0 source (target\<lparr>plength := 0\<rparr>);
        let i = unat (plength target + ucast (length_length target) +
                      ucast (type_length target) + 1);
        if max_len < i then Some (-1, source, target)
        else do {
          let target = (if plength target = 0 then target\<lparr>is_compound := False\<rparr> else target);
          Some (1, source, target\<lparr>packet_decode := decoder_next (packet_decode target)\<rparr>)
        }
      })"

text \<open>The loop over the type bytes, from \<open>s_ptr\<close> to \<open>h_ptr\<close>; the flag is the early return.\<close>

fun read_type_loop ::
    "nat \<Rightarrow> nat \<Rightarrow> nat \<Rightarrow> pointer_buff \<Rightarrow> byte list \<Rightarrow> (bool \<times> byte list) option" where
  "read_type_loop 0 s_ptr h_ptr source h = Some (True, h)"
| "read_type_loop (Suc n) s_ptr h_ptr source h =
     do {
       c \<leftarrow> buffer_get (source\<lparr>pos := s_ptr\<rparr>);
       if c < 0x20 \<or> c AND 0x80 \<noteq> 0 then Some (False, h)
       else if \<not> h_ptr < length h then None
       else read_type_loop n (s_ptr + 1) (h_ptr + 1) source (h[h_ptr := c])
     }"

definition read_type_p ::
    "pointer_buff \<Rightarrow> g2_packet \<Rightarrow> (int \<times> pointer_buff \<times> g2_packet) option" where
  "read_type_p source target =
     (if unat (type_length target) > buffer_remaining source
      then Some (0, source, target\<lparr>more_bytes_needed := True\<rparr>)
      else do {
        let target = target\<lparr>pd := replicate 8 0 @ drop 8 (pd target)\<rparr>;
        if type_length target \<noteq> 0 then do {
          let s_ptr = pos source;
          let source = source\<lparr>pos := pos source + unat (type_length target)\<rparr>;
          (ok, h) \<leftarrow> read_type_loop (unat (type_length target)) s_ptr 0 source (pd target);
          let target = target\<lparr>pd := h\<rparr>;
          if \<not> ok then Some (-1, source, target)
          else do {
            t \<leftarrow> g2_packet_find_type (take 8 (pd target));
            Some (1, source,
              target\<lparr>packet_type := t, packet_decode := decoder_next (packet_decode target)\<rparr>)
          }
        } else Some (-1, source, target)
      })"

text \<open>
  \<open>check_control_byte\<close>, \<open>read_length\<close> and \<open>read_type\<close> wrap a \<open>struct big_buff\<close> into a pointer
  buffer on the same bytes and write \<open>pos\<close> and \<open>limit\<close> back.
\<close>

definition pbuf_of_big :: "big_buff \<Rightarrow> pointer_buff" where
  "pbuf_of_big source =
     \<lparr>pos = pos source, limit = limit source, capacity = capacity source, data = data source\<rparr>"

definition check_control_byte ::
    "big_buff \<Rightarrow> g2_packet \<Rightarrow> (int \<times> big_buff \<times> g2_packet) option" where
  "check_control_byte source target =
     do {
       (ret_val, tmp_buf, target) \<leftarrow> check_control_byte_p (pbuf_of_big source) target;
       Some (ret_val, source\<lparr>pos := pos tmp_buf, limit := limit tmp_buf\<rparr>, target)
     }"

definition read_length ::
    "big_buff \<Rightarrow> g2_packet \<Rightarrow> nat \<Rightarrow> (int \<times> big_buff \<times> g2_packet) option" where
  "read_length source target max_len =
     do {
       (ret_val, tmp_buf, target) \<leftarrow> read_length_p (pbuf_of_big source) target max_len;
       Some (ret_val, source\<lparr>pos := pos tmp_buf, limit := limit tmp_buf\<rparr>, target)
     }"

definition read_type ::
    "big_buff \<Rightarrow> g2_packet \<Rightarrow> (int \<times> big_buff \<times> g2_packet) option" where
  "read_type source target =
     do {
       (ret_val, tmp_buf, target) \<leftarrow> read_type_p (pbuf_of_big source) target;
       Some (ret_val, source\<lparr>pos := pos tmp_buf, limit := limit tmp_buf\<rparr>, target)
     }"

subsection \<open>Decoding a complete buffer\<close>

type_synonym dec_state = "pointer_buff \<times> g2_packet"

text \<open>
  \<open>if(!(func_ret_val = f)) break; else if(0 > func_ret_val) return false;\<close> and fall through.
\<close>

definition on_ret :: "(int \<times> pointer_buff \<times> g2_packet) option \<Rightarrow> (dec_state, bool) ctl option" where
  "on_ret r =
     do {
       (func_ret_val, source, target) \<leftarrow> r;
       Some (if func_ret_val = 0 then Brk (source, target)
             else if 0 > func_ret_val then Ret False (source, target)
             else Fall (source, target))
     }"

definition decode_cases :: "(g2_packet_decoder_states \<times> (dec_state, bool) code) list" where
  "decode_cases =
     [(CHECK_CONTROLL_BYTE, \<lambda>(source, target). on_ret (check_control_byte_p source target)),
      (READ_LENGTH, \<lambda>(source, target).
         on_ret (read_length_p source target (buffer_remaining source + 1))),
      (READ_TYPE, \<lambda>(source, target). on_ret (read_type_p source target)),
      (DECIDE_DECODE, \<lambda>(source, target).
         (let target = target\<lparr>data_trunk := (data_trunk target)\<lparr>pos := 0, data := None\<rparr>\<rparr> in
          if 0 < plength target
          then Some (Fall (source, target\<lparr>packet_decode := GET_PACKET_DATA\<rparr>))
          else Some (Ret True (source,
            target\<lparr>data_trunk := (data_trunk target)\<lparr>limit := 0, capacity := 0\<rparr>,
                   packet_decode := DECODE_FINISHED\<rparr>)))),
      (GET_PACKET_DATA, \<lambda>(source, target).
         (let target = target\<lparr>data_trunk_is_freeable := False,
                data_trunk := (data_trunk target)\<lparr>limit := unat (plength target),
                  capacity := unat (plength target), data := buffer_start source\<rparr>,
                packet_decode :=
                  (if \<not> is_compound target then DECODE_FINISHED else GET_CHILD_PACKETS)\<rparr>
          in Some (Ret True (source\<lparr>pos := pos source + unat (plength target)\<rparr>, target)))),
      (DECODE_FINISHED, \<lambda>(source, target).
         Some (Brk (source, target\<lparr>more_bytes_needed := True\<rparr>))),
      (START_EXTRACT_PACKET_FROM_STREAM, \<lambda>s. Some (Ret False s)),
      (START_EXTRACT_PACKET_FROM_STREAM_TRUNK, \<lambda>s. Some (Ret False s)),
      (PACKET_EXTRACTION_COMPLETE, \<lambda>s. Some (Ret False s)),
      (EXTRACT_PACKET_FROM_STREAM, \<lambda>s. Some (Ret False s)),
      (EXTRACT_PACKET_DATA, \<lambda>s. Some (Ret False s)),
      (FINISH_PACKET_DATA, \<lambda>s. Some (Ret False s)),
      (GET_CHILD_PACKETS, \<lambda>s. Some (Ret False s)),
      (MAX_DECODER_STATE, \<lambda>s. Some (Ret False s))]"

definition g2_packet_decode ::
    "pointer_buff \<Rightarrow> g2_packet \<Rightarrow> (bool \<times> pointer_buff \<times> g2_packet) option" where
  "g2_packet_decode source target =
     c_while (\<lambda>(source, target). \<not> more_bytes_needed target)
       (\<lambda>(source, target). switch (packet_decode target) decode_cases (source, target))
       (\<lambda>(source, target). if more_bytes_needed target then False else True)
       (source, target\<lparr>more_bytes_needed := False\<rparr>)"

subsection \<open>Walking over the children\<close>

text \<open>The state is the pair of the father (\<open>source\<close>) and the child (\<open>target\<close>).\<close>

definition get_child_packets :: "(g2_packet \<times> g2_packet, bool) code" where
  "get_child_packets = (\<lambda>(source, target).
     (let remaining_length = buffer_remaining (data_trunk source) in
      if remaining_length = 0
      then Some (Ret True (source\<lparr>packet_decode := DECODE_FINISHED\<rparr>, target))
      else do {
        c \<leftarrow> buffer_get (data_trunk source);
        let advanced =
          source\<lparr>data_trunk := (data_trunk source)\<lparr>pos := pos (data_trunk source) + 1\<rparr>\<rparr>;
        if c = 0 then Some (Ret True (advanced\<lparr>packet_decode := DECODE_FINISHED\<rparr>, target))
        else if 1 < remaining_length then do {
          (ret_val, dt, target) \<leftarrow> g2_packet_decode (data_trunk source) target;
          Some (Ret ret_val (source\<lparr>data_trunk := dt\<rparr>, target))
        }
        else Some (Ret False (advanced, target))
      }))"

definition from_packet_cases ::
    "(g2_packet_decoder_states \<times> (g2_packet \<times> g2_packet, bool) code) list" where
  "from_packet_cases =
     [(PACKET_EXTRACTION_COMPLETE, \<lambda>(source, target).
         Some (Fall (source\<lparr>packet_decode := DECIDE_DECODE\<rparr>, target))),
      (DECIDE_DECODE, \<lambda>(source, target).
         if 0 < plength source
         then Some (Brk (source\<lparr>packet_decode :=
                (if is_compound source then GET_CHILD_PACKETS else GET_PACKET_DATA)\<rparr>, target))
         else Some (Ret True (source\<lparr>packet_decode := DECODE_FINISHED\<rparr>, target))),
      (GET_CHILD_PACKETS, get_child_packets),
      (DECODE_FINISHED, \<lambda>(source, target).
         Some (Brk (source, target\<lparr>more_bytes_needed := True\<rparr>))),
      (CHECK_CONTROLL_BYTE, \<lambda>s. Some (Ret False s)),
      (READ_LENGTH, \<lambda>s. Some (Ret False s)),
      (READ_TYPE, \<lambda>s. Some (Ret False s)),
      (START_EXTRACT_PACKET_FROM_STREAM, \<lambda>s. Some (Ret False s)),
      (START_EXTRACT_PACKET_FROM_STREAM_TRUNK, \<lambda>s. Some (Ret False s)),
      (EXTRACT_PACKET_FROM_STREAM, \<lambda>s. Some (Ret False s)),
      (GET_PACKET_DATA, \<lambda>s. Some (Ret False s)),
      (EXTRACT_PACKET_DATA, \<lambda>s. Some (Ret False s)),
      (FINISH_PACKET_DATA, \<lambda>s. Some (Ret False s)),
      (MAX_DECODER_STATE, \<lambda>s. Some (Ret False s))]"

definition g2_packet_decode_from_packet ::
    "g2_packet \<Rightarrow> g2_packet \<Rightarrow> (bool \<times> g2_packet \<times> g2_packet) option" where
  "g2_packet_decode_from_packet source target =
     c_while (\<lambda>(source, target). \<not> more_bytes_needed target)
       (\<lambda>(source, target). switch (packet_decode source) from_packet_cases (source, target))
       (\<lambda>_. True)
       (source, target)"

subsection \<open>Decoding a byte stream\<close>

text \<open>
  The search for a trunk.  A block that has to be given back must come from the allocator: \<open>free\<close>
  and \<open>realloc\<close> of anything else is undefined.  \<open>realloc\<close> keeps the old contents as far as they
  fit.
\<close>

definition alloc_trunk ::
    "(nat \<Rightarrow> byte list option) \<Rightarrow> g2_packet \<Rightarrow> (bool \<times> g2_packet) option" where
  "alloc_trunk malloc target =
     (let len = unat (plength target); dt = data_trunk target in
      if data_trunk_is_freeable target \<or>
         packet_type target \<noteq> PT_UNKNOWN \<and> len > PD_OUT_SIZE \<or>
         packet_type target = PT_UNKNOWN \<and> len > PD_IN_BUF_SIZE
      then
        (case data dt of
           Some old \<Rightarrow>
             if \<not> data_trunk_is_freeable target then None
             else (case malloc len of
                     None \<Rightarrow> Some (False, target)
                   | Some m \<Rightarrow> Some (True,
                       target\<lparr>data_trunk_is_freeable := True,
                              data_trunk := dt\<lparr>capacity := len,
                                data := Some (take len (old @ drop (length old) m))\<rparr>\<rparr>))
         | None \<Rightarrow>
             (case malloc len of
                None \<Rightarrow> Some (False, target)
              | Some m \<Rightarrow> Some (True,
                  target\<lparr>data_trunk_is_freeable := True,
                         data_trunk := dt\<lparr>capacity := len, data := Some m\<rparr>\<rparr>)))
      else
        (if packet_type target \<noteq> PT_UNKNOWN
         then Some (True, target\<lparr>data_trunk_is_freeable := False,
                data_trunk := dt\<lparr>capacity := PD_OUT_SIZE, data := Some (pd target)\<rparr>\<rparr>)
         else Some (True, target\<lparr>data_trunk_is_freeable := False,
                data_trunk := dt\<lparr>capacity := PD_IN_BUF_SIZE,
                  data := Some (drop 8 (pd target))\<rparr>\<rparr>)))"

definition start_extract :: "bool \<Rightarrow> (dec_state, bool) code" where
  "start_extract evict_data = (\<lambda>(source, target).
     (let len = unat (plength target); dt = data_trunk target;
          onward = Some (Fall (source,
            target\<lparr>packet_decode := START_EXTRACT_PACKET_FROM_STREAM_TRUNK\<rparr>)) in
      if \<not> data_trunk_is_freeable target \<or> capacity dt = 0 \<or> data dt = None then
        (if len \<le> buffer_remaining source then
           Some (Brk (source\<lparr>pos := pos source + len\<rparr>,
             target\<lparr>data_trunk_is_freeable := False,
                    data_trunk :=
                      (buffer_clear (dt\<lparr>data := buffer_start source, capacity := len\<rparr>))
                        \<lparr>pos := len\<rparr>,
                    packet_decode := PACKET_EXTRACTION_COMPLETE\<rparr>))
         else if \<not> evict_data \<and> len \<le> capacity source then
           Some (Brk (source, target\<lparr>more_bytes_needed := True\<rparr>))
         else onward)
      else onward))"

definition start_extract_trunk :: "(nat \<Rightarrow> byte list option) \<Rightarrow> (dec_state, bool) code" where
  "start_extract_trunk malloc = (\<lambda>(source, target).
     do {
       (ok, target) \<leftarrow> (if unat (plength target) > capacity (data_trunk target)
                        then alloc_trunk malloc target else Some (True, target));
       if \<not> ok then Some (Ret False (source, target))
       else Some (Fall (source,
         target\<lparr>data_trunk := (data_trunk target)\<lparr>pos := 0, limit := unat (plength target)\<rparr>,
                packet_decode := EXTRACT_PACKET_FROM_STREAM\<rparr>))
     })"

text \<open>
  A trunk that is not given back lies within the packet: in \<open>pd\<close>, the whole of it or what is behind the type name.  What is
  written to the trunk is written to \<open>pd\<close>.
\<close>

definition write_pd :: "g2_packet \<Rightarrow> g2_packet" where
  "write_pd target =
     (if data_trunk_is_freeable target then target
      else case data (data_trunk target) of
             None \<Rightarrow> target
           | Some d \<Rightarrow> target\<lparr>pd := take (PD_OUT_SIZE - length d) (pd target) @ d\<rparr>)"

text \<open>Copying payload; what both branches of the source do with their length \<open>n\<close>.\<close>

definition copy_payload :: "nat \<Rightarrow> dec_state \<Rightarrow> dec_state option" where
  "copy_payload n = (\<lambda>(source, target).
     do {
       bs \<leftarrow> buffer_read n source;
       dt \<leftarrow> buffer_write bs (data_trunk target);
       Some (source\<lparr>pos := pos source + n\<rparr>, write_pd (target\<lparr>data_trunk := dt\<lparr>pos := pos dt + n\<rparr>\<rparr>))
     })"

definition extract_payload :: "(dec_state, bool) code" where
  "extract_payload = (\<lambda>(source, target).
     if buffer_remaining source < buffer_remaining (data_trunk target) then do {
       (source, target) \<leftarrow> copy_payload (buffer_remaining source) (source, target);
       Some (Brk (source, target\<lparr>more_bytes_needed := True\<rparr>))
     } else do {
       (source, target) \<leftarrow> copy_payload (buffer_remaining (data_trunk target)) (source, target);
       Some (Fall (source, target\<lparr>packet_decode := PACKET_EXTRACTION_COMPLETE\<rparr>))
     })"

definition extract_cases ::
    "(nat \<Rightarrow> byte list option) \<Rightarrow> nat \<Rightarrow> bool \<Rightarrow>
     (g2_packet_decoder_states \<times> (dec_state, bool) code) list" where
  "extract_cases malloc max_len evict_data =
     [(CHECK_CONTROLL_BYTE, \<lambda>(source, target). on_ret (check_control_byte source target)),
      (READ_LENGTH, \<lambda>(source, target). on_ret (read_length source target max_len)),
      (READ_TYPE, \<lambda>(source, target). on_ret (read_type source target)),
      (DECIDE_DECODE, \<lambda>(source, target).
         if 0 < plength target
         then Some (Fall (source, target\<lparr>packet_decode := START_EXTRACT_PACKET_FROM_STREAM\<rparr>))
         else Some (Brk (source,
           target\<lparr>data_trunk := (data_trunk target)\<lparr>pos := 0, limit := 0\<rparr>,
                  more_bytes_needed := True, packet_decode := DECODE_FINISHED\<rparr>))),
      (START_EXTRACT_PACKET_FROM_STREAM, start_extract evict_data),
      (START_EXTRACT_PACKET_FROM_STREAM_TRUNK, start_extract_trunk malloc),
      (EXTRACT_PACKET_FROM_STREAM, extract_payload),
      (PACKET_EXTRACTION_COMPLETE, \<lambda>(source, target).
         Some (Brk (source, target\<lparr>data_trunk := buffer_flip (data_trunk target),
                                   more_bytes_needed := True\<rparr>))),
      (GET_PACKET_DATA, \<lambda>s. Some (Ret False s)),
      (EXTRACT_PACKET_DATA, \<lambda>s. Some (Ret False s)),
      (FINISH_PACKET_DATA, \<lambda>s. Some (Ret False s)),
      (GET_CHILD_PACKETS, \<lambda>s. Some (Ret False s)),
      (MAX_DECODER_STATE, \<lambda>s. Some (Ret False s)),
      (DECODE_FINISHED, \<lambda>(source, target).
         Some (Brk (source, target\<lparr>more_bytes_needed := True\<rparr>)))]"

definition g2_packet_extract_from_stream_b ::
    "(nat \<Rightarrow> byte list option) \<Rightarrow> big_buff \<Rightarrow> g2_packet \<Rightarrow> nat \<Rightarrow> bool \<Rightarrow>
     (bool \<times> big_buff \<times> g2_packet) option" where
  "g2_packet_extract_from_stream_b malloc source target max_len evict_data =
     c_while (\<lambda>(source, target). \<not> more_bytes_needed target)
       (\<lambda>(source, target).
          switch (packet_decode target) (extract_cases malloc max_len evict_data) (source, target))
       (\<lambda>_. True)
       (source, target\<lparr>more_bytes_needed := False\<rparr>)"

definition g2_packet_extract_from_stream ::
    "(nat \<Rightarrow> byte list option) \<Rightarrow> norm_buff \<Rightarrow> g2_packet \<Rightarrow> nat \<Rightarrow> bool \<Rightarrow>
     (bool \<times> norm_buff \<times> g2_packet) option" where
  "g2_packet_extract_from_stream = g2_packet_extract_from_stream_b"

end
