(* ===== verification/Packet_Decode_Correct.thy ===== *)
theory Packet_Decode_Correct
  imports Packet_Decode
begin

text \<open>
  What the decoder computes, as a function of the bytes in the buffer.  \<open>parse_header\<close> is the
  reference: it reads the header from a byte list in one go.  The readers of the source and the
  two decoders are shown to agree with it on every well-formed buffer, whatever the bytes are.
\<close>

subsection \<open>The reference\<close>

definition ctl_ll :: "byte \<Rightarrow> nat" where
  "ctl_ll c = unat (drop_bit 6 c AND 0x03)"

definition ctl_tl :: "byte \<Rightarrow> nat" where
  "ctl_tl c = unat ((drop_bit 3 c AND 0x07) + 1)"

definition type_char_ok :: "byte \<Rightarrow> bool" where
  "type_char_ok c \<longleftrightarrow> \<not> (c < 0x20 \<or> c AND 0x80 \<noteq> 0)"

text \<open>The fields that the control byte determines.\<close>

definition with_control :: "byte \<Rightarrow> g2_packet \<Rightarrow> g2_packet" where
  "with_control c t =
     t\<lparr>length_length := drop_bit 6 c AND 0x03, type_length := (drop_bit 3 c AND 0x07) + 1,
       c_reserved := (c AND 0x01 \<noteq> 0), big_endian := (c AND 0x02 \<noteq> 0),
       is_compound := (c AND 0x04 \<noteq> 0)\<rparr>"

definition length_value :: "bool \<Rightarrow> byte list \<Rightarrow> nat" where
  "length_value be bs = (if be then be_value bs else le_value bs)"

lemma ctl_ll_le: "ctl_ll c \<le> 3"
proof -
  have "drop_bit 6 c AND 3 \<le> 3" by (rule word_and_le1)
  then show ?thesis by (simp add: ctl_ll_def word_le_nat_alt)
qed

lemma ctl_tl_bounds: "1 \<le> ctl_tl c \<and> ctl_tl c \<le> 8"
proof -
  have "drop_bit 3 c AND 7 \<le> 7" by (rule word_and_le1)
  then have "unat (drop_bit 3 c AND 7) \<le> 7" by (simp add: word_le_nat_alt)
  then have "ctl_tl c = unat (drop_bit 3 c AND 7) + 1"
    using unat_add_lem[of "drop_bit 3 c AND 7" 1] by (simp add: ctl_tl_def)
  with \<open>unat (drop_bit 3 c AND 7) \<le> 7\<close> show ?thesis by simp
qed

lemma with_control_ll [simp]: "unat (length_length (with_control c t)) = ctl_ll c"
  by (simp add: with_control_def ctl_ll_def)

lemma with_control_tl [simp]: "unat (type_length (with_control c t)) = ctl_tl c"
  by (simp add: with_control_def ctl_tl_def)

lemma with_control_be [simp]: "big_endian (with_control c t) = (c AND 0x02 \<noteq> 0)"
  by (simp add: with_control_def)

lemma length_value_bound: "length bs \<le> 3 \<Longrightarrow> length_value be bs < 2 ^ 24"
proof -
  assume len: "length bs \<le> 3"
  have "length_value be bs < 256 ^ length bs"
    by (simp add: length_value_def le_value_bound be_value_bound)
  also have "(256 :: nat) ^ length bs \<le> 256 ^ 3" using len by (intro power_increasing) auto
  finally show ?thesis by simp
qed

subsection \<open>The control byte\<close>

lemma check_control_byte_p_empty:
  "buffer_remaining s = 0 \<Longrightarrow>
   check_control_byte_p s t = Some (0, s, t\<lparr>more_bytes_needed := True\<rparr>)"
  by (simp add: check_control_byte_p_def)

lemma check_control_byte_p_byte:
  assumes "wf_buff s" and "buffer_bytes s = c # bs"
  shows "check_control_byte_p s t =
    (if c = 0 then Some (-1, s\<lparr>pos := pos s + 1\<rparr>, t)
     else Some (1, s\<lparr>pos := pos s + 1\<rparr>,
       (with_control c t)\<lparr>packet_decode := decoder_next (packet_decode t)\<rparr>))"
proof -
  have "buffer_remaining s \<noteq> 0" using assms buffer_bytes_Nil[OF assms(1)] by auto
  with buffer_get_wf[OF assms(1)] assms(2) show ?thesis
    by (simp add: check_control_byte_p_def with_control_def)
qed

subsection \<open>The length\<close>

lemma buffer_bytes_Cons_pos: "wf_buff s \<Longrightarrow> buffer_bytes s = c # bs \<Longrightarrow> pos s + 1 \<le> limit s"
  using length_buffer_bytes[of s] by (simp add: buffer_remaining_wf)

lemma unat_ucast_byte32: "unat (ucast (c :: byte) :: u32) = unat c"
  unfolding unsigned_ucast_eq
  by (rule take_bit_nat_eq_self, rule less_trans[OF unat_byte_lt]) simp

lemma read_length_loop_le:
  assumes "\<not> big_endian t" and "wf_buff s" and "n \<le> length (buffer_bytes s)" and "i + n \<le> 3"
    and "unat (plength t) < 256 ^ i"
  shows "\<exists>L. read_length_loop n i s t = Some (s\<lparr>pos := pos s + n\<rparr>, t\<lparr>plength := L\<rparr>) \<and>
    unat L = unat (plength t) + 256 ^ i * le_value (take n (buffer_bytes s))"
  using assms
proof (induction n arbitrary: i s t)
  case 0
  then show ?case by (auto intro!: exI[of _ "plength t"])
next
  case (Suc n)
  obtain c bs where cb: "buffer_bytes s = c # bs" using Suc.prems(3) by (cases "buffer_bytes s") auto
  have get: "buffer_get s = Some c"
    using buffer_get_wf[OF Suc.prems(2)] buffer_bytes_Nil[OF Suc.prems(2)] cb by auto
  define s1 where "s1 = s\<lparr>pos := pos s + 1\<rparr>"
  define t1 where "t1 = t\<lparr>plength := plength t OR push_bit (i * 8) (ucast c)\<rparr>"
  have p1: "pos s + 1 \<le> limit s" using buffer_bytes_Cons_pos[OF Suc.prems(2) cb] .
  have s1: "wf_buff s1" "buffer_bytes s1 = bs"
    using wf_buff_advance[OF Suc.prems(2) p1] buffer_bytes_advance[OF p1] cb by (auto simp: s1_def)
  have pw: "(256 :: nat) ^ i = 2 ^ (i * 8)"
    using power_mult[of "2 :: nat" 8 i] by (simp add: mult.commute)
  have "unat (ucast c :: u32) = unat c" by (rule unat_ucast_byte32)
  moreover have "unat c * 2 ^ (i * 8) < 2 ^ 32"
  proof -
    have "unat c * 2 ^ (i * 8) < 256 * 256 ^ i" unfolding pw[symmetric] by simp
    also have "\<dots> = 256 ^ Suc i" by simp
    also have "\<dots> \<le> 256 ^ 3" using Suc.prems(4) by (intro power_increasing) auto
    finally show ?thesis by simp
  qed
  ultimately have t1: "unat (plength t1) = unat (plength t) + 256 ^ i * unat c"
    using unat_or_push[of "plength t" "i * 8" "ucast c"] Suc.prems(5) by (simp add: t1_def pw)
  have "unat c < 256" by simp
  then have "256 ^ i * unat c + 256 ^ i \<le> 256 ^ i * 256"
    by (metis Suc_leI add.commute mult_Suc_right mult_le_mono2)
  then have b1: "unat (plength t1) < 256 ^ (i + 1)"
    unfolding t1 power_add power_one_right using Suc.prems(5) by linarith
  have "\<exists>L. read_length_loop n (i + 1) s1 t1 = Some (s1\<lparr>pos := pos s1 + n\<rparr>, t1\<lparr>plength := L\<rparr>) \<and>
    unat L = unat (plength t1) + 256 ^ (i + 1) * le_value (take n (buffer_bytes s1))"
    using Suc.prems s1 cb b1 by (intro Suc.IH) (auto simp: t1_def)
  then show ?case using Suc.prems(1) get s1 cb t1
    by (auto simp: s1_def t1_def algebra_simps)
qed

lemma be_value_snoc: "be_value (bs @ [b]) = 256 * be_value bs + unat b"
  by (simp add: be_value_def)

lemma read_length_loop_be:
  assumes "big_endian t" and "wf_buff s" and "n \<le> length (buffer_bytes s)" and "length pre + n \<le> 3"
    and "unat (plength t) = be_value pre"
  shows "\<exists>L. read_length_loop n (length pre) s t = Some (s\<lparr>pos := pos s + n\<rparr>, t\<lparr>plength := L\<rparr>) \<and>
    unat L = be_value (pre @ take n (buffer_bytes s))"
  using assms
proof (induction n arbitrary: pre s t)
  case 0
  then show ?case by (auto intro!: exI[of _ "plength t"])
next
  case (Suc n)
  obtain c bs where cb: "buffer_bytes s = c # bs" using Suc.prems(3) by (cases "buffer_bytes s") auto
  have get: "buffer_get s = Some c"
    using buffer_get_wf[OF Suc.prems(2)] buffer_bytes_Nil[OF Suc.prems(2)] cb by auto
  define s1 where "s1 = s\<lparr>pos := pos s + 1\<rparr>"
  define t1 where "t1 = t\<lparr>plength := push_bit 8 (plength t) OR ucast c\<rparr>"
  have p1: "pos s + 1 \<le> limit s" using buffer_bytes_Cons_pos[OF Suc.prems(2) cb] .
  have s1: "wf_buff s1" "buffer_bytes s1 = bs"
    using wf_buff_advance[OF Suc.prems(2) p1] buffer_bytes_advance[OF p1] cb by (auto simp: s1_def)
  have "be_value pre < 256 ^ length pre" by (rule be_value_bound)
  also have "\<dots> \<le> 256 ^ 2" using Suc.prems(4) by (intro power_increasing) auto
  finally have "unat (plength t) * 2 ^ 8 < 2 ^ 32" using Suc.prems(5) by simp
  moreover have "unat (ucast c :: u32) = unat c" by (rule unat_ucast_byte32)
  ultimately have t1: "unat (plength t1) = be_value (pre @ [c])"
    using unat_push_or[of "ucast c" 8 "plength t"] Suc.prems(5)
    by (simp add: t1_def be_value_snoc)
  have "\<exists>L. read_length_loop n (length (pre @ [c])) s1 t1 =
      Some (s1\<lparr>pos := pos s1 + n\<rparr>, t1\<lparr>plength := L\<rparr>) \<and>
    unat L = be_value ((pre @ [c]) @ take n (buffer_bytes s1))"
    using Suc.prems s1 cb t1 by (intro Suc.IH) (auto simp: t1_def)
  then show ?case using Suc.prems(1) get s1 cb
    by (auto simp: s1_def t1_def)
qed

lemma read_length_loop_value:
  assumes "wf_buff s" and "n \<le> length (buffer_bytes s)" and "n \<le> 3"
  shows "read_length_loop n 0 s (t\<lparr>plength := 0\<rparr>) =
    Some (s\<lparr>pos := pos s + n\<rparr>,
      t\<lparr>plength := word_of_nat (length_value (big_endian t) (take n (buffer_bytes s)))\<rparr>)"
proof -
  have "\<exists>L. read_length_loop n 0 s (t\<lparr>plength := 0\<rparr>) =
      Some (s\<lparr>pos := pos s + n\<rparr>, t\<lparr>plength := L\<rparr>) \<and>
      unat L = length_value (big_endian t) (take n (buffer_bytes s))"
    using read_length_loop_le[of "t\<lparr>plength := 0\<rparr>" s n 0]
      read_length_loop_be[of "t\<lparr>plength := 0\<rparr>" s n "[]"] assms
    by (auto simp: length_value_def be_value_def)
  then show ?thesis by (metis of_nat_unat ucast_id)
qed

lemma read_length_p_more:
  "unat (length_length t) > buffer_remaining s \<Longrightarrow>
   read_length_p s t max_len = Some (0, s, t\<lparr>more_bytes_needed := True\<rparr>)"
  by (simp add: read_length_p_def)

lemma unat_packet_size:
  assumes "L < 2 ^ 24" and "unat a \<le> 3" and "unat b \<le> 8"
  shows "unat (word_of_nat L + ucast (a :: byte) + ucast (b :: byte) + 1 :: u32) =
    L + unat a + unat b + 1"
proof -
  have L: "unat (word_of_nat L :: u32) = L"
    using assms(1) by (simp add: unat_of_nat take_bit_nat_eq_self)
  have 1: "unat (word_of_nat L + ucast a :: u32) = L + unat a"
    using unat_add_lem[of "word_of_nat L :: u32" "ucast a"] assms L by (simp add: unat_ucast_byte32)
  have 2: "unat (word_of_nat L + ucast a + ucast b :: u32) = L + unat a + unat b"
    using unat_add_lem[of "word_of_nat L + ucast a :: u32" "ucast b"] assms 1
    by (simp add: unat_ucast_byte32)
  show ?thesis
    using unat_add_lem[of "word_of_nat L + ucast a + ucast b :: u32" 1] assms 2 by simp
qed

lemma word_of_length_eq_0: "L < 2 ^ 24 \<Longrightarrow> (word_of_nat L :: u32) = 0 \<longleftrightarrow> L = 0"
  by (auto simp: word_of_nat_eq_0_iff dest: nat_dvd_not_less)

lemma read_length_p_value:
  assumes "wf_buff s" and "unat (length_length t) \<le> length (buffer_bytes s)"
    and "unat (length_length t) \<le> 3" and "unat (type_length t) \<le> 8"
    and "L = length_value (big_endian t) (take (unat (length_length t)) (buffer_bytes s))"
  shows "read_length_p s t max_len =
    (let s1 = s\<lparr>pos := pos s + unat (length_length t)\<rparr>; t1 = t\<lparr>plength := word_of_nat L\<rparr> in
     if max_len < L + unat (length_length t) + unat (type_length t) + 1 then Some (-1, s1, t1)
     else Some (1, s1, t1\<lparr>is_compound := is_compound t \<and> L \<noteq> 0,
                          packet_decode := decoder_next (packet_decode t)\<rparr>))"
proof -
  have "L < 2 ^ 24" unfolding assms(5) using assms(3) by (intro length_value_bound) auto
  then show ?thesis
    using assms read_length_loop_value[OF assms(1-3), of t]
      unat_packet_size[of L "length_length t" "type_length t"] word_of_length_eq_0[of L]
      length_buffer_bytes[OF assms(1)]
    by (auto simp: read_length_p_def Let_def)
qed

subsection \<open>The type\<close>

lemma read_type_loop_ok:
  "data s = Some d \<Longrightarrow> i + n \<le> length d \<Longrightarrow> j + n \<le> length h \<Longrightarrow>
   list_all type_char_ok (take n (drop i d)) \<Longrightarrow>
   read_type_loop n i j s h = Some (True, take j h @ take n (drop i d) @ drop (j + n) h)"
proof (induction n arbitrary: i j h)
  case 0
  then show ?case by simp
next
  case (Suc n)
  have d: "drop i d = d ! i # drop (Suc i) d" using Suc.prems(2) by (intro nth_drop_0) simp
  have h: "take (Suc j) (h[j := d ! i]) = take j h @ [d ! i]"
    using Suc.prems(3) by (simp add: take_Suc_conv_app_nth)
  have "read_type_loop n (i + 1) (j + 1) s (h[j := d ! i]) =
     Some (True, take (j + 1) (h[j := d ! i]) @ take n (drop (i + 1) d) @
       drop (j + 1 + n) (h[j := d ! i]))"
    using Suc.prems d by (intro Suc.IH) auto
  then show ?case using Suc.prems d h
    by (auto simp: buffer_get_def type_char_ok_def)
qed

lemma read_type_loop_bad:
  "data s = Some d \<Longrightarrow> i + n \<le> length d \<Longrightarrow> j + n \<le> length h \<Longrightarrow>
   \<not> list_all type_char_ok (take n (drop i d)) \<Longrightarrow>
   \<exists>h'. read_type_loop n i j s h = Some (False, h')"
proof (induction n arbitrary: i j h)
  case 0
  then show ?case by simp
next
  case (Suc n)
  have d: "drop i d = d ! i # drop (Suc i) d" using Suc.prems(2) by (intro nth_drop_0) simp
  show ?case
  proof (cases "type_char_ok (d ! i)")
    case True
    then have "\<exists>h'. read_type_loop n (i + 1) (j + 1) s (h[j := d ! i]) = Some (False, h')"
      using Suc.prems d by (intro Suc.IH) auto
    then show ?thesis using Suc.prems True by (auto simp: buffer_get_def type_char_ok_def)
  next
    case False
    then show ?thesis using Suc.prems by (auto simp: buffer_get_def type_char_ok_def)
  qed
qed

text \<open>The type name as the packet stores it: padded to eight bytes.\<close>

definition type_name :: "byte list \<Rightarrow> byte list" where
  "type_name ty = ty @ replicate (8 - length ty) 0"

definition with_type :: "byte list \<Rightarrow> g2_ptype \<Rightarrow> g2_packet \<Rightarrow> g2_packet" where
  "with_type ty pt t = t\<lparr>pd := type_name ty @ drop 8 (pd t), packet_type := pt\<rparr>"

lemma read_type_p_more:
  "unat (type_length t) > buffer_remaining s \<Longrightarrow>
   read_type_p s t = Some (0, s, t\<lparr>more_bytes_needed := True\<rparr>)"
  by (simp add: read_type_p_def)

lemma wf_buff_window:
  assumes "wf_buff s" and "n \<le> length (buffer_bytes s)" and "0 < n"
  obtains d where "data s = Some d" and "pos s + n \<le> length d"
    and "take n (drop (pos s) d) = take n (buffer_bytes s)"
  using assms
  by (cases "data s") (auto simp: buffer_bytes_def wf_buff_def min_def split: if_splits)

lemma read_type_p_value:
  assumes "wf_buff s" and "unat (type_length t) \<le> length (buffer_bytes s)"
    and "1 \<le> unat (type_length t)" and "unat (type_length t) \<le> 8" and "length (pd t) = PD_OUT_SIZE"
    and "ty = take (unat (type_length t)) (buffer_bytes s)"
  shows "if list_all type_char_ok ty
    then read_type_p s t =
      map_option (\<lambda>pt. (1, s\<lparr>pos := pos s + unat (type_length t)\<rparr>,
          (with_type ty pt t)\<lparr>packet_decode := decoder_next (packet_decode t)\<rparr>))
        (g2_packet_find_type (type_name ty))
    else \<exists>t'. read_type_p s t = Some (-1, s\<lparr>pos := pos s + unat (type_length t)\<rparr>, t')"
proof -
  let ?n = "unat (type_length t)" and ?h = "replicate 8 0 @ drop 8 (pd t)"
  let ?s = "s\<lparr>pos := pos s + ?n\<rparr>"
  obtain d where d: "data s = Some d" "pos s + ?n \<le> length d" "take ?n (drop (pos s) d) = ty"
    using wf_buff_window[OF assms(1,2)] assms(3,6) by auto
  have len: "?n \<le> length ?h" "length ty = ?n" using assms by (auto simp: PD_OUT_SIZE_def)
  have nz: "type_length t \<noteq> 0" using assms(3) by auto
  have rem: "\<not> ?n > buffer_remaining s" using assms(1,2) length_buffer_bytes by fastforce
  have h: "ty @ drop ?n ?h = type_name ty @ drop 8 (pd t)"
    using len assms(4) by (simp add: type_name_def)
  have "take 8 (type_name ty @ drop 8 (pd t)) = type_name ty"
    using len assms(4) by (simp add: type_name_def)
  with read_type_loop_ok[of ?s d "pos s" ?n 0 ?h] read_type_loop_bad[of ?s d "pos s" ?n 0 ?h]
  show ?thesis using d len nz rem h
    by (auto simp: read_type_p_def Let_def with_type_def option.map_comp o_def
        Option.map_conv_bind_option)
qed

subsection \<open>The whole header\<close>

datatype hparse = HMore | HBad | HHeader byte nat "byte list"

definition parse_header :: "nat \<Rightarrow> byte list \<Rightarrow> hparse" where
  "parse_header max_len bs =
     (case bs of
        [] \<Rightarrow> HMore
      | c # bs1 \<Rightarrow>
          if c = 0 then HBad
          else if ctl_ll c > length bs1 then HMore
          else
            (let L = length_value (c AND 0x02 \<noteq> 0) (take (ctl_ll c) bs1);
                 bs2 = drop (ctl_ll c) bs1; ty = take (ctl_tl c) bs2 in
             if max_len < L + ctl_ll c + ctl_tl c + 1 then HBad
             else if ctl_tl c > length bs2 then HMore
             else if list_all type_char_ok ty then HHeader c L ty else HBad))"

definition header_size :: "byte \<Rightarrow> nat" where
  "header_size c = 1 + ctl_ll c + ctl_tl c"

definition with_length :: "byte \<Rightarrow> nat \<Rightarrow> g2_packet \<Rightarrow> g2_packet" where
  "with_length c L t =
     (with_control c t)\<lparr>plength := word_of_nat L, is_compound := c AND 0x04 \<noteq> 0 \<and> L \<noteq> 0\<rparr>"

definition with_header :: "byte \<Rightarrow> nat \<Rightarrow> byte list \<Rightarrow> g2_ptype \<Rightarrow> g2_packet \<Rightarrow> g2_packet" where
  "with_header c L ty pt t = with_type ty pt (with_length c L t)"

lemma parse_header_bounds:
  assumes "parse_header max_len bs = HHeader c L ty"
  shows "c \<noteq> 0" and "L < 2 ^ 24" and "length ty = ctl_tl c" and "header_size c \<le> length bs"
    and "L + header_size c \<le> max_len" and "list_all type_char_ok ty"
proof -
  obtain bs1 where bs: "bs = c # bs1" "c \<noteq> 0" "ctl_ll c \<le> length bs1"
    "L = length_value (c AND 0x02 \<noteq> 0) (take (ctl_ll c) bs1)"
    "L + ctl_ll c + ctl_tl c + 1 \<le> max_len" "ctl_tl c \<le> length bs1 - ctl_ll c"
    "ty = take (ctl_tl c) (drop (ctl_ll c) bs1)" "list_all type_char_ok ty"
    using assms by (cases bs) (auto simp: parse_header_def Let_def split: if_splits)
  have "L < 2 ^ 24" unfolding bs(4) by (rule length_value_bound) (use ctl_ll_le[of c] in simp)
  with bs show "c \<noteq> 0" "L < 2 ^ 24" "length ty = ctl_tl c" "header_size c \<le> length bs"
    "L + header_size c \<le> max_len" "list_all type_char_ok ty"
    by (auto simp: header_size_def)
qed

text \<open>The three header cases of both decoders, with the code behind them left open.\<close>

definition header_cases :: "(pointer_buff \<Rightarrow> nat) \<Rightarrow> (dec_state, bool) code list" where
  "header_cases mx =
     [\<lambda>(source, target). on_ret (check_control_byte_p source target),
      \<lambda>(source, target). on_ret (read_length_p source target (mx source)),
      \<lambda>(source, target). on_ret (read_type_p source target)]"

lemma run_read_type:
  assumes "wf_buff s" and "1 \<le> unat (type_length t)" and "unat (type_length t) \<le> 8"
    and "length (pd t) = PD_OUT_SIZE" and "ty = take (unat (type_length t)) (buffer_bytes s)"
  shows "run_cases ((\<lambda>(s, t). on_ret (read_type_p s t)) # rest) (s, t) =
    (if unat (type_length t) > length (buffer_bytes s)
     then Some (Brk (s, t\<lparr>more_bytes_needed := True\<rparr>))
     else if list_all type_char_ok ty
     then Option.bind (g2_packet_find_type (type_name ty))
       (\<lambda>pt. run_cases rest (s\<lparr>pos := pos s + unat (type_length t)\<rparr>,
          (with_type ty pt t)\<lparr>packet_decode := decoder_next (packet_decode t)\<rparr>))
     else Some (Ret False (s\<lparr>pos := pos s + unat (type_length t)\<rparr>,
                           snd (snd (the (read_type_p s t))))))"
proof (cases "unat (type_length t) > length (buffer_bytes s)")
  case True
  then show ?thesis
    using read_type_p_more length_buffer_bytes[OF assms(1)] by (simp add: on_ret_def)
next
  case False
  then show ?thesis using read_type_p_value[OF assms(1) _ assms(2-5)]
    by (cases "g2_packet_find_type (type_name ty)") (auto simp: on_ret_def split: if_splits)
qed

lemma run_read_length:
  assumes "wf_buff s" and "unat (length_length t) \<le> 3" and "unat (type_length t) \<le> 8"
    and "L = length_value (big_endian t) (take (unat (length_length t)) (buffer_bytes s))"
  shows "run_cases ((\<lambda>(s, t). on_ret (read_length_p s t (mx s))) # rest) (s, t) =
    (if unat (length_length t) > length (buffer_bytes s)
     then Some (Brk (s, t\<lparr>more_bytes_needed := True\<rparr>))
     else
       (let s1 = s\<lparr>pos := pos s + unat (length_length t)\<rparr>; t1 = t\<lparr>plength := word_of_nat L\<rparr> in
        if mx s < L + unat (length_length t) + unat (type_length t) + 1
        then Some (Ret False (s1, t1))
        else run_cases rest (s1, t1\<lparr>is_compound := is_compound t \<and> L \<noteq> 0,
                                    packet_decode := decoder_next (packet_decode t)\<rparr>)))"
proof (cases "unat (length_length t) > length (buffer_bytes s)")
  case True
  then show ?thesis
    using read_length_p_more length_buffer_bytes[OF assms(1)] by (simp add: on_ret_def)
next
  case False
  then show ?thesis using read_length_p_value[OF assms(1) _ assms(2-4)]
    by (simp add: on_ret_def Let_def)
qed

lemma run_check_control:
  assumes "wf_buff s"
  shows "run_cases ((\<lambda>(s, t). on_ret (check_control_byte_p s t)) # rest) (s, t) =
    (case buffer_bytes s of
       [] \<Rightarrow> Some (Brk (s, t\<lparr>more_bytes_needed := True\<rparr>))
     | c # bs \<Rightarrow>
         if c = 0 then Some (Ret False (s\<lparr>pos := pos s + 1\<rparr>, t))
         else run_cases rest (s\<lparr>pos := pos s + 1\<rparr>,
           (with_control c t)\<lparr>packet_decode := decoder_next (packet_decode t)\<rparr>))"
proof (cases "buffer_bytes s")
  case Nil
  then show ?thesis
    using check_control_byte_p_empty buffer_bytes_Nil[OF assms] by (simp add: on_ret_def)
next
  case (Cons c bs)
  then show ?thesis using check_control_byte_p_byte[OF assms Cons] by (simp add: on_ret_def)
qed

lemma header_cases_eq:
  "run_cases (header_cases mx @ rest) =
     run_cases ((\<lambda>(s, t). on_ret (check_control_byte_p s t)) #
       (\<lambda>(s, t). on_ret (read_length_p s t (mx s))) #
       (\<lambda>(s, t). on_ret (read_type_p s t)) # rest)"
  by (simp add: header_cases_def)

text \<open>The packet between two of the readers.\<close>

abbreviation after_control :: "byte \<Rightarrow> g2_packet \<Rightarrow> g2_packet" where
  "after_control c t \<equiv> (with_control c t)\<lparr>packet_decode := READ_LENGTH\<rparr>"

abbreviation after_length :: "byte \<Rightarrow> nat \<Rightarrow> g2_packet \<Rightarrow> g2_packet" where
  "after_length c L t \<equiv> (with_length c L t)\<lparr>packet_decode := READ_TYPE\<rparr>"

abbreviation after_header :: "byte \<Rightarrow> nat \<Rightarrow> byte list \<Rightarrow> g2_ptype \<Rightarrow> g2_packet \<Rightarrow> g2_packet" where
  "after_header c L ty pt t \<equiv> (with_header c L ty pt t)\<lparr>packet_decode := DECIDE_DECODE\<rparr>"

abbreviation read_length_case :: "(pointer_buff \<Rightarrow> nat) \<Rightarrow> (dec_state, bool) code" where
  "read_length_case mx \<equiv> \<lambda>(s, t). on_ret (read_length_p s t (mx s))"

abbreviation read_type_case :: "(dec_state, bool) code" where
  "read_type_case \<equiv> \<lambda>(s, t). on_ret (read_type_p s t)"

lemma run_type_after_length:
  assumes "wf_buff s" and "length (pd t) = PD_OUT_SIZE" and "ty = take (ctl_tl c) (buffer_bytes s)"
  shows "run_cases (read_type_case # rest) (s, after_length c L t) =
    (if ctl_tl c > length (buffer_bytes s)
     then Some (Brk (s, (after_length c L t)\<lparr>more_bytes_needed := True\<rparr>))
     else if list_all type_char_ok ty then
       Option.bind (g2_packet_find_type (type_name ty))
         (\<lambda>pt. run_cases rest (s\<lparr>pos := pos s + ctl_tl c\<rparr>, after_header c L ty pt t))
     else Some (Ret False (s\<lparr>pos := pos s + ctl_tl c\<rparr>,
                           snd (snd (the (read_type_p s (after_length c L t)))))))"
proof -
  have "unat (type_length (after_length c L t)) = ctl_tl c"
    using with_control_tl[of c t] by (simp add: with_length_def)
  moreover have "length (pd (after_length c L t)) = PD_OUT_SIZE"
    using assms(2) by (simp add: with_length_def with_control_def)
  ultimately show ?thesis
    using run_read_type[OF assms(1), of "after_length c L t" ty rest] ctl_tl_bounds[of c] assms(3)
    by (simp add: with_header_def with_type_def del: run_cases.simps)
qed

lemma run_length_after_control:
  assumes "wf_buff s" and "L = length_value (c AND 0x02 \<noteq> 0) (take (ctl_ll c) (buffer_bytes s))"
  shows "run_cases (read_length_case mx # rest) (s, after_control c t) =
    (if ctl_ll c > length (buffer_bytes s)
     then Some (Brk (s, (after_control c t)\<lparr>more_bytes_needed := True\<rparr>))
     else if mx s < L + ctl_ll c + ctl_tl c + 1
     then Some (Ret False (s\<lparr>pos := pos s + ctl_ll c\<rparr>,
                           (after_control c t)\<lparr>plength := word_of_nat L\<rparr>))
     else run_cases rest (s\<lparr>pos := pos s + ctl_ll c\<rparr>, after_length c L t))"
proof -
  have "unat (length_length (after_control c t)) = ctl_ll c"
    "unat (type_length (after_control c t)) = ctl_tl c"
    "big_endian (after_control c t) = (c AND 0x02 \<noteq> 0)"
    "is_compound (after_control c t) = (c AND 0x04 \<noteq> 0)"
    using with_control_ll[of c t] with_control_tl[of c t] by (auto simp: with_control_def)
  then show ?thesis
    using run_read_length[OF assms(1), of "after_control c t" L mx rest]
      ctl_ll_le[of c] ctl_tl_bounds[of c] assms(2)
    by (simp add: Let_def with_length_def del: run_cases.simps)
qed

lemma run_header_Cons:
  assumes wf: "wf_buff s" and pd: "length (pd t) = PD_OUT_SIZE"
    and st: "packet_decode t = CHECK_CONTROLL_BYTE" and bytes: "buffer_bytes s = c # bs"
    and L: "L = length_value (c AND 0x02 \<noteq> 0) (take (ctl_ll c) bs)"
    and ty: "ty = take (ctl_tl c) (drop (ctl_ll c) bs)"
  shows "run_cases (header_cases mx @ rest) (s, t) =
    (if c = 0 then Some (Ret False (s\<lparr>pos := pos s + 1\<rparr>, t))
     else if ctl_ll c > length bs
     then Some (Brk (s\<lparr>pos := pos s + 1\<rparr>, (after_control c t)\<lparr>more_bytes_needed := True\<rparr>))
     else if mx (s\<lparr>pos := pos s + 1\<rparr>) < L + ctl_ll c + ctl_tl c + 1
     then Some (Ret False (s\<lparr>pos := pos s + (1 + ctl_ll c)\<rparr>,
                           (after_control c t)\<lparr>plength := word_of_nat L\<rparr>))
     else if ctl_tl c > length bs - ctl_ll c
     then Some (Brk (s\<lparr>pos := pos s + (1 + ctl_ll c)\<rparr>,
                     (after_length c L t)\<lparr>more_bytes_needed := True\<rparr>))
     else if list_all type_char_ok ty then
       Option.bind (g2_packet_find_type (type_name ty))
         (\<lambda>pt. run_cases rest (s\<lparr>pos := pos s + header_size c\<rparr>, after_header c L ty pt t))
     else Some (Ret False (s\<lparr>pos := pos s + header_size c\<rparr>,
       snd (snd (the (read_type_p (s\<lparr>pos := pos s + (1 + ctl_ll c)\<rparr>) (after_length c L t)))))))"
proof -
  have len: "pos s + (1 + length bs) = limit s"
    using length_buffer_bytes[OF wf] bytes wf_buff_pos[OF wf] by (auto simp: buffer_remaining_wf[OF wf])
  let ?s1 = "s\<lparr>pos := pos s + 1\<rparr>" and ?s2 = "s\<lparr>pos := pos s + (1 + ctl_ll c)\<rparr>"
  have s1: "wf_buff ?s1" "buffer_bytes ?s1 = bs"
    using wf_buff_advance[OF wf, of 1] buffer_bytes_advance[of s 1] len bytes by auto
  have s2: "ctl_ll c \<le> length bs \<Longrightarrow> wf_buff ?s2 \<and> buffer_bytes ?s2 = drop (ctl_ll c) bs"
    using wf_buff_advance[OF wf, of "1 + ctl_ll c"] buffer_bytes_advance[of s "1 + ctl_ll c"] len bytes
    by auto
  show ?thesis
    unfolding header_cases_eq run_check_control[OF wf] bytes list.case st decoder_next.simps
    using run_length_after_control[OF s1(1), of L c mx "read_type_case # rest" t] s1 L
      run_type_after_length[of ?s2 t ty c rest L] s2 ty pd
    by (simp add: header_size_def add.assoc del: run_cases.simps)
qed

text \<open>A reader moved forward inside of the window.\<close>

definition buff_advanced :: "pointer_buff \<Rightarrow> pointer_buff \<Rightarrow> bool" where
  "buff_advanced s s' \<longleftrightarrow> s' = s\<lparr>pos := pos s'\<rparr> \<and> pos s \<le> pos s' \<and> pos s' \<le> limit s"

lemma buff_advancedI: "pos s + n \<le> limit s \<Longrightarrow> buff_advanced s (s\<lparr>pos := pos s + n\<rparr>)"
  by (simp add: buff_advanced_def)

lemma buff_advanced_refl: "pos s \<le> limit s \<Longrightarrow> buff_advanced s s"
  by (simp add: buff_advanced_def)

lemma buff_advanced_wf: "wf_buff s \<Longrightarrow> buff_advanced s s' \<Longrightarrow> wf_buff s'"
  using wf_buff_advance[of s "pos s' - pos s"] by (simp add: buff_advanced_def)

lemma run_header:
  assumes wf: "wf_buff s" and pd: "length (pd t) = PD_OUT_SIZE"
    and st: "packet_decode t = CHECK_CONTROLL_BYTE"
  shows "case parse_header (mx (s\<lparr>pos := pos s + 1\<rparr>)) (buffer_bytes s) of
      HMore \<Rightarrow> \<exists>s' t'. run_cases (header_cases mx @ rest) (s, t) = Some (Brk (s', t')) \<and>
        buff_advanced s s' \<and> more_bytes_needed t'
    | HBad \<Rightarrow> \<exists>s' t'. run_cases (header_cases mx @ rest) (s, t) = Some (Ret False (s', t')) \<and>
        buff_advanced s s'
    | HHeader c L ty \<Rightarrow> run_cases (header_cases mx @ rest) (s, t) =
        Option.bind (g2_packet_find_type (type_name ty))
          (\<lambda>pt. run_cases rest (s\<lparr>pos := pos s + header_size c\<rparr>, after_header c L ty pt t))"
proof (cases "buffer_bytes s")
  case Nil
  then show ?thesis
    using wf_buff_pos[OF wf]
    by (auto simp: parse_header_def header_cases_eq run_check_control[OF wf]
        simp del: run_cases.simps intro: buff_advanced_refl)
next
  case (Cons c bs)
  have len: "pos s + (1 + length bs) = limit s"
    using length_buffer_bytes[OF wf] Cons wf_buff_pos[OF wf] by (auto simp: buffer_remaining_wf[OF wf])
  note eq = run_header_Cons[OF wf pd st Cons refl refl, of mx rest]
  show ?thesis
    using len unfolding eq parse_header_def Cons
    by (auto simp: Let_def header_size_def intro!: buff_advancedI simp del: add_Suc_right)
qed

subsection \<open>Decoding a complete buffer\<close>

definition decoded :: "byte \<Rightarrow> nat \<Rightarrow> byte list \<Rightarrow> g2_ptype \<Rightarrow> pointer_buff \<Rightarrow> g2_packet \<Rightarrow> g2_packet" where
  "decoded c L ty pt s t =
     (if L = 0 then (with_header c L ty pt t)\<lparr>
        data_trunk := \<lparr>pos = 0, limit = 0, capacity = 0, data = None\<rparr>,
        packet_decode := DECODE_FINISHED\<rparr>
      else (with_header c L ty pt t)\<lparr>
        data_trunk_is_freeable := False,
        data_trunk := \<lparr>pos = 0, limit = L, capacity = L,
          data = buffer_start (s\<lparr>pos := pos s + header_size c\<rparr>)\<rparr>,
        packet_decode := (if c AND 0x04 \<noteq> 0 then GET_CHILD_PACKETS else DECODE_FINISHED)\<rparr>)"

lemma decode_cases_split:
  "map snd decode_cases =
     header_cases (\<lambda>s. buffer_remaining s + 1) @ drop 3 (map snd decode_cases)"
  by (simp add: decode_cases_def header_cases_def)

lemma plength_word: "L < 2 ^ 24 \<Longrightarrow> unat (word_of_nat L :: u32) = L"
  by (simp add: unat_of_nat take_bit_nat_eq_self)

lemma decode_tail:
  assumes "L < 2 ^ 24"
  shows "run_cases (drop 3 (map snd decode_cases))
      (s\<lparr>pos := pos s + header_size c\<rparr>, after_header c L ty pt t) =
    Some (Ret True (s\<lparr>pos := pos s + header_size c + L\<rparr>, decoded c L ty pt s t))"
proof (cases "L = 0")
  case True
  then show ?thesis
    by (simp add: decode_cases_def decoded_def with_header_def with_type_def with_length_def Let_def)
next
  case False
  then have "(0 :: u32) < word_of_nat L"
    using assms word_of_length_eq_0[of L] by (simp add: word_gt_0)
  then show ?thesis using False plength_word[OF assms]
    by (simp add: decode_cases_def decoded_def with_header_def with_type_def with_length_def Let_def)
qed

lemma g2_packet_decode_loop:
  assumes "packet_decode t = CHECK_CONTROLL_BYTE"
  shows "g2_packet_decode s t =
    (case run_cases (header_cases (\<lambda>s. buffer_remaining s + 1) @ drop 3 (map snd decode_cases))
        (s, t\<lparr>more_bytes_needed := False\<rparr>) of
       None \<Rightarrow> None
     | Some (Ret r s') \<Rightarrow> Some (r, s')
     | Some (Brk s') \<Rightarrow> c_while (\<lambda>(source, target). \<not> more_bytes_needed target)
         (\<lambda>(source, target). switch (packet_decode target) decode_cases (source, target))
         (\<lambda>(source, target). if more_bytes_needed target then False else True) s'
     | Some (Fall s') \<Rightarrow> c_while (\<lambda>(source, target). \<not> more_bytes_needed target)
         (\<lambda>(source, target). switch (packet_decode target) decode_cases (source, target))
         (\<lambda>(source, target). if more_bytes_needed target then False else True) s')"
proof -
  have "switch CHECK_CONTROLL_BYTE decode_cases = run_cases (map snd decode_cases)"
    by (rule ext) (simp add: switch_def decode_cases_def)
  then show ?thesis
    unfolding g2_packet_decode_def decode_cases_split[symmetric]
    by (subst c_while.simps) (auto simp: assms split: option.split ctl.split)
qed

lemma g2_packet_decode_spec:
  assumes wf: "wf_buff s" and pd: "length (pd t) = PD_OUT_SIZE"
    and st: "packet_decode t = CHECK_CONTROLL_BYTE"
  shows "case parse_header (length (buffer_bytes s)) (buffer_bytes s) of
      HHeader c L ty \<Rightarrow> g2_packet_decode s t =
        map_option (\<lambda>pt. (True, s\<lparr>pos := pos s + header_size c + L\<rparr>,
            decoded c L ty pt s (t\<lparr>more_bytes_needed := False\<rparr>)))
          (g2_packet_find_type (type_name ty))
    | _ \<Rightarrow> \<exists>s' t'. g2_packet_decode s t = Some (False, s', t') \<and> buff_advanced s s'"
proof -
  let ?t = "t\<lparr>more_bytes_needed := False\<rparr>" and ?mx = "\<lambda>s. buffer_remaining s + 1"
  have mx: "parse_header (?mx (s\<lparr>pos := pos s + 1\<rparr>)) (buffer_bytes s) =
      parse_header (length (buffer_bytes s)) (buffer_bytes s)"
  proof (cases "buffer_bytes s")
    case (Cons c bs)
    then show ?thesis
      using buffer_remaining_advance[OF wf, of 1] length_buffer_bytes[OF wf]
        buffer_bytes_Cons_pos[OF wf Cons] by simp
  qed (simp add: parse_header_def)
  have run: "case parse_header (length (buffer_bytes s)) (buffer_bytes s) of
      HMore \<Rightarrow> \<exists>s' t'. run_cases (header_cases ?mx @ drop 3 (map snd decode_cases)) (s, ?t) =
          Some (Brk (s', t')) \<and> buff_advanced s s' \<and> more_bytes_needed t'
    | HBad \<Rightarrow> \<exists>s' t'. run_cases (header_cases ?mx @ drop 3 (map snd decode_cases)) (s, ?t) =
          Some (Ret False (s', t')) \<and> buff_advanced s s'
    | HHeader c L ty \<Rightarrow>
        run_cases (header_cases ?mx @ drop 3 (map snd decode_cases)) (s, ?t) =
        Option.bind (g2_packet_find_type (type_name ty))
          (\<lambda>pt. run_cases (drop 3 (map snd decode_cases))
             (s\<lparr>pos := pos s + header_size c\<rparr>, after_header c L ty pt ?t))"
    using run_header[OF wf, of ?t ?mx "drop 3 (map snd decode_cases)"] pd st mx by simp
  show ?thesis
  proof (cases "parse_header (length (buffer_bytes s)) (buffer_bytes s)")
    case HMore
    then show ?thesis using run g2_packet_decode_loop[OF st, of s] by (auto simp: c_while_stop)
  next
    case HBad
    then show ?thesis using run g2_packet_decode_loop[OF st, of s] by auto
  next
    case (HHeader c L ty)
    then show ?thesis
      using run g2_packet_decode_loop[OF st, of s] decode_tail parse_header_bounds(2)[OF HHeader]
      by (cases "g2_packet_find_type (type_name ty)") auto
  qed
qed

lemma decoded_trunk:
  assumes wf: "wf_buff s" and h: "parse_header (length (buffer_bytes s)) (buffer_bytes s) = HHeader c L ty"
  shows "wf_buff (data_trunk (decoded c L ty pt s t))"
    and "buffer_bytes (data_trunk (decoded c L ty pt s t)) =
      take L (drop (header_size c) (buffer_bytes s))"
    and "buff_advanced s (s\<lparr>pos := pos s + header_size c + L\<rparr>)"
proof -
  have fits: "L + header_size c \<le> length (buffer_bytes s)" using parse_header_bounds(5)[OF h] .
  then have lim: "pos s + header_size c + L \<le> limit s"
    using length_buffer_bytes[OF wf] wf_buff_pos[OF wf] by (simp add: buffer_remaining_wf[OF wf])
  show "buff_advanced s (s\<lparr>pos := pos s + header_size c + L\<rparr>)"
    using lim by (simp add: buff_advanced_def)
  obtain d where d: "data s = Some d"
    using fits wf by (cases "data s") (auto simp: buffer_bytes_def header_size_def)
  have len: "limit s \<le> length d" "capacity s \<le> SIZE_MAX"
    using wf d by (auto simp: wf_buff_def)
  show "wf_buff (data_trunk (decoded c L ty pt s t))"
    using d lim len wf
    by (auto simp: decoded_def with_header_def with_type_def wf_buff_def buffer_start_def)
  have win: "take L (drop (header_size c) (buffer_bytes s)) = take L (drop (pos s + header_size c) d)"
    using d lim by (simp add: buffer_bytes_def drop_take min_absorb1 add.commute)
  show "buffer_bytes (data_trunk (decoded c L ty pt s t)) =
      take L (drop (header_size c) (buffer_bytes s))"
    unfolding win using d
    by (simp add: decoded_def with_header_def with_type_def buffer_bytes_def buffer_start_def)
qed

end
