(* ===== verification/Packet_Stream.thy ===== *)
theory Packet_Stream
  imports Packet_Decode_Correct
begin

text \<open>
  Decoding a byte stream that arrives in pieces (\<open>g2_packet_extract_from_stream_b\<close>).
  \<open>stream_state\<close> says where a decoder stands that has received the bytes \<open>w\<close> of a packet, with
  \<open>rest\<close> of them still unread in the buffer; \<open>extract_step\<close> shows that a call with more bytes in
  the buffer keeps this relation, whatever the pieces are, and that the decoder is done exactly
  when a whole packet has arrived.
\<close>

subsection \<open>The stream decoder in terms of the header readers\<close>

lemma wrapper_eq:
  "check_control_byte s t = check_control_byte_p s t"
  "read_type s t = read_type_p s t"
  "read_length s t mx = read_length_p s t mx"
proof -
  have big: "pbuf_of_big s = s" by (simp add: pbuf_of_big_def)
  have cap_loop: "read_length_loop n i s t = Some (s', t') \<Longrightarrow> capacity s' = capacity s \<and> data s' = data s"
    for n i s t s' t'
    by (induction n arbitrary: i s t) (auto simp: Let_def split: bind_splits)
  show "check_control_byte s t = check_control_byte_p s t"
    unfolding check_control_byte_def big check_control_byte_p_def
    by (auto simp: Let_def split: bind_splits)
  show "read_type s t = read_type_p s t"
    unfolding read_type_def big read_type_p_def
    by (auto simp: Let_def split: bind_splits)
  have "s\<lparr>pos := pos s', limit := limit s'\<rparr> = s'"
    if "read_length_p s t mx = Some (r, s', t')" for r s' t'
    using that unfolding read_length_p_def
    by (auto simp: Let_def split: bind_splits if_splits dest!: cap_loop)
  then show "read_length s t mx = read_length_p s t mx"
    unfolding read_length_def big by (auto split: bind_splits)
qed

text \<open>The code behind the three header cases.\<close>

definition body_cases :: "(nat \<Rightarrow> byte list option) \<Rightarrow> nat \<Rightarrow> bool \<Rightarrow> (dec_state, bool) code list" where
  "body_cases malloc mx ev = drop 3 (map snd (extract_cases malloc mx ev))"

lemma extract_cases_split:
  "map snd (extract_cases malloc mx ev) = header_cases (\<lambda>_. mx) @ body_cases malloc mx ev"
  by (simp add: extract_cases_def header_cases_def body_cases_def wrapper_eq)

lemma body_cases_eq:
  "body_cases malloc mx ev =
     (\<lambda>(source, target).
        if 0 < plength target
        then Some (Fall (source, target\<lparr>packet_decode := START_EXTRACT_PACKET_FROM_STREAM\<rparr>))
        else Some (Brk (source,
          target\<lparr>data_trunk := (data_trunk target)\<lparr>pos := 0, limit := 0\<rparr>,
                 more_bytes_needed := True, packet_decode := DECODE_FINISHED\<rparr>))) #
     start_extract ev # start_extract_trunk malloc # extract_payload #
     (\<lambda>(source, target). Some (Brk (source, target\<lparr>data_trunk := buffer_flip (data_trunk target),
                                   more_bytes_needed := True\<rparr>))) #
     drop 8 (map snd (extract_cases malloc mx ev))"
  by (simp add: body_cases_def extract_cases_def)

abbreviation extract_loop ::
    "(nat \<Rightarrow> byte list option) \<Rightarrow> nat \<Rightarrow> bool \<Rightarrow> dec_state \<Rightarrow> (bool \<times> dec_state) option" where
  "extract_loop malloc mx ev st \<equiv>
     c_while (\<lambda>(source, target). \<not> more_bytes_needed target)
       (\<lambda>(source, target).
          switch (packet_decode target) (extract_cases malloc mx ev) (source, target))
       (\<lambda>_. True) st"

text \<open>One round of the loop whose switch runs \<open>codes\<close>, and what follows.\<close>

definition iter ::
    "(nat \<Rightarrow> byte list option) \<Rightarrow> nat \<Rightarrow> bool \<Rightarrow> (dec_state, bool) code list \<Rightarrow> dec_state \<Rightarrow>
     (bool \<times> dec_state) option" where
  "iter malloc mx ev codes st =
     (case run_cases codes st of
        None \<Rightarrow> None
      | Some (Ret r st') \<Rightarrow> Some (r, st')
      | Some (Brk st') \<Rightarrow> extract_loop malloc mx ev st'
      | Some (Fall st') \<Rightarrow> extract_loop malloc mx ev st')"

lemma extract_loop_iter:
  assumes "\<not> more_bytes_needed t"
    and "switch (packet_decode t) (extract_cases malloc mx ev) (s, t) = run_cases codes (s, t)"
  shows "extract_loop malloc mx ev (s, t) = iter malloc mx ev codes (s, t)"
  using assms by (simp add: iter_def c_while.simps[of _ _ _ "(s, t)"] split: option.split ctl.split)

lemma switch_extract:
  "switch CHECK_CONTROLL_BYTE (extract_cases malloc mx ev) st =
     run_cases (header_cases (\<lambda>_. mx) @ body_cases malloc mx ev) st"
  "switch READ_LENGTH (extract_cases malloc mx ev) st =
     run_cases (tl (header_cases (\<lambda>_. mx) @ body_cases malloc mx ev)) st"
  "switch READ_TYPE (extract_cases malloc mx ev) st =
     run_cases (tl (tl (header_cases (\<lambda>_. mx) @ body_cases malloc mx ev))) st"
  by (simp_all only: extract_cases_split[symmetric]) (simp_all add: switch_def extract_cases_def)

lemma switch_extract_body:
  "switch START_EXTRACT_PACKET_FROM_STREAM (extract_cases malloc mx ev) st =
     run_cases (tl (body_cases malloc mx ev)) st"
  "switch EXTRACT_PACKET_FROM_STREAM (extract_cases malloc mx ev) st =
     run_cases (drop 3 (body_cases malloc mx ev)) st"
  "switch PACKET_EXTRACTION_COMPLETE (extract_cases malloc mx ev) st =
     run_cases (drop 4 (body_cases malloc mx ev)) st"
  by (simp_all add: switch_def extract_cases_def body_cases_def)

lemma iter_step:
  "run_cases codes st = run_cases codes' st' \<Longrightarrow>
   iter malloc mx ev codes st = iter malloc mx ev codes' st'"
  by (simp add: iter_def)

lemma iter_stop:
  "run_cases codes st = Some (Brk (s, t)) \<Longrightarrow> more_bytes_needed t \<Longrightarrow>
   iter malloc mx ev codes st = Some (True, s, t)"
  by (simp add: iter_def c_while_stop)

subsection \<open>Where a decoder stands\<close>

text \<open>A header of the right form: the control byte, the length bytes and the type name.\<close>

definition ok_length :: "nat \<Rightarrow> byte \<Rightarrow> byte list \<Rightarrow> nat \<Rightarrow> bool" where
  "ok_length mx c lb L \<longleftrightarrow> c \<noteq> 0 \<and> length lb = ctl_ll c \<and> L = length_value (c AND 0x02 \<noteq> 0) lb \<and>
     L + ctl_ll c + ctl_tl c + 1 \<le> mx"

definition ok_header :: "nat \<Rightarrow> byte \<Rightarrow> byte list \<Rightarrow> nat \<Rightarrow> byte list \<Rightarrow> bool" where
  "ok_header mx c lb L ty \<longleftrightarrow> ok_length mx c lb L \<and> length ty = ctl_tl c \<and> list_all type_char_ok ty"

lemma parse_ok_header:
  "ok_header mx c lb L ty \<Longrightarrow> parse_header mx (c # lb @ ty @ x) = HHeader c L ty"
  by (simp add: ok_header_def ok_length_def parse_header_def Let_def)

text \<open>A packet that can be filled from a stream.\<close>

definition fresh_target :: "g2_packet \<Rightarrow> bool" where
  "fresh_target t \<longleftrightarrow> packet_decode t = CHECK_CONTROLL_BYTE \<and> length (pd t) = PD_OUT_SIZE \<and>
     \<not> more_bytes_needed t \<and> \<not> data_trunk_is_freeable t \<and> data_trunk t = INIT_PBUF"

definition header_done ::
    "nat \<Rightarrow> g2_packet \<Rightarrow> byte list \<Rightarrow> byte list \<Rightarrow> nat \<Rightarrow> g2_packet \<Rightarrow> bool" where
  "header_done mx t0 w after L h \<longleftrightarrow>
     (\<exists>c lb ty pt. w = c # lb @ ty @ after \<and> ok_header mx c lb L ty \<and>
        g2_packet_find_type (type_name ty) = Some pt \<and> h = with_header c L ty pt t0)"

definition filling :: "nat \<Rightarrow> pointer_buff \<Rightarrow> byte list \<Rightarrow> bool" where
  "filling L dt got \<longleftrightarrow> wf_buff dt \<and> limit dt = L \<and> buffer_written dt = got \<and> pos dt = length got"

text \<open>A trunk in the packet: \<open>p\<close> is \<open>pd\<close> with the trunk in it, the type name of an unknown type is left alone.\<close>

definition trunk_size :: "g2_packet \<Rightarrow> nat" where
  "trunk_size h = (if packet_type h \<noteq> PT_UNKNOWN then PD_OUT_SIZE else PD_IN_BUF_SIZE)"

definition in_pd :: "g2_packet \<Rightarrow> bool \<Rightarrow> pointer_buff \<Rightarrow> byte list \<Rightarrow> bool" where
  "in_pd h fr dt p \<longleftrightarrow>
     (if fr then p = pd h
      else \<exists>d. data dt = Some d \<and> length d = trunk_size h \<and> p = take (PD_OUT_SIZE - trunk_size h) (pd h) @ d)"

lemma in_pd_window [simp]: "in_pd h fr (dt\<lparr>pos := i, limit := l\<rparr>) p = in_pd h fr dt p" "in_pd h fr (buffer_flip dt) p = in_pd h fr dt p"
  "in_pd h fr (dt\<lparr>pos := i\<rparr>) p = in_pd h fr dt p"
  by (simp_all add: in_pd_def buffer_flip_def)

text \<open>
  The places where a decoder waits for more bytes, or is done.  \<open>w\<close> are the bytes of the packet
  that have arrived, \<open>rest\<close> the ones of them that are still unread.
\<close>

inductive stream_at :: "nat \<Rightarrow> g2_packet \<Rightarrow> byte list \<Rightarrow> byte list \<Rightarrow> g2_packet \<Rightarrow> bool" for mx t0 where
  at_control: "t = t0 \<Longrightarrow> stream_at mx t0 w w t"
| at_length: "t = after_control c t0 \<Longrightarrow> c \<noteq> 0 \<Longrightarrow> stream_at mx t0 (c # rest) rest t"
| at_type: "t = after_length c L t0 \<Longrightarrow> ok_length mx c lb L \<Longrightarrow> stream_at mx t0 (c # lb @ rest) rest t"
| at_start: "t = h\<lparr>packet_decode := START_EXTRACT_PACKET_FROM_STREAM\<rparr> \<Longrightarrow>
    header_done mx t0 w rest L h \<Longrightarrow> 0 < L \<Longrightarrow> stream_at mx t0 w rest t"
| at_payload: "t = h\<lparr>packet_decode := EXTRACT_PACKET_FROM_STREAM, data_trunk := dt,
      data_trunk_is_freeable := fr, pd := p\<rparr> \<Longrightarrow> in_pd h fr dt p \<Longrightarrow>
    header_done mx t0 w (got @ rest) L h \<Longrightarrow> filling L dt got \<Longrightarrow> 0 < L \<Longrightarrow> stream_at mx t0 w rest t"
| at_empty: "t = h\<lparr>packet_decode := DECODE_FINISHED, data_trunk := INIT_PBUF\<rparr> \<Longrightarrow>
    header_done mx t0 w rest 0 h \<Longrightarrow> stream_at mx t0 w rest t"
| at_whole: "t = h\<lparr>packet_decode := PACKET_EXTRACTION_COMPLETE, data_trunk := dt,
      data_trunk_is_freeable := fr, pd := p\<rparr> \<Longrightarrow> p = pd h \<or> in_pd h fr dt p \<Longrightarrow>
    header_done mx t0 w (got @ rest) L h \<Longrightarrow> wf_buff dt \<Longrightarrow> buffer_bytes dt = got \<Longrightarrow> length got = L \<Longrightarrow>
    0 < L \<Longrightarrow> stream_at mx t0 w rest t"

definition stream_state :: "nat \<Rightarrow> g2_packet \<Rightarrow> byte list \<Rightarrow> byte list \<Rightarrow> g2_packet \<Rightarrow> bool" where
  "stream_state mx t0 w rest t \<longleftrightarrow> stream_at mx t0 w rest (t\<lparr>more_bytes_needed := False\<rparr>)"

definition stream_done :: "g2_packet \<Rightarrow> bool" where
  "stream_done t \<longleftrightarrow> packet_decode t \<in> {DECODE_FINISHED, PACKET_EXTRACTION_COMPLETE}"

definition complete :: "nat \<Rightarrow> byte list \<Rightarrow> bool" where
  "complete mx w \<longleftrightarrow>
     (case parse_header mx w of HHeader c L ty \<Rightarrow> header_size c + L \<le> length w | _ \<Rightarrow> False)"

definition typer_fault :: "nat \<Rightarrow> byte list \<Rightarrow> bool" where
  "typer_fault mx w \<longleftrightarrow>
     (\<exists>c L ty. parse_header mx w = HHeader c L ty \<and> g2_packet_find_type (type_name ty) = None)"

text \<open>What a call may do that has seen all of \<open>w\<close>.\<close>

definition call_ok ::
    "(nat \<Rightarrow> byte list option) \<Rightarrow> nat \<Rightarrow> g2_packet \<Rightarrow> byte list \<Rightarrow> (bool \<times> dec_state) option \<Rightarrow> bool" where
  "call_ok malloc mx t0 w r \<longleftrightarrow>
     (case r of
        None \<Rightarrow> typer_fault mx w
      | Some (True, s', t') \<Rightarrow> wf_buff s' \<and> stream_state mx t0 w (buffer_bytes s') t' \<and>
          (stream_done t' \<longleftrightarrow> complete mx w)
      | Some (False, s', t') \<Rightarrow> parse_header mx w = HBad \<or> (\<exists>n. malloc n = None))"

lemma complete_header:
  "header_done mx t0 w after L h \<Longrightarrow> complete mx w \<longleftrightarrow> L \<le> length after"
  by (auto simp: header_done_def complete_def parse_ok_header header_size_def ok_header_def ok_length_def)

subsection \<open>The payload\<close>

lemma header_done_append:
  "header_done mx t0 w a L h \<Longrightarrow> header_done mx t0 (w @ x) (a @ x) L h"
  by (auto simp: header_done_def)

lemma header_done_fields:
  assumes "header_done mx t0 w a L h" "fresh_target t0"
  shows "unat (plength h) = L" "length (pd h) = PD_OUT_SIZE" "data_trunk h = INIT_PBUF"
    "\<not> data_trunk_is_freeable h" "\<not> more_bytes_needed h"
proof -
  obtain c lb ty pt where h: "h = with_header c L ty pt t0" "ok_header mx c lb L ty"
    using assms(1) by (auto simp: header_done_def)
  have "length lb \<le> 3" using h(2) ctl_ll_le[of c] by (simp add: ok_header_def ok_length_def)
  then have "L < 2 ^ 24" using h(2) length_value_bound[of lb] by (simp add: ok_header_def ok_length_def)
  moreover have "length ty \<le> 8" using h(2) ctl_tl_bounds[of c] by (simp add: ok_header_def)
  ultimately show "unat (plength h) = L" "length (pd h) = PD_OUT_SIZE" "data_trunk h = INIT_PBUF"
    "\<not> data_trunk_is_freeable h" "\<not> more_bytes_needed h"
    using assms(2) plength_word[of L]
    by (simp_all add: h(1) fresh_target_def with_header_def with_type_def with_length_def
        with_control_def type_name_def PD_OUT_SIZE_def)
qed

text \<open>Flipping the filled trunk ends the call.\<close>

lemma call_complete:
  assumes hd: "header_done mx t0 w (got @ buffer_bytes s) L h" and s: "wf_buff s"
    and dt: "filling L dt got" "length got = L" "0 < L"
    and t: "t = h\<lparr>packet_decode := PACKET_EXTRACTION_COMPLETE, data_trunk := dt,
      data_trunk_is_freeable := fr, pd := p\<rparr>" and p: "p = pd h \<or> in_pd h fr dt p" and fresh: "fresh_target t0"
  shows "call_ok malloc mx t0 w (iter malloc mx ev (drop 4 (body_cases malloc mx ev)) (s, t))"
proof -
  let ?t = "t\<lparr>data_trunk := buffer_flip dt, more_bytes_needed := True\<rparr>"
  have "run_cases (drop 4 (body_cases malloc mx ev)) (s, t) = Some (Brk (s, ?t))"
    by (simp add: body_cases_eq t)
  then have r: "iter malloc mx ev (drop 4 (body_cases malloc mx ev)) (s, t) = Some (True, s, ?t)"
    by (rule iter_stop) simp
  have "wf_buff (buffer_flip dt)" "buffer_bytes (buffer_flip dt) = got"
    using dt(1) buffer_bytes_flip[of dt] by (simp_all add: filling_def)
  then have "stream_state mx t0 w (buffer_bytes s) ?t"
    unfolding stream_state_def t
    by (intro at_whole[OF _ _ hd _ _ dt(2,3), where p = p and fr = fr])
      (use header_done_fields(5)[OF hd fresh] p in \<open>cases h; simp\<close>)+
  moreover have "stream_done ?t" by (simp add: stream_done_def t)
  moreover have "complete mx w" using complete_header[OF hd] dt(2) by simp
  ultimately show ?thesis using r s by (simp add: call_ok_def)
qed

text \<open>Copying payload into the trunk.\<close>

lemma buffer_write_length: "buffer_write bs x = Some y \<Longrightarrow> map_option length (data y) = map_option length (data x)"
  by (auto simp: buffer_write_def split: if_splits option.splits)

lemma filling_write:
  assumes "filling L dt got" "wf_buff s" "n \<le> buffer_remaining s" "n \<le> L - length got"
  shows "\<exists>dt'. copy_payload n (s, t\<lparr>data_trunk := dt\<rparr>) =
      Some (s\<lparr>pos := pos s + n\<rparr>, write_pd (t\<lparr>data_trunk := dt'\<rparr>)) \<and>
    filling L dt' (got @ take n (buffer_bytes s)) \<and> map_option length (data dt') = map_option length (data dt)"
proof -
  have rd: "buffer_read n s = Some (take n (buffer_bytes s))" by (rule buffer_read_wf[OF assms(2,3)])
  have len: "length (take n (buffer_bytes s)) = n" using assms(3) length_buffer_bytes[OF assms(2)] by simp
  have rem: "buffer_remaining dt = L - length got" "wf_buff dt" "length got \<le> L"
    using assms(1) wf_buff_pos[of dt] by (auto simp: filling_def buffer_remaining_wf)
  obtain y where y: "buffer_write (take n (buffer_bytes s)) dt = Some y" "wf_buff y" "pos y = pos dt"
    "limit y = limit dt" "buffer_written (y\<lparr>pos := pos dt + n\<rparr>) = buffer_written dt @ take n (buffer_bytes s)"
    by (rule buffer_write_wf[OF rem(2), of "take n (buffer_bytes s)"]) (use len rem assms(4) in simp_all)
  have "pos y + n \<le> limit y" using y assms(1,4) rem(3) by (simp add: filling_def)
  then have "filling L (y\<lparr>pos := pos y + n\<rparr>) (got @ take n (buffer_bytes s))"
    using y assms(1) len wf_buff_advance[OF y(2)] by (simp add: filling_def)
  then show ?thesis using rd y(1) buffer_write_length[OF y(1)]
    by (intro exI[of _ "y\<lparr>pos := pos y + n\<rparr>"]) (simp add: copy_payload_def)
qed

lemma in_pd_write:
  assumes "in_pd h fr dt p" "map_option length (data dt') = map_option length (data dt)" "length (pd h) = PD_OUT_SIZE"
  shows "\<exists>p'. write_pd (h\<lparr>packet_decode := st, data_trunk := dt', data_trunk_is_freeable := fr, pd := p\<rparr>) =
      h\<lparr>packet_decode := st, data_trunk := dt', data_trunk_is_freeable := fr, pd := p'\<rparr> \<and> in_pd h fr dt' p'"
proof (cases fr)
  case True
  then have "p = pd h" using assms(1) by (simp add: in_pd_def)
  then show ?thesis using True by (intro exI[of _ p]) (simp add: write_pd_def in_pd_def)
next
  case False
  let ?k = "PD_OUT_SIZE - trunk_size h"
  obtain d where d: "data dt = Some d" "length d = trunk_size h" and p: "p = take ?k (pd h) @ d"
    using assms(1) False by (auto simp: in_pd_def)
  obtain d' where d': "data dt' = Some d'" "length d' = trunk_size h" using assms(2) d by auto
  have "take ?k p = take ?k (pd h)" using p assms(3) by simp
  then show ?thesis using False d'
    by (intro exI[of _ "take ?k (pd h) @ d'"]) (simp add: write_pd_def in_pd_def)
qed

lemma buffer_bytes_after:
  assumes "wf_buff s" "n \<le> buffer_remaining s"
  shows "wf_buff (s\<lparr>pos := pos s + n\<rparr>)" "buffer_bytes (s\<lparr>pos := pos s + n\<rparr>) = drop n (buffer_bytes s)"
  using assms wf_buff_advance[of s n] buffer_bytes_advance[of s n] wf_buff_pos[of s]
  by (simp_all add: buffer_remaining_wf)

lemma call_payload:
  assumes hd: "header_done mx t0 w (got @ buffer_bytes s) L h" and s: "wf_buff s"
    and dt: "filling L dt got" and L: "0 < L"
    and t: "t = h\<lparr>packet_decode := EXTRACT_PACKET_FROM_STREAM, data_trunk := dt,
      data_trunk_is_freeable := fr, pd := p\<rparr>" and p: "in_pd h fr dt p" and fresh: "fresh_target t0"
  shows "call_ok malloc mx t0 w (iter malloc mx ev (drop 3 (body_cases malloc mx ev)) (s, t))"
proof -
  let ?n = "min (buffer_remaining s) (L - length got)"
  let ?t1 = "\<lambda>d p. h\<lparr>packet_decode := EXTRACT_PACKET_FROM_STREAM, data_trunk := d,
      data_trunk_is_freeable := fr, pd := p\<rparr>"
  have rem: "buffer_remaining dt = L - length got" "length got \<le> L"
    using dt wf_buff_pos[of dt] by (auto simp: filling_def buffer_remaining_wf)
  have td: "t\<lparr>data_trunk := d\<rparr> = ?t1 d p" for d by (cases h) (simp add: t)
  obtain dt' where c0: "copy_payload ?n (s, t) = Some (s\<lparr>pos := pos s + ?n\<rparr>, write_pd (?t1 dt' p))"
    "filling L dt' (got @ take ?n (buffer_bytes s))" "map_option length (data dt') = map_option length (data dt)"
    using filling_write[OF dt s, of ?n t] unfolding td by (auto simp: t)
  obtain p' where p': "write_pd (?t1 dt' p) = ?t1 dt' p'" "in_pd h fr dt' p'"
    using in_pd_write[OF p c0(3) header_done_fields(2)[OF hd fresh]] by blast
  define t' where "t' = ?t1 dt' p'"
  have c: "copy_payload ?n (s, t) = Some (s\<lparr>pos := pos s + ?n\<rparr>, t')"
    "filling L dt' (got @ take ?n (buffer_bytes s))" using c0(1,2) p'(1) by (simp_all add: t'_def)
  let ?s = "s\<lparr>pos := pos s + ?n\<rparr>"
  have s': "wf_buff ?s" "buffer_bytes ?s = drop ?n (buffer_bytes s)"
    using buffer_bytes_after[OF s, of ?n] by simp_all
  then have hd': "header_done mx t0 w ((got @ take ?n (buffer_bytes s)) @ buffer_bytes ?s) L h"
    using hd by simp
  have rest: "drop 3 (body_cases malloc mx ev) = extract_payload # drop 4 (body_cases malloc mx ev)"
    by (simp add: body_cases_eq)
  show ?thesis
  proof (cases "buffer_remaining s < L - length got")
    case True
    let ?t = "t'\<lparr>more_bytes_needed := True\<rparr>"
    have "run_cases (drop 3 (body_cases malloc mx ev)) (s, t) = Some (Brk (?s, ?t))"
      unfolding rest using True c(1) rem(1) by (simp add: extract_payload_def t min_def)
    then have r: "iter malloc mx ev (drop 3 (body_cases malloc mx ev)) (s, t) = Some (True, ?s, ?t)"
      by (rule iter_stop) simp
    have "stream_state mx t0 w (buffer_bytes ?s) ?t"
      unfolding stream_state_def
      by (rule at_payload[OF _ p'(2) hd' c(2) L])
        (use header_done_fields(5)[OF hd fresh] in \<open>cases h; simp add: t'_def\<close>)
    moreover have "\<not> stream_done ?t" by (simp add: stream_done_def t'_def)
    moreover have "\<not> complete mx w"
      using complete_header[OF hd] True length_buffer_bytes[OF s] by simp
    ultimately show ?thesis using r s'(1) by (simp add: call_ok_def)
  next
    case False
    then have n: "?n = L - length got" by simp
    let ?t = "t'\<lparr>packet_decode := PACKET_EXTRACTION_COMPLETE\<rparr>"
    have "extract_payload (s, t) = Some (Fall (?s, ?t))"
      using False c(1) rem(1) by (simp add: extract_payload_def t n)
    then have "iter malloc mx ev (drop 3 (body_cases malloc mx ev)) (s, t) =
        iter malloc mx ev (drop 4 (body_cases malloc mx ev)) (?s, ?t)"
      unfolding rest by (intro iter_step) simp
    moreover have "length (got @ take ?n (buffer_bytes s)) = L"
      using n rem(2) False length_buffer_bytes[OF s] by simp
    ultimately show ?thesis
      using call_complete[OF hd' s'(1) c(2) _ L refl _ fresh, where fr = fr and p = p' and malloc = malloc and ev = ev] p'(2)
      by (cases h) (simp add: t'_def)
  qed
qed

text \<open>The trunk that is made for the payload.\<close>

lemma alloc_trunk_fresh:
  assumes hd: "header_done mx t0 w a L h" and fresh: "fresh_target t0"
    and malloc: "\<And>n m. malloc n = Some m \<Longrightarrow> length m = n"
    and t: "t = h\<lparr>packet_decode := st\<rparr>"
  shows "(malloc L = None \<and> alloc_trunk malloc t = Some (False, t)) \<or>
    (\<exists>dt fr. alloc_trunk malloc t = Some (True, t\<lparr>data_trunk := dt, data_trunk_is_freeable := fr\<rparr>) \<and>
       filling L (dt\<lparr>pos := 0, limit := L\<rparr>) [] \<and> in_pd h fr dt (pd h))"
proof -
  note f = header_done_fields[OF hd fresh]
  have "unat (plength h) < 2 ^ LENGTH(32)" by (rule unsigned_less)
  then have L: "L \<le> SIZE_MAX" using f(1) by (simp add: SIZE_MAX_def)
  have wf: "filling L \<lparr>pos = 0, limit = L, capacity = c, data = Some d\<rparr> []"
    if "L \<le> c" "c \<le> length d" "c \<le> SIZE_MAX" for c d
    using that by (simp add: filling_def wf_buff_def buffer_written_def)
  have big: "PD_OUT_SIZE \<le> SIZE_MAX" "PD_IN_BUF_SIZE \<le> SIZE_MAX" "PD_OUT_SIZE = 48" "PD_IN_BUF_SIZE = 40"
    by (simp_all add: PD_OUT_SIZE_def PD_IN_BUF_SIZE_def SIZE_MAX_def)
  have fields: "unat (plength t) = L" "\<not> data_trunk_is_freeable t" "pd t = pd h"
    "data_trunk t = \<lparr>pos = 0, limit = 0, capacity = 0, data = None\<rparr>"
    using f by (simp_all add: t INIT_PBUF_def)
  let ?with = "\<lambda>c d b. Some (True, t\<lparr>data_trunk := \<lparr>pos = 0, limit = 0, capacity = c, data = Some d\<rparr>,
      data_trunk_is_freeable := b\<rparr>)"
  have rec: "t\<lparr>data_trunk_is_freeable := b, data_trunk := d\<rparr> = t\<lparr>data_trunk := d, data_trunk_is_freeable := b\<rparr>"
    for b d by (cases t) simp
  have eq: "alloc_trunk malloc t =
    (if packet_type t \<noteq> PT_UNKNOWN \<and> L > PD_OUT_SIZE \<or> packet_type t = PT_UNKNOWN \<and> L > PD_IN_BUF_SIZE
     then (case malloc L of None \<Rightarrow> Some (False, t) | Some m \<Rightarrow> ?with L m True)
     else if packet_type t \<noteq> PT_UNKNOWN then ?with PD_OUT_SIZE (pd h) False
     else ?with PD_IN_BUF_SIZE (drop 8 (pd h)) False)"
    unfolding alloc_trunk_def Let_def rec using fields by (simp split: option.split)
  have got: ?thesis if "alloc_trunk malloc t = ?with c d b" "L \<le> c" "c \<le> length d" "c \<le> SIZE_MAX"
      "in_pd h b \<lparr>pos = 0, limit = 0, capacity = c, data = Some d\<rparr> (pd h)" for c d b
    using that wf[OF that(2-4)]
    by (intro disjI2 exI[of _ "\<lparr>pos = 0, limit = 0, capacity = c, data = Some d\<rparr>"] exI[of _ b]) simp
  have ty: "packet_type t = packet_type h" by (simp add: t)
  show ?thesis
  proof (cases "packet_type t \<noteq> PT_UNKNOWN \<and> L > PD_OUT_SIZE \<or> packet_type t = PT_UNKNOWN \<and> L > PD_IN_BUF_SIZE")
    case True
    show ?thesis
    proof (cases "malloc L")
      case None
      then show ?thesis using eq True by simp
    next
      case (Some m)
      then have "alloc_trunk malloc t = ?with L m True" using eq True by simp
      then show ?thesis using L eq_refl[OF malloc[OF Some, symmetric]]
        by (intro got) (assumption | simp add: in_pd_def)+
    qed
  next
    case no: False
    show ?thesis
    proof (cases "packet_type t = PT_UNKNOWN")
      case True
      then have "alloc_trunk malloc t = ?with PD_IN_BUF_SIZE (drop 8 (pd h)) False" using eq no by simp
      then show ?thesis by (rule got) (use no True f(2) ty in \<open>simp_all add: trunk_size_def in_pd_def PD_OUT_SIZE_def PD_IN_BUF_SIZE_def SIZE_MAX_def\<close>)
    next
      case False
      then have "alloc_trunk malloc t = ?with PD_OUT_SIZE (pd h) False" using eq no by simp
      then show ?thesis by (rule got) (use no False f(2) big ty in \<open>simp_all add: trunk_size_def in_pd_def\<close>)
    qed
  qed
qed

lemma call_trunk:
  assumes hd: "header_done mx t0 w (buffer_bytes s) L h" and s: "wf_buff s" and L: "0 < L"
    and fresh: "fresh_target t0" and malloc: "\<And>n m. malloc n = Some m \<Longrightarrow> length m = n"
    and t: "t = h\<lparr>packet_decode := START_EXTRACT_PACKET_FROM_STREAM_TRUNK\<rparr>"
  shows "call_ok malloc mx t0 w (iter malloc mx ev (drop 2 (body_cases malloc mx ev)) (s, t))"
proof -
  note f = header_done_fields[OF hd fresh]
  have rest: "drop 2 (body_cases malloc mx ev) = start_extract_trunk malloc # drop 3 (body_cases malloc mx ev)"
    by (simp add: body_cases_eq)
  have cap: "capacity (data_trunk t) < unat (plength t)"
    using f(1,3) L by (simp add: t INIT_PBUF_def)
  from alloc_trunk_fresh[where malloc = malloc, OF hd fresh malloc t] show ?thesis
  proof
    assume a: "malloc L = None \<and> alloc_trunk malloc t = Some (False, t)"
    then have "run_cases (drop 2 (body_cases malloc mx ev)) (s, t) = Some (Ret False (s, t))"
      unfolding rest using cap by (simp add: start_extract_trunk_def)
    then show ?thesis using a by (auto simp: iter_def call_ok_def)
  next
    assume "\<exists>dt fr. alloc_trunk malloc t =
        Some (True, t\<lparr>data_trunk := dt, data_trunk_is_freeable := fr\<rparr>) \<and>
      filling L (dt\<lparr>pos := 0, limit := L\<rparr>) [] \<and> in_pd h fr dt (pd h)"
    then obtain dt fr where a: "alloc_trunk malloc t =
        Some (True, t\<lparr>data_trunk := dt, data_trunk_is_freeable := fr\<rparr>)"
      and fill: "filling L (dt\<lparr>pos := 0, limit := L\<rparr>) []" and p: "in_pd h fr dt (pd h)" by blast
    let ?t = "h\<lparr>packet_decode := EXTRACT_PACKET_FROM_STREAM, data_trunk := dt\<lparr>pos := 0, limit := L\<rparr>,
      data_trunk_is_freeable := fr, pd := pd h\<rparr>"
    have "start_extract_trunk malloc (s, t) = Some (Fall (s, ?t))"
      using cap a f(1) by (cases h) (simp add: start_extract_trunk_def t)
    then have "iter malloc mx ev (drop 2 (body_cases malloc mx ev)) (s, t) =
        iter malloc mx ev (drop 3 (body_cases malloc mx ev)) (s, ?t)"
      unfolding rest by (intro iter_step) simp
    then show ?thesis
      using call_payload[OF _ s fill L refl _ fresh, where h = h and malloc = malloc and ev = ev and fr = fr and p = "pd h"]
        hd p
      by (simp only: append_Nil in_pd_window simp_thms)
  qed
qed

text \<open>The decision between attaching to the source, waiting, and copying.\<close>

lemma call_start:
  assumes hd: "header_done mx t0 w (buffer_bytes s) L h" and s: "wf_buff s" and L: "0 < L"
    and fresh: "fresh_target t0" and malloc: "\<And>n m. malloc n = Some m \<Longrightarrow> length m = n"
    and t: "t = h\<lparr>packet_decode := START_EXTRACT_PACKET_FROM_STREAM\<rparr>"
  shows "call_ok malloc mx t0 w (iter malloc mx ev (drop 1 (body_cases malloc mx ev)) (s, t))"
proof -
  note f = header_done_fields[OF hd fresh]
  have rest: "drop 1 (body_cases malloc mx ev) = start_extract ev # drop 2 (body_cases malloc mx ev)"
    by (simp add: body_cases_eq)
  have fields: "unat (plength t) = L" "\<not> data_trunk_is_freeable t" "data_trunk t = INIT_PBUF"
    using f by (simp_all add: t)
  note len = length_buffer_bytes[OF s]
  consider "L \<le> buffer_remaining s" | "\<not> L \<le> buffer_remaining s" "\<not> ev \<and> L \<le> capacity s"
    | "\<not> L \<le> buffer_remaining s" "\<not> (\<not> ev \<and> L \<le> capacity s)" by blast
  then show ?thesis
  proof cases
    case 1
    let ?s = "s\<lparr>pos := pos s + L\<rparr>"
    let ?dt = "(buffer_clear (INIT_PBUF\<lparr>data := buffer_start s, capacity := L\<rparr>))\<lparr>pos := L\<rparr>"
    let ?t = "h\<lparr>packet_decode := PACKET_EXTRACTION_COMPLETE, data_trunk := ?dt,
      data_trunk_is_freeable := False, pd := pd h\<rparr>"
    have "run_cases (drop 1 (body_cases malloc mx ev)) (s, t) = Some (Brk (?s, ?t))"
      unfolding rest using 1 fields by (cases h) (simp add: start_extract_def t Let_def)
    then have "iter malloc mx ev (drop 1 (body_cases malloc mx ev)) (s, t) = extract_loop malloc mx ev (?s, ?t)"
      by (simp add: iter_def)
    also have "\<dots> = iter malloc mx ev (drop 4 (body_cases malloc mx ev)) (?s, ?t)"
      using f(5) by (intro extract_loop_iter) (simp_all add: switch_extract_body)
    finally have r: "iter malloc mx ev (drop 1 (body_cases malloc mx ev)) (s, t) = \<dots>" .
    obtain d where d: "data s = Some d" "pos s + L \<le> length d"
      "take L (drop (pos s) d) = take L (buffer_bytes s)"
      using wf_buff_window[OF s, of L] 1 L len by auto
    have "L \<le> SIZE_MAX" using 1 s by (auto simp: buffer_remaining_wf wf_buff_def)
    then have "filling L ?dt (take L (buffer_bytes s))"
      using d by (simp add: filling_def wf_buff_def buffer_clear_def buffer_start_def INIT_PBUF_def
          buffer_written_def len min_absorb2 1)
    moreover have "header_done mx t0 w (take L (buffer_bytes s) @ buffer_bytes ?s) L h"
      using hd buffer_bytes_after(2)[OF s 1] by simp
    ultimately show ?thesis
      unfolding r using buffer_bytes_after(1)[OF s 1] 1 len fresh 
      by (intro call_complete[OF _ _ _ _ L refl disjI1[OF refl], where got = "take L (buffer_bytes s)"]) auto
  next
    case 2
    have "run_cases (drop 1 (body_cases malloc mx ev)) (s, t) = Some (Brk (s, t\<lparr>more_bytes_needed := True\<rparr>))"
      unfolding rest using 2 fields by (simp add: start_extract_def Let_def)
    then have r: "iter malloc mx ev (drop 1 (body_cases malloc mx ev)) (s, t) =
        Some (True, s, t\<lparr>more_bytes_needed := True\<rparr>)"
      by (rule iter_stop) simp
    have "stream_state mx t0 w (buffer_bytes s) (t\<lparr>more_bytes_needed := True\<rparr>)"
      unfolding stream_state_def by (rule at_start[OF _ hd L]) (use f(5) in \<open>cases h; simp add: t\<close>)
    moreover have "\<not> complete mx w" using complete_header[OF hd] 2(1) len by simp
    ultimately show ?thesis using r s by (simp add: call_ok_def stream_done_def t)
  next
    case 3
    let ?t = "h\<lparr>packet_decode := START_EXTRACT_PACKET_FROM_STREAM_TRUNK\<rparr>"
    have "start_extract ev (s, t) = Some (Fall (s, ?t))"
      using 3 fields by (cases h) (simp add: start_extract_def t Let_def)
    then have "iter malloc mx ev (drop 1 (body_cases malloc mx ev)) (s, t) =
        iter malloc mx ev (drop 2 (body_cases malloc mx ev)) (s, ?t)"
      unfolding rest by (intro iter_step) simp
    then show ?thesis using call_trunk[OF hd s L fresh malloc refl] by simp
  qed
qed

lemma call_decide:
  assumes hd: "header_done mx t0 w (buffer_bytes s) L h" and s: "wf_buff s"
    and fresh: "fresh_target t0" and malloc: "\<And>n m. malloc n = Some m \<Longrightarrow> length m = n"
    and t: "t = h\<lparr>packet_decode := DECIDE_DECODE\<rparr>"
  shows "call_ok malloc mx t0 w (iter malloc mx ev (body_cases malloc mx ev) (s, t))"
proof (cases "L = 0")
  case True
  note f = header_done_fields[OF hd fresh]
  let ?t = "h\<lparr>packet_decode := DECODE_FINISHED, data_trunk := INIT_PBUF, more_bytes_needed := True\<rparr>"
  have "plength h = 0" using f(1) True by (simp add: unat_eq_0)
  then have "run_cases (body_cases malloc mx ev) (s, t) = Some (Brk (s, ?t))"
    using f(3) by (cases h) (simp add: body_cases_eq t INIT_PBUF_def)
  then have r: "iter malloc mx ev (body_cases malloc mx ev) (s, t) = Some (True, s, ?t)"
    by (rule iter_stop) simp
  have "stream_state mx t0 w (buffer_bytes s) ?t"
    unfolding stream_state_def
  proof (rule at_empty[OF _ hd[unfolded True]])
    show "?t\<lparr>more_bytes_needed := False\<rparr> = h\<lparr>packet_decode := DECODE_FINISHED, data_trunk := INIT_PBUF\<rparr>"
      using f(5) by (cases h) simp
  qed
  moreover have "complete mx w" using complete_header[OF hd] True by simp
  ultimately show ?thesis using r s by (simp add: call_ok_def stream_done_def)
next
  case False
  note f = header_done_fields[OF hd fresh]
  let ?t = "h\<lparr>packet_decode := START_EXTRACT_PACKET_FROM_STREAM\<rparr>"
  have "plength h \<noteq> 0" using f(1) False by auto
  then have "0 < plength h" by (simp add: word_gt_0)
  then have "run_cases (body_cases malloc mx ev) (s, t) = run_cases (drop 1 (body_cases malloc mx ev)) (s, ?t)"
    by (simp add: body_cases_eq t)
  then have "iter malloc mx ev (body_cases malloc mx ev) (s, t) =
      iter malloc mx ev (drop 1 (body_cases malloc mx ev)) (s, ?t)"
    by (rule iter_step)
  then show ?thesis using call_start[OF hd s _ fresh malloc refl] False by simp
qed

subsection \<open>The header\<close>

lemma call_type:
  assumes s: "wf_buff s" and fresh: "fresh_target t0"
    and malloc: "\<And>n m. malloc n = Some m \<Longrightarrow> length m = n"
    and ok: "ok_length mx c lb L" and w: "w = c # lb @ buffer_bytes s"
  shows "call_ok malloc mx t0 w
    (iter malloc mx ev (read_type_case # body_cases malloc mx ev) (s, after_length c L t0))"
proof -
  define ty where "ty = take (ctl_tl c) (buffer_bytes s)"
  have pd: "length (pd t0) = PD_OUT_SIZE" and mb: "\<not> more_bytes_needed t0"
    using fresh by (simp_all add: fresh_target_def)
  note run = run_type_after_length[OF s pd ty_def, of "body_cases malloc mx ev" L]
  have ph: "parse_header mx w = (if ctl_tl c > length (buffer_bytes s) then HMore
      else if list_all type_char_ok ty then HHeader c L ty else HBad)"
    using ok by (simp add: parse_header_def w ok_length_def Let_def ty_def)
  show ?thesis
  proof (cases "ctl_tl c > length (buffer_bytes s)")
    case True
    let ?t = "(after_length c L t0)\<lparr>more_bytes_needed := True\<rparr>"
    have "iter malloc mx ev (read_type_case # body_cases malloc mx ev) (s, after_length c L t0) = Some (True, s, ?t)"
      by (rule iter_stop) (use run True in \<open>simp_all del: run_cases.simps\<close>)
    moreover have "stream_state mx t0 w (buffer_bytes s) ?t"
      unfolding stream_state_def w
      by (rule at_type[OF _ ok]) (use mb in \<open>cases t0; simp add: with_length_def with_control_def\<close>)
    ultimately show ?thesis
      using True ph s by (simp add: call_ok_def stream_done_def complete_def)
  next
    case long: False
    show ?thesis
    proof (cases "list_all type_char_ok ty")
      case False
      then show ?thesis using long ph run by (simp add: iter_def call_ok_def del: run_cases.simps)
    next
      case True
      then have hdr: "parse_header mx w = HHeader c L ty" using ph long by simp
      show ?thesis
      proof (cases "g2_packet_find_type (type_name ty)")
        case None
        then show ?thesis
          using True long run hdr by (simp add: iter_def call_ok_def typer_fault_def del: run_cases.simps)
      next
        case (Some pt)
        let ?s = "s\<lparr>pos := pos s + ctl_tl c\<rparr>" and ?h = "with_header c L ty pt t0"
        have fits: "ctl_tl c \<le> buffer_remaining s" using long length_buffer_bytes[OF s] by simp
        note after = buffer_bytes_after[OF s fits]
        have "ok_header mx c lb L ty" using ok True long by (simp add: ok_header_def ty_def)
        then have "header_done mx t0 w (buffer_bytes ?s) L ?h"
          unfolding header_done_def w using Some after(2)
          by (intro exI[of _ c] exI[of _ lb] exI[of _ ty] exI[of _ pt]) (simp add: ty_def)
        moreover have "iter malloc mx ev (read_type_case # body_cases malloc mx ev) (s, after_length c L t0) =
            iter malloc mx ev (body_cases malloc mx ev) (?s, after_header c L ty pt t0)"
          by (rule iter_step) (use run True long Some in \<open>simp del: run_cases.simps\<close>)
        ultimately show ?thesis using call_decide[OF _ after(1) fresh malloc refl] by simp
      qed
    qed
  qed
qed

lemma call_length:
  assumes s: "wf_buff s" and fresh: "fresh_target t0"
    and malloc: "\<And>n m. malloc n = Some m \<Longrightarrow> length m = n"
    and c: "c \<noteq> 0" and w: "w = c # buffer_bytes s"
  shows "call_ok malloc mx t0 w
    (iter malloc mx ev (read_length_case (\<lambda>_. mx) # read_type_case # body_cases malloc mx ev)
       (s, after_control c t0))"
proof -
  define lb where "lb = take (ctl_ll c) (buffer_bytes s)"
  define L where "L = length_value (c AND 0x02 \<noteq> 0) (take (ctl_ll c) (buffer_bytes s))"
  let ?cs = "read_length_case (\<lambda>_. mx) # read_type_case # body_cases malloc mx ev"
  have mb: "\<not> more_bytes_needed t0" using fresh by (simp add: fresh_target_def)
  note run = run_length_after_control[OF s L_def, of "\<lambda>_. mx" "read_type_case # body_cases malloc mx ev" t0]
  show ?thesis
  proof (cases "ctl_ll c > length (buffer_bytes s)")
    case True
    let ?t = "(after_control c t0)\<lparr>more_bytes_needed := True\<rparr>"
    have "iter malloc mx ev ?cs (s, after_control c t0) = Some (True, s, ?t)"
      by (rule iter_stop) (use run True in \<open>simp_all del: run_cases.simps\<close>)
    moreover have "stream_state mx t0 w (buffer_bytes s) ?t"
      unfolding stream_state_def w
      by (rule at_length[OF _ c]) (use mb in \<open>cases t0; simp add: with_control_def\<close>)
    ultimately show ?thesis
      using True c s by (simp add: call_ok_def stream_done_def complete_def parse_header_def w)
  next
    case long: False
    show ?thesis
    proof (cases "mx < L + ctl_ll c + ctl_tl c + 1")
      case True
      then have "parse_header mx w = HBad" using long c by (simp add: parse_header_def w Let_def L_def)
      then show ?thesis using long True run by (simp add: iter_def call_ok_def del: run_cases.simps)
    next
      case False
      let ?s = "s\<lparr>pos := pos s + ctl_ll c\<rparr>"
      have fits: "ctl_ll c \<le> buffer_remaining s" using long length_buffer_bytes[OF s] by simp
      note after = buffer_bytes_after[OF s fits]
      have "ok_length mx c lb L" using c long False by (simp add: ok_length_def lb_def L_def)
      moreover have "iter malloc mx ev ?cs (s, after_control c t0) =
          iter malloc mx ev (read_type_case # body_cases malloc mx ev) (?s, after_length c L t0)"
        by (rule iter_step) (use run False long in \<open>simp del: run_cases.simps\<close>)
      ultimately show ?thesis
        using call_type[OF after(1) fresh malloc, of malloc mx c lb L w ev] after(2) w by (simp add: lb_def)
    qed
  qed
qed

lemma call_control:
  assumes s: "wf_buff s" and fresh: "fresh_target t0"
    and malloc: "\<And>n m. malloc n = Some m \<Longrightarrow> length m = n" and w: "w = buffer_bytes s"
  shows "call_ok malloc mx t0 w
    (iter malloc mx ev (header_cases (\<lambda>_. mx) @ body_cases malloc mx ev) (s, t0))"
proof -
  let ?rest = "read_length_case (\<lambda>_. mx) # read_type_case # body_cases malloc mx ev"
  let ?it = "iter malloc mx ev (header_cases (\<lambda>_. mx) @ body_cases malloc mx ev) (s, t0)"
  have f: "packet_decode t0 = CHECK_CONTROLL_BYTE" "\<not> more_bytes_needed t0"
    using fresh by (simp_all add: fresh_target_def)
  note run = run_check_control[OF s, of ?rest t0]
  show ?thesis
  proof (cases "buffer_bytes s")
    case Nil
    let ?t = "t0\<lparr>more_bytes_needed := True\<rparr>"
    have "?it = Some (True, s, ?t)"
      by (rule iter_stop) (use run Nil in \<open>simp_all add: header_cases_eq del: run_cases.simps\<close>)
    moreover have "stream_state mx t0 w (buffer_bytes s) ?t"
      unfolding stream_state_def w by (rule at_control) (use f(2) in \<open>cases t0; simp\<close>)
    ultimately show ?thesis
      using Nil s f(1) by (simp add: call_ok_def stream_done_def complete_def parse_header_def w)
  next
    case (Cons c bs)
    show ?thesis
    proof (cases "c = 0")
      case True
      then show ?thesis
        using run Cons by (simp add: iter_def header_cases_eq call_ok_def parse_header_def w del: run_cases.simps)
    next
      case False
      let ?s = "s\<lparr>pos := pos s + 1\<rparr>"
      have fits: "1 \<le> buffer_remaining s" using length_buffer_bytes[OF s] Cons by simp
      note after = buffer_bytes_after[OF s fits]
      have "?it = iter malloc mx ev ?rest (?s, after_control c t0)"
        by (rule iter_step) (use run Cons False f(1) in \<open>simp add: header_cases_eq del: run_cases.simps\<close>)
      then show ?thesis
        using call_length[OF after(1) fresh malloc False, of malloc w mx ev] after(2) w Cons by simp
    qed
  qed
qed

subsection \<open>One call, and a sequence of calls\<close>

lemma extract_step:
  assumes st: "stream_state mx t0 w rest t" and open_t: "\<not> stream_done t" and fresh: "fresh_target t0"
    and malloc: "\<And>n m. malloc n = Some m \<Longrightarrow> length m = n"
    and s: "wf_buff s" "buffer_bytes s = rest @ new"
  shows "call_ok malloc mx t0 (w @ new) (g2_packet_extract_from_stream_b malloc s t mx ev)"
proof -
  let ?t = "t\<lparr>more_bytes_needed := False\<rparr>"
  have loop: "g2_packet_extract_from_stream_b malloc s t mx ev = iter malloc mx ev codes (s, ?t)"
    if "switch (packet_decode ?t) (extract_cases malloc mx ev) (s, ?t) = run_cases codes (s, ?t)" for codes
    unfolding g2_packet_extract_from_stream_b_def by (rule extract_loop_iter) (use that in simp_all)
  have pd: "packet_decode ?t \<noteq> DECODE_FINISHED" "packet_decode ?t \<noteq> PACKET_EXTRACTION_COMPLETE"
    using open_t by (simp_all add: stream_done_def)
  from st[unfolded stream_state_def] show ?thesis
  proof cases
    case at_control
    have "packet_decode ?t = CHECK_CONTROLL_BYTE" using fresh at_control by (simp add: fresh_target_def)
    then show ?thesis
      using loop[of "header_cases (\<lambda>_. mx) @ body_cases malloc mx ev"] switch_extract(1)
        call_control[OF s(1) fresh malloc, of malloc "w @ new" mx ev] at_control s(2) by simp
  next
    case (at_length c)
    have "packet_decode ?t = READ_LENGTH" unfolding at_length by simp
    then show ?thesis
      using loop[of "read_length_case (\<lambda>_. mx) # read_type_case # body_cases malloc mx ev"]
        switch_extract(2)[of malloc mx ev "(s, ?t)"]
        call_length[OF s(1) fresh malloc at_length(3), of malloc "w @ new" mx ev] at_length s(2)
      by (simp add: header_cases_def del: run_cases.simps)
  next
    case (at_type c L lb)
    have "packet_decode ?t = READ_TYPE" unfolding at_type by simp
    then show ?thesis
      using loop[of "read_type_case # body_cases malloc mx ev"]
        switch_extract(3)[of malloc mx ev "(s, ?t)"]
        call_type[OF s(1) fresh malloc at_type(3), of malloc "w @ new" ev] at_type s(2)
      by (simp add: header_cases_def del: run_cases.simps)
  next
    case (at_start h L)
    have "packet_decode ?t = START_EXTRACT_PACKET_FROM_STREAM" unfolding at_start by simp
    then show ?thesis
      using loop[of "tl (body_cases malloc mx ev)"] switch_extract_body(1)[of malloc mx ev "(s, ?t)"]
        call_start[OF header_done_append[OF at_start(2), of new, folded s(2)] s(1) at_start(3) fresh malloc at_start(1),
          of malloc ev]
      by (simp add: drop_Suc del: run_cases.simps)
  next
    case (at_payload h dt fr p got L)
    have "packet_decode ?t = EXTRACT_PACKET_FROM_STREAM" unfolding at_payload by simp
    then show ?thesis
      using loop[of "drop 3 (body_cases malloc mx ev)"] switch_extract_body(2)[of malloc mx ev "(s, ?t)"]
        call_payload[OF _ s(1) at_payload(4,5,1,2) fresh, of mx "w @ new" malloc ev]
        header_done_append[OF at_payload(3), of new] s(2)
      by (simp del: run_cases.simps)
  next
    case at_empty
    then show ?thesis using pd(1) by simp
  next
    case at_whole
    then show ?thesis using pd(2) by simp
  qed
qed

text \<open>
  A sequence of successful calls that starts with an untouched packet.  Before each call the caller
  may move the unread bytes to another place or into another buffer and appends new ones.
\<close>

inductive delivered ::
    "(nat \<Rightarrow> byte list option) \<Rightarrow> nat \<Rightarrow> g2_packet \<Rightarrow> byte list \<Rightarrow> big_buff \<Rightarrow> g2_packet \<Rightarrow> bool"
  for malloc mx t0 where
  delivered_none: "wf_buff s \<Longrightarrow> buffer_bytes s = [] \<Longrightarrow> delivered malloc mx t0 [] s t0"
| delivered_more: "delivered malloc mx t0 w s t \<Longrightarrow> \<not> stream_done t \<Longrightarrow>
    wf_buff s1 \<Longrightarrow> buffer_bytes s1 = buffer_bytes s @ new \<Longrightarrow>
    g2_packet_extract_from_stream_b malloc s1 t mx ev = Some (True, s', t') \<Longrightarrow>
    delivered malloc mx t0 (w @ new) s' t'"

lemma delivered_state:
  assumes "delivered malloc mx t0 w s t" and fresh: "fresh_target t0"
    and malloc: "\<And>n m. malloc n = Some m \<Longrightarrow> length m = n"
  shows "wf_buff s \<and> stream_state mx t0 w (buffer_bytes s) t \<and> (stream_done t \<longleftrightarrow> complete mx w)"
  using assms(1)
proof induction
  case (delivered_none s)
  have "t0\<lparr>more_bytes_needed := False\<rparr> = t0" using fresh by (cases t0) (simp add: fresh_target_def)
  then have "stream_state mx t0 [] [] t0" unfolding stream_state_def by (intro at_control)
  then show ?case
    using delivered_none fresh by (simp add: stream_done_def fresh_target_def complete_def parse_header_def)
next
  case (delivered_more w s t s1 new ev s' t')
  then show ?case
    using extract_step[OF _ delivered_more(2) fresh malloc delivered_more(3,4), of mx w malloc ev]
    by (simp add: call_ok_def)
qed

text \<open>
  A packet that is done holds the fields of the header and the payload.  Its \<open>pd\<close> is as the header left it, or the
  payload was copied into it; the type name of an unknown type is always kept.
\<close>

definition pd_ok :: "g2_packet \<Rightarrow> g2_packet \<Rightarrow> bool" where
  "pd_ok h t \<longleftrightarrow> (pd t = pd h \<or> in_pd h (data_trunk_is_freeable t) (data_trunk t) (pd t)) \<and>
     (packet_type h = PT_UNKNOWN \<longrightarrow> take 8 (pd t) = take 8 (pd h))"

lemma pd_okI:
  assumes "pd t = pd h \<or> in_pd h (data_trunk_is_freeable t) (data_trunk t) (pd t)" "length (pd h) = PD_OUT_SIZE"
  shows "pd_ok h t"
  using assms by (auto simp: pd_ok_def in_pd_def trunk_size_def PD_OUT_SIZE_def PD_IN_BUF_SIZE_def split: if_splits)

definition stream_packet :: "nat \<Rightarrow> g2_packet \<Rightarrow> byte list \<Rightarrow> byte list \<Rightarrow> g2_packet \<Rightarrow> bool" where
  "stream_packet mx t0 w rest t \<longleftrightarrow>
     (\<exists>c L ty pt. parse_header mx w = HHeader c L ty \<and> g2_packet_find_type (type_name ty) = Some pt \<and>
        t = (with_header c L ty pt t0)\<lparr>packet_decode := packet_decode t, data_trunk := data_trunk t,
              data_trunk_is_freeable := data_trunk_is_freeable t, more_bytes_needed := more_bytes_needed t,
              pd := pd t\<rparr> \<and>
        pd_ok (with_header c L ty pt t0) t \<and>
        packet_decode t = (if L = 0 then DECODE_FINISHED else PACKET_EXTRACTION_COMPLETE) \<and>
        header_size c + L \<le> length w \<and> wf_buff (data_trunk t) \<and>
        buffer_bytes (data_trunk t) = take L (drop (header_size c) w) \<and>
        rest = drop (header_size c + L) w)"

lemma header_done_parse:
  assumes "header_done mx t0 w (got @ rest) L h" "length got = L"
  obtains c ty pt where "parse_header mx w = HHeader c L ty" "g2_packet_find_type (type_name ty) = Some pt"
    "h = with_header c L ty pt t0" "header_size c + L \<le> length w"
    "got = take L (drop (header_size c) w)" "rest = drop (header_size c + L) w"
proof -
  obtain c lb ty pt where *: "w = c # lb @ ty @ got @ rest" "ok_header mx c lb L ty"
    "g2_packet_find_type (type_name ty) = Some pt" "h = with_header c L ty pt t0"
    using assms(1) by (auto simp: header_done_def)
  have size: "header_size c = Suc (length lb + length ty)"
    using *(2) by (simp add: header_size_def ok_header_def ok_length_def)
  have "parse_header mx w = HHeader c L ty" unfolding *(1) by (rule parse_ok_header[OF *(2)])
  moreover have "header_size c + L \<le> length w" "got = take L (drop (header_size c) w)"
    "rest = drop (header_size c + L) w"
    unfolding size *(1) assms(2)[symmetric] by simp_all
  ultimately show thesis using that *(3,4) by blast
qed

lemma stream_done_packet:
  assumes "stream_state mx t0 w rest t" and "stream_done t" and "fresh_target t0"
  shows "stream_packet mx t0 w rest t"
proof -
  let ?t = "t\<lparr>more_bytes_needed := False\<rparr>"
  have pd: "packet_decode ?t \<in> {DECODE_FINISHED, PACKET_EXTRACTION_COMPLETE}"
    using assms(2) by (simp add: stream_done_def)
  have whole: "stream_packet mx t0 w rest t"
    if hd: "header_done mx t0 w (got @ rest) L h" "length got = L"
      and dt: "wf_buff (data_trunk t)" "buffer_bytes (data_trunk t) = got"
      and p: "pd t = pd h \<or> in_pd h (data_trunk_is_freeable t) (data_trunk t) (pd t)"
      and pd: "packet_decode t = (if L = 0 then DECODE_FINISHED else PACKET_EXTRACTION_COMPLETE)"
      and t: "t = h\<lparr>packet_decode := packet_decode t, data_trunk := data_trunk t,
              data_trunk_is_freeable := data_trunk_is_freeable t, more_bytes_needed := more_bytes_needed t,
              pd := pd t\<rparr>"
    for got L h
  proof -
    have "pd_ok h t" by (rule pd_okI[OF p header_done_fields(2)[OF hd(1) assms(3)]])
    moreover obtain c ty pt where "parse_header mx w = HHeader c L ty" "g2_packet_find_type (type_name ty) = Some pt"
      "h = with_header c L ty pt t0" "header_size c + L \<le> length w"
      "got = take L (drop (header_size c) w)" "rest = drop (header_size c + L) w"
      by (rule header_done_parse[OF hd])
    ultimately show ?thesis
      unfolding stream_packet_def using dt t pd by blast
  qed
  from assms(1)[unfolded stream_state_def] show ?thesis
  proof cases
    case at_control
    then show ?thesis using pd assms(3) by (auto simp: fresh_target_def)
  next
    case (at_empty h)
    have f: "data_trunk ?t = INIT_PBUF" "pd ?t = pd h" "packet_decode ?t = DECODE_FINISHED" unfolding at_empty(1) by simp_all
    have "t = h\<lparr>packet_decode := packet_decode t, data_trunk := data_trunk t,
        data_trunk_is_freeable := data_trunk_is_freeable t, more_bytes_needed := more_bytes_needed t, pd := pd t\<rparr>"
      using at_empty(1) by (cases t; cases h) simp
    then show ?thesis
      using whole[of "[]" 0 h] at_empty(2) f by (simp add: buffer_bytes_def INIT_PBUF_def wf_buff_def)
  next
    case (at_whole p fr dt h got L)
    have f: "data_trunk ?t = dt" "pd ?t = p" "data_trunk_is_freeable ?t = fr"
      "packet_decode ?t = PACKET_EXTRACTION_COMPLETE" unfolding at_whole(1) by simp_all
    have "t = h\<lparr>packet_decode := packet_decode t, data_trunk := data_trunk t,
        data_trunk_is_freeable := data_trunk_is_freeable t, more_bytes_needed := more_bytes_needed t, pd := pd t\<rparr>"
      using at_whole(1) by (cases t; cases h) simp
    then show ?thesis using whole[OF at_whole(3,6)] at_whole(2,4,5,7) f by simp
  qed (use pd in auto)
qed

lemma delivered_step:
  assumes d: "delivered malloc mx t0 w s t" "\<not> stream_done t" and fresh: "fresh_target t0"
    and malloc: "\<And>n m. malloc n = Some m \<Longrightarrow> length m = n" "\<And>n. malloc n \<noteq> None"
    and s: "wf_buff s1" "buffer_bytes s1 = buffer_bytes s @ new"
    and w: "parse_header mx (w @ new) \<noteq> HBad" "\<not> typer_fault mx (w @ new)"
  shows "\<exists>s' t'. g2_packet_extract_from_stream_b malloc s1 t mx ev = Some (True, s', t') \<and>
    delivered malloc mx t0 (w @ new) s' t'"
proof -
  have "stream_state mx t0 w (buffer_bytes s) t" using delivered_state[OF d(1) fresh malloc(1)] by simp
  from extract_step[OF this d(2) fresh malloc(1) s, of malloc ev]
  obtain s' t' where "g2_packet_extract_from_stream_b malloc s1 t mx ev = Some (True, s', t')"
    using w malloc(2) by (auto simp: call_ok_def split: option.splits bool.splits prod.splits)
  then show ?thesis using delivered_more[OF d s] by blast
qed

lemma stream_rest: "stream_state mx t0 w rest t \<Longrightarrow> length rest \<le> length w"
  unfolding stream_state_def by (erule stream_at.cases) (auto simp: header_done_def)

end
