(* ===== verification/Packet_Children.thy ===== *)
theory Packet_Children
  imports Packet_Decode_Correct
begin

text \<open>
  The walk over the children of a received packet, as the packet handlers of \<^verbatim>\<open>G2Packet.c\<close> do
  it: \<open>skip_child\<close>, and the loop that hands every child to \<open>g2_packet_decide_spec_int\<close>, which
  is written with the same statements in fourteen handlers (\<open>child_loop\<close>, after
  \<open>handle_KHL\<close>).  The reference is \<open>split_children\<close>, a parser for the bytes of the father.
\<close>

subsection \<open>The loops\<close>

text \<open>
  \<open>child_p\<close> is a variable on the stack; \<open>garbage\<close> is what it holds when it comes to life.
\<close>

definition fresh_child :: "g2_packet \<Rightarrow> g2_packet" where
  "fresh_child garbage =
     garbage\<lparr>more_bytes_needed := False, packet_decode := CHECK_CONTROLL_BYTE\<rparr>"

text \<open>
  The loop of the handlers.  \<open>decide\<close> is \<open>g2_packet_decide_spec_int\<close> with the dictionary of the
  handler; the first component of the result is \<open>keep_decoding\<close>.
\<close>

partial_function (option) child_loop ::
    "(g2_packet \<Rightarrow> 'a \<Rightarrow> 'a) \<Rightarrow> g2_packet \<Rightarrow> g2_packet \<Rightarrow> 'a \<Rightarrow> (bool \<times> g2_packet \<times> 'a) option" where
  "child_loop decide garbage source st =
     Option.bind (g2_packet_decode_from_packet source (fresh_child garbage))
       (\<lambda>(keep_decoding, source, child_p).
          if \<not> keep_decoding then Some (False, source, st)
          else
            (let st = (if packet_decode child_p = DECODE_FINISHED then decide child_p st else st) in
             if packet_decode source \<noteq> DECODE_FINISHED
             then child_loop decide garbage source st
             else Some (True, source, st)))"

partial_function (option) skip_child ::
    "g2_packet \<Rightarrow> g2_packet \<Rightarrow> (bool \<times> g2_packet) option" where
  "skip_child garbage s =
     Option.bind (g2_packet_decode_from_packet s (fresh_child garbage))
       (\<lambda>(ret_val, s, child_p).
          if \<not> ret_val then Some (False, s)
          else if packet_decode s \<noteq> DECODE_FINISHED then skip_child garbage s
          else Some (True, s))"

definition skip_unexpected_child :: "g2_packet \<Rightarrow> g2_packet \<Rightarrow> (bool \<times> g2_packet) option" where
  "skip_unexpected_child garbage s =
     (if is_compound s then skip_child garbage s else Some (True, s))"

declare child_loop.simps [code] skip_child.simps [code] c_while.simps [code]

subsection \<open>The reference\<close>

text \<open>A child: its control byte, its length, its type name and its payload.\<close>

datatype child = Child byte nat "byte list" "byte list"

text \<open>The children and the data behind them; \<open>None\<close> instead of the data if a child is broken.\<close>

function split_children :: "byte list \<Rightarrow> child list \<times> byte list option" where
  "split_children bs =
     (case bs of
        [] \<Rightarrow> ([], Some [])
      | b # r \<Rightarrow>
          if b = 0 then ([], Some r)
          else if r = [] then ([], None)
          else
            (case parse_header (length bs) bs of
               HHeader c L ty \<Rightarrow>
                 (case split_children (drop (header_size c + L) bs) of
                    (cs, d) \<Rightarrow> (Child c L ty (take L (drop (header_size c) bs)) # cs, d))
             | _ \<Rightarrow> ([], None)))"
  by pat_completeness auto
termination
  by (relation "measure length") (auto simp: header_size_def)

declare split_children.simps [simp del]

fun child_known :: "child \<Rightarrow> bool" where
  "child_known (Child c L ty bs) \<longleftrightarrow> g2_packet_find_type (type_name ty) \<noteq> None"

fun child_of :: "child \<Rightarrow> g2_packet \<Rightarrow> bool" where
  "child_of (Child c L ty bs) p \<longleftrightarrow>
     unat (plength p) = L \<and> g2_packet_find_type (type_name ty) = Some (packet_type p) \<and>
     big_endian p = (c AND 0x02 \<noteq> 0) \<and> is_compound p = (c AND 0x04 \<noteq> 0 \<and> L \<noteq> 0) \<and>
     take (length ty) (pd p) = ty \<and>
     packet_decode p = (if is_compound p then GET_CHILD_PACKETS else DECODE_FINISHED) \<and>
     wf_buff (data_trunk p) \<and> buffer_bytes (data_trunk p) = bs"

subsection \<open>One call\<close>

lemma from_packet_child:
  assumes "packet_decode source = GET_CHILD_PACKETS" "\<not> more_bytes_needed target"
    and "get_child_packets (source, target) = Some (Ret r (source', target'))"
  shows "g2_packet_decode_from_packet source target = Some (r, source', target')"
  unfolding g2_packet_decode_from_packet_def
  by (rule c_while_ret) (use assms in \<open>simp_all add: switch_def from_packet_cases_def\<close>)

lemma decoded_fields:
  assumes "L < 2 ^ 24" "length (pd t) = PD_OUT_SIZE" "length ty \<le> 8"
  shows "unat (plength (decoded c L ty pt s t)) = L"
    "big_endian (decoded c L ty pt s t) = (c AND 0x02 \<noteq> 0)"
    "is_compound (decoded c L ty pt s t) = (c AND 0x04 \<noteq> 0 \<and> L \<noteq> 0)"
    "packet_type (decoded c L ty pt s t) = pt"
    "packet_decode (decoded c L ty pt s t) =
       (if c AND 0x04 \<noteq> 0 \<and> L \<noteq> 0 then GET_CHILD_PACKETS else DECODE_FINISHED)"
    "take (length ty) (pd (decoded c L ty pt s t)) = ty"
  using assms plength_word[OF assms(1)]
  by (simp_all add: decoded_def with_header_def with_type_def with_length_def type_name_def)

lemma from_packet_end:
  assumes "packet_decode source = GET_CHILD_PACKETS" "wf_buff (data_trunk source)"
    "\<not> more_bytes_needed target"
  shows "buffer_bytes (data_trunk source) = [] \<Longrightarrow>
      g2_packet_decode_from_packet source target =
        Some (True, source\<lparr>packet_decode := DECODE_FINISHED\<rparr>, target)"
    and "buffer_bytes (data_trunk source) = 0 # r \<Longrightarrow>
      g2_packet_decode_from_packet source target =
        Some (True, source\<lparr>data_trunk := (data_trunk source)\<lparr>pos := pos (data_trunk source) + 1\<rparr>,
                           packet_decode := DECODE_FINISHED\<rparr>, target)"
    and "buffer_bytes (data_trunk source) = [b] \<Longrightarrow> b \<noteq> 0 \<Longrightarrow>
      g2_packet_decode_from_packet source target =
        Some (False, source\<lparr>data_trunk := (data_trunk source)\<lparr>pos := pos (data_trunk source) + 1\<rparr>\<rparr>,
          target)"
proof -
  have get: "buffer_remaining (data_trunk source) = length (buffer_bytes (data_trunk source)) \<and>
      buffer_get (data_trunk source) = Some b" if "buffer_bytes (data_trunk source) = b # r" for b r
    using buffer_get_wf[OF assms(2)] length_buffer_bytes[OF assms(2)] that by simp
  show "g2_packet_decode_from_packet source target =
      Some (True, source\<lparr>packet_decode := DECODE_FINISHED\<rparr>, target)"
    if "buffer_bytes (data_trunk source) = []"
    using that buffer_bytes_Nil[OF assms(2)]
    by (intro from_packet_child assms(1,3)) (simp add: get_child_packets_def)
  show "g2_packet_decode_from_packet source target =
        Some (True, source\<lparr>data_trunk := (data_trunk source)\<lparr>pos := pos (data_trunk source) + 1\<rparr>,
                           packet_decode := DECODE_FINISHED\<rparr>, target)"
    if "buffer_bytes (data_trunk source) = 0 # r"
    using get[OF that] that by (intro from_packet_child assms(1,3)) (simp add: get_child_packets_def)
  show "g2_packet_decode_from_packet source target =
        Some (False, source\<lparr>data_trunk := (data_trunk source)\<lparr>pos := pos (data_trunk source) + 1\<rparr>\<rparr>,
          target)"
    if "buffer_bytes (data_trunk source) = [b]" "b \<noteq> 0"
    using get[OF that(1)] that by (intro from_packet_child assms(1,3)) (simp add: get_child_packets_def)
qed

lemma from_packet_decode:
  assumes "packet_decode source = GET_CHILD_PACKETS" "wf_buff (data_trunk source)"
    "\<not> more_bytes_needed target" "buffer_bytes (data_trunk source) = b # c # r" "b \<noteq> 0"
    and "g2_packet_decode (data_trunk source) target = Some (ok, dt, target')"
  shows "g2_packet_decode_from_packet source target = Some (ok, source\<lparr>data_trunk := dt\<rparr>, target')"
  using buffer_get_wf[OF assms(2)] length_buffer_bytes[OF assms(2)] assms
  by (intro from_packet_child assms(1,3)) (simp add: get_child_packets_def)

lemma length_fresh_child [simp]: "length (pd (fresh_child g)) = length (pd g)"
  by (simp add: fresh_child_def)

lemma fresh_child_state [simp]:
  "packet_decode (fresh_child g) = CHECK_CONTROLL_BYTE" "\<not> more_bytes_needed (fresh_child g)"
  by (simp_all add: fresh_child_def)

text \<open>One call on a father whose next bytes are a child, good or broken.\<close>

lemma decode_next_child:
  assumes src: "packet_decode source = GET_CHILD_PACKETS" "wf_buff (data_trunk source)"
    and g: "length (pd g) = PD_OUT_SIZE"
    and bs: "buffer_bytes (data_trunk source) = b # c # r" "b \<noteq> 0"
  shows "case parse_header (length (b # c # r)) (b # c # r) of
      HHeader ct L ty \<Rightarrow> g2_packet_find_type (type_name ty) \<noteq> None \<longrightarrow>
        (\<exists>source' p. g2_packet_decode_from_packet source (fresh_child g) = Some (True, source', p) \<and>
           packet_decode source' = GET_CHILD_PACKETS \<and> wf_buff (data_trunk source') \<and>
           buffer_bytes (data_trunk source') = drop (header_size ct + L) (b # c # r) \<and>
           child_of (Child ct L ty (take L (drop (header_size ct) (b # c # r)))) p)
    | _ \<Rightarrow> \<exists>source' p. g2_packet_decode_from_packet source (fresh_child g) = Some (False, source', p)"
proof -
  let ?dt = "data_trunk source" and ?t = "fresh_child g"
  note fp = from_packet_decode[OF src fresh_child_state(2) bs]
  note spec = g2_packet_decode_spec[OF src(2), of ?t, unfolded bs]
  show ?thesis
  proof (cases "parse_header (length (b # c # r)) (b # c # r)")
    case HMore
    then show ?thesis using spec g fp by fastforce
  next
    case HBad
    then show ?thesis using spec g fp by fastforce
  next
    case (HHeader ct L ty)
    show ?thesis
      unfolding HHeader hparse.case
    proof (intro impI, elim not_None_eq[THEN iffD1, THEN exE])
      fix pt assume pt: "g2_packet_find_type (type_name ty) = Some pt"
      let ?dt' = "?dt\<lparr>pos := pos ?dt + header_size ct + L\<rparr>"
      let ?p = "decoded ct L ty pt ?dt (?t\<lparr>more_bytes_needed := False\<rparr>)"
      have h: "parse_header (length (buffer_bytes ?dt)) (buffer_bytes ?dt) = HHeader ct L ty"
        using HHeader bs(1) by simp
      have dec: "g2_packet_decode ?dt ?t = Some (True, ?dt', ?p)"
        using spec g HHeader pt by simp
      have b: "L < 2 ^ 24" "length ty \<le> 8" "L + header_size ct \<le> length (buffer_bytes ?dt)"
        using parse_header_bounds[OF h] ctl_tl_bounds[of ct] by simp_all
      have wf: "wf_buff ?dt'"
        using decoded_trunk(3)[OF src(2) h] by (rule buff_advanced_wf[OF src(2)])
      have "pos ?dt + (header_size ct + L) \<le> limit ?dt"
        using b(3) length_buffer_bytes[OF src(2)] wf_buff_pos[OF src(2)]
        by (simp add: buffer_remaining_wf[OF src(2)])
      then have bytes: "buffer_bytes ?dt' = drop (header_size ct + L) (b # c # r)"
        using buffer_bytes_advance[of ?dt "header_size ct + L"] bs(1) by (simp add: add.assoc)
      have "child_of (Child ct L ty (take L (drop (header_size ct) (b # c # r)))) ?p"
        using decoded_fields[OF b(1) _ b(2), of "?t\<lparr>more_bytes_needed := False\<rparr>" ct pt ?dt] g pt
          decoded_trunk(1,2)[OF src(2) h, of pt "?t\<lparr>more_bytes_needed := False\<rparr>"] bs(1)
        by simp
      then show "\<exists>source' p. g2_packet_decode_from_packet source ?t = Some (True, source', p) \<and>
           packet_decode source' = GET_CHILD_PACKETS \<and> wf_buff (data_trunk source') \<and>
           buffer_bytes (data_trunk source') = drop (header_size ct + L) (b # c # r) \<and>
           child_of (Child ct L ty (take L (drop (header_size ct) (b # c # r)))) p"
        using fp[OF dec] src(1) wf bytes by auto
    qed
  qed
qed

subsection \<open>The whole walk\<close>

text \<open>
  The walk as an induction rule: a call ends the walk, fails, or delivers a child and leaves a
  father with fewer bytes.  Every loop over the children is an instance.
\<close>

lemma child_walk_induct [consumes 4, case_names finish broken step]:
  assumes src: "packet_decode source = GET_CHILD_PACKETS" "wf_buff (data_trunk source)"
    and g: "length (pd g) = PD_OUT_SIZE"
    and known: "list_all child_known (fst (split_children (buffer_bytes (data_trunk source))))"
    and finish: "\<And>source source' d.
      g2_packet_decode_from_packet source (fresh_child g) = Some (True, source', fresh_child g) \<Longrightarrow>
      packet_decode source' = DECODE_FINISHED \<Longrightarrow> wf_buff (data_trunk source') \<Longrightarrow>
      buffer_bytes (data_trunk source') = d \<Longrightarrow> P source ([], Some d)"
    and broken: "\<And>source source' p.
      g2_packet_decode_from_packet source (fresh_child g) = Some (False, source', p) \<Longrightarrow>
      P source ([], None)"
    and step: "\<And>source source' p ch cs d.
      g2_packet_decode_from_packet source (fresh_child g) = Some (True, source', p) \<Longrightarrow>
      packet_decode source' = GET_CHILD_PACKETS \<Longrightarrow> child_of ch p \<Longrightarrow>
      P source' (cs, d) \<Longrightarrow> P source (ch # cs, d)"
  shows "P source (split_children (buffer_bytes (data_trunk source)))"
  using src known
proof (induction "buffer_bytes (data_trunk source)" arbitrary: source rule: split_children.induct)
  case 1
  let ?bs = "buffer_bytes (data_trunk source)"
  note fin = from_packet_end[OF 1(2,3) fresh_child_state(2)]
  consider "?bs = []" | r where "?bs = 0 # r" | b where "?bs = [b]" "b \<noteq> 0"
    | b c r where "?bs = b # c # r" "b \<noteq> 0"
    by (metis list.exhaust)
  then show ?case
  proof cases
    case 1
    then show ?thesis
      using finish[OF fin(1), of "[]"] \<open>wf_buff (data_trunk source)\<close> by (simp add: split_children.simps)
  next
    case (2 r)
    have "pos (data_trunk source) + 1 \<le> limit (data_trunk source)"
      by (rule buffer_bytes_Cons_pos[OF \<open>wf_buff (data_trunk source)\<close> 2])
    then show ?thesis
      using finish[OF fin(2)[OF 2], of r] 2 wf_buff_advance[OF \<open>wf_buff (data_trunk source)\<close>, of 1]
        buffer_bytes_advance[of "data_trunk source" 1]
      by (simp add: split_children.simps)
  next
    case (3 b)
    then show ?thesis using broken[OF fin(3)[OF 3]] by (simp add: split_children.simps)
  next
    case (4 b c r)
    note nx = decode_next_child[OF \<open>packet_decode source = GET_CHILD_PACKETS\<close> \<open>wf_buff (data_trunk source)\<close> g 4]
    show ?thesis
    proof (cases "parse_header (length (b # c # r)) (b # c # r)")
      case (HHeader ct L ty)
      obtain cs d where sp: "split_children (drop (header_size ct + L) (b # c # r)) = (cs, d)"
        by (cases "split_children (drop (header_size ct + L) (b # c # r))")
      let ?ch = "Child ct L ty (take L (drop (header_size ct) (b # c # r)))"
      have split: "split_children ?bs = (?ch # cs, d)"
        using 4 HHeader sp by (subst split_children.simps) simp
      then have kn: "g2_packet_find_type (type_name ty) \<noteq> None" "list_all child_known cs"
        using 1(4) by simp_all
      then obtain source' p where s': "g2_packet_decode_from_packet source (fresh_child g) = Some (True, source', p)"
        "packet_decode source' = GET_CHILD_PACKETS" "wf_buff (data_trunk source')"
        "buffer_bytes (data_trunk source') = drop (header_size ct + L) (b # c # r)" "child_of ?ch p"
        using nx HHeader by auto
      have "P source' (split_children (buffer_bytes (data_trunk source')))"
        by (rule 1(1)[OF 4(1) 4(2), of ct L ty]) (use HHeader 4(1) s' sp kn(2) in simp_all)
      then show ?thesis using step[OF s'(1,2,5)] split s'(4) sp by simp
    qed (use nx broken 4 in \<open>auto simp: split_children.simps\<close>)
  qed
qed

text \<open>
  The loop of the handlers: it ends, it fails exactly on a broken child, and the action is called
  for the children that are not compound, in their order.
\<close>

lemma child_loop_finish:
  "g2_packet_decode_from_packet source (fresh_child g) = Some (True, source', fresh_child g) \<Longrightarrow>
   packet_decode source' = DECODE_FINISHED \<Longrightarrow>
   child_loop decide g source st = Some (True, source', st)"
  by (simp add: child_loop.simps)

lemma child_loop_broken:
  "g2_packet_decode_from_packet source (fresh_child g) = Some (False, source', p) \<Longrightarrow>
   child_loop decide g source st = Some (False, source', st)"
  by (simp add: child_loop.simps)

lemma child_loop_step:
  "g2_packet_decode_from_packet source (fresh_child g) = Some (True, source', p) \<Longrightarrow>
   packet_decode source' = GET_CHILD_PACKETS \<Longrightarrow>
   child_loop decide g source st = child_loop decide g source'
     (if packet_decode p = DECODE_FINISHED then decide p st else st)"
  by (simp add: child_loop.simps[of decide g source])

lemma child_of_finished: "child_of ch p \<Longrightarrow> packet_decode p = DECODE_FINISHED \<longleftrightarrow> \<not> is_compound p"
  by (cases ch) auto

definition walk_result ::
    "(g2_packet \<Rightarrow> 'a \<Rightarrow> 'a) \<Rightarrow> g2_packet \<Rightarrow> 'a \<Rightarrow> g2_packet \<Rightarrow> child list \<times> byte list option \<Rightarrow> bool" where
  "walk_result decide g st source r \<longleftrightarrow>
     (\<exists>source' ps. list_all2 child_of (fst r) ps \<and>
        child_loop decide g source st =
          Some (snd r \<noteq> None, source', fold decide (filter (\<lambda>p. \<not> is_compound p) ps) st) \<and>
        (snd r \<noteq> None \<longrightarrow> packet_decode source' = DECODE_FINISHED \<and> wf_buff (data_trunk source') \<and>
           Some (buffer_bytes (data_trunk source')) = snd r))"

lemma child_loop_spec:
  assumes "packet_decode source = GET_CHILD_PACKETS" "wf_buff (data_trunk source)"
    and "length (pd g) = PD_OUT_SIZE"
    and "list_all child_known (fst (split_children (buffer_bytes (data_trunk source))))"
  shows "walk_result decide g st source (split_children (buffer_bytes (data_trunk source)))"
proof -
  have "\<forall>st. walk_result decide g st source (split_children (buffer_bytes (data_trunk source)))"
    using assms
  proof (induction rule: child_walk_induct)
    case (finish source source' d)
    then show ?case using child_loop_finish[OF finish(1,2), of decide] by (auto simp: walk_result_def)
  next
    case (broken source source' p)
    then show ?case using child_loop_broken[OF broken, of decide] by (auto simp: walk_result_def)
  next
    case (step source source' p ch cs d)
    show ?case
    proof
      fix st
      let ?st = "if packet_decode p = DECODE_FINISHED then decide p st else st"
      from step(4) obtain source2 ps where w: "list_all2 child_of cs ps"
        "child_loop decide g source' ?st =
          Some (d \<noteq> None, source2, fold decide (filter (\<lambda>p. \<not> is_compound p) ps) ?st)"
        "d \<noteq> None \<longrightarrow> packet_decode source2 = DECODE_FINISHED \<and> wf_buff (data_trunk source2) \<and>
           Some (buffer_bytes (data_trunk source2)) = d"
        unfolding walk_result_def by (metis fst_conv snd_conv)
      then show "walk_result decide g st source (ch # cs, d)"
        unfolding walk_result_def child_loop_step[OF step(1,2)]
        using step(3) child_of_finished[OF step(3)]
        by (intro exI[of _ source2] exI[of _ "p # ps"]) auto
    qed
  qed
  then show ?thesis ..
qed

lemma skip_child_spec:
  assumes "packet_decode s = GET_CHILD_PACKETS" "wf_buff (data_trunk s)"
    and "length (pd g) = PD_OUT_SIZE"
    and "list_all child_known (fst (split_children (buffer_bytes (data_trunk s))))"
  shows "\<exists>s'. skip_child g s = Some (snd (split_children (buffer_bytes (data_trunk s))) \<noteq> None, s') \<and>
    (snd (split_children (buffer_bytes (data_trunk s))) \<noteq> None \<longrightarrow>
       packet_decode s' = DECODE_FINISHED \<and>
       Some (buffer_bytes (data_trunk s')) = snd (split_children (buffer_bytes (data_trunk s))))"
  using assms
proof (induction rule: child_walk_induct)
  case (finish source source' d)
  then show ?case by (simp add: skip_child.simps)
next
  case (broken source source' p)
  then show ?case by (simp add: skip_child.simps)
next
  case (step source source' p ch cs d)
  then show ?case by (simp add: skip_child.simps[of g source])
qed

end
