(* ===== verification/Packet_Encode.thy ===== *)
theory Packet_Encode
  imports G2_Packet
begin

text \<open>
  The encoding half of \<^verbatim>\<open>G2PacketSerializer.c\<close>: gathering the lengths
  (\<open>g2_packet_serialize_prep_min\<close>), the control byte, and the encoder state machine
  (\<open>g2_packet_serialize_to_buff_p\<close>) that writes a packet with its children into a buffer and can
  be continued with the next buffer when the first is full.
\<close>

subsection \<open>The control byte\<close>

definition create_control_byte :: "g2_packet \<Rightarrow> byte" where
  "create_control_byte p =
     (let control = 0;
          control = control OR (if big_endian p then 0x02 else 0);
          control = control OR (if is_compound p then 0x04 else 0);
          control = control OR push_bit 3 (type_length p - 1);
          control = control OR push_bit 6 (length_length p)
      in if control \<noteq> 0 then control else 0x04)"

subsection \<open>Preparing\<close>

text \<open>
  \<open>g2_packet_serialize_prep_internal\<close> with \<open>write_header\<close> false.  The first component of the
  result is the size of the packet with its header, \<open>None\<close> for the return value \<open>-1\<close>; the second
  is the packet afterwards, which an error leaves half prepared.
\<close>

definition has_data :: "g2_packet \<Rightarrow> bool" where
  "has_data p \<longleftrightarrow> data (data_trunk p) \<noteq> None \<and> buffer_remaining (data_trunk p) \<noteq> 0"

definition prep_length :: "g2_packet \<Rightarrow> nat \<Rightarrow> nat \<Rightarrow> nat option \<times> g2_packet" where
  "prep_length p child_size sz =
     (if sz = 0 then (Some sz, p\<lparr>length_length := 0\<rparr>)
      else if sz \<le> 0xFF then (Some sz, p\<lparr>length_length := 1\<rparr>)
      else if sz \<le> 0xFFFF then (Some sz, p\<lparr>length_length := 2\<rparr>)
      else if sz \<le> 0xFFFFFF then (Some sz, p\<lparr>length_length := 3\<rparr>)
      else
        (let difference = sz - child_size in
         if difference = 0 \<or> difference \<ge> buffer_remaining (data_trunk p) then (None, p)
         else (Some 0xFFFFFF,
           p\<lparr>data_trunk := (data_trunk p)\<lparr>limit := limit (data_trunk p) - difference\<rparr>,
             length_length := 3\<rparr>)))"

definition prep_finish :: "g2_packet \<Rightarrow> nat \<Rightarrow> nat option \<times> g2_packet" where
  "prep_finish p child_size =
     (let sz = (if has_data p
                  then child_size + (if child_size \<noteq> 0 then 1 else 0) + buffer_remaining (data_trunk p)
                  else child_size) in
      case prep_length p child_size sz of
        (None, p) \<Rightarrow> (None, p)
      | (Some sz, p) \<Rightarrow>
          (let p = p\<lparr>plength := word_of_nat sz\<rparr> in
           if packet_type p = PT_UNKNOWN \<and> type_length p = 0 then (None, p)
           else
             (let p = (if packet_type p \<noteq> PT_UNKNOWN
                       then p\<lparr>type_length := word_of_nat (g2_ptype_names_length ! packet_type p)\<rparr>
                       else p);
                  p = p\<lparr>packet_encode := SERIALIZATION_PREPARED_MIN\<rparr>
              in (Some (sz + unat (length_length p) + unat (type_length p) + 1), p))))"

fun g2_packet_serialize_prep_internal :: "g2_ptree \<Rightarrow> nat \<Rightarrow> nat option \<times> g2_ptree"
  and prep_children :: "g2_ptree list \<Rightarrow> nat \<Rightarrow> nat option \<times> g2_ptree list" where
  "g2_packet_serialize_prep_internal (G2_Packet p cs) recurs =
     (if recurs > 20 then (None, G2_Packet p cs)
      else if \<not> is_literal p then
        (if cs \<noteq> [] then
           (case prep_children cs (recurs + 1) of
              (None, cs') \<Rightarrow> (None, G2_Packet p cs')
            | (Some child_size, cs') \<Rightarrow>
                (case prep_finish (p\<lparr>is_compound := True\<rparr>) child_size of
                   (n, p') \<Rightarrow> (n, G2_Packet p' cs')))
         else
           (case prep_finish (p\<lparr>is_compound := False\<rparr>) 0 of (n, p') \<Rightarrow> (n, G2_Packet p' cs)))
      else (case prep_finish p 0 of (n, p') \<Rightarrow> (n, G2_Packet p' cs)))"
| "prep_children [] recurs = (Some 0, [])"
| "prep_children (c # cs) recurs =
     (case g2_packet_serialize_prep_internal c recurs of
        (None, c') \<Rightarrow> (None, c' # cs)
      | (Some n, c') \<Rightarrow>
          (case prep_children cs recurs of
             (None, cs') \<Rightarrow> (None, c' # cs')
           | (Some m, cs') \<Rightarrow> (Some (n + m), c' # cs')))"

definition g2_packet_serialize_prep_min :: "g2_ptree \<Rightarrow> nat option \<times> g2_ptree" where
  "g2_packet_serialize_prep_min p = g2_packet_serialize_prep_internal p 0"

subsection \<open>Writing\<close>

text \<open>
  The variables of \<open>g2_packet_serialize_to_buff_p\<close>: the packet with its children, the target
  buffer, and the locals \<open>need_zero\<close> and \<open>ret_val\<close>.
\<close>

record ser =
  src :: g2_packet
  chld :: "g2_ptree list"
  tgt :: pointer_buff
  need_zero :: bool
  ret_val :: bool

text \<open>\<open>packet_encode++\<close> inside of the header states.\<close>

fun encoder_next :: "g2_packet_encoder_states \<Rightarrow> g2_packet_encoder_states" where
  "encoder_next DECIDE_ENCODE = PREPARE_SERIALIZATION_MIN"
| "encoder_next PREPARE_SERIALIZATION_MIN = PREPARE_SERIALIZATION"
| "encoder_next PREPARE_SERIALIZATION = SERIALIZATION_PREPARED_MIN"
| "encoder_next SERIALIZATION_PREPARED_MIN = SERIALIZE_CONTROL"
| "encoder_next SERIALIZE_CONTROL = SERIALIZE_LENGTH1"
| "encoder_next SERIALIZE_LENGTH1 = SERIALIZE_LENGTH2"
| "encoder_next SERIALIZE_LENGTH2 = SERIALIZE_LENGTH3"
| "encoder_next SERIALIZE_LENGTH3 = SERIALIZE_TYPE1"
| "encoder_next SERIALIZE_TYPE1 = SERIALIZE_TYPE2"
| "encoder_next SERIALIZE_TYPE2 = SERIALIZE_TYPE3"
| "encoder_next SERIALIZE_TYPE3 = SERIALIZE_TYPE4"
| "encoder_next SERIALIZE_TYPE4 = SERIALIZE_TYPE5"
| "encoder_next SERIALIZE_TYPE5 = SERIALIZE_TYPE6"
| "encoder_next SERIALIZE_TYPE6 = SERIALIZE_TYPE7"
| "encoder_next SERIALIZE_TYPE7 = SERIALIZE_TYPE8"
| "encoder_next SERIALIZE_TYPE8 = SERIALIZATION_PREPARED"
| "encoder_next SERIALIZATION_PREPARED = IOVEC_HEADER"
| "encoder_next IOVEC_HEADER = IOVEC_CHILD"
| "encoder_next IOVEC_CHILD = IOVEC_ZERO"
| "encoder_next IOVEC_ZERO = IOVEC_DATA"
| "encoder_next IOVEC_DATA = IOVEC_CLEANAFTER"
| "encoder_next IOVEC_CLEANAFTER = SERIALIZE_CHILDREN"
| "encoder_next SERIALIZE_CHILDREN = BEWARE_OF_ZERO"
| "encoder_next BEWARE_OF_ZERO = SERIALIZE_DATA_PREP"
| "encoder_next SERIALIZE_DATA_PREP = SERIALIZE_DATA"
| "encoder_next SERIALIZE_DATA = ENCODE_FINISHED"
| "encoder_next ENCODE_FINISHED = MAX_ENCODER_STATE"
| "encoder_next MAX_ENCODER_STATE = MAX_ENCODER_STATE"

abbreviation set_encode :: "g2_packet_encoder_states \<Rightarrow> ser \<Rightarrow> ser" where
  "set_encode st s \<equiv> s\<lparr>src := (src s)\<lparr>packet_encode := st\<rparr>\<rparr>"

abbreviation set_more :: "bool \<Rightarrow> ser \<Rightarrow> ser" where
  "set_more b s \<equiv> s\<lparr>src := (src s)\<lparr>more_bytes_needed := b\<rparr>\<rparr>"

text \<open>
  A header state: if the byte is present in this packet it needs room in the target; then
  \<open>packet_encode++\<close> and fall through.
\<close>

definition put_state :: "(g2_packet \<Rightarrow> bool) \<Rightarrow> (g2_packet \<Rightarrow> byte) \<Rightarrow> (ser, bool) code" where
  "put_state present byte s =
     (if present (src s) then
        (if buffer_remaining (tgt s) = 0 then Some (Brk (set_more True s))
         else do {
           t \<leftarrow> buffer_put (byte (src s)) (tgt s);
           Some (Fall (set_encode (encoder_next (packet_encode (src s)))
             (s\<lparr>tgt := t\<lparr>pos := pos t + 1\<rparr>\<rparr>)))
         })
      else Some (Fall (set_encode (encoder_next (packet_encode (src s))) s)))"

definition length_byte :: "nat \<Rightarrow> g2_packet \<Rightarrow> byte" where
  "length_byte i p =
     (let b = (\<lambda>k. ucast (drop_bit (8 * k) (plength p) AND 0xFF)) in
      if i = 1 then
        (if \<not> big_endian p then b 0
         else if length_length p = 1 then b 0
         else if length_length p = 2 then b 1 else b 2)
      else if i = 2 then
        (if \<not> big_endian p then b 1
         else if length_length p = 2 then b 0 else b 1)
      else (if \<not> big_endian p then b 2 else b 0))"

definition type_byte :: "nat \<Rightarrow> g2_packet \<Rightarrow> byte" where
  "type_byte x p =
     (if packet_type p \<noteq> PT_UNKNOWN then g2_ptype_names ! packet_type p ! (x - 1)
      else pd p ! (x - 1))"

definition header_states :: "(g2_packet_encoder_states \<times> (g2_packet \<Rightarrow> bool) \<times> (g2_packet \<Rightarrow> byte)) list" where
  "header_states =
     [(SERIALIZE_CONTROL, \<lambda>_. True, create_control_byte),
      (SERIALIZE_LENGTH1, \<lambda>p. length_length p \<ge> 1, length_byte 1),
      (SERIALIZE_LENGTH2, \<lambda>p. length_length p \<ge> 2, length_byte 2),
      (SERIALIZE_LENGTH3, \<lambda>p. length_length p \<ge> 3, length_byte 3),
      (SERIALIZE_TYPE1, \<lambda>p. type_length p \<ge> 1, type_byte 1),
      (SERIALIZE_TYPE2, \<lambda>p. type_length p \<ge> 2, type_byte 2),
      (SERIALIZE_TYPE3, \<lambda>p. type_length p \<ge> 3, type_byte 3),
      (SERIALIZE_TYPE4, \<lambda>p. type_length p \<ge> 4, type_byte 4),
      (SERIALIZE_TYPE5, \<lambda>p. type_length p \<ge> 5, type_byte 5),
      (SERIALIZE_TYPE6, \<lambda>p. type_length p \<ge> 6, type_byte 6),
      (SERIALIZE_TYPE7, \<lambda>p. type_length p \<ge> 7, type_byte 7),
      (SERIALIZE_TYPE8, \<lambda>p. type_length p \<ge> 8, type_byte 8)]"

text \<open>
  The loop over the children.  The last component tells whether the loop was left by its
  \<open>break\<close>, and with which value for \<open>more_bytes_needed\<close>.
\<close>

fun serialize_children ::
    "(g2_ptree \<Rightarrow> pointer_buff \<Rightarrow> (bool \<times> g2_ptree \<times> pointer_buff) option) \<Rightarrow>
     g2_ptree list \<Rightarrow> pointer_buff \<Rightarrow> bool \<Rightarrow>
     (g2_ptree list \<times> pointer_buff \<times> bool \<times> bool option) option" where
  "serialize_children self [] target r = Some ([], target, r, None)"
| "serialize_children self (child # cs) target r =
     do {
       (r, child, target) \<leftarrow>
         (if packet_encode (hdr child) \<noteq> ENCODE_FINISHED then self child target
          else Some (r, child, target));
       if packet_encode (hdr child) \<noteq> ENCODE_FINISHED
       then Some (child # cs, target, r, Some (more_bytes_needed (hdr child)))
       else serialize_children self cs target r
     }"

definition children_state ::
    "(g2_ptree \<Rightarrow> pointer_buff \<Rightarrow> (bool \<times> g2_ptree \<times> pointer_buff) option) \<Rightarrow> (ser, bool) code" where
  "children_state self s =
     do {
       (cs, target, r, left) \<leftarrow> serialize_children self (chld s) (tgt s) (ret_val s);
       let s = s\<lparr>chld := cs, tgt := target, ret_val := r\<rparr>;
       let s = (case left of None \<Rightarrow> s | Some m \<Rightarrow> set_more m s);
       Some (Fall (set_encode BEWARE_OF_ZERO s))
     }"

definition data_prep_state :: "(ser, bool) code" where
  "data_prep_state s =
     (if has_data (src s) then
        (if need_zero s then
           (if buffer_remaining (tgt s) = 0 then Some (Brk (set_more True s))
            else do {
              t \<leftarrow> buffer_put 0 (tgt s);
              Some (Fall (set_encode SERIALIZE_DATA (s\<lparr>tgt := t\<lparr>pos := pos t + 1\<rparr>\<rparr>)))
            })
         else Some (Fall (set_encode SERIALIZE_DATA s)))
      else Some (Brk (set_encode ENCODE_FINISHED (set_more True s))))"

definition data_state :: "(ser, bool) code" where
  "data_state s =
     (let len = min (buffer_remaining (data_trunk (src s))) (buffer_remaining (tgt s)) in
      do {
        bs \<leftarrow> buffer_read len (data_trunk (src s));
        t \<leftarrow> buffer_write bs (tgt s);
        let dt = data_trunk (src s);
        let s = s\<lparr>tgt := t\<lparr>pos := pos t + len\<rparr>,
                  src := (src s)\<lparr>data_trunk := dt\<lparr>pos := pos dt + len\<rparr>\<rparr>\<rparr>;
        Some (Fall (if buffer_remaining (data_trunk (src s)) = 0
                    then set_encode ENCODE_FINISHED s else s))
      })"

definition prep_state :: "(ser, bool) code" where
  "prep_state s =
     (case g2_packet_serialize_prep_min (G2_Packet (src s) (chld s)) of
        (None, G2_Packet p cs) \<Rightarrow> Some (Ret False (s\<lparr>src := p, chld := cs\<rparr>))
      | (Some n, G2_Packet p cs) \<Rightarrow> Some (Fall (s\<lparr>src := p, chld := cs\<rparr>)))"

definition serialize_cases ::
    "(g2_ptree \<Rightarrow> pointer_buff \<Rightarrow> (bool \<times> g2_ptree \<times> pointer_buff) option) \<Rightarrow>
     (g2_packet_encoder_states \<times> (ser, bool) code) list" where
  "serialize_cases self =
     [(DECIDE_ENCODE, \<lambda>s. Some (Fall (set_encode PREPARE_SERIALIZATION_MIN s))),
      (PREPARE_SERIALIZATION_MIN, \<lambda>s. Some (Fall s)),
      (PREPARE_SERIALIZATION, prep_state),
      (SERIALIZATION_PREPARED_MIN, \<lambda>s. Some (Fall (set_encode SERIALIZE_CONTROL s)))] @
     map (\<lambda>(st, present, byte). (st, put_state present byte)) header_states @
     [(SERIALIZATION_PREPARED, \<lambda>s.
         if is_literal (src s) \<or> chld s = []
         then Some (Brk (set_encode SERIALIZE_DATA_PREP s))
         else Some (Fall (set_encode SERIALIZE_CHILDREN s))),
      (SERIALIZE_CHILDREN, children_state self),
      (BEWARE_OF_ZERO, \<lambda>s. Some (Fall (s\<lparr>need_zero := True\<rparr>))),
      (SERIALIZE_DATA_PREP, data_prep_state),
      (SERIALIZE_DATA, data_state),
      (ENCODE_FINISHED, \<lambda>s. Some (Brk (set_more True s))),
      (IOVEC_HEADER, \<lambda>s. Some (Ret False s)),
      (IOVEC_CHILD, \<lambda>s. Some (Ret False s)),
      (IOVEC_ZERO, \<lambda>s. Some (Ret False s)),
      (IOVEC_DATA, \<lambda>s. Some (Ret False s)),
      (IOVEC_CLEANAFTER, \<lambda>s. Some (Ret False s)),
      (MAX_ENCODER_STATE, \<lambda>s. Some (Ret False s))]"

text \<open>The nesting of the recursive calls is bounded by the height of the packet.\<close>

fun ptree_height :: "g2_ptree \<Rightarrow> nat" where
  "ptree_height (G2_Packet p cs) = Suc (fold max (map ptree_height cs) 0)"

fun serialize_depth ::
    "nat \<Rightarrow> g2_ptree \<Rightarrow> pointer_buff \<Rightarrow> (bool \<times> g2_ptree \<times> pointer_buff) option" where
  "serialize_depth 0 source target = None"
| "serialize_depth (Suc n) source target =
     map_option (\<lambda>(r, s). (r, G2_Packet (src s) (chld s), tgt s))
       (c_while (\<lambda>s. \<not> more_bytes_needed (src s))
          (\<lambda>s. switch (packet_encode (src s)) (serialize_cases (serialize_depth n)) s)
          ret_val
          \<lparr>src = (hdr source)\<lparr>more_bytes_needed := False\<rparr>, chld = children source,
           tgt = target, need_zero = False, ret_val = True\<rparr>)"

definition g2_packet_serialize_to_buff_p ::
    "g2_ptree \<Rightarrow> pointer_buff \<Rightarrow> (bool \<times> g2_ptree \<times> pointer_buff) option" where
  "g2_packet_serialize_to_buff_p source target = serialize_depth (ptree_height source) source target"

definition g2_packet_serialize_to_buff ::
    "g2_ptree \<Rightarrow> norm_buff \<Rightarrow> (bool \<times> g2_ptree \<times> norm_buff) option" where
  "g2_packet_serialize_to_buff source target =
     do {
       (r, source, tmp_buf) \<leftarrow> g2_packet_serialize_to_buff_p source
         \<lparr>pos = pos target, limit = limit target, capacity = capacity target, data = data target\<rparr>;
       Some (r, source, target\<lparr>pos := pos tmp_buf, limit := limit tmp_buf, data := data tmp_buf\<rparr>)
     }"

end
