(* ===== verification/Packet_Encode_Correct.thy ===== *)
theory Packet_Encode_Correct
  imports Packet_Encode
begin

text \<open>
  What the encoder writes.  \<open>wire\<close> is the reference: the bytes of a prepared packet with its
  children.  With enough room in the target the encoder writes exactly these bytes
  (\<open>serialize_wire\<close>); a packet without children is written correctly into any sequence of
  buffers (\<open>serialize_flat\<close>).
\<close>

subsection \<open>Writing to a buffer\<close>

definition wrote :: "pointer_buff \<Rightarrow> byte list \<Rightarrow> pointer_buff \<Rightarrow> bool" where
  "wrote t bs t' \<longleftrightarrow>
     wf_buff t' \<and> limit t' = limit t \<and> capacity t' = capacity t \<and> pos t' = pos t + length bs \<and>
     buffer_written t' = buffer_written t @ bs"

lemma wrote_Nil: "wf_buff t \<Longrightarrow> wrote t [] t"
  by (simp add: wrote_def)

lemma wrote_append: "wrote t a t1 \<Longrightarrow> wrote t1 b t2 \<Longrightarrow> wrote t (a @ b) t2"
  by (simp add: wrote_def)

lemma wrote_wf: "wrote t a t' \<Longrightarrow> wf_buff t'"
  by (simp add: wrote_def)

lemma wrote_remaining:
  "wf_buff t \<Longrightarrow> wrote t a t' \<Longrightarrow> buffer_remaining t' = buffer_remaining t - length a"
  using wf_buff_pos[of t'] by (simp add: wrote_def buffer_remaining_def wf_buff_def)

lemma wrote_fits: "wf_buff t \<Longrightarrow> wrote t a t' \<Longrightarrow> length a \<le> buffer_remaining t"
  using wf_buff_pos[of t'] wf_buff_pos[of t] by (auto simp: wrote_def buffer_remaining_wf)

lemma buffer_put_wrote:
  assumes "wf_buff t" and "buffer_remaining t \<noteq> 0"
  obtains t' where "buffer_put b t = Some t'" and "wrote t [b] (t'\<lparr>pos := pos t' + 1\<rparr>)"
proof (rule buffer_put_wf[OF assms, of b])
  fix y assume y: "buffer_put b t = Some y" "wf_buff y" "pos y = pos t" "limit y = limit t"
    "capacity y = capacity t" "buffer_written (y\<lparr>pos := pos t + 1\<rparr>) = buffer_written t @ [b]"
  have "pos y + 1 \<le> limit y" using assms y by (simp add: buffer_remaining_wf)
  then have "wf_buff (y\<lparr>pos := pos y + 1\<rparr>)" using y(2) by (rule wf_buff_advance[rotated])
  with y that[of y] show thesis by (simp add: wrote_def)
qed

lemma buffer_write_wrote:
  assumes "wf_buff t" and "length bs \<le> buffer_remaining t"
  obtains t' where "buffer_write bs t = Some t'"
    and "wrote t bs (t'\<lparr>pos := pos t' + length bs\<rparr>)"
proof (rule buffer_write_wf[OF assms])
  fix y assume y: "buffer_write bs t = Some y" "wf_buff y" "pos y = pos t" "limit y = limit t"
    "capacity y = capacity t" "buffer_written (y\<lparr>pos := pos t + length bs\<rparr>) = buffer_written t @ bs"
  have "pos y + length bs \<le> limit y" using assms y wf_buff_pos[OF assms(1)]
    by (simp add: buffer_remaining_wf)
  then have "wf_buff (y\<lparr>pos := pos y + length bs\<rparr>)" using y(2) by (rule wf_buff_advance[rotated])
  with y that[of y] show thesis by (simp add: wrote_def)
qed

subsection \<open>The reference\<close>

type_synonym hstate = "g2_packet_encoder_states \<times> (g2_packet \<Rightarrow> bool) \<times> (g2_packet \<Rightarrow> byte)"

definition states_bytes :: "hstate list \<Rightarrow> g2_packet \<Rightarrow> byte list" where
  "states_bytes hs p = concat (map (\<lambda>(st, present, byte). if present p then [byte p] else []) hs)"

definition header_bytes :: "g2_packet \<Rightarrow> byte list" where
  "header_bytes p = states_bytes header_states p"

fun wire :: "g2_ptree \<Rightarrow> byte list" where
  "wire (G2_Packet p cs) =
     header_bytes p @
     (if is_literal p \<or> cs = [] then buffer_bytes (data_trunk p)
      else concat (map wire cs) @
        (if buffer_bytes (data_trunk p) \<noteq> [] then 0 # buffer_bytes (data_trunk p) else []))"

lemma has_data_wf: "wf_buff (data_trunk p) \<Longrightarrow> has_data p \<longleftrightarrow> buffer_bytes (data_trunk p) \<noteq> []"
  using buffer_bytes_Nil[of "data_trunk p"]
  by (auto simp: has_data_def wf_buff_def buffer_remaining_def split: option.splits)

subsection \<open>The header states\<close>

text \<open>The labels follow each other, so that \<open>packet_encode++\<close> steps from one to the next.\<close>

fun chained :: "hstate list \<Rightarrow> g2_packet_encoder_states \<Rightarrow> g2_packet_encoder_states \<Rightarrow> bool" where
  "chained [] e fin \<longleftrightarrow> e = fin"
| "chained ((l, _, _) # hs) e fin \<longleftrightarrow> e = l \<and> chained hs (encoder_next l) fin"

text \<open>No header byte depends on the state of the encoder.\<close>

definition state_free :: "hstate list \<Rightarrow> bool" where
  "state_free hs \<longleftrightarrow> (\<forall>(l, present, byte) \<in> set hs. \<forall>p e m.
     present (p\<lparr>packet_encode := e\<rparr>) = present p \<and> byte (p\<lparr>packet_encode := e\<rparr>) = byte p \<and>
     present (p\<lparr>more_bytes_needed := m\<rparr>) = present p \<and> byte (p\<lparr>more_bytes_needed := m\<rparr>) = byte p)"

lemma chained_header_states: "chained header_states SERIALIZE_CONTROL SERIALIZATION_PREPARED"
  by (simp add: header_states_def)

lemma state_free_header_states: "state_free header_states"
  by (simp add: state_free_def header_states_def create_control_byte_def length_byte_def
      type_byte_def)

lemma states_bytes_Cons:
  "states_bytes ((l, present, byte) # hs) p =
     (if present p then [byte p] else []) @ states_bytes hs p"
  by (simp add: states_bytes_def)

lemma state_free_tl: "state_free (h # hs) \<Longrightarrow> state_free hs"
  by (simp add: state_free_def)

lemma state_free_hd:
  assumes "state_free ((l, present, byte) # hs)"
  shows "present (p\<lparr>packet_encode := e\<rparr>) = present p" "byte (p\<lparr>packet_encode := e\<rparr>) = byte p"
    "present (p\<lparr>more_bytes_needed := m\<rparr>) = present p" "byte (p\<lparr>more_bytes_needed := m\<rparr>) = byte p"
  using assms unfolding state_free_def by simp_all

lemma state_free_bytes:
  assumes "state_free hs"
  shows "states_bytes hs (p\<lparr>packet_encode := e\<rparr>) = states_bytes hs p"
    and "states_bytes hs (p\<lparr>more_bytes_needed := m\<rparr>) = states_bytes hs p"
  using assms
proof (induction hs)
  case Nil
  { case 1 show ?case by (simp add: states_bytes_def) }
  { case 2 show ?case by (simp add: states_bytes_def) }
next
  case (Cons h hs)
  obtain l present byte where h: "h = (l, present, byte)" by (cases h)
  { case 1 then show ?case using Cons.IH(1)[OF state_free_tl[OF 1]] state_free_hd[of l present byte hs]
      by (simp add: h states_bytes_Cons) }
  { case 2 then show ?case using Cons.IH(2)[OF state_free_tl[OF 2]] state_free_hd[of l present byte hs]
      by (simp add: h states_bytes_Cons) }
qed

abbreviation put_codes :: "hstate list \<Rightarrow> (ser, bool) code list" where
  "put_codes hs \<equiv> map (\<lambda>(st, present, byte). put_state present byte) hs"

abbreviation encode_step :: "ser \<Rightarrow> ser" where
  "encode_step s \<equiv> set_encode (encoder_next (packet_encode (src s))) s"

lemma put_state_absent:
  "\<not> present (src s) \<Longrightarrow> put_state present byte s = Some (Fall (encode_step s))"
  by (simp add: put_state_def)

lemma put_state_room:
  assumes "present (src s)" and "wf_buff (tgt s)" and "buffer_remaining (tgt s) \<noteq> 0"
  obtains t where "put_state present byte s = Some (Fall (encode_step (s\<lparr>tgt := t\<rparr>)))"
    and "wrote (tgt s) [byte (src s)] t"
  by (rule buffer_put_wrote[OF assms(2,3), of "byte (src s)"]) (use assms in \<open>simp add: put_state_def\<close>)

lemma put_state_full:
  "present (src s) \<Longrightarrow> buffer_remaining (tgt s) = 0 \<Longrightarrow>
   put_state present byte s = Some (Brk (set_more True s))"
  by (simp add: put_state_def)

lemma put_state_step:
  assumes "wf_buff (tgt s)" and "\<not> (present (src s) \<and> buffer_remaining (tgt s) = 0)"
  shows "\<exists>t1. put_state present byte s = Some (Fall (encode_step (s\<lparr>tgt := t1\<rparr>))) \<and>
    wrote (tgt s) (if present (src s) then [byte (src s)] else []) t1"
proof (cases "present (src s)")
  case False
  then show ?thesis using assms(1)
    by (auto simp: put_state_absent intro!: exI[of _ "tgt s"] wrote_Nil)
next
  case True
  with assms(2) have "buffer_remaining (tgt s) \<noteq> 0" by simp
  from put_state_room[of present s byte, OF True assms(1) this] True
  show ?thesis by (simp only: if_True) blast
qed

text \<open>
  Running the header states from the current one: with enough room all bytes are written.
\<close>

lemma run_puts:
  assumes "wf_buff (tgt s)" and "chained hs (packet_encode (src s)) fin" and "state_free hs"
    and "length (states_bytes hs (src s)) \<le> buffer_remaining (tgt s)"
  shows "\<exists>t'. run_cases (put_codes hs @ rest) s = run_cases rest (set_encode fin (s\<lparr>tgt := t'\<rparr>)) \<and>
    wrote (tgt s) (states_bytes hs (src s)) t'"
  using assms
proof (induction hs arbitrary: s)
  case Nil
  then show ?case by (auto simp: states_bytes_def intro!: exI[of _ "tgt s"] wrote_Nil)
next
  case (Cons h hs)
  obtain l present byte where h: "h = (l, present, byte)" by (cases h)
  have sf: "state_free hs" using Cons.prems(3) by (rule state_free_tl)
  have "\<not> (present (src s) \<and> buffer_remaining (tgt s) = 0)"
    using Cons.prems(4) h by (auto simp: states_bytes_Cons)
  from put_state_step[of s present byte, OF Cons.prems(1) this]
  obtain t1 where t1: "put_state present byte s = Some (Fall (encode_step (s\<lparr>tgt := t1\<rparr>)))"
      "wrote (tgt s) (if present (src s) then [byte (src s)] else []) t1" by blast
  let ?s = "encode_step (s\<lparr>tgt := t1\<rparr>)"
  have "\<exists>t'. run_cases (put_codes hs @ rest) ?s = run_cases rest (set_encode fin (?s\<lparr>tgt := t'\<rparr>)) \<and>
      wrote (tgt ?s) (states_bytes hs (src ?s)) t'"
  proof (rule Cons.IH)
    show "wf_buff (tgt ?s)" using wrote_wf[OF t1(2)] by simp
    show "chained hs (packet_encode (src ?s)) fin" using Cons.prems(2) h by simp
    show "state_free hs" by (rule sf)
    show "length (states_bytes hs (src ?s)) \<le> buffer_remaining (tgt ?s)"
      using Cons.prems(4) h wrote_remaining[OF Cons.prems(1) t1(2)]
      by (simp add: states_bytes_Cons state_free_bytes[OF sf] split: if_splits)
  qed
  then show ?case using h t1(1) wrote_append[OF t1(2)]
    by (auto simp: states_bytes_Cons state_free_bytes[OF sf])
qed

text \<open>Without enough room the bytes that fit are written and the state is that of the next one.\<close>

lemma run_puts_short:
  assumes "wf_buff (tgt s)" and "chained hs (packet_encode (src s)) fin" and "state_free hs"
    and "buffer_remaining (tgt s) < length (states_bytes hs (src s))"
  shows "\<exists>t' hs1 h hs2. hs = hs1 @ h # hs2 \<and>
    run_cases (put_codes hs @ rest) s =
      Some (Brk (set_more True (set_encode (fst h) (s\<lparr>tgt := t'\<rparr>)))) \<and>
    wrote (tgt s) (take (buffer_remaining (tgt s)) (states_bytes hs (src s))) t' \<and>
    states_bytes (h # hs2) (src s) = drop (buffer_remaining (tgt s)) (states_bytes hs (src s))"
  using assms
proof (induction hs arbitrary: s)
  case Nil
  then show ?case by (simp add: states_bytes_def)
next
  case (Cons h hs)
  obtain l present byte where h: "h = (l, present, byte)" by (cases h)
  have l: "packet_encode (src s) = l" using Cons.prems(2) h by simp
  have sf: "state_free hs" using Cons.prems(3) by (rule state_free_tl)
  let ?b = "if present (src s) then [byte (src s)] else []"
  show ?case
  proof (cases "present (src s) \<and> buffer_remaining (tgt s) = 0")
    case True
    then have "set_encode l s = s" using l by (metis (lifting) g2_packet.surjective g2_packet.update_convs(9) ser.surjective ser.update_convs(1))
    with True h Cons.prems(1) show ?thesis
      by (intro exI[of _ "tgt s"] exI[of _ "[]"] exI[of _ h] exI[of _ hs])
         (simp add: put_state_full wrote_Nil)
  next
    case False
    from put_state_step[of s present byte, OF Cons.prems(1) False]
    obtain t1 where t1: "put_state present byte s = Some (Fall (encode_step (s\<lparr>tgt := t1\<rparr>)))"
      "wrote (tgt s) ?b t1" by blast
    let ?s = "encode_step (s\<lparr>tgt := t1\<rparr>)"
    have rem: "buffer_remaining (tgt s) = length ?b + buffer_remaining t1"
      using wrote_remaining[OF Cons.prems(1) t1(2)] wrote_fits[OF Cons.prems(1) t1(2)] by simp
    have "\<exists>t' hs1 h hs2. hs = hs1 @ h # hs2 \<and>
      run_cases (put_codes hs @ rest) ?s =
        Some (Brk (set_more True (set_encode (fst h) (?s\<lparr>tgt := t'\<rparr>)))) \<and>
      wrote (tgt ?s) (take (buffer_remaining (tgt ?s)) (states_bytes hs (src ?s))) t' \<and>
      states_bytes (h # hs2) (src ?s) = drop (buffer_remaining (tgt ?s)) (states_bytes hs (src ?s))"
    proof (rule Cons.IH)
      show "wf_buff (tgt ?s)" using wrote_wf[OF t1(2)] by simp
      show "chained hs (packet_encode (src ?s)) fin" using Cons.prems(2) h by simp
      show "state_free hs" by (rule sf)
      show "buffer_remaining (tgt ?s) < length (states_bytes hs (src ?s))"
        using Cons.prems(4) h rem by (simp add: states_bytes_Cons state_free_bytes[OF sf])
    qed
    then obtain t' hs1 h' hs2 where r: "hs = hs1 @ h' # hs2"
      "run_cases (put_codes hs @ rest) ?s =
        Some (Brk (set_more True (set_encode (fst h') (?s\<lparr>tgt := t'\<rparr>))))"
      "wrote t1 (take (buffer_remaining t1) (states_bytes hs (src s))) t'"
      "states_bytes (h' # hs2) (src ?s) = drop (buffer_remaining t1) (states_bytes hs (src s))"
      using state_free_bytes[OF sf] by auto
    have "state_free (h' # hs2)" using sf r(1) by (simp add: state_free_def)
    with r(4) have r4: "states_bytes (h' # hs2) (src s) = drop (buffer_remaining t1) (states_bytes hs (src s))"
      by (simp add: state_free_bytes)
    show ?thesis
      using r(1,2) r4 h t1(1) rem wrote_append[OF t1(2) r(3)]
      by (intro exI[of _ t'] exI[of _ "h # hs1"] exI[of _ h'] exI[of _ hs2])
         (simp add: states_bytes_Cons)
  qed
qed

subsection \<open>The data\<close>

definition data_len :: "ser \<Rightarrow> nat" where
  "data_len s = min (buffer_remaining (data_trunk (src s))) (buffer_remaining (tgt s))"

definition data_done :: "pointer_buff \<Rightarrow> ser \<Rightarrow> ser" where
  "data_done t s =
     s\<lparr>tgt := t, src := (src s)\<lparr>
       data_trunk := (data_trunk (src s))\<lparr>pos := pos (data_trunk (src s)) + data_len s\<rparr>,
       packet_encode := (if buffer_remaining (data_trunk (src s)) \<le> buffer_remaining (tgt s)
                         then ENCODE_FINISHED else packet_encode (src s)),
       more_bytes_needed := True\<rparr>\<rparr>"

lemma run_data:
  assumes "wf_buff (tgt s)" and "wf_buff (data_trunk (src s))"
  shows "\<exists>t. run_cases (data_state # (\<lambda>s. Some (Brk (set_more True s))) # rest) s =
      Some (Brk (data_done t s)) \<and>
    wrote (tgt s) (take (buffer_remaining (tgt s)) (buffer_bytes (data_trunk (src s)))) t"
proof -
  let ?dt = "data_trunk (src s)" and ?n = "data_len s"
  have le: "?n \<le> buffer_remaining ?dt" "?n \<le> buffer_remaining (tgt s)" by (simp_all add: data_len_def)
  have rd: "buffer_read ?n ?dt = Some (take ?n (buffer_bytes ?dt))"
    by (rule buffer_read_wf[OF assms(2) le(1)])
  have tk: "take ?n (buffer_bytes ?dt) = take (buffer_remaining (tgt s)) (buffer_bytes ?dt)"
    by (simp add: data_len_def min_def length_buffer_bytes[OF assms(2)])
  have ln: "length (take ?n (buffer_bytes ?dt)) = ?n"
    using le length_buffer_bytes[OF assms(2)] by simp
  obtain t1 where t1: "buffer_write (take ?n (buffer_bytes ?dt)) (tgt s) = Some t1"
    "wrote (tgt s) (take ?n (buffer_bytes ?dt)) (t1\<lparr>pos := pos t1 + ?n\<rparr>)"
    using buffer_write_wrote[OF assms(1), of "take ?n (buffer_bytes ?dt)"] ln le(2) by auto
  have "pos ?dt + ?n \<le> limit ?dt"
    using le(1) wf_buff_pos[OF assms(2)] by (simp add: buffer_remaining_wf[OF assms(2)])
  then have rem: "buffer_remaining (?dt\<lparr>pos := pos ?dt + ?n\<rparr>) = 0 \<longleftrightarrow>
      buffer_remaining ?dt \<le> buffer_remaining (tgt s)"
    using buffer_remaining_advance[OF assms(2), of ?n] by (auto simp: data_len_def)
  show ?thesis
    using rd t1 rem tk by (intro exI[of _ "t1\<lparr>pos := pos t1 + ?n\<rparr>"])
      (simp add: data_state_def data_done_def Let_def flip: data_len_def)
qed

lemma data_done_trunk:
  assumes "wf_buff (data_trunk (src s))"
  shows "wf_buff (data_trunk (src (data_done t s)))"
    and "buffer_bytes (data_trunk (src (data_done t s))) =
      drop (buffer_remaining (tgt s)) (buffer_bytes (data_trunk (src s)))"
proof -
  let ?dt = "data_trunk (src s)" and ?n = "data_len s"
  have "pos ?dt + ?n \<le> limit ?dt"
    using wf_buff_pos[OF assms] by (simp add: data_len_def buffer_remaining_wf[OF assms])
  then show "wf_buff (data_trunk (src (data_done t s)))"
    using wf_buff_advance[OF assms] by (simp add: data_done_def)
  show "buffer_bytes (data_trunk (src (data_done t s))) =
      drop (buffer_remaining (tgt s)) (buffer_bytes (data_trunk (src s)))"
    using buffer_bytes_advance[OF \<open>pos ?dt + ?n \<le> limit ?dt\<close>] length_buffer_bytes[OF assms]
    by (simp add: data_done_def data_len_def min_def)
qed

subsection \<open>Entering the switch\<close>

definition data_codes :: "(ser, bool) code list" where
  "data_codes =
     [data_prep_state, data_state, \<lambda>s. Some (Brk (set_more True s)),
      \<lambda>s. Some (Ret False s), \<lambda>s. Some (Ret False s), \<lambda>s. Some (Ret False s),
      \<lambda>s. Some (Ret False s), \<lambda>s. Some (Ret False s), \<lambda>s. Some (Ret False s)]"

definition body_codes ::
    "(g2_ptree \<Rightarrow> pointer_buff \<Rightarrow> (bool \<times> g2_ptree \<times> pointer_buff) option) \<Rightarrow> (ser, bool) code list" where
  "body_codes self =
     (\<lambda>s. if is_literal (src s) \<or> chld s = []
         then Some (Brk (set_encode SERIALIZE_DATA_PREP s))
         else Some (Fall (set_encode SERIALIZE_CHILDREN s))) #
     children_state self # (\<lambda>s. Some (Fall (s\<lparr>need_zero := True\<rparr>))) # data_codes"

lemma dropWhile_label:
  "distinct (map fst xs) \<Longrightarrow> xs = a @ h # b \<Longrightarrow> dropWhile (\<lambda>c. fst c \<noteq> fst h) xs = h # b"
  by (induction a arbitrary: xs) auto

lemma serialize_labels: "distinct (map fst (serialize_cases self))"
  by (simp add: serialize_cases_def header_states_def)

lemma header_labels: "distinct (map fst header_states)"
  by (simp add: header_states_def)

lemma switch_header:
  assumes "header_states = hs1 @ h # hs2"
  shows "switch (fst h) (serialize_cases self) s = run_cases (put_codes (h # hs2) @ body_codes self) s"
proof -
  let ?f = "(\<lambda>(st, present, byte). (st, put_state present byte)) :: hstate \<Rightarrow> _"
  have "serialize_cases self = take 4 (serialize_cases self) @ map ?f header_states @
      drop 16 (serialize_cases self)"
    by (simp add: serialize_cases_def header_states_def)
  then have a: "serialize_cases self = (take 4 (serialize_cases self) @ map ?f hs1) @
      ?f h # map ?f hs2 @ drop 16 (serialize_cases self)"
    by (simp only: assms map_append list.map append_assoc append_Cons)
  have "dropWhile (\<lambda>c. fst c \<noteq> fst (?f h)) (serialize_cases self) =
      ?f h # map ?f hs2 @ drop 16 (serialize_cases self)"
    by (rule dropWhile_label[OF serialize_labels a])
  moreover have "fst (?f h) = fst h" by (cases h) simp
  moreover have "map snd (drop 16 (serialize_cases self)) = body_codes self"
    by (simp add: serialize_cases_def header_states_def body_codes_def data_codes_def)
  moreover have "snd \<circ> ?f = (\<lambda>(st, present, byte). put_state present byte)" by auto
  moreover have "snd (?f h) = (case h of (st, present, byte) \<Rightarrow> put_state present byte)"
    by (cases h) simp
  ultimately show ?thesis by (simp add: switch_def)
qed

lemma switch_prepared_min:
  "switch SERIALIZATION_PREPARED_MIN (serialize_cases self) s =
     run_cases (put_codes header_states @ body_codes self) (set_encode SERIALIZE_CONTROL s)"
  by (simp add: switch_def serialize_cases_def body_codes_def data_codes_def header_states_def)

lemma switch_body:
  "switch SERIALIZATION_PREPARED (serialize_cases self) s = run_cases (body_codes self) s"
  "switch SERIALIZE_DATA_PREP (serialize_cases self) s = run_cases data_codes s"
  "switch SERIALIZE_DATA (serialize_cases self) s = run_cases (tl data_codes) s"
  "switch ENCODE_FINISHED (serialize_cases self) s = Some (Brk (set_more True s))"
  by (simp_all add: switch_def serialize_cases_def body_codes_def data_codes_def header_states_def)

subsection \<open>A packet without children\<close>

text \<open>The bytes a packet without children still has to write.\<close>

definition header_from :: "g2_packet_encoder_states \<Rightarrow> hstate list" where
  "header_from e = dropWhile (\<lambda>c. fst c \<noteq> e) header_states"

definition pending :: "g2_packet \<Rightarrow> byte list" where
  "pending p =
     (if packet_encode p = ENCODE_FINISHED then []
      else (if packet_encode p = SERIALIZATION_PREPARED_MIN then header_bytes p
            else states_bytes (header_from (packet_encode p)) p) @ buffer_bytes (data_trunk p))"

definition flat_state :: "g2_packet_encoder_states \<Rightarrow> bool" where
  "flat_state e \<longleftrightarrow> e \<in> fst ` set header_states \<or>
     e \<in> {SERIALIZATION_PREPARED_MIN, SERIALIZE_DATA_PREP, SERIALIZE_DATA, ENCODE_FINISHED}"

lemma header_from_split: "header_states = hs1 @ h # hs2 \<Longrightarrow> header_from (fst h) = h # hs2"
  unfolding header_from_def by (rule dropWhile_label[OF header_labels])

lemma header_from_none: "e \<notin> fst ` set header_states \<Longrightarrow> header_from e = []"
  by (force simp: header_from_def dropWhile_eq_Nil_conv)

lemma header_not_body [simp]:
  "SERIALIZE_DATA_PREP \<notin> fst ` set header_states" "SERIALIZE_DATA \<notin> fst ` set header_states"
  "ENCODE_FINISHED \<notin> fst ` set header_states" "SERIALIZATION_PREPARED_MIN \<notin> fst ` set header_states"
  by (simp_all add: header_states_def)

lemma chained_suffix:
  "chained (hs1 @ h # hs2) e fin \<Longrightarrow> chained (h # hs2) (fst h) fin"
  by (induction hs1 arbitrary: e) (auto, cases h, auto)


abbreviation encode_loop ::
    "(g2_ptree \<Rightarrow> pointer_buff \<Rightarrow> (bool \<times> g2_ptree \<times> pointer_buff) option) \<Rightarrow> ser \<Rightarrow> (bool \<times> ser) option" where
  "encode_loop self s \<equiv> c_while (\<lambda>s. \<not> more_bytes_needed (src s))
     (\<lambda>s. switch (packet_encode (src s)) (serialize_cases self) s) ret_val s"

text \<open>One call for a packet without children, from the state \<open>s\<close> of its variables to \<open>s'\<close>.\<close>

definition flat_call :: "ser \<Rightarrow> ser \<Rightarrow> bool" where
  "flat_call s s' \<longleftrightarrow>
     (let room = buffer_remaining (tgt s) in
      wrote (tgt s) (take room (pending (src s))) (tgt s') \<and>
      pending (src s') = drop room (pending (src s)) \<and>
      (packet_encode (src s') = ENCODE_FINISHED \<longleftrightarrow> length (pending (src s)) \<le> room) \<and>
      flat_state (packet_encode (src s')) \<and> wf_buff (data_trunk (src s')) \<and>
      is_literal (src s') = is_literal (src s) \<and> chld s' = chld s \<and> ret_val s' = ret_val s)"

definition flat_start :: "ser \<Rightarrow> bool" where
  "flat_start s \<longleftrightarrow> wf_buff (tgt s) \<and> wf_buff (data_trunk (src s)) \<and> \<not> need_zero s \<and>
     \<not> more_bytes_needed (src s) \<and> (is_literal (src s) \<or> chld s = [])"

lemma pending_data:
  "packet_encode p = SERIALIZE_DATA_PREP \<or> packet_encode p = SERIALIZE_DATA \<Longrightarrow>
   pending p = buffer_bytes (data_trunk p)"
  by (auto simp: pending_def header_from_none states_bytes_def)

lemma flat_call_data_done:
  assumes "wf_buff (tgt s)" "wf_buff (data_trunk (src s))" "packet_encode (src s) = SERIALIZE_DATA"
    and "wrote (tgt s) (take (buffer_remaining (tgt s)) (buffer_bytes (data_trunk (src s)))) t"
  shows "flat_call s (data_done t s)"
proof -
  note tr = data_done_trunk[OF assms(2), of t]
  have le: "buffer_remaining (data_trunk (src s)) \<le> buffer_remaining (tgt s) \<longleftrightarrow>
      packet_encode (src (data_done t s)) = ENCODE_FINISHED"
    using assms(3) by (simp add: data_done_def)
  have pend: "pending (src (data_done t s)) = buffer_bytes (data_trunk (src (data_done t s)))"
  proof (cases "packet_encode (src (data_done t s)) = ENCODE_FINISHED")
    case True
    then have "buffer_bytes (data_trunk (src (data_done t s))) = []"
      using tr(2) le length_buffer_bytes[OF assms(2)] by simp
    then show ?thesis using True by (simp add: pending_def)
  next
    case False
    then have "packet_encode (src (data_done t s)) = SERIALIZE_DATA"
      using assms(3) by (simp add: data_done_def split: if_splits)
    then show ?thesis by (simp add: pending_data)
  qed
  have ps: "pending (src s) = buffer_bytes (data_trunk (src s))" using assms(3) by (simp add: pending_data)
  have fs: "flat_state (packet_encode (src (data_done t s)))"
    using assms(3) by (simp add: data_done_def flat_state_def)
  have rest: "is_literal (src (data_done t s)) = is_literal (src s)" "chld (data_done t s) = chld s"
    "ret_val (data_done t s) = ret_val s" "tgt (data_done t s) = t"
    by (simp_all add: data_done_def)
  show ?thesis
    unfolding flat_call_def Let_def ps pend rest length_buffer_bytes[OF assms(2)]
    using assms(4) tr le fs by blast
qed

lemma flat_data:
  assumes "flat_start s" "packet_encode (src s) = SERIALIZE_DATA"
  shows "\<exists>s'. encode_loop self s = Some (ret_val s, s') \<and> flat_call s s'"
proof -
  have wf: "wf_buff (tgt s)" "wf_buff (data_trunk (src s))" "\<not> more_bytes_needed (src s)"
    using assms(1) by (auto simp: flat_start_def)
  obtain t where t: "run_cases (tl data_codes) s = Some (Brk (data_done t s))"
    "wrote (tgt s) (take (buffer_remaining (tgt s)) (buffer_bytes (data_trunk (src s)))) t"
    using run_data[OF wf(1,2)] by (auto simp: data_codes_def)
  have fc: "flat_call s (data_done t s)" by (rule flat_call_data_done[OF wf(1,2) assms(2) t(2)])
  have "encode_loop self s = Some (ret_val (data_done t s), data_done t s)"
    by (rule c_while_brk_stop) (use t(1) wf(3) assms(2) in \<open>simp_all add: switch_body data_done_def\<close>)
  with fc show ?thesis by (simp add: flat_call_def Let_def)
qed

lemma flat_data_prep:
  assumes "flat_start s" "packet_encode (src s) = SERIALIZE_DATA_PREP"
  shows "\<exists>s'. encode_loop self s = Some (ret_val s, s') \<and> flat_call s s'"
proof (cases "has_data (src s)")
  case False
  have wf: "wf_buff (tgt s)" "wf_buff (data_trunk (src s))" "\<not> more_bytes_needed (src s)"
    using assms(1) by (auto simp: flat_start_def)
  let ?s = "set_encode ENCODE_FINISHED (set_more True s)"
  have "encode_loop self s = Some (ret_val ?s, ?s)"
    by (rule c_while_brk_stop)
       (use False assms wf in \<open>simp_all add: switch_body data_codes_def data_prep_state_def\<close>)
  moreover have "flat_call s ?s"
    using False assms wf wrote_Nil[OF wf(1)]
    by (simp add: has_data_wf flat_call_def Let_def pending_data)
       (simp add: pending_def flat_state_def)
  ultimately show ?thesis by (intro exI[of _ ?s]) simp
next
  case True
  have wf: "wf_buff (tgt s)" "wf_buff (data_trunk (src s))" "\<not> more_bytes_needed (src s)"
    "\<not> need_zero s" using assms(1) by (auto simp: flat_start_def)
  let ?s = "set_encode SERIALIZE_DATA s"
  obtain t where t: "run_cases (tl data_codes) ?s = Some (Brk (data_done t ?s))"
    "wrote (tgt ?s) (take (buffer_remaining (tgt ?s)) (buffer_bytes (data_trunk (src ?s)))) t"
    using run_data[of ?s] wf(1,2) by (auto simp: data_codes_def)
  have fc: "flat_call ?s (data_done t ?s)"
    by (rule flat_call_data_done) (use wf t(2) in simp_all)
  have "run_cases data_codes s = run_cases (tl data_codes) ?s"
    using True wf by (simp add: data_codes_def data_prep_state_def)
  then have "encode_loop self s = Some (ret_val (data_done t ?s), data_done t ?s)"
    by (intro c_while_brk_stop) (use t(1) wf(3) assms(2) in \<open>simp_all add: switch_body data_done_def\<close>)
  moreover have "flat_call s (data_done t ?s)"
    using fc assms(2) by (simp add: flat_call_def Let_def pending_data)
  ultimately show ?thesis by (intro exI[of _ "data_done t ?s"]) (simp add: data_done_def)
qed

lemma run_body_flat:
  "is_literal (src s) \<or> chld s = [] \<Longrightarrow>
   run_cases (body_codes self) s = Some (Brk (set_encode SERIALIZE_DATA_PREP s))"
  by (simp add: body_codes_def)

lemma header_state_not:
  assumes "header_states = hs1 @ h # hs2"
  shows "fst h \<in> fst ` set header_states" "fst h \<noteq> ENCODE_FINISHED"
    "fst h \<noteq> SERIALIZATION_PREPARED_MIN"
proof -
  show "fst h \<in> fst ` set header_states" by (simp add: assms)
  then show "fst h \<noteq> ENCODE_FINISHED" "fst h \<noteq> SERIALIZATION_PREPARED_MIN"
    using header_not_body by metis+
qed

lemma state_free_suffix: "state_free (hs1 @ hs2) \<Longrightarrow> state_free hs2"
  by (simp add: state_free_def)

text \<open>Running the header states of a packet without children, and what follows.\<close>

lemma flat_header_run:
  assumes s: "flat_start s" and hs: "header_states = hs1 @ h # hs2"
    and e: "packet_encode (src s) = fst h"
    and body: "switch e0 (serialize_cases self) s0 = run_cases (put_codes (h # hs2) @ body_codes self) s"
    and s0: "packet_encode (src s0) = e0" "\<not> more_bytes_needed (src s0)"
  shows "\<exists>s'. encode_loop self s0 = Some (ret_val s, s') \<and> flat_call s s'"
proof -
  let ?hs = "h # hs2" and ?room = "buffer_remaining (tgt s)"
  have wf: "wf_buff (tgt s)" "wf_buff (data_trunk (src s))" "is_literal (src s) \<or> chld s = []"
    using s by (auto simp: flat_start_def)
  have ch: "chained ?hs (packet_encode (src s)) SERIALIZATION_PREPARED"
    using chained_suffix[of hs1 h hs2] chained_header_states hs e by simp
  have sf: "state_free ?hs" using state_free_header_states state_free_suffix[of hs1] hs by simp
  have pend: "pending (src s) = states_bytes ?hs (src s) @ buffer_bytes (data_trunk (src s))"
    using header_from_split[OF hs] header_state_not[OF hs] e by (simp add: pending_def)
  show ?thesis
  proof (cases "length (states_bytes ?hs (src s)) \<le> ?room")
    case True
    obtain t where t: "run_cases (put_codes ?hs @ body_codes self) s =
        run_cases (body_codes self) (set_encode SERIALIZATION_PREPARED (s\<lparr>tgt := t\<rparr>))"
      "wrote (tgt s) (states_bytes ?hs (src s)) t"
      using run_puts[OF wf(1) ch sf True, of "body_codes self"] by blast
    let ?s = "set_encode SERIALIZE_DATA_PREP (s\<lparr>tgt := t\<rparr>)"
    have brk: "switch (packet_encode (src s0)) (serialize_cases self) s0 = Some (Brk ?s)"
      using t(1) run_body_flat[of "set_encode SERIALIZATION_PREPARED (s\<lparr>tgt := t\<rparr>)" self] wf(3) body s0(1)
      by simp
    have "flat_start ?s" using s wrote_wf[OF t(2)] by (simp add: flat_start_def)
    then obtain s' where s': "encode_loop self ?s = Some (ret_val s, s')" "flat_call ?s s'"
      using flat_data_prep[of ?s self] by auto
    have "encode_loop self s0 = Some (ret_val s, s')"
      using s'(1) brk s0(2) by (simp add: c_while_brk[of _ s0 _ ?s])
    moreover have "pending (src ?s) = buffer_bytes (data_trunk (src s))" by (simp add: pending_data)
    with s'(2) have "flat_call s s'"
      using wrote_append[OF t(2)] wrote_remaining[OF wf(1) t(2)] pend True
      by (simp add: flat_call_def Let_def) linarith
    ultimately show ?thesis by blast
  next
    case False
    then have short: "?room < length (states_bytes ?hs (src s))" by simp
    obtain t' hs1' h' hs2' where r: "?hs = hs1' @ h' # hs2'"
      "run_cases (put_codes ?hs @ body_codes self) s =
        Some (Brk (set_more True (set_encode (fst h') (s\<lparr>tgt := t'\<rparr>))))"
      "wrote (tgt s) (take ?room (states_bytes ?hs (src s))) t'"
      "states_bytes (h' # hs2') (src s) = drop ?room (states_bytes ?hs (src s))"
      using run_puts_short[OF wf(1) ch sf short, of "body_codes self"] by blast
    have hs': "header_states = (hs1 @ hs1') @ h' # hs2'" using hs r(1) by simp
    let ?s = "set_more True (set_encode (fst h') (s\<lparr>tgt := t'\<rparr>))"
    have sf': "state_free (h' # hs2')" using sf r(1) by (simp add: state_free_def)
    have p': "pending (src ?s) = drop ?room (pending (src s))"
      using r(4) header_from_split[OF hs'] header_state_not[OF hs'] False pend
      by (simp add: pending_def state_free_bytes[OF sf'])
    have loop: "encode_loop self s0 = Some (ret_val ?s, ?s)"
      by (rule c_while_brk_stop) (use r(2) s0 body in simp_all)
    have "flat_call s ?s"
      unfolding flat_call_def Let_def p'
      using r(3) False pend header_state_not[OF hs'] wf(2) by (auto simp: flat_state_def)
    with loop show ?thesis by (intro exI[of _ ?s]) simp
  qed
qed

lemma flat_loop:
  assumes "flat_start s" and "flat_state (packet_encode (src s))"
  shows "\<exists>s'. encode_loop self s = Some (ret_val s, s') \<and> flat_call s s'"
  using assms(2) unfolding flat_state_def
proof (elim disjE insertE emptyE)
  assume "packet_encode (src s) \<in> fst ` set header_states"
  then obtain h where h: "h \<in> set header_states" "packet_encode (src s) = fst h" by auto
  then obtain hs1 hs2 where hs: "header_states = hs1 @ h # hs2" by (meson split_list)
  show ?thesis
    using flat_header_run[OF assms(1) hs h(2) switch_header[OF hs]] h(2) assms(1)
    by (simp add: flat_start_def)
next
  assume e: "packet_encode (src s) = SERIALIZATION_PREPARED_MIN"
  let ?s = "set_encode SERIALIZE_CONTROL s"
  have hs: "header_states = [] @ hd header_states # tl header_states" by (simp add: header_states_def)
  have h: "fst (hd header_states) = SERIALIZE_CONTROL" by (simp add: header_states_def)
  have start: "flat_start ?s" using assms(1) by (simp add: flat_start_def)
  have enter: "switch SERIALIZATION_PREPARED_MIN (serialize_cases self) s =
      run_cases (put_codes (hd header_states # tl header_states) @ body_codes self) ?s"
    using switch_prepared_min[of self s] hs by simp
  obtain s' where s': "encode_loop self s = Some (ret_val s, s')" "flat_call ?s s'"
    using flat_header_run[OF start hs _ enter e] h assms(1) by (auto simp: flat_start_def)
  have "pending (src ?s) = pending (src s)"
    using e header_from_split[OF hs] hs h state_free_bytes[OF state_free_header_states]
    by (simp add: pending_def header_bytes_def)
  with s' show ?thesis by (auto simp: flat_call_def)
next
  assume "packet_encode (src s) = SERIALIZE_DATA_PREP"
  then show ?thesis by (rule flat_data_prep[OF assms(1)])
next
  assume "packet_encode (src s) = SERIALIZE_DATA"
  then show ?thesis by (rule flat_data[OF assms(1)])
next
  assume e: "packet_encode (src s) = ENCODE_FINISHED"
  have "encode_loop self s = Some (ret_val (set_more True s), set_more True s)"
    by (rule c_while_brk_stop) (use e assms(1) in \<open>simp_all add: switch_body flat_start_def\<close>)
  moreover have "flat_call s (set_more True s)"
    using e assms(1) by (simp add: flat_call_def Let_def pending_def flat_state_def flat_start_def wrote_Nil)
  ultimately show ?thesis by (intro exI[of _ "set_more True s"]) simp
qed

abbreviation ser_start :: "g2_ptree \<Rightarrow> pointer_buff \<Rightarrow> ser" where
  "ser_start source target \<equiv>
     \<lparr>src = (hdr source)\<lparr>more_bytes_needed := False\<rparr>, chld = children source,
      tgt = target, need_zero = False, ret_val = True\<rparr>"

lemma state_free_header_from: "state_free (header_from e)"
  using state_free_header_states state_free_suffix[of "takeWhile (\<lambda>c. fst c \<noteq> e) header_states" "header_from e"]
  by (simp add: header_from_def)

lemma pending_more [simp]: "pending (p\<lparr>more_bytes_needed := b\<rparr>) = pending p"
  by (simp add: pending_def header_bytes_def state_free_bytes[OF state_free_header_states]
      state_free_bytes[OF state_free_header_from])

definition flat_packet :: "g2_ptree \<Rightarrow> bool" where
  "flat_packet q \<longleftrightarrow> wf_buff (data_trunk (hdr q)) \<and> flat_state (packet_encode (hdr q)) \<and>
     (is_literal (hdr q) \<or> children q = [])"

lemma serialize_depth_flat:
  assumes "wf_buff target" and "flat_packet q"
  shows "\<exists>q' target'. serialize_depth (Suc n) q target = Some (True, q', target') \<and> flat_packet q' \<and>
    wrote target (take (buffer_remaining target) (pending (hdr q))) target' \<and>
    pending (hdr q') = drop (buffer_remaining target) (pending (hdr q)) \<and>
    (packet_encode (hdr q') = ENCODE_FINISHED \<longleftrightarrow>
       length (pending (hdr q)) \<le> buffer_remaining target)"
proof -
  let ?s = "ser_start q target"
  have "flat_start ?s" "flat_state (packet_encode (src ?s))"
    using assms by (simp_all add: flat_start_def flat_packet_def)
  from flat_loop[OF this, of "serialize_depth n"]
  obtain s' where "encode_loop (serialize_depth n) ?s = Some (True, s')" "flat_call ?s s'" by auto
  then show ?thesis
    using assms(2) by (auto simp: flat_call_def Let_def flat_packet_def)
qed

lemma ptree_height_Suc: "\<exists>n. ptree_height q = Suc n"
  by (cases q) auto

lemma serialize_flat_step:
  assumes "wf_buff target" and "flat_packet q"
  shows "\<exists>q' target'. g2_packet_serialize_to_buff_p q target = Some (True, q', target') \<and>
    flat_packet q' \<and>
    wrote target (take (buffer_remaining target) (pending (hdr q))) target' \<and>
    pending (hdr q') = drop (buffer_remaining target) (pending (hdr q)) \<and>
    (packet_encode (hdr q') = ENCODE_FINISHED \<longleftrightarrow>
       length (pending (hdr q)) \<le> buffer_remaining target)"
proof -
  obtain n where "ptree_height q = Suc n" using ptree_height_Suc by blast
  then show ?thesis
    using serialize_depth_flat[OF assms, of n] by (simp add: g2_packet_serialize_to_buff_p_def)
qed

text \<open>Handing the packet to the encoder with one buffer after the other; the bytes put into them.\<close>

fun serialize_seq :: "g2_ptree \<Rightarrow> pointer_buff list \<Rightarrow> (g2_ptree \<times> byte list) option" where
  "serialize_seq q [] = Some (q, [])"
| "serialize_seq q (t # ts) =
     do {
       (r, q, t') \<leftarrow> g2_packet_serialize_to_buff_p q t;
       (q, bs) \<leftarrow> serialize_seq q ts;
       Some (q, drop (pos t) (buffer_written t') @ bs)
     }"

lemma length_buffer_written: "wf_buff t \<Longrightarrow> length (buffer_written t) = pos t"
  by (auto simp: buffer_written_def wf_buff_def split: option.splits)

lemma wrote_output: "wf_buff t \<Longrightarrow> wrote t bs t' \<Longrightarrow> drop (pos t) (buffer_written t') = bs"
  by (simp add: wrote_def length_buffer_written)

lemma serialize_seq_flat:
  assumes "list_all wf_buff ts" and "flat_packet q"
  shows "\<exists>q'. serialize_seq q ts = Some (q', take (sum_list (map buffer_remaining ts)) (pending (hdr q))) \<and>
    flat_packet q' \<and> pending (hdr q') = drop (sum_list (map buffer_remaining ts)) (pending (hdr q)) \<and>
    (ts \<noteq> [] \<and> length (pending (hdr q)) \<le> sum_list (map buffer_remaining ts) \<longrightarrow>
       packet_encode (hdr q') = ENCODE_FINISHED)"
  using assms
proof (induction ts arbitrary: q)
  case Nil
  then show ?case by simp
next
  case (Cons t ts)
  then have wf: "wf_buff t" by simp
  obtain q1 t1 where 1: "g2_packet_serialize_to_buff_p q t = Some (True, q1, t1)" "flat_packet q1"
    "wrote t (take (buffer_remaining t) (pending (hdr q))) t1"
    "pending (hdr q1) = drop (buffer_remaining t) (pending (hdr q))"
    "packet_encode (hdr q1) = ENCODE_FINISHED \<longleftrightarrow> length (pending (hdr q)) \<le> buffer_remaining t"
    using serialize_flat_step[OF wf Cons.prems(2)] by blast
  obtain q' where 2: "serialize_seq q1 ts = Some (q', take (sum_list (map buffer_remaining ts)) (pending (hdr q1)))"
    "flat_packet q'" "pending (hdr q') = drop (sum_list (map buffer_remaining ts)) (pending (hdr q1))"
    "ts \<noteq> [] \<and> length (pending (hdr q1)) \<le> sum_list (map buffer_remaining ts) \<longrightarrow>
       packet_encode (hdr q') = ENCODE_FINISHED"
    using Cons.IH[OF _ 1(2)] Cons.prems(1) by auto
  show ?case
    using 1 2 wrote_output[OF wf 1(3)]
    by (cases "ts = []") (auto simp: take_add add.commute)
qed

subsection \<open>A packet with children\<close>

fun prepared :: "g2_ptree \<Rightarrow> bool" where
  "prepared (G2_Packet p cs) \<longleftrightarrow>
     packet_encode p = SERIALIZATION_PREPARED_MIN \<and> wf_buff (data_trunk p) \<and>
     (is_literal p \<or> list_all prepared cs)"

text \<open>The contract of the recursive call: with enough room the packet is written as a whole.\<close>

definition writes_whole ::
    "(g2_ptree \<Rightarrow> pointer_buff \<Rightarrow> (bool \<times> g2_ptree \<times> pointer_buff) option) \<Rightarrow> g2_ptree \<Rightarrow> bool" where
  "writes_whole self q \<longleftrightarrow>
     (\<forall>t. wf_buff t \<longrightarrow> length (wire q) \<le> buffer_remaining t \<longrightarrow>
       (\<exists>q' t'. self q t = Some (True, q', t') \<and> packet_encode (hdr q') = ENCODE_FINISHED \<and>
          wrote t (wire q) t'))"

lemma serialize_children_whole:
  assumes "list_all (writes_whole self) cs" and "list_all prepared cs" and "wf_buff t"
    and "length (concat (map wire cs)) \<le> buffer_remaining t"
  shows "\<exists>t'. serialize_children self cs t True = Some ([], t', True, None) \<and>
    wrote t (concat (map wire cs)) t'"
  using assms
proof (induction cs arbitrary: t)
  case Nil
  then show ?case by (simp add: wrote_Nil)
next
  case (Cons c cs)
  have "length (wire c) \<le> buffer_remaining t" using Cons.prems(4) by simp
  then obtain c' t1 where c: "self c t = Some (True, c', t1)"
    "packet_encode (hdr c') = ENCODE_FINISHED" "wrote t (wire c) t1"
    using Cons.prems(1,3) unfolding writes_whole_def by (auto 0 3)
  have ne: "packet_encode (hdr c) \<noteq> ENCODE_FINISHED" using Cons.prems(2) by (cases c) auto
  have "\<exists>t'. serialize_children self cs t1 True = Some ([], t', True, None) \<and>
      wrote t1 (concat (map wire cs)) t'"
    using Cons.prems wrote_remaining[OF Cons.prems(3) c(3)] wrote_wf[OF c(3)]
    by (intro Cons.IH) auto
  then show ?case using c ne wrote_append[OF c(3)] by auto
qed

lemma has_data_more [simp]: "has_data (p\<lparr>packet_encode := e\<rparr>) = has_data p"
  by (simp add: has_data_def)

text \<open>Behind the children: the zero byte and the data, when there is data.\<close>

lemma run_data_zero:
  assumes wf: "wf_buff (tgt s)" "wf_buff (data_trunk (src s))" and z: "need_zero s"
    and room: "length (if buffer_bytes (data_trunk (src s)) \<noteq> []
        then 0 # buffer_bytes (data_trunk (src s)) else []) \<le> buffer_remaining (tgt s)"
  shows "\<exists>s'. run_cases data_codes s = Some (Brk s') \<and> more_bytes_needed (src s') \<and>
    packet_encode (src s') = ENCODE_FINISHED \<and> ret_val s' = ret_val s \<and>
    wrote (tgt s) (if buffer_bytes (data_trunk (src s)) \<noteq> []
        then 0 # buffer_bytes (data_trunk (src s)) else []) (tgt s')"
proof (cases "buffer_bytes (data_trunk (src s)) = []")
  case True
  then show ?thesis using wf wrote_Nil[OF wf(1)]
    by (simp add: data_codes_def data_prep_state_def has_data_wf)
next
  case False
  with room have ne: "buffer_remaining (tgt s) \<noteq> 0" by auto
  obtain t1 where t1: "buffer_put 0 (tgt s) = Some t1" "wrote (tgt s) [0] (t1\<lparr>pos := pos t1 + 1\<rparr>)"
    by (rule buffer_put_wrote[OF wf(1) ne])
  let ?s = "set_encode SERIALIZE_DATA (s\<lparr>tgt := t1\<lparr>pos := pos t1 + 1\<rparr>\<rparr>)"
  have dp: "data_prep_state s = Some (Fall ?s)"
    using False wf z ne t1(1) by (simp add: data_prep_state_def has_data_wf)
  have rem: "buffer_remaining (tgt ?s) = buffer_remaining (tgt s) - 1"
    using wrote_remaining[OF wf(1) t1(2)] by simp
  obtain t where t: "run_cases (tl data_codes) ?s = Some (Brk (data_done t ?s))"
    "wrote (tgt ?s) (take (buffer_remaining (tgt ?s)) (buffer_bytes (data_trunk (src ?s)))) t"
    using run_data[of ?s] wrote_wf[OF t1(2)] wf(2) by (auto simp: data_codes_def)
  have enough: "length (buffer_bytes (data_trunk (src s))) \<le> buffer_remaining (tgt ?s)"
    using room False rem by simp
  then have "wrote (tgt ?s) (buffer_bytes (data_trunk (src s))) t" using t(2) by simp
  then have "wrote (tgt s) (0 # buffer_bytes (data_trunk (src s))) t"
    using wrote_append[OF t1(2)] by simp
  moreover have "packet_encode (src (data_done t ?s)) = ENCODE_FINISHED"
    using enough length_buffer_bytes[OF wf(2)] by (simp add: data_done_def)
  moreover have "run_cases data_codes s = Some (Brk (data_done t ?s))"
    using dp t(1) by (simp add: data_codes_def)
  moreover have "more_bytes_needed (src (data_done t ?s))" "ret_val (data_done t ?s) = ret_val s"
    "tgt (data_done t ?s) = t" by (simp_all add: data_done_def)
  ultimately show ?thesis using False by auto
qed

lemma fold_max_le: "fold max xs a \<le> n \<longleftrightarrow> a \<le> n \<and> (\<forall>x \<in> set xs. x \<le> (n :: nat))"
  by (induction xs arbitrary: a) auto

lemma ptree_height_le:
  "ptree_height (G2_Packet p cs) \<le> Suc n \<longleftrightarrow> (\<forall>c \<in> set cs. ptree_height c \<le> n)"
  by (simp add: fold_max_le)

lemma pending_prepared:
  "packet_encode p = SERIALIZATION_PREPARED_MIN \<Longrightarrow>
   pending p = header_bytes p @ buffer_bytes (data_trunk p)"
  by (simp add: pending_def)

lemma run_children:
  assumes "children_state self s =
      Some (Fall (set_encode BEWARE_OF_ZERO (s\<lparr>chld := [], tgt := t, ret_val := True\<rparr>)))"
    and "\<not> (is_literal (src s) \<or> chld s = [])"
    and "children_state self (set_encode SERIALIZE_CHILDREN s) = children_state self s"
  shows "run_cases (body_codes self) s =
      run_cases data_codes (set_encode BEWARE_OF_ZERO (s\<lparr>chld := [], tgt := t, ret_val := True, need_zero := True\<rparr>))"
  using assms by (cases s) (simp add: body_codes_def)

lemma serialize_compound:
  assumes p: "packet_encode p = SERIALIZATION_PREPARED_MIN" "wf_buff (data_trunk p)" "\<not> is_literal p"
    and cs: "cs \<noteq> []" "list_all prepared cs" "list_all (writes_whole (serialize_depth n)) cs"
    and t: "wf_buff t" "length (wire (G2_Packet p cs)) \<le> buffer_remaining t"
  shows "\<exists>q' t'. serialize_depth (Suc n) (G2_Packet p cs) t = Some (True, q', t') \<and>
    packet_encode (hdr q') = ENCODE_FINISHED \<and> wrote t (wire (G2_Packet p cs)) t'"
proof -
  let ?self = "serialize_depth n"
  let ?s = "ser_start (G2_Packet p cs) t"
  let ?s1 = "set_encode SERIALIZE_CONTROL ?s"
  let ?tail = "if buffer_bytes (data_trunk p) \<noteq> [] then 0 # buffer_bytes (data_trunk p) else []"
  have w: "wire (G2_Packet p cs) = header_bytes p @ concat (map wire cs) @ ?tail"
    using p(3) cs(1) by simp
  have hb: "states_bytes header_states (src ?s1) = header_bytes p"
    by (simp add: header_bytes_def state_free_bytes[OF state_free_header_states])
  have "length (states_bytes header_states (src ?s1)) \<le> buffer_remaining (tgt ?s1)"
    using t(2) unfolding w hb by simp
  then obtain t1 where t1: "run_cases (put_codes header_states @ body_codes ?self) ?s1 =
      run_cases (body_codes ?self) (set_encode SERIALIZATION_PREPARED (?s1\<lparr>tgt := t1\<rparr>))"
    "wrote t (header_bytes p) t1"
    using run_puts[of ?s1 header_states SERIALIZATION_PREPARED "body_codes ?self"]
      chained_header_states state_free_header_states t(1) hb by auto
  let ?s2 = "set_encode SERIALIZATION_PREPARED (?s1\<lparr>tgt := t1\<rparr>)"
  have r1: "buffer_remaining t1 = buffer_remaining t - length (header_bytes p)"
    by (rule wrote_remaining[OF t(1) t1(2)])
  have "length (concat (map wire cs)) \<le> buffer_remaining t1"
    using t(2) r1 unfolding w by (simp only: length_append)
  then obtain t2 where t2: "serialize_children ?self cs t1 True = Some ([], t2, True, None)"
    "wrote t1 (concat (map wire cs)) t2"
    using serialize_children_whole[OF cs(3,2) wrote_wf[OF t1(2)]] by blast
  let ?s3 = "set_encode BEWARE_OF_ZERO (?s2\<lparr>chld := [], tgt := t2, ret_val := True, need_zero := True\<rparr>)"
  have f3: "data_trunk (src ?s3) = data_trunk p" "tgt ?s3 = t2" "need_zero ?s3 = True"
    "ret_val ?s3 = True" by simp_all
  have body: "run_cases (body_codes ?self) ?s2 = run_cases data_codes ?s3"
    by (rule run_children) (use t2(1) p(3) cs(1) in \<open>simp_all add: children_state_def\<close>)
  have r2: "buffer_remaining t2 = buffer_remaining t1 - length (concat (map wire cs))"
    by (rule wrote_remaining[OF wrote_wf[OF t1(2)] t2(2)])
  have "length ?tail \<le> buffer_remaining t2"
    using t(2) r1 r2 unfolding w by (simp only: length_append)
  then obtain s' where s': "run_cases data_codes ?s3 = Some (Brk s')" "more_bytes_needed (src s')"
    "packet_encode (src s') = ENCODE_FINISHED" "ret_val s' = True" "wrote t2 ?tail (tgt s')"
    using run_data_zero[of ?s3, unfolded f3] wrote_wf[OF t2(2)] p(2) by blast
  have "switch (packet_encode (src ?s)) (serialize_cases ?self) ?s = Some (Brk s')"
    using switch_prepared_min[of ?self ?s] t1(1) body s'(1) p(1) by simp
  then have "encode_loop ?self ?s = Some (ret_val s', s')"
    by (intro c_while_brk_stop) (use s'(2) in simp_all)
  moreover have "wrote t (wire (G2_Packet p cs)) (tgt s')"
    unfolding w using wrote_append[OF wrote_append[OF t1(2) t2(2)] s'(5)] by simp
  ultimately show ?thesis using s'(3,4) by simp
qed

lemma serialize_depth_whole:
  assumes "prepared q" and "ptree_height q \<le> n"
  shows "writes_whole (serialize_depth n) q"
  using assms
proof (induction n arbitrary: q)
  case 0
  then show ?case using ptree_height_Suc[of q] by auto
next
  case (Suc n)
  obtain p cs where q: "q = G2_Packet p cs" by (cases q)
  show ?case
    unfolding writes_whole_def
  proof (intro allI impI)
    fix t assume t: "wf_buff t" "length (wire q) \<le> buffer_remaining t"
    show "\<exists>q' t'. serialize_depth (Suc n) q t = Some (True, q', t') \<and>
        packet_encode (hdr q') = ENCODE_FINISHED \<and> wrote t (wire q) t'"
    proof (cases "is_literal p \<or> cs = []")
      case True
      then have "flat_packet q" "wire q = pending (hdr q)"
        using Suc.prems(1) q by (auto simp: flat_packet_def flat_state_def pending_prepared)
      then show ?thesis using serialize_depth_flat[OF t(1), of q n] t(2) by auto
    next
      case False
      moreover have "list_all (writes_whole (serialize_depth n)) cs"
        using Suc False q by (auto simp: list_all_iff ptree_height_le simp del: ptree_height.simps)
      ultimately show ?thesis
        using serialize_compound[of p cs n t] Suc.prems(1) t q by auto
    qed
  qed
qed

lemma serialize_whole:
  assumes "prepared q" and "wf_buff t" and "length (wire q) \<le> buffer_remaining t"
  shows "\<exists>q' t'. g2_packet_serialize_to_buff_p q t = Some (True, q', t') \<and>
    packet_encode (hdr q') = ENCODE_FINISHED \<and> wrote t (wire q) t'"
  using serialize_depth_whole[OF assms(1) order_refl] assms(2,3)
  unfolding writes_whole_def g2_packet_serialize_to_buff_p_def by blast

end
