(* ===== verification/Packet_Roundtrip.thy ===== *)
theory Packet_Roundtrip
  imports Packet_Children Packet_Encode_Correct
begin

text \<open>
  Preparing, encoding and decoding together: the header the encoder writes is the one the
  decoder's reference reads (\<open>parse_wire\<close>), the lengths that \<open>g2_packet_serialize_prep_min\<close>
  gathers are those of the bytes that are written (\<open>prep_wire\<close>), and a packet survives the way
  over the wire.
\<close>

subsection \<open>The control byte\<close>

definition control_of :: "bool \<Rightarrow> bool \<Rightarrow> byte \<Rightarrow> byte \<Rightarrow> byte" where
  "control_of be cmpd tyl lnl =
     create_control_byte
       \<lparr>plength = 0, type_length = tyl, length_length = lnl, packet_type = PT_UNKNOWN,
        big_endian = be, is_compound = cmpd, c_reserved = False,
        packet_decode = CHECK_CONTROLL_BYTE, packet_encode = DECIDE_ENCODE,
        more_bytes_needed = False, is_freeable = False, data_trunk_is_freeable = False,
        is_literal = False, pd = [], data_trunk = INIT_PBUF\<rparr>"

lemma create_control_byte_of:
  "create_control_byte p = control_of (big_endian p) (is_compound p) (type_length p) (length_length p)"
  by (simp add: control_of_def create_control_byte_def)

lemma byte_cases_le:
  fixes w :: byte
  assumes "unat w \<le> 8"
  shows "w \<in> {0, 1, 2, 3, 4, 5, 6, 7, 8}"
proof -
  have "unat w \<in> {0, 1, 2, 3, 4, 5, 6, 7, 8}" using assms by auto
  then have "word_of_nat (unat w) \<in> (word_of_nat ` {0, 1, 2, 3, 4, 5, 6, 7, 8} :: byte set)" by blast
  then show ?thesis by simp
qed

definition control_fields :: "byte \<Rightarrow> byte \<times> byte \<times> bool \<times> bool" where
  "control_fields c =
     (drop_bit 6 c AND 0x03, (drop_bit 3 c AND 0x07) + 1, c AND 0x02 \<noteq> 0, c AND 0x04 \<noteq> 0)"

lemma control_of_fields:
  assumes "1 \<le> unat tyl" "unat tyl \<le> 8" "unat lnl \<le> 3"
  shows "control_of be cmpd tyl lnl \<noteq> 0 \<and>
    control_fields (control_of be cmpd tyl lnl) =
      (lnl, tyl, be, cmpd \<or> (lnl = 0 \<and> tyl = 1 \<and> \<not> be))"
proof -
  have tyl: "tyl \<in> {1, 2, 3, 4, 5, 6, 7, 8}" using byte_cases_le[of tyl] assms by auto
  have lnl: "lnl \<in> {0, 1, 2, 3}" using byte_cases_le[of lnl] assms by auto
  show ?thesis
    using tyl lnl
    by (cases be; cases cmpd)
       (auto simp: control_of_def create_control_byte_def control_fields_def)
qed

subsection \<open>The header\<close>

definition wire_name :: "g2_packet \<Rightarrow> byte list" where
  "wire_name p = (if packet_type p \<noteq> PT_UNKNOWN then g2_ptype_names ! packet_type p else pd p)"

definition length_bytes :: "g2_packet \<Rightarrow> byte list" where
  "length_bytes p =
     (if big_endian p then be_bytes else le_bytes) (unat (length_length p)) (unat (plength p))"

lemma byte_of_u32:
  "(ucast (drop_bit k (L :: u32) AND 0xFF) :: byte) = word_of_nat (unat L div 2 ^ k mod 256)"
proof -
  have "unat (drop_bit k L AND 0xFF) = unat L div 2 ^ k mod 256"
  proof -
    have "(0xFF :: u32) = mask 8" by (simp add: mask_eq_exp_minus_1)
    then have "drop_bit k L AND 0xFF = take_bit 8 (drop_bit k L)" by (simp add: take_bit_eq_mask)
    then have "unat (drop_bit k L AND 0xFF) = take_bit 8 (unat (drop_bit k L))"
      by (simp add: unsigned_take_bit_eq)
    moreover have "take_bit 32 (unat L) = unat L"
      using unsigned_less[of L, where ?'a = nat] by (simp add: take_bit_nat_eq_self)
    then have "unat (drop_bit k L) = unat L div 2 ^ k" 
      by (simp only: unsigned_drop_bit_eq) (simp add: drop_bit_eq_div)
    ultimately show ?thesis by (simp add: take_bit_eq_mod)
  qed
  then show ?thesis by (metis of_nat_unat)
qed

lemma le_bytes_small:
  "le_bytes 2 n = [word_of_nat (n mod 256), word_of_nat (n div 256 mod 256)]"
  "le_bytes 3 n =
     [word_of_nat (n mod 256), word_of_nat (n div 256 mod 256), word_of_nat (n div 65536 mod 256)]"
  by (simp_all add: numeral_2_eq_2 numeral_3_eq_3 div_mult2_eq[symmetric])

definition length_states :: "hstate list" where
  "length_states = take 3 (drop 1 header_states)"

definition type_states :: "hstate list" where
  "type_states = drop 4 header_states"

lemma length_states_bytes:
  assumes "unat (length_length p) \<le> 3"
  shows "states_bytes length_states p = length_bytes p"
proof -
  have "length_length p \<in> {0, 1, 2, 3}" using byte_cases_le[of "length_length p"] assms by auto
  then show ?thesis
    by (auto simp: length_states_def header_states_def states_bytes_def length_bytes_def
        length_byte_def byte_of_u32[of 0 "plength p", simplified]
        byte_of_u32[of 8 "plength p"] byte_of_u32[of 16 "plength p"] word_le_nat_alt be_bytes_def le_bytes_small)
qed

lemma take_nth_cases:
  assumes "8 \<le> length xs" shows "\<exists>a b c d e f g h ys. xs = a # b # c # d # e # f # g # h # ys"
  using assms by (auto simp: Suc_le_length_iff numeral_eq_Suc)

lemma type_states_bytes:
  assumes "unat (type_length p) \<le> 8" and "8 \<le> length (wire_name p)"
  shows "states_bytes type_states p = take (unat (type_length p)) (wire_name p)"
proof -
  have t: "type_length p \<in> {0, 1, 2, 3, 4, 5, 6, 7, 8}" using byte_cases_le assms by auto
  have tb: "type_byte i p = wire_name p ! (i - 1)" for i
    by (simp add: type_byte_def wire_name_def)
  from take_nth_cases[OF assms(2)] t show ?thesis
    by (auto simp: type_states_def header_states_def states_bytes_def tb word_le_nat_alt)
qed

lemma header_bytes_eq:
  assumes "unat (length_length p) \<le> 3" "unat (type_length p) \<le> 8" "8 \<le> length (wire_name p)"
  shows "header_bytes p =
    create_control_byte p # length_bytes p @ take (unat (type_length p)) (wire_name p)"
proof -
  have "header_states = hd header_states # length_states @ type_states"
    by (simp add: length_states_def type_states_def header_states_def)
  moreover have "states_bytes (xs @ ys) q = states_bytes xs q @ states_bytes ys q" for xs ys q
    by (simp add: states_bytes_def)
  moreover have "states_bytes (hd header_states # hs) p = create_control_byte p # states_bytes hs p" for hs
    by (simp add: header_states_def states_bytes_Cons)
  ultimately have "header_bytes p =
      create_control_byte p # states_bytes length_states p @ states_bytes type_states p"
    unfolding header_bytes_def by metis
  then show ?thesis using length_states_bytes type_states_bytes assms by simp
qed

subsection \<open>Gathering the lengths\<close>

text \<open>
  A packet that can be encoded: a valid type, and a name of one to eight characters for a packet
  of unknown type.
\<close>

definition pkt_ok :: "g2_packet \<Rightarrow> bool" where
  "pkt_ok p \<longleftrightarrow>
     wf_buff (data_trunk p) \<and> packet_type p < PT_MAXIMUM \<and>
     (packet_type p = PT_UNKNOWN \<longrightarrow>
        1 \<le> unat (type_length p) \<and> unat (type_length p) \<le> 8 \<and> 8 \<le> length (pd p))"

fun tree_ok :: "g2_ptree \<Rightarrow> bool" where
  "tree_ok (G2_Packet p cs) \<longleftrightarrow> pkt_ok p \<and> (is_literal p \<or> list_all tree_ok cs)"

text \<open>The size of a packet on the wire, from the sizes of its data.\<close>

definition len_len :: "nat \<Rightarrow> nat" where
  "len_len n = (if n = 0 then 0 else if n \<le> 0xFF then 1 else if n \<le> 0xFFFF then 2 else 3)"

definition name_len :: "g2_packet \<Rightarrow> nat" where
  "name_len p = (if packet_type p \<noteq> PT_UNKNOWN then g2_ptype_names_length ! packet_type p
                 else unat (type_length p))"

definition with_inner :: "g2_packet \<Rightarrow> nat \<Rightarrow> nat" where
  "with_inner p n =
     n + (if n \<noteq> 0 \<and> buffer_bytes (data_trunk p) \<noteq> [] then 1 else 0) + length (buffer_bytes (data_trunk p))"

fun psize :: "g2_ptree \<Rightarrow> nat" and inner_size :: "g2_ptree \<Rightarrow> nat" where
  "psize (G2_Packet p cs) =
     (let n = with_inner p (if is_literal p then 0 else sum_list (map psize cs))
      in n + len_len n + name_len p + 1)"
| "inner_size (G2_Packet p cs) =
     with_inner p (if is_literal p then 0 else sum_list (map psize cs))"

fun depth_ok :: "nat \<Rightarrow> g2_ptree \<Rightarrow> bool" where
  "depth_ok r (G2_Packet p cs) \<longleftrightarrow> r \<le> 20 \<and> (is_literal p \<or> list_all (depth_ok (r + 1)) cs)"

definition prepared_hdr :: "g2_packet \<Rightarrow> nat \<Rightarrow> g2_packet" where
  "prepared_hdr p n =
     p\<lparr>length_length := word_of_nat (len_len n), plength := word_of_nat n,
       type_length := word_of_nat (name_len p), packet_encode := SERIALIZATION_PREPARED_MIN\<rparr>"

lemma name_lengths: "list_all (\<lambda>n. 1 \<le> n \<and> n \<le> 8) (take PT_MAXIMUM g2_ptype_names_length)"
  by (simp add: g2_ptype_names_length_def G2_PACKET_TYPES_def PT_MAXIMUM_def)

lemma length_names_length [simp]: "length g2_ptype_names_length = 109"
  by (simp add: g2_ptype_names_length_def)

lemma name_len_bounds: "pkt_ok p \<Longrightarrow> 1 \<le> name_len p \<and> name_len p \<le> 8"
proof -
  assume ok: "pkt_ok p"
  have "1 \<le> g2_ptype_names_length ! i \<and> g2_ptype_names_length ! i \<le> 8" if "i < PT_MAXIMUM" for i
    using name_lengths that by (auto simp: list_all_length PT_MAXIMUM_def)
  then show ?thesis using ok by (auto simp: name_len_def pkt_ok_def)
qed

lemma len_len_le: "len_len n \<le> 3"
  by (simp add: len_len_def)

lemma unat_byte_of_small: "n < 256 \<Longrightarrow> unat (word_of_nat n :: byte) = n"
  by (simp add: unsigned_of_nat take_bit_nat_eq_self)

lemma prep_length_ok:
  assumes "sz = (if has_data p then cs + (if cs \<noteq> 0 then 1 else 0) + buffer_remaining (data_trunk p) else cs)"
  shows "prep_length p cs sz =
    (if sz \<le> 0xFFFFFF then (Some sz, p\<lparr>length_length := word_of_nat (len_len sz)\<rparr>) else (None, p))"
  using assms by (auto simp: prep_length_def len_len_def Let_def has_data_def)

lemma prep_finish_spec:
  assumes "pkt_ok p"
  shows "prep_finish p cs =
    (if with_inner p cs \<le> 0xFFFFFF
     then (Some (with_inner p cs + len_len (with_inner p cs) + name_len p + 1),
           prepared_hdr p (with_inner p cs))
     else (None, p))"
proof -
  have wf: "wf_buff (data_trunk p)" using assms by (simp add: pkt_ok_def)
  let ?sz = "if has_data p then cs + (if cs \<noteq> 0 then 1 else 0) + buffer_remaining (data_trunk p) else cs"
  have sz: "?sz = with_inner p cs"
    using has_data_wf[OF wf] length_buffer_bytes[OF wf] by (auto simp: with_inner_def)
  have "type_length p \<noteq> 0" if "packet_type p = PT_UNKNOWN"
    using assms that by (auto simp: pkt_ok_def)
  moreover have "unat (word_of_nat (len_len n) :: byte) = len_len n" for n
    using len_len_le[of n] by (simp add: unat_byte_of_small)
  moreover have "unat (word_of_nat (name_len p) :: byte) = name_len p"
    using name_len_bounds[OF assms] by (simp add: unat_byte_of_small)
  ultimately show ?thesis
    unfolding prep_finish_def Let_def prep_length_ok[OF refl, of p cs, unfolded sz] sz
    by (auto simp: prepared_hdr_def name_len_def)
qed

text \<open>The packet after a successful preparation.\<close>

fun prep_tree :: "g2_ptree \<Rightarrow> g2_ptree" where
  "prep_tree (G2_Packet p cs) =
     (let n = inner_size (G2_Packet p cs) in
      if is_literal p then G2_Packet (prepared_hdr p n) cs
      else G2_Packet (prepared_hdr (p\<lparr>is_compound := cs \<noteq> []\<rparr>) n) (map prep_tree cs))"

lemma pkt_ok_compound [simp]: "pkt_ok (p\<lparr>is_compound := b\<rparr>) = pkt_ok p"
  by (simp add: pkt_ok_def)

lemma with_inner_compound [simp]: "with_inner (p\<lparr>is_compound := b\<rparr>) n = with_inner p n"
  by (simp add: with_inner_def)

lemma name_len_compound [simp]: "name_len (p\<lparr>is_compound := b\<rparr>) = name_len p"
  by (simp add: name_len_def)

lemma with_inner_ge: "n \<le> with_inner p n"
  by (simp add: with_inner_def)

lemma inner_le_psize: "inner_size q \<le> psize q"
  by (cases q) (simp add: Let_def)

lemma psize_le_sum: "c \<in> set cs \<Longrightarrow> psize c \<le> sum_list (map psize cs)"
  by (induction cs) auto

lemma inner_child_le:
  assumes "\<not> is_literal p" "c \<in> set cs" "inner_size (G2_Packet p cs) \<le> m"
  shows "inner_size c \<le> m"
  using assms inner_le_psize[of c] psize_le_sum[OF assms(2)]
    with_inner_ge[of "sum_list (map psize cs)" p] by simp

abbreviation MAX_INNER :: nat where
  "MAX_INNER \<equiv> 0xFFFFFF"

definition can_prep :: "nat \<Rightarrow> g2_ptree \<Rightarrow> bool" where
  "can_prep r q \<longleftrightarrow> depth_ok r q \<and> inner_size q \<le> MAX_INNER"

lemma prep_spec_both:
  "tree_ok q \<Longrightarrow>
     (can_prep r q \<longrightarrow> g2_packet_serialize_prep_internal q r = (Some (psize q), prep_tree q)) \<and>
     (\<not> can_prep r q \<longrightarrow> fst (g2_packet_serialize_prep_internal q r) = None)"
  "list_all tree_ok cs \<Longrightarrow>
     (list_all (can_prep r) cs \<longrightarrow>
        prep_children cs r = (Some (sum_list (map psize cs)), map prep_tree cs)) \<and>
     (\<not> list_all (can_prep r) cs \<longrightarrow> fst (prep_children cs r) = None)"
proof (induction q r and cs r rule: g2_packet_serialize_prep_internal_prep_children.induct)
  case (1 p cs recurs)
  have ok: "pkt_ok p" using "1.prems" by simp
  consider "recurs > 20" | "recurs \<le> 20" "is_literal p" | "recurs \<le> 20" "\<not> is_literal p" "cs = []"
    | "recurs \<le> 20" "\<not> is_literal p" "cs \<noteq> []" by linarith
  then show ?case
  proof cases
    case 1 then show ?thesis by (simp add: can_prep_def)
  next
    case 2 then show ?thesis using prep_finish_spec[OF ok, of 0] by (auto simp: can_prep_def Let_def)
  next
    case 3 then show ?thesis
      using prep_finish_spec[of "p\<lparr>is_compound := False\<rparr>" 0] ok by (auto simp: can_prep_def Let_def)
  next
    case 4
    have tr: "list_all tree_ok cs" using "1.prems" 4 by simp
    note IH = "1.IH"[OF _ _ 4(3) tr]
    show ?thesis
    proof (cases "list_all (can_prep (recurs + 1)) cs")
      case True
      have "list_all (depth_ok (recurs + 1)) cs" using True by (simp add: can_prep_def list_all_iff)
      then have "can_prep recurs (G2_Packet p cs) \<longleftrightarrow> with_inner p (sum_list (map psize cs)) \<le> MAX_INNER"
        using 4 by (simp add: can_prep_def)
      moreover have "prep_children cs (Suc recurs) = (Some (sum_list (map psize cs)), map prep_tree cs)"
        using True IH 4 by simp
      ultimately show ?thesis
        using 4 prep_finish_spec[of "p\<lparr>is_compound := True\<rparr>" "sum_list (map psize cs)"] ok
        by (auto simp: Let_def)
    next
      case False
      then have "fst (prep_children cs (recurs + 1)) = None" using IH 4 by simp
      moreover have "\<not> can_prep recurs (G2_Packet p cs)"
        using False 4 inner_child_le[OF 4(2), of _ cs MAX_INNER]
        by (auto simp: can_prep_def list_all_iff)
      ultimately show ?thesis using 4 by (auto split: prod.split option.split)
    qed
  qed
next
  case (2 recurs)
  then show ?case by simp
next
  case (3 c cs recurs)
  then show ?case by (auto split: prod.splits option.splits)
qed

subsection \<open>The bytes of a prepared packet\<close>

lemma prepared_hdr_fields [simp]:
  "data_trunk (prepared_hdr p n) = data_trunk p" "is_literal (prepared_hdr p n) = is_literal p"
  "packet_encode (prepared_hdr p n) = SERIALIZATION_PREPARED_MIN"
  "big_endian (prepared_hdr p n) = big_endian p" "is_compound (prepared_hdr p n) = is_compound p"
  "wire_name (prepared_hdr p n) = wire_name p" "packet_type (prepared_hdr p n) = packet_type p"
  by (simp_all add: prepared_hdr_def wire_name_def)

lemma prepared_hdr_ll [simp]: "unat (length_length (prepared_hdr p n)) = len_len n"
  using len_len_le[of n] by (simp add: prepared_hdr_def unat_byte_of_small)

lemma prepared_hdr_tl: "pkt_ok p \<Longrightarrow> unat (type_length (prepared_hdr p n)) = name_len p"
  using name_len_bounds[of p] by (simp add: prepared_hdr_def unat_byte_of_small)

lemma prepared_hdr_length: "n \<le> MAX_INNER \<Longrightarrow> unat (plength (prepared_hdr p n)) = n"
  by (simp add: prepared_hdr_def plength_word)

lemma wire_name_length: "pkt_ok p \<Longrightarrow> 8 \<le> length (wire_name p)"
  by (simp add: pkt_ok_def wire_name_def length_ptype_name)

definition len_bytes :: "bool \<Rightarrow> nat \<Rightarrow> byte list" where
  "len_bytes be n = (if be then be_bytes else le_bytes) (len_len n) n"

lemma length_len_bytes [simp]: "length (len_bytes be n) = len_len n"
  by (simp add: len_bytes_def)

definition wire_header :: "g2_packet \<Rightarrow> nat \<Rightarrow> byte list" where
  "wire_header p n = create_control_byte (prepared_hdr p n) # len_bytes (big_endian p) n @
     take (name_len p) (wire_name p)"

lemma header_bytes_prepared:
  assumes "pkt_ok p" "n \<le> MAX_INNER"
  shows "header_bytes (prepared_hdr p n) = wire_header p n"
  using header_bytes_eq[of "prepared_hdr p n"] wire_name_length[OF assms(1)] prepared_hdr_tl[OF assms(1)]
    name_len_bounds[OF assms(1)] len_len_le[of n] prepared_hdr_length[OF assms(2)]
  by (simp add: wire_header_def length_bytes_def len_bytes_def)

lemma length_wire_header: "pkt_ok p \<Longrightarrow> length (wire_header p n) = 1 + len_len n + name_len p"
  using wire_name_length[of p] name_len_bounds[of p] by (simp add: wire_header_def)

text \<open>What follows the header.\<close>

fun payload :: "g2_ptree \<Rightarrow> byte list" where
  "payload (G2_Packet p cs) =
     (if is_literal p \<or> cs = [] then buffer_bytes (data_trunk p)
      else concat (map wire cs) @
        (if buffer_bytes (data_trunk p) \<noteq> [] then 0 # buffer_bytes (data_trunk p) else []))"

lemma wire_payload: "wire q = header_bytes (hdr q) @ payload q"
  by (cases q) simp

lemma prep_tree_hdr:
  "hdr (prep_tree (G2_Packet p cs)) =
     prepared_hdr (if is_literal p then p else p\<lparr>is_compound := cs \<noteq> []\<rparr>) (inner_size (G2_Packet p cs))"
  by (simp add: Let_def)

lemma wire_header_prep:
  assumes "pkt_ok p" "inner_size (G2_Packet p cs) \<le> MAX_INNER"
  shows "header_bytes (hdr (prep_tree (G2_Packet p cs))) =
    wire_header (if is_literal p then p else p\<lparr>is_compound := cs \<noteq> []\<rparr>) (inner_size (G2_Packet p cs))"
  unfolding prep_tree_hdr by (rule header_bytes_prepared) (use assms in auto)

lemma psize_pos: "0 < psize q"
  by (cases q) (simp add: Let_def)

lemma wire_prep_tree:
  assumes "tree_ok q" "inner_size q \<le> MAX_INNER"
  shows "length (wire (prep_tree q)) = psize q \<and> length (payload (prep_tree q)) = inner_size q \<and>
    prepared (prep_tree q)"
  using assms
proof (induction q)
  case (G2_Packet p cs)
  have ok: "pkt_ok p" using G2_Packet.prems(1) by simp
  have pay: "length (payload (prep_tree (G2_Packet p cs))) = inner_size (G2_Packet p cs) \<and>
      prepared (prep_tree (G2_Packet p cs))"
  proof (cases "is_literal p \<or> cs = []")
    case True
    then show ?thesis using ok by (auto simp: Let_def with_inner_def pkt_ok_def)
  next
    case False
    have IH: "length (wire (prep_tree c)) = psize c \<and> prepared (prep_tree c)" if "c \<in> set cs" for c
      using G2_Packet.IH[OF that] that G2_Packet.prems False
        inner_child_le[of p c cs MAX_INNER] by (auto simp: list_all_iff)
    then have "map (length \<circ> (wire \<circ> prep_tree)) cs = map psize cs" by simp
    then have len: "length (concat (map (wire \<circ> prep_tree) cs)) = sum_list (map psize cs)"
      by (simp only: length_concat map_map)
    obtain c cs' where "cs = c # cs'" using False by (cases cs) auto
    then have "sum_list (map psize cs) \<noteq> 0" using psize_pos[of c] by simp
    then show ?thesis using False IH len ok by (auto simp: Let_def with_inner_def list_all_iff pkt_ok_def)
  qed
  moreover have "length (header_bytes (hdr (prep_tree (G2_Packet p cs)))) =
      1 + len_len (inner_size (G2_Packet p cs)) + name_len p"
    unfolding wire_header_prep[OF ok G2_Packet.prems(2)] using ok by (simp add: length_wire_header)
  ultimately show ?case unfolding wire_payload length_append by (simp add: Let_def)
qed

subsection \<open>Reading the header back\<close>

definition name_ok :: "g2_packet \<Rightarrow> bool" where
  "name_ok p \<longleftrightarrow> list_all type_char_ok (take (name_len p) (wire_name p))"

definition NAME_CHARS :: string where
  "NAME_CHARS = ''ABCDEFGHIJKLMNOPQRSTUVWXYZabcdefghijklmnopqrstuvwxyz0123456789''"

lemma name_chars_ok: "list_all (type_char_ok \<circ> of_char) NAME_CHARS"
  by (simp add: NAME_CHARS_def type_char_ok_def)

lemma names_of_chars:
  "list_all (\<lambda>(s, w). list_all (\<lambda>c. c \<in> set NAME_CHARS) s \<and> length s \<le> 8)
     (take PT_MAXIMUM G2_PACKET_TYPES)"
  by (simp add: G2_PACKET_TYPES_def NAME_CHARS_def PT_MAXIMUM_def)

lemma known_name:
  assumes "pkt_ok p" "packet_type p \<noteq> PT_UNKNOWN"
  shows "name_ok p" and "type_name (take (name_len p) (wire_name p)) = g2_ptype_names ! packet_type p"
proof -
  let ?s = "fst (G2_PACKET_TYPES ! packet_type p)"
  have lt: "packet_type p < PT_MAXIMUM" using assms(1) by (simp add: pkt_ok_def)
  then have "G2_PACKET_TYPES ! packet_type p \<in> set (take PT_MAXIMUM G2_PACKET_TYPES)"
    by (simp add: in_set_conv_nth PT_MAXIMUM_def) (rule exI[of _ "packet_type p"], simp)
  then have s: "list_all (\<lambda>c. c \<in> set NAME_CHARS) ?s" "length ?s \<le> 8"
    using names_of_chars unfolding list_all_iff by (auto simp: case_prod_beta)
  have nl: "name_len p = length ?s" and wn: "wire_name p = map of_char ?s @ replicate (8 - length ?s) 0"
    using assms(2) lt s(2)
    by (simp_all add: name_len_def wire_name_def g2_ptype_names_def g2_ptype_names_length_def
        char8_def PT_MAXIMUM_def)
  show "name_ok p"
    using s(1) name_chars_ok by (auto simp: name_ok_def nl wn list_all_iff)
  show "type_name (take (name_len p) (wire_name p)) = g2_ptype_names ! packet_type p"
    using assms(2) wn by (simp add: nl type_name_def wire_name_def)
qed

lemma len_len_value: "n \<le> MAX_INNER \<Longrightarrow> n < 256 ^ len_len n"
  by (auto simp: len_len_def)

lemma length_value_len_bytes: "n \<le> MAX_INNER \<Longrightarrow> length_value be (len_bytes be n) = n"
  using len_len_value[of n] by (simp add: length_value_def len_bytes_def le_value_bytes be_value_bytes)

lemma control_prepared:
  fixes n :: nat
  assumes "pkt_ok p"
  defines "c \<equiv> create_control_byte (prepared_hdr p n)"
  shows "c \<noteq> 0" "ctl_ll c = len_len n" "ctl_tl c = name_len p" "(c AND 0x02 \<noteq> 0) = big_endian p"
    "(c AND 0x04 \<noteq> 0 \<and> n \<noteq> 0) = (is_compound p \<and> n \<noteq> 0)"
    "drop_bit 6 c AND 0x03 = length_length (prepared_hdr p n)"
    "(drop_bit 3 c AND 0x07) + 1 = type_length (prepared_hdr p n)"
proof -
  let ?q = "prepared_hdr p n"
  have b: "1 \<le> unat (type_length ?q)" "unat (type_length ?q) \<le> 8" "unat (length_length ?q) \<le> 3"
    using name_len_bounds[OF assms(1)] len_len_le[of n] prepared_hdr_tl[OF assms(1)] by simp_all
  have c: "c \<noteq> 0" "control_fields c = (length_length ?q, type_length ?q, big_endian p,
      is_compound p \<or> (length_length ?q = 0 \<and> type_length ?q = 1 \<and> \<not> big_endian p))"
    using control_of_fields[OF b, of "big_endian p" "is_compound p"]
    unfolding c_def create_control_byte_of by simp_all
  have z: "length_length ?q = 0 \<Longrightarrow> n = 0"
    using prepared_hdr_ll[of p n] by (auto simp: len_len_def split: if_splits)
  show "c \<noteq> 0" by fact
  show "drop_bit 6 c AND 0x03 = length_length ?q" "(drop_bit 3 c AND 0x07) + 1 = type_length ?q"
    using c(2) by (simp_all add: control_fields_def)
  then show "ctl_ll c = len_len n" "ctl_tl c = name_len p"
    using prepared_hdr_tl[OF assms(1)] by (simp_all add: ctl_ll_def ctl_tl_def)
  show "(c AND 0x02 \<noteq> 0) = big_endian p" using c(2) by (simp add: control_fields_def)
  show "(c AND 0x04 \<noteq> 0 \<and> n \<noteq> 0) = (is_compound p \<and> n \<noteq> 0)"
    using c(2) z by (auto simp: control_fields_def)
qed

lemma parse_wire_header:
  assumes ok: "pkt_ok p" "name_ok p" and n: "n \<le> MAX_INNER"
    and mx: "n + len_len n + name_len p + 1 \<le> mx"
  shows "parse_header mx (wire_header p n @ rest) =
    HHeader (create_control_byte (prepared_hdr p n)) n (take (name_len p) (wire_name p))"
proof -
  let ?nm = "take (name_len p) (wire_name p)"
  have nm: "length ?nm = name_len p" "list_all type_char_ok ?nm"
    using ok(2) wire_name_length[OF ok(1)] name_len_bounds[OF ok(1)] by (simp_all add: name_ok_def)
  note c = control_prepared[OF ok(1), of n]
  have "take (len_len n) (len_bytes (big_endian p) n @ ?nm @ rest) = len_bytes (big_endian p) n"
    "drop (len_len n) (len_bytes (big_endian p) n @ ?nm @ rest) = ?nm @ rest" by simp_all
  then show ?thesis
    using c nm mx length_value_len_bytes[OF n, of "big_endian p"]
    by (simp add: parse_header_def wire_header_def Let_def)
qed

subsection \<open>A packet over the wire\<close>

text \<open>The head of the tree as the preparation leaves it, apart from the encoder's fields.\<close>

definition prep_flags :: "g2_ptree \<Rightarrow> g2_packet" where
  "prep_flags q = (if is_literal (hdr q) then hdr q else (hdr q)\<lparr>is_compound := children q \<noteq> []\<rparr>)"

lemma prep_flags_ok [simp]: "tree_ok q \<Longrightarrow> pkt_ok (prep_flags q)"
  by (cases q) (simp add: prep_flags_def)

lemma prep_flags_name [simp]:
  "name_ok (prep_flags q) = name_ok (hdr q)" "wire_name (prep_flags q) = wire_name (hdr q)"
  "name_len (prep_flags q) = name_len (hdr q)" "packet_type (prep_flags q) = packet_type (hdr q)"
  "big_endian (prep_flags q) = big_endian (hdr q)"
  by (simp_all add: prep_flags_def name_ok_def wire_name_def name_len_def)

lemma wire_prep_header:
  assumes "tree_ok q" "inner_size q \<le> MAX_INNER"
  shows "wire (prep_tree q) = wire_header (prep_flags q) (inner_size q) @ payload (prep_tree q)"
proof -
  obtain p cs where q: "q = G2_Packet p cs" by (cases q)
  have "header_bytes (hdr (prep_tree q)) = wire_header (prep_flags q) (inner_size q)"
    using wire_header_prep[of p cs] assms unfolding q prep_flags_def by simp
  then show ?thesis by (simp add: wire_payload)
qed

lemma psize_eq: "psize q = inner_size q + len_len (inner_size q) + name_len (hdr q) + 1"
  by (cases q) (simp add: Let_def)

lemma parse_wire:
  assumes "tree_ok q" "inner_size q \<le> MAX_INNER" "name_ok (hdr q)" "psize q \<le> mx"
  shows "parse_header mx (wire (prep_tree q) @ rest) =
    HHeader (create_control_byte (prepared_hdr (prep_flags q) (inner_size q))) (inner_size q)
      (take (name_len (hdr q)) (wire_name (hdr q)))"
  using parse_wire_header[of "prep_flags q" "inner_size q" mx "payload (prep_tree q) @ rest"] assms
  by (simp add: wire_prep_header psize_eq)

text \<open>What the decoder makes of a packet that was encoded.\<close>

definition received :: "g2_ptree \<Rightarrow> g2_packet \<Rightarrow> bool" where
  "received q t \<longleftrightarrow>
     unat (plength t) = inner_size q \<and> big_endian t = big_endian (hdr q) \<and>
     is_compound t = (is_compound (prep_flags q) \<and> inner_size q \<noteq> 0) \<and>
     packet_decode t = (if is_compound t then GET_CHILD_PACKETS else DECODE_FINISHED) \<and>
     take (name_len (hdr q)) (pd t) = take (name_len (hdr q)) (wire_name (hdr q)) \<and>
     wf_buff (data_trunk t) \<and> buffer_bytes (data_trunk t) = payload (prep_tree q)"

lemma decode_wire:
  assumes q: "tree_ok q" "inner_size q \<le> MAX_INNER" "name_ok (hdr q)"
    and s: "wf_buff s" "buffer_bytes s = wire (prep_tree q) @ rest"
    and t: "length (pd t) = PD_OUT_SIZE" "packet_decode t = CHECK_CONTROLL_BYTE"
    and pt: "g2_packet_find_type (type_name (take (name_len (hdr q)) (wire_name (hdr q)))) = Some pt"
  shows "\<exists>t'. g2_packet_decode s t = Some (True, s\<lparr>pos := pos s + psize q\<rparr>, t') \<and>
    received q t' \<and> packet_type t' = pt \<and> buffer_bytes (s\<lparr>pos := pos s + psize q\<rparr>) = rest"
proof -
  let ?n = "inner_size q" and ?nm = "take (name_len (hdr q)) (wire_name (hdr q))"
  let ?c = "create_control_byte (prepared_hdr (prep_flags q) ?n)"
  let ?t = "t\<lparr>more_bytes_needed := False\<rparr>"
  let ?t' = "decoded ?c ?n ?nm pt s ?t"
  note w = wire_prep_tree[OF q(1,2)]
  have len: "psize q \<le> length (buffer_bytes s)" using s(2) w by simp
  have h: "parse_header (length (buffer_bytes s)) (buffer_bytes s) = HHeader ?c ?n ?nm"
    using parse_wire[OF q len, of rest] s(2) by simp
  note c = control_prepared[of "prep_flags q" ?n]
  have hs: "header_size ?c = len_len ?n + name_len (hdr q) + 1"
    using c q(1) by (simp add: header_size_def)
  then have sz: "header_size ?c + ?n = psize q" by (simp add: psize_eq)
  have dec: "g2_packet_decode s t = Some (True, s\<lparr>pos := pos s + psize q\<rparr>, ?t')"
    using g2_packet_decode_spec[OF s(1) t] h pt sz by (simp add: add.assoc)
  have nm: "length ?nm = name_len (hdr q)" "length ?nm \<le> 8"
    using wire_name_length[of "hdr q"] name_len_bounds[of "hdr q"] q(1) by (cases q; simp)+
  have f: "?n < 2 ^ 24" "length (pd ?t) = PD_OUT_SIZE" using q(2) t(1) by simp_all
  have pay: "take ?n (drop (header_size ?c) (buffer_bytes s)) = payload (prep_tree q)"
  proof -
    have "length (wire_header (prep_flags q) ?n) = header_size ?c"
      using length_wire_header[of "prep_flags q" ?n] q(1) hs by simp
    then show ?thesis using s(2) wire_prep_header[OF q(1,2)] w by simp
  qed
  have "received q ?t'"
    using decoded_fields[OF f nm(2), of ?c pt s] decoded_trunk(1,2)[OF s(1) h, of pt ?t] c q(1) nm(1) pay
    by (simp add: received_def)
  moreover have "buffer_bytes (s\<lparr>pos := pos s + psize q\<rparr>) = rest"
    using buffer_bytes_advance[of s "psize q"] s w len length_buffer_bytes[OF s(1)] wf_buff_pos[OF s(1)]
    by (simp add: buffer_remaining_wf)
  ultimately show ?thesis using dec decoded_fields(4)[OF f nm(2), of ?c pt s] by auto
qed

lemma known_type_found:
  assumes "pkt_ok p" "packet_type p \<noteq> PT_UNKNOWN"
  shows "g2_packet_find_type (type_name (take (name_len p) (wire_name p))) = Some (packet_type p)"
  unfolding known_name(2)[OF assms]
  by (rule find_type_known) (use assms in \<open>simp_all add: pkt_ok_def PT_UNKNOWN_def\<close>)

subsection \<open>The children over the wire\<close>

definition sendable :: "g2_ptree \<Rightarrow> bool" where
  "sendable q \<longleftrightarrow> tree_ok q \<and> inner_size q \<le> MAX_INNER \<and> name_ok (hdr q)"

definition child_for :: "g2_ptree \<Rightarrow> child" where
  "child_for q = Child (create_control_byte (prepared_hdr (prep_flags q) (inner_size q))) (inner_size q)
     (take (name_len (hdr q)) (wire_name (hdr q))) (payload (prep_tree q))"

lemma split_wire_Cons:
  assumes "sendable q"
  shows "split_children (wire (prep_tree q) @ rest) =
    (child_for q # fst (split_children rest), snd (split_children rest))"
proof -
  let ?c = "create_control_byte (prepared_hdr (prep_flags q) (inner_size q))"
  have q: "tree_ok q" "inner_size q \<le> MAX_INNER" "name_ok (hdr q)"
    using assms by (simp_all add: sendable_def)
  note w = wire_prep_tree[OF q(1,2)]
  note c = control_prepared[of "prep_flags q" "inner_size q"]
  have hs: "header_size ?c = len_len (inner_size q) + name_len (hdr q) + 1"
    using c q(1) by (simp add: header_size_def)
  then have sz: "header_size ?c + inner_size q = psize q" by (simp add: psize_eq)
  have "length (wire_header (prep_flags q) (inner_size q)) = header_size ?c"
    using length_wire_header[of "prep_flags q" "inner_size q"] q(1) hs by simp
  then have pay: "take (inner_size q) (drop (header_size ?c) (wire (prep_tree q) @ rest)) = payload (prep_tree q)"
    using wire_prep_header[OF q(1,2)] w by simp
  obtain bs where bs: "wire (prep_tree q) @ rest = ?c # bs"
    using wire_prep_header[OF q(1,2)] by (simp add: wire_header_def)
  have "2 \<le> psize q" using name_len_bounds[of "prep_flags q"] q(1) by (simp add: psize_eq)
  then have ne: "bs \<noteq> []" using w arg_cong[OF bs, of length] by auto
  have "psize q \<le> length (?c # bs)" using w arg_cong[OF bs, of length] by simp
  from parse_wire[OF q this, of rest] have "parse_header (length (?c # bs)) (?c # bs) =
      HHeader ?c (inner_size q) (take (name_len (hdr q)) (wire_name (hdr q)))"
    unfolding bs by simp
  moreover have "drop (header_size ?c + inner_size q) (?c # bs) = rest"
    unfolding sz bs[symmetric] using w by simp
  ultimately show ?thesis
    using c(1) q(1) ne pay[unfolded bs]
    unfolding bs by (subst split_children.simps) (simp add: child_for_def case_prod_beta)
qed

lemma split_wire:
  "list_all sendable cs \<Longrightarrow>
   split_children (concat (map (wire \<circ> prep_tree) cs) @ rest) =
     (map child_for cs @ fst (split_children rest), snd (split_children rest))"
  by (induction cs) (simp_all add: split_wire_Cons)

lemma child_for_received:
  assumes "sendable q" "child_of (child_for q) p"
  shows "received q p"
proof -
  have ok: "pkt_ok (prep_flags q)" "pkt_ok (hdr q)"
    using assms(1) by (cases q; simp add: sendable_def)+
  have "length (take (name_len (hdr q)) (wire_name (hdr q))) = name_len (hdr q)"
    using wire_name_length[OF ok(2)] name_len_bounds[OF ok(2)] by simp
  then show ?thesis
    using assms(2) control_prepared(4,5)[OF ok(1), of "inner_size q"]
    by (simp add: child_for_def received_def)
qed

definition known_type :: "g2_ptree \<Rightarrow> bool" where
  "known_type q \<longleftrightarrow> packet_type (hdr q) \<noteq> PT_UNKNOWN"

lemma sendable_known:
  assumes "tree_ok q" "inner_size q \<le> MAX_INNER" "known_type q"
  shows "sendable q \<and> child_known (child_for q) \<and> (child_of (child_for q) p \<longrightarrow> packet_type p = packet_type (hdr q))"
  using assms known_name(1)[of "hdr q"] known_type_found[of "hdr q"]
  by (cases q) (auto simp: sendable_def known_type_def child_for_def)

lemma split_end:
  "split_children [] = ([], Some [])" "split_children (0 # r) = ([], Some r)"
  by (simp_all add: split_children.simps)

text \<open>Walking over the children of a packet that carries the bytes of a tree yields the children that were sent.\<close>

lemma carried_children:
  assumes q: "tree_ok q" "inner_size q \<le> MAX_INNER" "\<not> is_literal (hdr q)" "children q \<noteq> []"
    and known: "list_all known_type (children q)"
    and fs: "packet_decode f = GET_CHILD_PACKETS" "wf_buff (data_trunk f)"
    and f: "buffer_bytes (data_trunk f) = payload (prep_tree q)" and g: "length (pd g) = PD_OUT_SIZE"
  shows "\<exists>f' ps. list_all2 (\<lambda>c p. received c p \<and> packet_type p = packet_type (hdr c)) (children q) ps \<and>
    child_loop decide g f st = Some (True, f', fold decide (filter (\<lambda>p. \<not> is_compound p) ps) st) \<and>
    packet_decode f' = DECODE_FINISHED \<and>
    buffer_bytes (data_trunk f') = buffer_bytes (data_trunk (hdr q))"
proof -
  obtain p cs where qq: "q = G2_Packet p cs" by (cases q)
  have cs: "list_all (\<lambda>c. tree_ok c \<and> inner_size c \<le> MAX_INNER \<and> known_type c) cs"
    using q known inner_child_le[of p _ cs MAX_INNER] by (auto simp: qq list_all_iff)
  then have snd: "list_all sendable cs" "list_all (\<lambda>c. child_known (child_for c)) cs"
    using sendable_known by (auto simp: list_all_iff)
  let ?d = "buffer_bytes (data_trunk p)" and ?tail = "\<lambda>d. if d \<noteq> [] then 0 # d else []"
  have pay: "buffer_bytes (data_trunk f) = concat (map (wire \<circ> prep_tree) cs) @ ?tail ?d"
    using f q by (simp add: qq Let_def)
  have split: "split_children (buffer_bytes (data_trunk f)) = (map child_for cs, Some ?d)"
    unfolding pay using split_wire[OF snd(1)] by (simp add: split_end)
  have "walk_result decide g st f (map child_for cs, Some ?d)"
    using child_loop_spec[OF fs g, of decide st] snd(2) unfolding split by (simp add: list_all_iff)
  then obtain f' ps where r: "list_all2 child_of (map child_for cs) ps"
    "child_loop decide g f st = Some (True, f', fold decide (filter (\<lambda>p. \<not> is_compound p) ps) st)"
    "packet_decode f' = DECODE_FINISHED" "buffer_bytes (data_trunk f') = ?d"
    unfolding walk_result_def by auto
  have "list_all2 (\<lambda>c p. received c p \<and> packet_type p = packet_type (hdr c)) cs ps"
    using r(1) unfolding list_all2_map1
  proof (rule list.rel_mono_strong)
    fix c p assume "c \<in> set cs" "p \<in> set ps" "child_of (child_for c) p"
    then show "received c p \<and> packet_type p = packet_type (hdr c)"
      using cs sendable_known[of c p] child_for_received[of c p] by (auto simp: list_all_iff)
  qed
  then show ?thesis using r qq by auto
qed

lemma inner_size_children:
  assumes "\<not> is_literal (hdr q)" "children q \<noteq> []"
  shows "inner_size q \<noteq> 0"
proof -
  obtain p cs where qq: "q = G2_Packet p cs" by (cases q)
  have "0 < sum_list (map psize cs)"
    using assms(2) psize_pos[of "hd cs"] psize_le_sum[of "hd cs" cs] by (simp add: qq)
  then show ?thesis using assms(1) with_inner_ge[of "sum_list (map psize cs)" p] by (simp add: qq)
qed

lemma received_children:
  assumes q: "tree_ok q" "inner_size q \<le> MAX_INNER" "\<not> is_literal (hdr q)" "children q \<noteq> []"
    and known: "list_all known_type (children q)"
    and f: "received q f" and g: "length (pd g) = PD_OUT_SIZE"
  shows "\<exists>f' ps. list_all2 (\<lambda>c p. received c p \<and> packet_type p = packet_type (hdr c)) (children q) ps \<and>
    child_loop decide g f st = Some (True, f', fold decide (filter (\<lambda>p. \<not> is_compound p) ps) st) \<and>
    packet_decode f' = DECODE_FINISHED \<and>
    buffer_bytes (data_trunk f') = buffer_bytes (data_trunk (hdr q))"
  by (rule carried_children[OF q known _ _ _ g])
    (use f q(3,4) inner_size_children[OF q(3,4)] in \<open>simp_all add: received_def prep_flags_def\<close>)

subsection \<open>From a fresh packet to the wire\<close>

lemma inner_size_upd:
  "inner_size (G2_Packet (p\<lparr>more_bytes_needed := m\<rparr>) cs) = inner_size (G2_Packet p cs)"
  "inner_size (G2_Packet (p\<lparr>packet_encode := e\<rparr>) cs) = inner_size (G2_Packet p cs)"
  by (simp_all add: with_inner_def)

lemma prep_tree_upd:
  "prep_tree (G2_Packet (p\<lparr>more_bytes_needed := m, packet_encode := e\<rparr>) cs) =
     (case prep_tree (G2_Packet p cs) of G2_Packet p' cs' \<Rightarrow> G2_Packet (p'\<lparr>more_bytes_needed := m\<rparr>) cs')"
  by (cases p) (simp add: Let_def prepared_hdr_def name_len_def with_inner_def)

lemma can_prep_upd:
  "can_prep r (G2_Packet (p\<lparr>more_bytes_needed := m, packet_encode := e\<rparr>) cs) =
     can_prep r (G2_Packet p cs)"
  by (simp add: can_prep_def with_inner_def)

lemma tree_ok_upd:
  "tree_ok (G2_Packet (p\<lparr>more_bytes_needed := m, packet_encode := e\<rparr>) cs) = tree_ok (G2_Packet p cs)"
  by (simp add: pkt_ok_def)

lemma switch_decide:
  "switch DECIDE_ENCODE (serialize_cases self) s =
     run_cases ([prep_state, \<lambda>s. Some (Fall (set_encode SERIALIZE_CONTROL s))] @
       put_codes header_states @ body_codes self) (set_encode PREPARE_SERIALIZATION_MIN s)"
  by (simp add: switch_def serialize_cases_def body_codes_def data_codes_def header_states_def)

lemma c_while_first:
  assumes "cond s" "cond s'" "body s = body s'"
  shows "c_while cond body fin s = c_while cond body fin s'"
  by (subst (1 2) c_while.simps) (simp add: assms)

lemma serialize_depth_fresh:
  assumes "tree_ok q" "can_prep 0 q" "packet_encode (hdr q) = DECIDE_ENCODE"
  shows "serialize_depth (Suc n) q t = serialize_depth (Suc n) (prep_tree q) t"
proof -
  obtain p cs where q: "q = G2_Packet p cs" by (cases q)
  obtain p' cs' where q': "prep_tree q = G2_Packet p' cs'" by (cases "prep_tree q")
  let ?s = "set_encode PREPARE_SERIALIZATION_MIN (ser_start q t)"
  let ?q = "G2_Packet (src ?s) (chld ?s)"
  have qe: "?q = G2_Packet (p\<lparr>more_bytes_needed := False, packet_encode := PREPARE_SERIALIZATION_MIN\<rparr>) cs"
    by (simp add: q)
  have ok: "tree_ok ?q" "can_prep 0 ?q" unfolding qe using assms(1,2) q
    by (simp_all only: tree_ok_upd can_prep_upd)
  have pt: "prep_tree ?q = G2_Packet (p'\<lparr>more_bytes_needed := False\<rparr>) cs'"
    unfolding qe prep_tree_upd using q q' by simp
  have pm: "g2_packet_serialize_prep_min ?q = (Some (psize ?q), prep_tree ?q)"
    unfolding g2_packet_serialize_prep_min_def using prep_spec_both(1)[OF ok(1), of 0] ok(2) by blast
  have "prep_state ?s = Some (Fall (ser_start (prep_tree q) t))"
    unfolding prep_state_def pm pt q' by simp
  then have first: "switch DECIDE_ENCODE (serialize_cases self) (ser_start q t) =
      switch SERIALIZATION_PREPARED_MIN (serialize_cases self) (ser_start (prep_tree q) t)" for self
    unfolding switch_decide switch_prepared_min by simp
  have "packet_encode p' = SERIALIZATION_PREPARED_MIN"
    using q' q by (auto simp: Let_def split: if_splits)
  then have "encode_loop (serialize_depth n) (ser_start q t) =
      encode_loop (serialize_depth n) (ser_start (prep_tree q) t)"
    by (intro c_while_first) (use first[of "serialize_depth n"] assms(3) q' in simp_all)
  then show ?thesis by simp
qed

lemma ptree_height_prep: "ptree_height (prep_tree q) = ptree_height q"
proof (induction q)
  case (G2_Packet p cs)
  then have "map ptree_height (map prep_tree cs) = map ptree_height cs" by simp
  then have "ptree_height (G2_Packet h (map prep_tree cs)) = ptree_height (G2_Packet h' cs)" for h h'
    by (simp only: ptree_height.simps)
  then show ?case by (cases "is_literal p") (simp_all only: prep_tree.simps Let_def if_True if_False ptree_height.simps)
qed

lemma serialize_fresh:
  assumes "tree_ok q" "can_prep 0 q" "packet_encode (hdr q) = DECIDE_ENCODE"
    and "wf_buff t" "psize q \<le> buffer_remaining t"
  shows "\<exists>q' t'. g2_packet_serialize_to_buff_p q t = Some (True, q', t') \<and>
    packet_encode (hdr q') = ENCODE_FINISHED \<and> wrote t (wire (prep_tree q)) t'"
proof -
  obtain n where n: "ptree_height q = Suc n" using ptree_height_Suc by blast
  have w: "length (wire (prep_tree q)) = psize q" "prepared (prep_tree q)"
    using wire_prep_tree[OF assms(1)] assms(2) by (simp_all add: can_prep_def)
  have "writes_whole (serialize_depth (Suc n)) (prep_tree q)"
    by (rule serialize_depth_whole[OF w(2)]) (simp add: ptree_height_prep n)
  then show ?thesis
    using assms(4,5) w(1) serialize_depth_fresh[OF assms(1-3), of n t]
    unfolding writes_whole_def g2_packet_serialize_to_buff_p_def n by simp
qed

lemma encode_decode:
  assumes q: "tree_ok q" "can_prep 0 q" "packet_encode (hdr q) = DECIDE_ENCODE" "known_type q"
    and t: "wf_buff t" "pos t = 0" "psize q \<le> buffer_remaining t"
    and c: "length (pd c) = PD_OUT_SIZE" "packet_decode c = CHECK_CONTROLL_BYTE"
  shows "\<exists>q' t' s' c'. g2_packet_serialize_to_buff_p q t = Some (True, q', t') \<and>
    packet_encode (hdr q') = ENCODE_FINISHED \<and>
    g2_packet_decode (buffer_flip t') c = Some (True, s', c') \<and> buffer_bytes s' = [] \<and>
    received q c' \<and> packet_type c' = packet_type (hdr q)"
proof -
  obtain q' t' where 1: "g2_packet_serialize_to_buff_p q t = Some (True, q', t')"
    "packet_encode (hdr q') = ENCODE_FINISHED" "wrote t (wire (prep_tree q)) t'"
    using serialize_fresh[OF q(1-3) t(1,3)] by blast
  have "buffer_written t = []" using t(1,2) by (simp add: buffer_written_def split: option.split)
  then have s: "wf_buff (buffer_flip t')" "buffer_bytes (buffer_flip t') = wire (prep_tree q) @ []"
    using 1(3) buffer_bytes_flip[of t'] by (simp_all add: wrote_def)
  have ok: "pkt_ok (hdr q)" using q(1) by (cases q) simp
  have sn: "inner_size q \<le> MAX_INNER" "name_ok (hdr q)"
    using q(2,4) known_name(1)[OF ok] by (simp_all add: can_prep_def known_type_def)
  have "g2_packet_find_type (type_name (take (name_len (hdr q)) (wire_name (hdr q)))) =
      Some (packet_type (hdr q))"
    using known_type_found[OF ok] q(4) by (simp add: known_type_def)
  from decode_wire[OF q(1) sn s c this] show ?thesis using 1(1,2) by blast
qed

end
