(* ===== verification/UDP_Datagram.thy ===== *)
theory UDP_Datagram
  imports Packet_Stream Packet_Roundtrip Combo_Addr
begin

text \<open>
  Packets in datagrams (\<^verbatim>\<open>G2UDP.c\<close>): writing a packet to datagrams with the header of the reliable transport,
  choosing a socket, and taking a datagram apart until its packet is handed to the packet handlers.  What a packet becomes when it is
  reassembled from several datagrams or inflated is a parameter (\<open>g2_udp_reas_add\<close>, zlib); so is the system call that sends.
\<close>

subsection \<open>Sending\<close>

definition UDP_MTU :: nat where "UDP_MTU = 500"
definition UDP6_MTU :: nat where "UDP6_MTU = 1000"
definition UDP_RELIABLE_LENGTH :: nat where "UDP_RELIABLE_LENGTH = 8"
definition FLAG_DEFLATE :: byte where "FLAG_DEFLATE = 0x01"
definition FLAG_ACK :: byte where "FLAG_ACK = 0x02"
definition FLAG_CRITICAL :: byte where "FLAG_CRITICAL = NOT (FLAG_DEFLATE OR FLAG_ACK) AND 0x0F"
definition SEQUENCE_SPACE :: nat where "SEQUENCE_SPACE = 16"

text \<open>
  \<open>sendto\<close> is the result of the system call for a socket, an address and the bytes of a datagram, which is on the wire if the result is
  positive.  \<open>udp_get_lsbuf\<close> is the buffer of the thread with whatever is in it.
\<close>

record udp_env =
  sendto :: "int \<Rightarrow> combo_addr \<Rightarrow> byte list \<Rightarrow> int"
  udp_malloc :: "nat \<Rightarrow> byte list option"
  sequence_seed :: u32
  udp_sos :: "(combo_addr \<times> int) list"
  udp_get_lsbuf :: "norm_buff option"
  g_packet_store :: g2_packet

record udp_state =
  internal_sequence :: "u32 list"
  on_wire :: "(combo_addr \<times> byte list) list"

text \<open>\<open>udp_writeout_packet_c\<close>, which deflates big packets, is a parameter of the functions that use it.\<close>

type_synonym writeout_c =
  "combo_addr \<Rightarrow> int \<Rightarrow> g2_ptree \<Rightarrow> norm_buff \<Rightarrow> nat \<Rightarrow> udp_state \<Rightarrow> udp_state option"

definition put_next :: "byte list \<Rightarrow> norm_buff \<Rightarrow> norm_buff option" where
  "put_next bs d = map_option (\<lambda>d. d\<lparr>pos := pos d + length bs\<rparr>) (buffer_write bs d)"

definition gnd_buff_prep :: "norm_buff \<Rightarrow> u16 \<Rightarrow> byte \<Rightarrow> byte \<Rightarrow> byte \<Rightarrow> norm_buff option" where
  "gnd_buff_prep d_hold sq part count flags = do {
     d_hold \<leftarrow> put_next [0x47] (buffer_clear d_hold);
     d_hold \<leftarrow> put_next [0x4E] d_hold;
     d_hold \<leftarrow> put_next [0x44] d_hold;
     d_hold \<leftarrow> put_next [flags] d_hold;
     d_hold \<leftarrow> put_next (le_bytes 2 (unat sq)) d_hold;
     d_hold \<leftarrow> put_next [part] d_hold;
     put_next [count] d_hold }"

definition get_next_sequence_number :: "udp_env \<Rightarrow> combo_addr \<Rightarrow> udp_state \<Rightarrow> u16 \<times> udp_state" where
  "get_next_sequence_number env a st =
     (let h = unat (combo_addr_hash a (sequence_seed env)) mod SEQUENCE_SPACE;
          n = internal_sequence st ! h + 1
      in (ucast n, st\<lparr>internal_sequence := (internal_sequence st)[h := n]\<rparr>))"

definition udp_sock_send :: "udp_env \<Rightarrow> norm_buff \<Rightarrow> combo_addr \<Rightarrow> int \<Rightarrow> udp_state \<Rightarrow> (int \<times> udp_state) option" where
  "udp_sock_send env d_hold dest fd st =
     (if combo_addr_is_forbidden dest then Some (0, st)
      else do {
        let dest = (if combo_addr_port dest = 0 then combo_addr_set_port dest (ntohs 6346) else dest);
        bs \<leftarrow> buffer_read (buffer_remaining d_hold) d_hold;
        let result = sendto env fd dest bs;
        Some (result, if 0 < result then st\<lparr>on_wire := on_wire st @ [(dest, bs)]\<rparr> else st) })"

definition udp_mtu :: "combo_addr \<Rightarrow> nat" where
  "udp_mtu dest = (if fam dest = AF_INET6 then UDP6_MTU else UDP_MTU)"

text \<open>The loop over the datagrams of a packet, with \<open>n\<close> of them to go; \<open>num_ptr\<close> is the place of the part number, the seventh byte.\<close>

primrec writeout_parts ::
    "nat \<Rightarrow> udp_env \<Rightarrow> combo_addr \<Rightarrow> int \<Rightarrow> nat \<Rightarrow> g2_ptree \<Rightarrow> norm_buff \<Rightarrow> udp_state \<Rightarrow> udp_state option" where
  "writeout_parts 0 env dest fd i p d_hold st = Some st"
| "writeout_parts (Suc n) env dest fd i p d_hold st = do {
     d_hold \<leftarrow> buffer_put (word_of_nat (i + 1)) (d_hold\<lparr>pos := 6\<rparr>);
     (_, p, d_hold) \<leftarrow> g2_packet_serialize_to_buff p (d_hold\<lparr>pos := UDP_RELIABLE_LENGTH, limit := udp_mtu dest\<rparr>);
     let d_hold = buffer_flip d_hold;
     (result, st) \<leftarrow> udp_sock_send env d_hold dest fd st;
     if result \<le> 0 then Some st
     else writeout_parts n env dest fd (i + 1) p d_hold st }"

definition udp_writeout_packet_uc ::
    "udp_env \<Rightarrow> combo_addr \<Rightarrow> int \<Rightarrow> g2_ptree \<Rightarrow> norm_buff \<Rightarrow> nat \<Rightarrow> udp_state \<Rightarrow> udp_state option" where
  "udp_writeout_packet_uc env dest fd p d_hold res_len st = do {
     let num_udp_packets = DIV_ROUNDUP res_len (udp_mtu dest - UDP_RELIABLE_LENGTH);
     let (sequence_number, st) = get_next_sequence_number env dest st;
     d_hold \<leftarrow> gnd_buff_prep d_hold sequence_number 1 (word_of_nat num_udp_packets) 0;
     writeout_parts num_udp_packets env dest fd 0 p d_hold st }"

definition udp_writeout_packet ::
    "udp_env \<Rightarrow> writeout_c \<Rightarrow> combo_addr \<Rightarrow> int \<Rightarrow> g2_ptree \<Rightarrow> norm_buff \<Rightarrow> udp_state \<Rightarrow> udp_state option" where
  "udp_writeout_packet env udp_writeout_packet_c dest fd p d_hold st =
     (case g2_packet_serialize_prep_min p of
        (None, p) \<Rightarrow> Some st
      | (Some result, p) \<Rightarrow>
          if result > 320 then udp_writeout_packet_c dest fd p d_hold result st
          else udp_writeout_packet_uc env dest fd p d_hold result st)"

text \<open>The packets of a list, one after the other.\<close>

primrec udp_writeout_all ::
    "udp_env \<Rightarrow> writeout_c \<Rightarrow> combo_addr \<Rightarrow> int \<Rightarrow> norm_buff \<Rightarrow> g2_ptree list \<Rightarrow> udp_state \<Rightarrow> udp_state option" where
  "udp_writeout_all env wc dest fd d_hold [] st = Some st"
| "udp_writeout_all env wc dest fd d_hold (p # ps) st = do {
     st \<leftarrow> udp_writeout_packet env wc dest fd p (buffer_clear d_hold) st;
     udp_writeout_all env wc dest fd d_hold ps st }"

text \<open>The loop that looks for a socket to send from.\<close>

fun find_send_fd :: "combo_addr \<Rightarrow> combo_addr \<Rightarrow> (combo_addr \<times> int) list \<Rightarrow> int \<Rightarrow> int \<Rightarrow> int \<times> int \<times> int" where
  "find_send_fd dest frm [] fallback_fd fallback_fallback_fd = (-1, fallback_fd, fallback_fallback_fd)"
| "find_send_fd dest frm ((na, fd) # sos) fallback_fd fallback_fallback_fd =
     (if fam na \<noteq> fam dest then find_send_fd dest frm sos fallback_fd fallback_fallback_fd
      else if combo_addr_eq_ip na frm then (fd, fallback_fd, fallback_fallback_fd)
      else find_send_fd dest frm sos
        (if combo_addr_eq_any na \<and> fd \<noteq> -1 then fd else fallback_fd)
        (if fd \<noteq> -1 then fd else fallback_fallback_fd))"

definition g2_udp_send ::
    "udp_env \<Rightarrow> writeout_c \<Rightarrow> combo_addr \<Rightarrow> combo_addr \<Rightarrow> g2_ptree list \<Rightarrow> udp_state \<Rightarrow> udp_state option" where
  "g2_udp_send env wc dest frm answer st =
     (let (answer_fd, fallback_fd, fallback_fallback_fd) = find_send_fd dest frm (udp_sos env) (-1) (-1);
          fallback_fd = (if fallback_fd = -1 then fallback_fallback_fd else fallback_fd)
      in if answer_fd = -1 \<and> fallback_fd = -1 then Some st
         else (case udp_get_lsbuf env of
                 None \<Rightarrow> Some st
               | Some d_hold \<Rightarrow> udp_writeout_all env wc dest (if answer_fd = -1 then fallback_fd else answer_fd) d_hold answer st))"

subsection \<open>Receiving\<close>

record gnd_packet =
  gnd_sequence :: u16
  gnd_part :: byte
  gnd_count :: byte
  gnd_deflate :: bool
  gnd_ack_me :: bool

text \<open>\<open>handle_udp\<close> for one buffer and one datagram: the buffer is cleared, filled by the system call and flipped.\<close>

definition udp_recv :: "norm_buff \<Rightarrow> byte list \<Rightarrow> norm_buff option" where
  "udp_recv d dg = map_option buffer_flip (put_next (take (capacity d) dg) (buffer_clear d))"

text \<open>
  What is not of this theory: putting the parts of a packet together, inflating one, and the handlers, who get the sender, the
  receiver and the packet and give back packets to answer with.
\<close>

record 's udp_rest =
  g2_udp_reas_add :: "gnd_packet \<Rightarrow> norm_buff \<Rightarrow> combo_addr \<Rightarrow> g2_packet \<Rightarrow> 's \<Rightarrow> g2_packet option \<times> 's"
  inflate_extract :: "norm_buff \<Rightarrow> g2_packet \<Rightarrow> g2_packet option"
  decide_spec :: "combo_addr \<Rightarrow> combo_addr \<Rightarrow> g2_packet \<Rightarrow> 's \<Rightarrow> (bool \<times> g2_ptree list \<times> 's) option"
  writeout_deflated :: writeout_c

definition udp_ack ::
    "udp_env \<Rightarrow> gnd_packet \<Rightarrow> combo_addr \<Rightarrow> int \<Rightarrow> udp_state \<Rightarrow> (gnd_packet \<times> udp_state) option" where
  "udp_ack env tmp_packet frm answer_fd st =
     (if \<not> gnd_ack_me tmp_packet then Some (tmp_packet, st)
      else case udp_get_lsbuf env of
        None \<Rightarrow> Some (tmp_packet, st)
      | Some t_hold \<Rightarrow> do {
          t_hold \<leftarrow> gnd_buff_prep t_hold (gnd_sequence tmp_packet) (gnd_part tmp_packet) 0 0;
          (_, st) \<leftarrow> udp_sock_send env (buffer_flip t_hold) frm answer_fd st;
          Some (tmp_packet\<lparr>gnd_ack_me := False\<rparr>, st) })"

definition packet_arrived :: "g2_packet \<Rightarrow> bool" where
  "packet_arrived p \<longleftrightarrow> packet_decode p = DECODE_FINISHED \<or> packet_decode p = PACKET_EXTRACTION_COMPLETE"

text \<open>The packet of a datagram, \<open>None\<close> where the source goes to \<open>out\<close> or \<open>out_free\<close>.\<close>

definition datagram_packet ::
    "udp_env \<Rightarrow> 's udp_rest \<Rightarrow> gnd_packet \<Rightarrow> norm_buff \<Rightarrow> combo_addr \<Rightarrow> 's \<Rightarrow> (g2_packet option \<times> 's) option" where
  "datagram_packet env rst tmp_packet d_hold frm s =
     (let g_packet = g2_packet_init_on_stack (g_packet_store env)
      in if gnd_count tmp_packet > 1 then Some (g2_udp_reas_add rst tmp_packet d_hold frm g_packet s)
         else if gnd_deflate tmp_packet
         then Some (case inflate_extract rst d_hold g_packet of
                      None \<Rightarrow> None | Some p \<Rightarrow> if packet_arrived p then Some p else None, s)
         else do {
           (ok, d_hold, g_packet) \<leftarrow>
             g2_packet_extract_from_stream (udp_malloc env) d_hold g_packet (buffer_remaining d_hold) False;
           Some (if ok \<and> packet_arrived g_packet then Some g_packet else None, s) })"

definition GND_TAG :: "byte list" where
  "GND_TAG = [0x47, 0x4E, 0x44]"

text \<open>The second half of \<open>handle_udp_packet\<close>, from the first look at the contents.\<close>

definition handle_udp_contents ::
    "udp_env \<Rightarrow> 's udp_rest \<Rightarrow> gnd_packet \<Rightarrow> norm_buff \<Rightarrow> combo_addr \<Rightarrow> combo_addr \<Rightarrow> int \<Rightarrow> udp_state \<Rightarrow> 's \<Rightarrow> (udp_state \<times> 's) option" where
  "handle_udp_contents env rst tmp_packet d_hold frm dest answer_fd st s = do {
     (tmp_packet, st) \<leftarrow> udp_ack env tmp_packet frm answer_fd st;
     (g_packet, s) \<leftarrow> datagram_packet env rst tmp_packet d_hold frm s;
     (st, s) \<leftarrow> (case g_packet of
        None \<Rightarrow> Some (st, s)
      | Some p \<Rightarrow> do {
          (res, answer, s) \<leftarrow> decide_spec rst frm dest p s;
          st \<leftarrow> (if res \<and> answer \<noteq> []
            then Option.bind (udp_get_lsbuf env) (\<lambda>s_buff. udp_writeout_all env (writeout_deflated rst) frm answer_fd s_buff answer st)
            else Some st);
          Some (st, s) });
     (_, st) \<leftarrow> udp_ack env tmp_packet frm answer_fd st;
     Some (st, s) }"

definition handle_udp_packet ::
    "udp_env \<Rightarrow> 's udp_rest \<Rightarrow> norm_buff \<Rightarrow> combo_addr \<Rightarrow> combo_addr \<Rightarrow> int \<Rightarrow> udp_state \<Rightarrow> 's \<Rightarrow> (udp_state \<times> 's) option" where
  "handle_udp_packet env rst d_hold frm dest answer_fd st s =
     (if combo_addr_is_forbidden frm then Some (st, s)
      else if buffer_remaining d_hold = 0 then Some (st, s)
      else if UDP_RELIABLE_LENGTH > buffer_remaining d_hold then Some (st, s)
      else do {
        h \<leftarrow> buffer_read UDP_RELIABLE_LENGTH d_hold;
        if take 3 h \<noteq> GND_TAG then Some (st, s)
        else if h ! 3 AND FLAG_CRITICAL \<noteq> 0 then Some (st, s)
        else do {
          let tmp_packet = \<lparr>gnd_sequence = word_of_nat (le_value (take 2 (drop 4 h))), gnd_part = h ! 6, gnd_count = h ! 7,
            gnd_deflate = (h ! 3 AND FLAG_DEFLATE \<noteq> 0), gnd_ack_me = (h ! 3 AND FLAG_ACK \<noteq> 0)\<rparr>;
          let d_hold = d_hold\<lparr>pos := pos d_hold + UDP_RELIABLE_LENGTH\<rparr>;
          if gnd_count tmp_packet = 0 then Some (st, s)
          else if buffer_remaining d_hold = 0
          then map_option (\<lambda>(_, st). (st, s)) (udp_ack env tmp_packet frm answer_fd st)
          else do {
            tag \<leftarrow> (if buffer_remaining d_hold \<ge> 3 then buffer_read 3 d_hold else Some []);
            if tag = GND_TAG then Some (st, s)
            else if gnd_count tmp_packet < gnd_part tmp_packet then Some (st, s)
            else handle_udp_contents env rst tmp_packet d_hold frm dest answer_fd st s } } })"

subsection \<open>A packet in one datagram\<close>

definition gnd_header :: "u16 \<Rightarrow> byte \<Rightarrow> byte \<Rightarrow> byte \<Rightarrow> byte list" where
  "gnd_header sq part count flags = GND_TAG @ [flags] @ le_bytes 2 (unat sq) @ [part, count]"

lemma length_gnd_header [simp]: "length (gnd_header sq part count flags) = 8"
  by (simp add: gnd_header_def GND_TAG_def)

lemma gnd_prep:
  assumes "wf_buff d" "8 \<le> capacity d"
  shows "\<exists>bs. gnd_buff_prep d sq part count flags =
    Some \<lparr>pos = 8, limit = capacity d, capacity = capacity d, data = Some (gnd_header sq part count flags @ bs)\<rparr> \<and>
    capacity d \<le> 8 + length bs"
proof -
  obtain x where x: "data d = Some x" "capacity d \<le> length x" using assms by (auto simp: wf_buff_def split: option.splits)
  then have "length (take 8 x) = Suc (Suc (Suc (Suc (Suc (Suc (Suc (Suc 0)))))))" using assms(2) by simp
  then obtain b0 b1 b2 b3 b4 b5 b6 b7 where "take 8 x = [b0, b1, b2, b3, b4, b5, b6, b7]"
    by (clarsimp simp only: length_Suc_conv length_0_conv)
  then have xx: "x = [b0, b1, b2, b3, b4, b5, b6, b7] @ drop 8 x" by (metis append_take_drop_id)
  obtain l0 l1 where l: "le_bytes 2 (unat sq) = [l0, l1]" by (simp add: numeral_2_eq_2)
  define r where "r = drop 8 x"
  have "x = b0 # b1 # b2 # b3 # b4 # b5 # b6 # b7 # r" using xx by (simp add: r_def)
  then show ?thesis
    using x unfolding gnd_buff_prep_def gnd_header_def GND_TAG_def l
    by (intro exI[of _ r]) (cases d; simp add: put_next_def buffer_write_def buffer_clear_def)
qed

lemma gnd_header_part: "(gnd_header sq part count flags @ bs)[6 := part] = gnd_header sq part count flags @ bs"
proof -
  obtain l0 l1 where l: "le_bytes 2 (unat sq) = [l0, l1]" by (simp add: numeral_2_eq_2)
  show ?thesis by (simp add: gnd_header_def GND_TAG_def l)
qed

lemma udp_mtu_cases: "udp_mtu dest = 500 \<or> udp_mtu dest = 1000"
  by (simp add: udp_mtu_def UDP_MTU_def UDP6_MTU_def)

lemma one_datagram: "0 < n \<Longrightarrow> n \<le> 320 \<Longrightarrow> DIV_ROUNDUP n (udp_mtu dest - UDP_RELIABLE_LENGTH) = 1"
  using udp_mtu_cases[of dest] by (auto simp: DIV_ROUNDUP_def UDP_RELIABLE_LENGTH_def intro!: div_nat_eqI)

lemma norm_buff_eta:
  "\<lparr>pos = pos t, limit = limit t, capacity = capacity t, data = data t\<rparr> = (t :: pointer_buff)"
  by (cases t) simp

lemma serialize_norm:
  assumes "g2_packet_serialize_to_buff_p q t = Some (r, q', t')" "capacity t' = capacity t"
  shows "g2_packet_serialize_to_buff q t = Some (r, q', t')"
  using assms unfolding g2_packet_serialize_to_buff_def norm_buff_eta by (cases t') simp

lemma writeout_one:
  assumes q: "tree_ok q" "can_prep 0 q" "psize q \<le> 320"
    and d: "wf_buff d" "1000 \<le> capacity d"
    and dest: "\<not> combo_addr_is_forbidden dest" "combo_addr_port dest \<noteq> 0"
    and send: "\<And>bs. bs \<noteq> [] \<Longrightarrow> 0 < sendto env fd dest bs"
  shows "\<exists>sq st'. udp_writeout_packet env wc dest fd q d st = Some st' \<and>
    on_wire st' = on_wire st @ [(dest, gnd_header sq 1 1 0 @ wire (prep_tree q))]"
proof -
  have pm: "g2_packet_serialize_prep_min q = (Some (psize q), prep_tree q)"
    unfolding g2_packet_serialize_prep_min_def using prep_spec_both(1)[OF q(1), of 0] q(2) by blast
  have w: "length (wire (prep_tree q)) = psize q" "prepared (prep_tree q)"
    using wire_prep_tree[OF q(1)] q(2) by (simp_all add: can_prep_def)
  obtain sq st1 where sq: "get_next_sequence_number env dest st = (sq, st1)" "on_wire st1 = on_wire st"
    by (simp add: get_next_sequence_number_def Let_def)
  let ?d = "\<lambda>i l bs. \<lparr>pos = i, limit = l, capacity = capacity d, data = Some (gnd_header sq 1 1 0 @ bs)\<rparr>"
  obtain bs where g: "gnd_buff_prep d sq 1 1 0 = Some (?d 8 (capacity d) bs)"
    "capacity d \<le> 8 + length bs" using gnd_prep[OF d(1), of sq 1 1 0] d(2) by auto
  let ?e = "?d 8 (udp_mtu dest) bs"
  have wf: "wf_buff ?e" using d g(2) udp_mtu_cases[of dest] by (auto simp: wf_buff_def)
  have room: "length (wire (prep_tree q)) \<le> buffer_remaining ?e"
    using w(1) q(3) udp_mtu_cases[of dest] by (auto simp: buffer_remaining_wf[OF wf])
  obtain q' t' where s: "g2_packet_serialize_to_buff_p (prep_tree q) ?e = Some (True, q', t')"
    "wrote ?e (wire (prep_tree q)) t'"
    using serialize_whole[OF w(2) wf room] by blast
  have ser: "g2_packet_serialize_to_buff (prep_tree q) ?e = Some (True, q', t')"
    by (rule serialize_norm[OF s(1)]) (use s(2) in \<open>simp add: wrote_def\<close>)
  have t': "wf_buff t'" "buffer_written t' = gnd_header sq 1 1 0 @ wire (prep_tree q)"
    using s(2) by (simp_all add: wrote_def buffer_written_def)
  then have fl: "wf_buff (buffer_flip t')" "buffer_bytes (buffer_flip t') = gnd_header sq 1 1 0 @ wire (prep_tree q)"
    using buffer_bytes_flip[of t'] by simp_all
  then have "buffer_read (buffer_remaining (buffer_flip t')) (buffer_flip t') = Some (gnd_header sq 1 1 0 @ wire (prep_tree q))"
    using buffer_read_wf[OF fl(1) order_refl] length_buffer_bytes[OF fl(1)] by simp
  moreover have ne: "gnd_header sq 1 1 0 @ wire (prep_tree q) \<noteq> []" by (simp add: gnd_header_def)
  ultimately have send1: "udp_sock_send env (buffer_flip t') dest fd st1 =
      Some (sendto env fd dest (gnd_header sq 1 1 0 @ wire (prep_tree q)),
        st1\<lparr>on_wire := on_wire st @ [(dest, gnd_header sq 1 1 0 @ wire (prep_tree q))]\<rparr>)"
    using dest send[OF ne] sq(2) by (simp add: udp_sock_send_def)
  have one: "DIV_ROUNDUP (psize q) (udp_mtu dest - UDP_RELIABLE_LENGTH) = Suc 0"
    using one_datagram[of "psize q" dest] psize_pos[of q] q(3) by simp
  have put: "buffer_put 1 (?d 6 (capacity d) bs) = Some (?d 6 (capacity d) bs)"
    by (simp add: buffer_put_def gnd_header_part)
  have parts: "writeout_parts (Suc 0) env dest fd 0 (prep_tree q) (?d 8 (capacity d) bs) st1 =
    Some (st1\<lparr>on_wire := on_wire st @ [(dest, gnd_header sq 1 1 0 @ wire (prep_tree q))]\<rparr>)"
    using put ser send1 send[OF ne] by (simp add: UDP_RELIABLE_LENGTH_def not_le)
  show ?thesis
    using pm q(3) sq(1) g(1) parts
    by (intro exI[of _ sq] exI[of _ "st1\<lparr>on_wire := on_wire st @ [(dest, gnd_header sq 1 1 0 @ wire (prep_tree q))]\<rparr>"])
      (simp add: udp_writeout_packet_def udp_writeout_packet_uc_def one)
qed

text \<open>The packet of a datagram: the fields of the header, the bytes of the tree, and nothing decoded yet.\<close>

definition extracted :: "g2_ptree \<Rightarrow> g2_packet \<Rightarrow> bool" where
  "extracted q t \<longleftrightarrow> packet_type t = packet_type (hdr q) \<and> unat (plength t) = inner_size q \<and>
     big_endian t = big_endian (hdr q) \<and> is_compound t = (is_compound (prep_flags q) \<and> inner_size q \<noteq> 0) \<and>
     packet_decode t = (if inner_size q = 0 then DECODE_FINISHED else PACKET_EXTRACTION_COMPLETE) \<and>
     wf_buff (data_trunk t) \<and> buffer_bytes (data_trunk t) = payload (prep_tree q)"

lemma extract_whole:
  assumes q: "tree_ok q" "inner_size q \<le> MAX_INNER" "known_type q"
    and s: "wf_buff s" "buffer_bytes s = wire (prep_tree q)" and t0: "fresh_target t0"
    and malloc: "\<And>n m. malloc n = Some m \<Longrightarrow> length m = n" "\<And>n. malloc n \<noteq> None"
  shows "\<exists>s' t. g2_packet_extract_from_stream malloc s t0 (buffer_remaining s) ev = Some (True, s', t) \<and> extracted q t"
proof -
  let ?w = "wire (prep_tree q)" and ?p = "prep_flags q" and ?n = "inner_size q"
  let ?c = "create_control_byte (prepared_hdr ?p ?n)" and ?nm = "take (name_len (hdr q)) (wire_name (hdr q))"
  have ok: "pkt_ok (hdr q)" "pkt_ok ?p" using q(1) by (cases q, simp) (rule prep_flags_ok[OF q(1)])
  have len: "length ?w = psize q" "length (payload (prep_tree q)) = ?n" using wire_prep_tree[OF q(1,2)] by simp_all
  then have mx: "buffer_remaining s = psize q" using length_buffer_bytes[OF s(1)] s(2) by simp
  have name: "name_ok (hdr q)" "g2_packet_find_type (type_name ?nm) = Some (packet_type (hdr q))"
    using known_name(1)[OF ok(1)] known_type_found[OF ok(1)] q(3) by (simp_all add: known_type_def)
  have parse: "parse_header (psize q) ?w = HHeader ?c ?n ?nm"
    using parse_wire[OF q(1,2) name(1) order_refl, of "[]"] by simp
  note c = control_prepared[OF ok(2), of ?n]
  have size: "header_size ?c + ?n = psize q" using c(2,3) by (simp add: header_size_def psize_eq)
  have none: "delivered malloc (psize q) t0 [] INIT_PBUF t0"
    by (rule delivered_none) (simp_all add: wf_buff_def INIT_PBUF_def buffer_bytes_def)
  have nd: "\<not> stream_done t0" using t0 by (simp add: stream_done_def fresh_target_def)
  have "\<exists>s' t. g2_packet_extract_from_stream_b malloc s t0 (psize q) ev = Some (True, s', t) \<and>
      delivered malloc (psize q) t0 ([] @ ?w) s' t"
    by (rule delivered_step[OF none nd t0 malloc s(1)])
      (use s(2) parse name(2) in \<open>simp_all add: INIT_PBUF_def buffer_bytes_def typer_fault_def\<close>)
  then obtain s' t where r: "g2_packet_extract_from_stream_b malloc s t0 (psize q) ev = Some (True, s', t)"
    "delivered malloc (psize q) t0 ?w s' t" by auto
  note st = delivered_state[OF r(2) t0 malloc(1)]
  have "complete (psize q) ?w" using parse size len(1) by (simp add: complete_def)
  then have sp: "stream_packet (psize q) t0 ?w (buffer_bytes s') t" using st stream_done_packet[OF _ _ t0] by blast
  define h where "h = with_header ?c ?n ?nm (packet_type (hdr q)) t0"
  have t: "t = h\<lparr>packet_decode := packet_decode t, data_trunk := data_trunk t, data_trunk_is_freeable := data_trunk_is_freeable t,
      more_bytes_needed := more_bytes_needed t, pd := pd t\<rparr>"
    "packet_decode t = (if ?n = 0 then DECODE_FINISHED else PACKET_EXTRACTION_COMPLETE)" "wf_buff (data_trunk t)"
    "buffer_bytes (data_trunk t) = take ?n (drop (header_size ?c) ?w)"
    using sp name(2) unfolding stream_packet_def parse h_def by auto
  have pay: "take ?n (drop (header_size ?c) ?w) = payload (prep_tree q)"
    using wire_prep_header[OF q(1,2)] length_wire_header[OF ok(2), of ?n] len(2) c(2,3) by (simp add: header_size_def)
  have f: "packet_type t = packet_type h" "plength t = plength h" "big_endian t = big_endian h" "is_compound t = is_compound h"
    by (subst t(1), simp)+
  have "unat (word_of_nat ?n :: u32) = ?n" using q(2) by (intro plength_word) simp
  then have "extracted q t"
    unfolding extracted_def f using t(2-4) pay c(4,5)
    by (simp add: h_def with_header_def with_type_def with_length_def with_control_def)
  then show ?thesis using r(1) mx by (auto simp: g2_packet_extract_from_stream_def)
qed

text \<open>The first round of the walk over the children decides what the packet is; then its children are read.\<close>

lemma child_loop_extracted:
  assumes "packet_decode p = PACKET_EXTRACTION_COMPLETE" "is_compound p" "0 < plength p"
  shows "child_loop decide g p st = child_loop decide g (p\<lparr>packet_decode := GET_CHILD_PACKETS\<rparr>) st"
proof -
  have "g2_packet_decode_from_packet p (fresh_child g) =
      g2_packet_decode_from_packet (p\<lparr>packet_decode := GET_CHILD_PACKETS\<rparr>) (fresh_child g)"
    unfolding g2_packet_decode_from_packet_def
    by (subst c_while.simps) (use assms in \<open>simp add: switch_def from_packet_cases_def fresh_child_def\<close>)
  then show ?thesis by (subst (1 2) child_loop.simps) simp
qed

lemma extracted_children:
  assumes q: "tree_ok q" "inner_size q \<le> MAX_INNER" "\<not> is_literal (hdr q)" "children q \<noteq> []"
    and known: "list_all known_type (children q)" and f: "extracted q f" and g: "length (pd g) = PD_OUT_SIZE"
  shows "\<exists>f' ps. list_all2 (\<lambda>c p. received c p \<and> packet_type p = packet_type (hdr c)) (children q) ps \<and>
    child_loop decide g f st = Some (True, f', fold decide (filter (\<lambda>p. \<not> is_compound p) ps) st) \<and>
    packet_decode f' = DECODE_FINISHED"
proof -
  note n = inner_size_children[OF q(3,4)]
  have "0 < plength f" using f n by (simp add: extracted_def word_gt_0 unat_eq_0[symmetric] del: unat_eq_0)
  then have "child_loop decide g f st = child_loop decide g (f\<lparr>packet_decode := GET_CHILD_PACKETS\<rparr>) st"
    using f n q(3,4) by (intro child_loop_extracted) (simp_all add: extracted_def prep_flags_def)
  then show ?thesis
    using carried_children[OF q known, of "f\<lparr>packet_decode := GET_CHILD_PACKETS\<rparr>" g decide st] f g
    by (auto simp: extracted_def)
qed

text \<open>A control byte never has the reserved bit, so a packet does not start like a datagram.\<close>

lemma control_even: "create_control_byte p \<noteq> 0x47"
proof -
  have "even (create_control_byte p)"
    by (simp add: create_control_byte_def Let_def even_or_iff even_push_bit_iff)
  moreover have "odd (0x47 :: byte)" by simp
  ultimately show ?thesis by metis
qed

lemma wire_no_tag:
  assumes "tree_ok q" "inner_size q \<le> MAX_INNER"
  shows "take n (wire (prep_tree q)) \<noteq> GND_TAG"
  unfolding wire_prep_header[OF assms] wire_header_def GND_TAG_def using control_even by (cases n) simp_all

definition udp_ready :: "udp_env \<Rightarrow> bool" where
  "udp_ready env \<longleftrightarrow> length (pd (g_packet_store env)) = PD_OUT_SIZE \<and>
     (\<forall>n. \<exists>m. udp_malloc env n = Some m \<and> length m = n) \<and>
     (\<exists>d. udp_get_lsbuf env = Some d \<and> wf_buff d \<and> 1000 \<le> capacity d) \<and>
     (\<forall>fd dest bs. bs \<noteq> [] \<longrightarrow> 0 < sendto env fd dest bs)"

lemma fresh_on_stack: "length (pd g) = PD_OUT_SIZE \<Longrightarrow> fresh_target (g2_packet_init_on_stack g)"
  by (simp add: fresh_target_def g2_packet_init_on_stack_def)

lemma handle_one:
  assumes q: "tree_ok q" "inner_size q \<le> MAX_INNER" "known_type q"
    and d: "wf_buff d" "buffer_bytes d = gnd_header sq 1 1 0 @ wire (prep_tree q)"
    and frm: "\<not> combo_addr_is_forbidden frm" and env: "udp_ready env"
  shows "\<exists>p. extracted q p \<and> handle_udp_packet env rst d frm dest fd st s =
    Option.bind (decide_spec rst frm dest p s) (\<lambda>(res, answer, s).
      Option.bind (if res \<and> answer \<noteq> []
        then Option.bind (udp_get_lsbuf env) (\<lambda>s_buff. udp_writeout_all env (writeout_deflated rst) frm fd s_buff answer st)
        else Some st) (\<lambda>st. Some (st, s)))"
proof -
  let ?w = "wire (prep_tree q)" and ?h = "gnd_header sq 1 1 0" and ?d = "d\<lparr>pos := pos d + 8\<rparr>"
  have w: "0 < length ?w" using wire_prep_tree[OF q(1,2)] psize_pos[of q] by simp
  have len: "buffer_remaining d = 8 + length ?w" using length_buffer_bytes[OF d(1)] d(2) by simp
  have rd: "buffer_read 8 d = Some ?h" using buffer_read_wf[OF d(1), of 8] len d(2) by simp
  have d8: "wf_buff ?d" "buffer_bytes ?d = ?w" using buffer_bytes_after[OF d(1), of 8] len d(2) by simp_all
  have len8: "buffer_remaining ?d = length ?w" using length_buffer_bytes[OF d8(1)] d8(2) by simp
  have tag: "\<exists>x. (if 3 \<le> buffer_remaining ?d then buffer_read 3 ?d else Some []) = Some x \<and> x \<noteq> GND_TAG"
    using buffer_read_wf[OF d8(1), of 3] len8 d8(2) wire_no_tag[OF q(1,2), of 3] by (auto simp: GND_TAG_def)
  obtain l0 l1 where l: "le_bytes 2 (unat sq) = [l0, l1]" by (simp add: numeral_2_eq_2)
  have h: "take 3 ?h = GND_TAG" "?h ! 3 = 0" "?h ! 6 = 1" "?h ! 7 = 1" by (simp_all add: gnd_header_def GND_TAG_def l)
  have m: "length m = n" if "udp_malloc env n = Some m" for n m
    using env that unfolding udp_ready_def by (metis option.inject)
  have m': "udp_malloc env n \<noteq> None" for n using env by (auto simp: udp_ready_def)
  have fr: "fresh_target (g2_packet_init_on_stack (g_packet_store env))"
    by (rule fresh_on_stack) (use env in \<open>simp add: udp_ready_def\<close>)
  from extract_whole[where ev = False and malloc = "udp_malloc env", OF q d8 fr m m']
  obtain s' p where p: "g2_packet_extract_from_stream (udp_malloc env) ?d (g2_packet_init_on_stack (g_packet_store env))
      (buffer_remaining ?d) False = Some (True, s', p)" "extracted q p" by blast
  define tp where "tp = \<lparr>gnd_sequence = word_of_nat (le_value (take 2 (drop 4 ?h))), gnd_part = 1, gnd_count = 1,
    gnd_deflate = False, gnd_ack_me = False\<rparr>"
  have tp: "gnd_ack_me tp = False" "gnd_count tp = 1" "gnd_part tp = 1" "gnd_deflate tp = False" by (simp_all add: tp_def)
  have arr: "packet_arrived p" using p(2) by (simp add: extracted_def packet_arrived_def)
  have "datagram_packet env rst tp ?d frm s = Some (Some p, s)"
    using p(1) arr by (simp add: datagram_packet_def tp)
  then have contents: "handle_udp_contents env rst tp ?d frm dest fd st s =
      Option.bind (decide_spec rst frm dest p s) (\<lambda>(res, answer, s).
        Option.bind (if res \<and> answer \<noteq> []
          then Option.bind (udp_get_lsbuf env) (\<lambda>s_buff. udp_writeout_all env (writeout_deflated rst) frm fd s_buff answer st)
          else Some st) (\<lambda>st. Some (st, s)))"
    by (simp add: handle_udp_contents_def udp_ack_def tp split_beta Option.bind_assoc)
  obtain x where x: "(if 3 \<le> buffer_remaining ?d then buffer_read 3 ?d else Some []) = Some x" "x \<noteq> GND_TAG" using tag by blast
  have "handle_udp_packet env rst d frm dest fd st s = handle_udp_contents env rst tp ?d frm dest fd st s"
    using frm len w rd h len8 x unfolding handle_udp_packet_def UDP_RELIABLE_LENGTH_def FLAG_DEFLATE_def FLAG_ACK_def
    by (simp add: Let_def tp_def)
  then show ?thesis using p(2) contents by auto
qed

text \<open>A socket for the family of the receiver is found.\<close>

definition has_socket :: "udp_env \<Rightarrow> combo_addr \<Rightarrow> bool" where
  "has_socket env dest \<longleftrightarrow> (\<forall>(na, fd) \<in> set (udp_sos env). fd \<noteq> -1) \<and> (\<exists>(na, fd) \<in> set (udp_sos env). fam na = fam dest)"

lemma find_send_fd_found:
  assumes "\<forall>(na, fd) \<in> set sos. fd \<noteq> -1" "(\<exists>(na, fd) \<in> set sos. fam na = fam dest) \<or> ff \<noteq> -1"
    "find_send_fd dest frm sos f ff = (a, f', ff')"
  shows "a \<noteq> -1 \<or> ff' \<noteq> -1"
  using assms
proof (induction sos arbitrary: f ff)
  case Nil
  then show ?case by simp
next
  case (Cons s sos)
  obtain na fd where s: "s = (na, fd)" by (cases s)
  note IH = Cons.IH[of _ f] Cons.IH[of _ fd]
  consider "fam na \<noteq> fam dest" | "fam na = fam dest" "combo_addr_eq_ip na frm" | "fam na = fam dest" "\<not> combo_addr_eq_ip na frm" by blast
  then show ?case
  proof cases
    case 1
    then show ?thesis using Cons.prems by (intro IH(1)[of ff]) (simp_all add: s)
  next
    case 2
    then show ?thesis using Cons.prems by (auto simp: s)
  next
    case 3
    then show ?thesis using Cons.prems IH(1)[of fd] IH(2)[of fd] by (cases "combo_addr_eq_any na") (simp_all add: s)
  qed
qed

lemma udp_send_one:
  assumes q: "tree_ok q" "can_prep 0 q" "psize q \<le> 320"
    and dest: "\<not> combo_addr_is_forbidden dest" "combo_addr_port dest \<noteq> 0"
    and env: "udp_ready env" "has_socket env dest"
  shows "\<exists>sq st'. g2_udp_send env wc dest frm [q] st = Some st' \<and>
    on_wire st' = on_wire st @ [(dest, gnd_header sq 1 1 0 @ wire (prep_tree q))]"
proof -
  obtain a f ff where fd: "find_send_fd dest frm (udp_sos env) (-1) (-1) = (a, f, ff)" by (cases "find_send_fd dest frm (udp_sos env) (-1) (-1)")
  have ok: "a \<noteq> -1 \<or> ff \<noteq> -1" by (rule find_send_fd_found[OF _ _ fd]) (use env(2) in \<open>auto simp: has_socket_def\<close>)
  obtain d where d: "udp_get_lsbuf env = Some d" "wf_buff d" "1000 \<le> capacity d" using env(1) by (auto simp: udp_ready_def)
  have d': "wf_buff (buffer_clear d)" "1000 \<le> capacity (buffer_clear d)"
    using d(2,3) by (simp_all add: buffer_clear_def wf_buff_def split: option.splits)
  let ?fd = "if a = -1 then if f = -1 then ff else f else a"
  have "\<exists>sq st'. udp_writeout_packet env wc dest ?fd q (buffer_clear d) st = Some st' \<and>
      on_wire st' = on_wire st @ [(dest, gnd_header sq 1 1 0 @ wire (prep_tree q))]"
    by (rule writeout_one[OF q d' dest]) (use env(1) in \<open>simp add: udp_ready_def\<close>)
  then show ?thesis using ok d(1) by (auto simp: g2_udp_send_def fd Let_def)
qed

text \<open>The buffer of a received datagram.\<close>

lemma udp_recv_ok:
  assumes "wf_buff d" "length dg \<le> capacity d"
  shows "\<exists>d'. udp_recv d dg = Some d' \<and> wf_buff d' \<and> buffer_bytes d' = dg"
proof -
  let ?d = "buffer_clear d"
  have d: "wf_buff ?d" "pos ?d = 0" "limit ?d = capacity d" using assms(1) by (simp_all add: buffer_clear_def wf_buff_def split: option.splits)
  obtain y where y: "buffer_write dg ?d = Some y" "wf_buff y" "pos y = pos ?d" "limit y = limit ?d"
    "buffer_written (y\<lparr>pos := pos ?d + length dg\<rparr>) = buffer_written ?d @ dg"
    by (rule buffer_write_wf[OF d(1), of dg]) (use assms(2) d in \<open>simp_all add: buffer_remaining_wf\<close>)
  have w: "buffer_written ?d = []" using d(1,2) by (simp add: buffer_written_def split: option.split)
  have "wf_buff (y\<lparr>pos := length dg\<rparr>)" using wf_buff_advance[OF y(2), of "length dg"] y(3,4) d(2,3) assms(2) by simp
  then show ?thesis
    using y w d assms(2) buffer_bytes_flip[of "y\<lparr>pos := length dg\<rparr>"] by (simp add: udp_recv_def put_next_def)
qed

end
