(* ===== verification/Key_Handlers.thy ===== *)
theory Key_Handlers
  imports Query_Key_Cache UDP_Datagram Con_Registry_Correct
begin

text \<open>
  Query keys on the wire: addresses in packets, and the handlers of the packets \<open>QKR\<close> (a request for a key) and \<open>QKA\<close> (the
  answer) of \<^verbatim>\<open>G2Packet.c\<close>.  What is handed to \<open>g2_udp_send\<close> and to the send queues of connections is recorded in
  the state.  The machine is little endian.
\<close>

definition PT_QKR :: g2_ptype where "PT_QKR = 13"
definition PT_QKA :: g2_ptype where "PT_QKA = 14"
definition PT_SNA :: g2_ptype where "PT_SNA = 75"
definition PT_QNA :: g2_ptype where "PT_QNA = 76"
definition PT_QK :: g2_ptype where "PT_QK = 77"
definition PT_CACHED :: g2_ptype where "PT_CACHED = 78"
definition PT_RNA :: g2_ptype where "PT_RNA = 79"
definition PT_REF :: g2_ptype where "PT_REF = 80"

lemma ptype_names:
  "map (\<lambda>t. fst (G2_PACKET_TYPES ! t)) [PT_QKR, PT_QKA, PT_SNA, PT_QNA, PT_QK, PT_CACHED, PT_RNA, PT_REF] =
   [''QKR'', ''QKA'', ''SNA'', ''QNA'', ''QK'', ''CACHED'', ''RNA'', ''REF'']"
  by code_simp

subsection \<open>Addresses in packets\<close>

definition INET6_ADDRLEN :: nat where "INET6_ADDRLEN = 16"

text \<open>The bytes of the IP as they are in memory, and the address of given bytes with port zero.\<close>

fun ip_bytes :: "combo_addr \<Rightarrow> byte list" where
  "ip_bytes (In a p) = le_bytes 4 (unat a)"
| "ip_bytes (In6 a b c d p) = le_bytes 4 (unat a) @ le_bytes 4 (unat b) @ le_bytes 4 (unat c) @ le_bytes 4 (unat d)"

definition load32 :: "byte list \<Rightarrow> u32" where
  "load32 bs = word_of_nat (le_value (take 4 bs))"

definition ip_of_bytes :: "byte list \<Rightarrow> combo_addr" where
  "ip_of_bytes bs =
     (if length bs = 4 then In (load32 bs) 0
      else In6 (load32 bs) (load32 (drop 4 bs)) (load32 (drop 8 bs)) (load32 (drop 12 bs)) 0)"

definition read_port :: "g2_packet \<Rightarrow> u16 option" where
  "read_port source = do {
     bs \<leftarrow> buffer_read 2 (data_trunk source);
     let port = word_of_nat (le_value bs);
     Some (if \<not> big_endian source then ntohs port else port) }"

definition skip_bytes :: "nat \<Rightarrow> g2_packet \<Rightarrow> g2_packet" where
  "skip_bytes n p = p\<lparr>data_trunk := (data_trunk p)\<lparr>pos := pos (data_trunk p) + n\<rparr>\<rparr>"

definition read_na_from_packet :: "g2_packet \<Rightarrow> combo_addr \<Rightarrow> (bool \<times> combo_addr) option" where
  "read_na_from_packet source target =
     (let rem = buffer_remaining (data_trunk source)
      in if 6 \<noteq> rem \<and> 18 \<noteq> rem then Some (False, target)
         else do {
           let n = (if 6 = rem then 4 else INET6_ADDRLEN);
           bs \<leftarrow> buffer_read n (data_trunk source);
           port \<leftarrow> read_port (skip_bytes n source);
           Some (True, combo_addr_set_port (ip_of_bytes bs) port) })"

definition read_sna_from_packet :: "g2_packet \<Rightarrow> combo_addr \<Rightarrow> (bool \<times> combo_addr) option" where
  "read_sna_from_packet source target =
     (let rem = buffer_remaining (data_trunk source)
      in if 4 \<noteq> rem \<and> INET6_ADDRLEN \<noteq> rem \<and> 4 + 2 \<noteq> rem \<and> INET6_ADDRLEN + 2 \<noteq> rem then Some (False, target)
         else do {
           let n = (if 4 = rem \<or> 6 = rem then 4 else INET6_ADDRLEN);
           bs \<leftarrow> buffer_read n (data_trunk source);
           if n + 2 = rem then do {
             port \<leftarrow> read_port (skip_bytes n source);
             Some (True, combo_addr_set_port (ip_of_bytes bs) port) }
           else Some (True, ip_of_bytes bs) })"

text \<open>\<open>put_unaligned\<close> and \<open>memcpy\<close> to the start of the data of a packet.\<close>

definition put_bytes :: "byte list \<Rightarrow> g2_packet \<Rightarrow> g2_packet option" where
  "put_bytes bs p = map_option (\<lambda>dt. write_pd (p\<lparr>data_trunk := dt\<rparr>)) (buffer_write bs (data_trunk p))"

type_synonym malloc = "nat \<Rightarrow> byte list option"

definition write_na_to_packet :: "malloc \<Rightarrow> g2_packet \<Rightarrow> combo_addr \<Rightarrow> (bool \<times> g2_packet) option" where
  "write_na_to_packet malloc target source =
     (let n = (if fam source = AF_INET then 4 else INET6_ADDRLEN);
          (ok, target) = g2_packet_steal_data_space malloc target (n + 2)
      in if \<not> ok then Some (False, target)
         else do {
           let old_pos = pos (data_trunk target);
           target \<leftarrow> put_bytes (ip_bytes source) target;
           let target = skip_bytes n target;
           target \<leftarrow> put_bytes (le_bytes 2 (unat (ntohs (combo_addr_port source)))) target;
           Some (True, target\<lparr>data_trunk := (data_trunk target)\<lparr>pos := old_pos\<rparr>, big_endian := False\<rparr>) })"

definition link_sna_to_packet :: "g2_packet \<Rightarrow> combo_addr \<Rightarrow> g2_packet" where
  "link_sna_to_packet target source =
     target\<lparr>data_trunk := buffer_clear ((data_trunk target)\<lparr>data := Some (ip_bytes source),
         capacity := (if fam source = AF_INET then 4 else INET6_ADDRLEN)\<rparr>),
       data_trunk_is_freeable := False, big_endian := False\<rparr>"

definition write_sna_to_packet_endian :: "malloc \<Rightarrow> g2_packet \<Rightarrow> combo_addr \<Rightarrow> bool \<Rightarrow> (bool \<times> g2_packet) option" where
  "write_sna_to_packet_endian malloc target source b_endian =
     (let n = (if fam source = AF_INET then 4 else INET6_ADDRLEN);
          port = combo_addr_port source;
          (ok, target) = g2_packet_steal_data_space malloc target (if port \<noteq> 0 then n + 2 else n)
      in if \<not> ok then Some (False, target)
         else do {
           let old_pos = pos (data_trunk target);
           target \<leftarrow> put_bytes (ip_bytes source) target;
           target \<leftarrow> (if port \<noteq> 0
             then put_bytes (le_bytes 2 (unat (if \<not> b_endian then ntohs port else port))) (skip_bytes n target)
             else Some target);
           Some (True, target\<lparr>data_trunk := (data_trunk target)\<lparr>pos := old_pos\<rparr>, big_endian := b_endian\<rparr>) })"

definition write_sna_to_packet :: "malloc \<Rightarrow> g2_packet \<Rightarrow> combo_addr \<Rightarrow> (bool \<times> g2_packet) option" where
  "write_sna_to_packet malloc target source = write_sna_to_packet_endian malloc target source False"

subsection \<open>The state of the handlers\<close>

text \<open>What the handlers take from their surroundings: memory, whatever is in variables on the stack, and the settings.\<close>

record key_env =
  key_malloc :: malloc
  have_packet :: "nat \<Rightarrow> bool"
  stack :: "nat \<Rightarrow> g2_packet"
  stack_na :: "nat \<Rightarrow> combo_addr"
  sockname :: "nat \<Rightarrow> combo_addr option"
  bind_ip4 :: combo_addr
  bind_ip6 :: combo_addr
  our_server_upeer :: bool
  time_now :: int

record key_args =
  connec :: "nat option"
  src_addr :: combo_addr
  dst_addr :: combo_addr

record key_state =
  qk_salts :: g2_qk_salts
  qk_keys :: qk_cache
  con_reg :: conreg
  last_data_active :: "nat set"
  udp_sent :: "(combo_addr \<times> combo_addr \<times> g2_ptree) list"
  con_sent :: "(nat \<times> g2_ptree) list"
  target :: "g2_ptree list"

definition dismiss :: "nat option \<Rightarrow> key_state \<Rightarrow> key_state" where
  "dismiss c st = (case c of
     None \<Rightarrow> st | Some c \<Rightarrow> st\<lparr>con_reg := upd_con c (dismissed_update (\<lambda>_. True)) (con_reg st)\<rparr>)"

definition con_of :: "key_state \<Rightarrow> nat \<Rightarrow> g2_connection" where
  "con_of st c = cons (con_reg st) c"

subsection \<open>Answers with a key\<close>

text \<open>A packet with a key; \<open>put_unaligned\<close> writes it in the order of the machine.\<close>

definition key_packet :: "malloc \<Rightarrow> g2_packet \<Rightarrow> u32 \<Rightarrow> g2_packet option option" where
  "key_packet malloc p key =
     (let (ok, p) = g2_packet_steal_data_space malloc p 4
      in if \<not> ok then Some None
         else map_option (\<lambda>p. Some (p\<lparr>packet_type := PT_QK, big_endian := False\<rparr>)) (put_bytes (le_bytes 4 (unat key)) p))"

definition g2_packet_send_qka ::
    "key_env \<Rightarrow> combo_addr \<Rightarrow> combo_addr option \<Rightarrow> combo_addr \<Rightarrow> key_state \<Rightarrow> key_state option" where
  "g2_packet_send_qka env req_addr send_addr frm st =
     (if \<not> combo_addr_is_public req_addr \<or> combo_addr_port req_addr = 0 then Some st
      else do {
        let qka = g2_packet_init_on_stack (stack env 0);
        kp \<leftarrow> key_packet (key_malloc env) (g2_packet_init_on_stack (stack env 1)) (g2_qk_generate (qk_salts st) req_addr);
        (case kp of
           None \<Rightarrow> Some st
         | Some kp \<Rightarrow>
             let sna = (case send_addr of
               None \<Rightarrow> []
             | Some a \<Rightarrow>
                 if combo_addr_eq_ip req_addr a then []
                 else [G2_Packet (link_sna_to_packet ((g2_packet_init_on_stack (stack env 2))\<lparr>packet_type := PT_SNA\<rparr>) a) []])
             in Some (st\<lparr>udp_sent := udp_sent st @
                  [(req_addr, frm, G2_Packet (qka\<lparr>big_endian := False, packet_type := PT_QKA\<rparr>) (sna @ [G2_Packet kp []]))]\<rparr>)) })"

subsection \<open>Requests for keys\<close>

record QKR_data =
  r_requesting_na :: combo_addr
  r_queried_na :: combo_addr
  r_sending_na :: combo_addr
  r_refresh :: bool
  r_requesting_na_valid :: bool
  r_queried_na_valid :: bool
  r_sending_na_valid :: bool

definition handle_QKR_RNA :: "g2_packet \<Rightarrow> g2_packet \<Rightarrow> QKR_data \<Rightarrow> QKR_data option" where
  "handle_QKR_RNA garbage source rdata = do {
     (ok, source) \<leftarrow> skip_unexpected_child garbage source;
     if \<not> ok then Some rdata
     else do {
       (valid, a) \<leftarrow> read_na_from_packet source (r_requesting_na rdata);
       Some (rdata\<lparr>r_requesting_na := a, r_requesting_na_valid := valid\<rparr>) } }"

definition handle_QKR_QNA :: "g2_packet \<Rightarrow> g2_packet \<Rightarrow> QKR_data \<Rightarrow> QKR_data option" where
  "handle_QKR_QNA garbage source rdata = do {
     (ok, source) \<leftarrow> skip_unexpected_child garbage source;
     if \<not> ok then Some rdata
     else do {
       (valid, a) \<leftarrow> read_na_from_packet source (r_queried_na rdata);
       Some (rdata\<lparr>r_queried_na := a, r_queried_na_valid := valid\<rparr>) } }"

definition handle_QKR_SNA :: "g2_packet \<Rightarrow> g2_packet \<Rightarrow> QKR_data \<Rightarrow> QKR_data option" where
  "handle_QKR_SNA garbage source rdata = do {
     (ok, source) \<leftarrow> skip_unexpected_child garbage source;
     if \<not> ok then Some rdata
     else do {
       (valid, a) \<leftarrow> read_sna_from_packet source (r_sending_na rdata);
       Some (rdata\<lparr>r_sending_na := a, r_sending_na_valid := valid\<rparr>) } }"

definition handle_QKR_REF :: "QKR_data \<Rightarrow> QKR_data" where
  "handle_QKR_REF rdata = rdata\<lparr>r_refresh := True\<rparr>"

text \<open>\<open>g2_packet_decide_spec_int\<close> with the dictionary; other types have no action or an empty one.\<close>

definition QKR_packet_dict :: "g2_packet \<Rightarrow> g2_packet \<Rightarrow> QKR_data option \<Rightarrow> QKR_data option" where
  "QKR_packet_dict garbage p rdata = do {
     rdata \<leftarrow> rdata;
     if packet_type p = PT_RNA then handle_QKR_RNA garbage p rdata
     else if packet_type p = PT_QNA then handle_QKR_QNA garbage p rdata
     else if packet_type p = PT_SNA then handle_QKR_SNA garbage p rdata
     else if packet_type p = PT_REF then Some (handle_QKR_REF rdata)
     else Some rdata }"

text \<open>The answer from the cache; \<open>Some None\<close> if there is no memory for it.\<close>

definition cached_answer :: "key_env \<Rightarrow> combo_addr \<Rightarrow> u32 \<Rightarrow> g2_ptree option option" where
  "cached_answer env queried_na key =
     (let new = g2_packet_calloc (stack env 0)
      in if \<not> (have_packet env 0 \<and> have_packet env 1 \<and> have_packet env 2) then Some None
         else do {
           (ok, qna) \<leftarrow> write_na_to_packet (key_malloc env) (new\<lparr>packet_type := PT_QNA\<rparr>) queried_na;
           if \<not> ok then Some None
           else do {
             kp \<leftarrow> key_packet (key_malloc env) new key;
             Some (map_option (\<lambda>kp. G2_Packet (new\<lparr>packet_type := PT_QKA, big_endian := False\<rparr>)
               ([G2_Packet qna [], G2_Packet kp []] @
                (if have_packet env 3 then [G2_Packet (new\<lparr>packet_type := PT_CACHED, big_endian := False\<rparr>) []] else []))) kp) } })"

definition handle_QKR_connec :: "key_env \<Rightarrow> nat \<Rightarrow> QKR_data \<Rightarrow> key_state \<Rightarrow> (bool \<times> key_state) option" where
  "handle_QKR_connec env c rdata st =
     (if \<not> r_queried_na_valid rdata then Some (False, st)
      else if \<not> combo_addr_is_public (r_queried_na rdata) \<or> combo_addr_port (r_queried_na rdata) = 0 then Some (False, st)
      else
        (let st = st\<lparr>last_data_active := insert c (last_data_active st)\<rparr>;
             key = g2_qk_lookup (r_queried_na rdata) (qk_keys st)
         in if \<not> r_refresh rdata \<and> key \<noteq> None then do {
              answer \<leftarrow> cached_answer env (r_queried_na rdata) (the key);
              Some (case answer of None \<Rightarrow> (False, st) | Some qka \<Rightarrow> (True, st\<lparr>target := target st @ [qka]\<rparr>)) }
            else
              (let host = remote_host (con_of st c);
                   from_addr = (case sockname env c of
                     Some a \<Rightarrow> a | None \<Rightarrow> if fam host = AF_INET then bind_ip4 env else bind_ip6 env);
                   sna = link_sna_to_packet ((g2_packet_init_on_stack (stack env 1))\<lparr>packet_type := PT_SNA\<rparr>) host;
                   qkr = (g2_packet_init_on_stack (stack env 0))\<lparr>packet_type := PT_QKR, big_endian := False\<rparr>
               in Some (False, st\<lparr>udp_sent := udp_sent st @ [(r_queried_na rdata, from_addr, G2_Packet qkr [G2_Packet sna []])]\<rparr>))))"

definition handle_QKR :: "key_env \<Rightarrow> key_args \<Rightarrow> g2_packet \<Rightarrow> key_state \<Rightarrow> (bool \<times> key_state) option" where
  "handle_QKR env parg source st =
     (if (case connec parg of
            Some c \<Rightarrow> \<not> is_compound source \<or> upeer (con_of st c)
          | None \<Rightarrow> \<not> our_server_upeer env) then Some (False, st)
      else do {
        let rdata = \<lparr>r_requesting_na = stack_na env 0, r_queried_na = stack_na env 1, r_sending_na = stack_na env 2, r_refresh = False,
          r_requesting_na_valid = False, r_queried_na_valid = False, r_sending_na_valid = False\<rparr>;
        (keep_decoding, source, rdata) \<leftarrow>
          (if is_compound source then child_loop (QKR_packet_dict (stack env 4)) (stack env 3) source (Some rdata)
           else Some (True, source, Some rdata));
        if \<not> keep_decoding then Some (False, dismiss (connec parg) st)
        else if packet_decode source \<noteq> DECODE_FINISHED then Some (False, st)
        else do {
          rdata \<leftarrow> rdata;
          (case connec parg of
             Some c \<Rightarrow> handle_QKR_connec env c rdata st
           | None \<Rightarrow> do {
               st \<leftarrow> g2_packet_send_qka env
                 (if \<not> r_requesting_na_valid rdata then src_addr parg else r_requesting_na rdata)
                 (if r_sending_na_valid rdata then Some (r_sending_na rdata) else None) (dst_addr parg) st;
               Some (False, st) }) } })"

subsection \<open>Keys arrive\<close>

record QKA_data =
  queried_na :: combo_addr
  sending_na :: combo_addr
  query_key :: u32
  cached :: bool
  query_key_valid :: bool
  queried_na_valid :: bool
  sending_na_valid :: bool

definition handle_QKA_QK :: "g2_packet \<Rightarrow> g2_packet \<Rightarrow> QKA_data \<Rightarrow> QKA_data option" where
  "handle_QKA_QK garbage source rdata = do {
     (ok, source) \<leftarrow> skip_unexpected_child garbage source;
     if \<not> ok then Some rdata
     else if 4 \<noteq> buffer_remaining (data_trunk source) then Some rdata
     else do {
       bs \<leftarrow> buffer_read 4 (data_trunk source);
       Some (rdata\<lparr>query_key := word_of_nat (if big_endian source then be_value bs else le_value bs), query_key_valid := True\<rparr>) } }"

definition handle_QKA_QNA :: "g2_packet \<Rightarrow> g2_packet \<Rightarrow> QKA_data \<Rightarrow> QKA_data option" where
  "handle_QKA_QNA garbage source rdata = do {
     (ok, source) \<leftarrow> skip_unexpected_child garbage source;
     if \<not> ok then Some rdata
     else do {
       (valid, a) \<leftarrow> read_na_from_packet source (queried_na rdata);
       Some (rdata\<lparr>queried_na := a, queried_na_valid := valid\<rparr>) } }"

definition handle_QKA_SNA :: "g2_packet \<Rightarrow> g2_packet \<Rightarrow> QKA_data \<Rightarrow> QKA_data option" where
  "handle_QKA_SNA garbage source rdata = do {
     (ok, source) \<leftarrow> skip_unexpected_child garbage source;
     if \<not> ok then Some rdata
     else do {
       (valid, a) \<leftarrow> read_sna_from_packet source (sending_na rdata);
       Some (rdata\<lparr>sending_na := a, sending_na_valid := valid\<rparr>) } }"

definition handle_QKA_CACHED :: "QKA_data \<Rightarrow> QKA_data" where
  "handle_QKA_CACHED rdata = rdata\<lparr>cached := True\<rparr>"

definition QKA_packet_dict :: "g2_packet \<Rightarrow> g2_packet \<Rightarrow> QKA_data option \<Rightarrow> QKA_data option" where
  "QKA_packet_dict garbage p rdata = do {
     rdata \<leftarrow> rdata;
     if packet_type p = PT_QK then handle_QKA_QK garbage p rdata
     else if packet_type p = PT_QNA then handle_QKA_QNA garbage p rdata
     else if packet_type p = PT_SNA then handle_QKA_SNA garbage p rdata
     else if packet_type p = PT_CACHED then Some (handle_QKA_CACHED rdata)
     else Some rdata }"

text \<open>
  The answer is built again for the leaf that asked for the key; \<open>None\<close> in the state is an access outside of a packet.
\<close>

definition QKA_for_leaf :: "key_env \<Rightarrow> combo_addr \<Rightarrow> QKA_data \<Rightarrow> g2_ptree option option" where
  "QKA_for_leaf env addr rdata =
     (let new = g2_packet_calloc (stack env 0)
      in if \<not> (have_packet env 0 \<and> have_packet env 1 \<and> have_packet env 2 \<and> have_packet env 3) then Some None
         else do {
           (ok, qna) \<leftarrow> write_na_to_packet (key_malloc env) (new\<lparr>packet_type := PT_QNA\<rparr>) addr;
           if \<not> ok then Some None
           else do {
             (ok, sna) \<leftarrow> write_sna_to_packet (key_malloc env) (new\<lparr>packet_type := PT_SNA\<rparr>) (sending_na rdata);
             if \<not> ok then Some None
             else do {
               kp \<leftarrow> key_packet (key_malloc env) new (query_key rdata);
               Some (map_option (\<lambda>kp. G2_Packet (new\<lparr>packet_type := PT_QKA, big_endian := False\<rparr>)
                 [G2_Packet sna [], G2_Packet qna [], G2_Packet kp []]) kp) } } })"

definition QKA_SNA_callback :: "key_env \<Rightarrow> key_args \<Rightarrow> QKA_data \<Rightarrow> (nat \<times> g2_ptree) list option con_callback" where
  "QKA_SNA_callback env parg rdata c out = (0, do {
     out \<leftarrow> out;
     qka \<leftarrow> QKA_for_leaf env (src_addr parg) rdata;
     Some (case qka of None \<Rightarrow> out | Some qka \<Rightarrow> out @ [(c, qka)]) })"

definition handle_QKA :: "key_env \<Rightarrow> key_args \<Rightarrow> g2_packet \<Rightarrow> key_state \<Rightarrow> (bool \<times> key_state) option" where
  "handle_QKA env parg source st =
     (if \<not> is_compound source then Some (False, st)
      else if (case connec parg of Some c \<Rightarrow> \<not> upeer (con_of st c) | None \<Rightarrow> False) then Some (False, st)
      else do {
        let rdata = \<lparr>queried_na = stack_na env 0, sending_na = stack_na env 1, query_key = 0, cached = False,
          query_key_valid = False, queried_na_valid = False, sending_na_valid = False\<rparr>;
        (keep_decoding, source, rdata) \<leftarrow> child_loop (QKA_packet_dict (stack env 4)) (stack env 3) source (Some rdata);
        if \<not> keep_decoding then Some (False, dismiss (connec parg) st)
        else if packet_decode source \<noteq> DECODE_FINISHED then Some (False, st)
        else do {
          rdata \<leftarrow> rdata;
          if \<not> query_key_valid rdata then Some (False, st)
          else (case connec parg of
            Some c \<Rightarrow>
              if queried_na_valid rdata then do {
                k \<leftarrow> g2_qk_add (query_key rdata) (queried_na rdata) (time_now env) (qk_keys st);
                Some (False, st\<lparr>last_data_active := insert c (last_data_active st), qk_keys := k\<rparr>) }
              else Some (False, st)
          | None \<Rightarrow> do {
              k \<leftarrow> g2_qk_add (query_key rdata) (src_addr parg) (time_now env) (qk_keys st);
              let st = st\<lparr>qk_keys := k\<rparr>;
              if sending_na_valid rdata then do {
                (res, out) \<leftarrow> g2_conreg_for_ip (sending_na rdata) (QKA_SNA_callback env parg rdata) (con_reg st) (Some (con_sent st));
                out \<leftarrow> out;
                Some (res \<noteq> 0, st\<lparr>con_sent := out\<rparr>) }
              else Some (False, st) }) } })"

subsection \<open>Packets from datagrams\<close>

text \<open>The GUID of a child \<open>TO\<close> at the start of the packet.\<close>

definition g2_packet_has_TO :: "g2_packet \<Rightarrow> byte list option option" where
  "g2_packet_has_TO p =
     (if \<not> is_compound p then Some None
      else if buffer_remaining (data_trunk p) < 4 + 16 then Some None
      else map_option (\<lambda>d. if take 4 d = [0x48, 0x10, 0x54, 0x4F] then Some (drop 4 d) else None)
        (buffer_read 20 (data_trunk p)))"

definition g2_packet_needs_routing :: "byte list \<Rightarrow> g2_packet \<Rightarrow> bool option" where
  "g2_packet_needs_routing our_guid p =
     map_option (\<lambda>guid. case guid of None \<Rightarrow> False | Some guid \<Rightarrow> guid \<noteq> our_guid) (g2_packet_has_TO p)"

text \<open>
  \<open>g2_packet_decide_spec\<close> with \<open>g2_packet_dict_udp\<close> for the packets about keys; routing and the other handlers are parameters.  The answers
  of a handler are collected in a list of their own.
\<close>

type_synonym udp_handler = "combo_addr \<Rightarrow> combo_addr \<Rightarrow> g2_packet \<Rightarrow> key_state \<Rightarrow> (bool \<times> g2_ptree list \<times> key_state) option"

definition udp_action ::
    "(key_args \<Rightarrow> g2_packet \<Rightarrow> key_state \<Rightarrow> (bool \<times> key_state) option) \<Rightarrow> udp_handler" where
  "udp_action handler frm dest p st = do {
     (res, st') \<leftarrow> handler \<lparr>connec = None, src_addr = frm, dst_addr = dest\<rparr> p (st\<lparr>target := []\<rparr>);
     Some (res, target st', st'\<lparr>target := target st\<rparr>) }"

definition decide_spec_udp :: "key_env \<Rightarrow> byte list \<Rightarrow> udp_handler \<Rightarrow> udp_handler \<Rightarrow> udp_handler" where
  "decide_spec_udp env our_guid magic_route other frm dest p st = do {
     route \<leftarrow> g2_packet_needs_routing our_guid p;
     if route then magic_route frm dest p st
     else if packet_type p = PT_QKR then udp_action (handle_QKR env) frm dest p st
     else if packet_type p = PT_QKA then udp_action (handle_QKA env) frm dest p st
     else other frm dest p st }"

end
