(* ===== verification/Key_Exchange.thy ===== *)
theory Key_Exchange
  imports Key_Handlers
begin

text \<open>
  Addresses and query keys over the wire: what the functions of \<open>Key_Handlers\<close> write to a packet is what they
  read from the packet that was received, and a key that a hub gives out is accepted when it comes back.
\<close>

subsection \<open>Words and bytes\<close>

lemma le_value_u32: "le_value (le_bytes 4 (unat (w :: u32))) = unat w"
proof -
  have "unat w < 256 ^ 4" using unsigned_less[of w] by simp
  then show ?thesis by (rule le_value_bytes)
qed

lemma le_value_u16: "le_value (le_bytes 2 (unat (w :: u16))) = unat w"
proof -
  have "unat w < 256 ^ 2" using unsigned_less[of w] by simp
  then show ?thesis by (rule le_value_bytes)
qed

lemma load32_bytes: "load32 (le_bytes 4 (unat w) @ bs) = w"
  by (simp add: load32_def le_value_u32)

lemma ntohs_ntohs: "ntohs (ntohs x) = x"
  unfolding ntohs_def
proof (rule bit_word_eqI)
  fix n :: nat
  assume "n < LENGTH(16)"
  then show "bit (drop_bit 8 (drop_bit 8 x OR push_bit 8 x) OR push_bit 8 (drop_bit 8 x OR push_bit 8 x)) n = bit x n"
    by (cases "n < 8") (auto simp: bit_or_iff bit_drop_bit_eq bit_push_bit_iff not_less)
qed

lemma length_ip_bytes: "length (ip_bytes a) = (if fam a = AF_INET then 4 else INET6_ADDRLEN)"
  by (cases a) (simp_all add: INET6_ADDRLEN_def AF_INET_def AF_INET6_def)

lemma ip_of_bytes: "ip_of_bytes (ip_bytes a) = combo_addr_set_port a 0"
  by (cases a) (simp_all add: ip_of_bytes_def load32_bytes load32_bytes[of _ "[]", simplified])

lemma set_port_set_port [simp]: "combo_addr_set_port (combo_addr_set_port a p) q = combo_addr_set_port a q"
  by (cases a) simp_all

lemma set_port_same [simp]: "combo_addr_set_port a (combo_addr_port a) = a"
  by (cases a) simp_all

subsection \<open>Addresses over the wire\<close>

lemma steal_small:
  "n \<le> PD_OUT_SIZE \<Longrightarrow> g2_packet_steal_data_space malloc p n =
     (True, p\<lparr>data_trunk := \<lparr>pos = PD_OUT_SIZE - n, limit = PD_OUT_SIZE, capacity = PD_OUT_SIZE, data = Some (pd p)\<rparr>,
              data_trunk_is_freeable := False\<rparr>)"
  by (simp add: g2_packet_steal_data_space_def)

lemma put_bytes_eq:
  assumes "data (data_trunk p) = Some d" "pos (data_trunk p) + length bs \<le> length d"
  shows "put_bytes bs p = Some (write_pd (p\<lparr>data_trunk := (data_trunk p)\<lparr>data :=
    Some (take (pos (data_trunk p)) d @ bs @ drop (pos (data_trunk p) + length bs) d)\<rparr>\<rparr>))"
proof -
  have same: "p\<lparr>data_trunk := (data_trunk p)\<lparr>data := Some d\<rparr>\<rparr> = p" using assms(1) by (cases p; cases "data_trunk p") simp
  show ?thesis using assms by (cases "bs = []") (simp_all add: put_bytes_def buffer_write_def same)
qed

lemma write_pd_fields [simp]:
  "data_trunk (write_pd p) = data_trunk p" "packet_type (write_pd p) = packet_type p" "packet_encode (write_pd p) = packet_encode p"
  "is_literal (write_pd p) = is_literal p" "big_endian (write_pd p) = big_endian p"
  by (simp_all add: write_pd_def split: option.split)

text \<open>A packet with fresh data and otherwise what \<open>p\<close> was.\<close>

definition filled :: "g2_packet \<Rightarrow> byte list \<Rightarrow> g2_packet \<Rightarrow> bool" where
  "filled p bs q \<longleftrightarrow> wf_buff (data_trunk q) \<and> buffer_bytes (data_trunk q) = bs \<and>
     packet_type q = packet_type p \<and> packet_encode q = packet_encode p \<and> is_literal q = is_literal p \<and> \<not> big_endian q"

definition port_bytes :: "combo_addr \<Rightarrow> byte list" where
  "port_bytes a = le_bytes 2 (unat (ntohs (combo_addr_port a)))"

lemma ip_length_le: "length (ip_bytes a) \<le> 16"
  by (cases a) simp_all

lemma write_na_ok:
  assumes "length (pd p) = PD_OUT_SIZE"
  shows "\<exists>q. write_na_to_packet malloc p a = Some (True, q) \<and> filled p (ip_bytes a @ port_bytes a) q"
  using assms ip_length_le[of a]
  unfolding write_na_to_packet_def length_ip_bytes[symmetric] Let_def
  by (simp add: steal_small put_bytes_eq skip_bytes_def PD_OUT_SIZE_def filled_def wf_buff_def buffer_bytes_def
      port_bytes_def SIZE_MAX_def)

lemma write_sna_ok:
  assumes "length (pd p) = PD_OUT_SIZE"
  shows "\<exists>q. write_sna_to_packet malloc p a = Some (True, q) \<and>
    filled p (ip_bytes a @ (if combo_addr_port a \<noteq> 0 then port_bytes a else [])) q"
  using assms ip_length_le[of a]
  unfolding write_sna_to_packet_def write_sna_to_packet_endian_def length_ip_bytes[symmetric] Let_def
  by (cases "combo_addr_port a = 0")
    (simp_all add: steal_small put_bytes_eq skip_bytes_def PD_OUT_SIZE_def filled_def wf_buff_def buffer_bytes_def
      port_bytes_def SIZE_MAX_def)

lemma key_packet_ok:
  assumes "length (pd p) = PD_OUT_SIZE"
  shows "\<exists>q. key_packet malloc p key = Some (Some q) \<and> filled (p\<lparr>packet_type := PT_QK\<rparr>) (le_bytes 4 (unat key)) q"
  using assms unfolding key_packet_def
  by (simp add: steal_small put_bytes_eq PD_OUT_SIZE_def filled_def wf_buff_def buffer_bytes_def SIZE_MAX_def)

lemma read_port_ok:
  assumes "wf_buff (data_trunk q)" "\<not> big_endian q" "buffer_bytes (data_trunk q) = bs @ port_bytes a"
  shows "read_port (skip_bytes (length bs) q) = Some (combo_addr_port a)"
proof -
  have "buffer_remaining (data_trunk q) = length bs + 2"
    using length_buffer_bytes[OF assms(1)] assms(3) by (simp add: port_bytes_def)
  then have b: "wf_buff (data_trunk (skip_bytes (length bs) q))" "buffer_bytes (data_trunk (skip_bytes (length bs) q)) = port_bytes a"
    using buffer_bytes_after[OF assms(1), of "length bs"] assms(3) by (simp_all add: skip_bytes_def)
  have "buffer_remaining (data_trunk (skip_bytes (length bs) q)) = 2"
    using length_buffer_bytes[OF b(1)] b(2) by (simp add: port_bytes_def)
  then show ?thesis
    using buffer_read_wf[OF b(1), of 2] b(2) assms(2)
    by (simp add: read_port_def) (simp add: port_bytes_def le_value_u16 skip_bytes_def ntohs_ntohs)
qed

lemma read_na_ok:
  assumes "wf_buff (data_trunk q)" "\<not> big_endian q" "buffer_bytes (data_trunk q) = ip_bytes a @ port_bytes a"
  shows "read_na_from_packet q b = Some (True, a)"
proof -
  have len: "buffer_remaining (data_trunk q) = length (ip_bytes a) + 2"
    using length_buffer_bytes[OF assms(1)] assms(3) by (simp add: port_bytes_def)
  then have rd: "buffer_read (length (ip_bytes a)) (data_trunk q) = Some (ip_bytes a)"
    using buffer_read_wf[OF assms(1), of "length (ip_bytes a)"] assms(3) by simp
  have n: "(if 6 = length (ip_bytes a) + 2 then 4 else INET6_ADDRLEN) = length (ip_bytes a)"
    "length (ip_bytes a) = 4 \<or> length (ip_bytes a) = 16"
    by (cases a; simp add: INET6_ADDRLEN_def)+
  show ?thesis
    using n(2) unfolding read_na_from_packet_def Let_def len n(1) rd
    by (auto simp: read_port_ok[OF assms] ip_of_bytes)
qed

lemma read_sna_ok:
  assumes "wf_buff (data_trunk q)" "\<not> big_endian q"
    "buffer_bytes (data_trunk q) = ip_bytes a @ (if combo_addr_port a \<noteq> 0 then port_bytes a else [])"
  shows "read_sna_from_packet q b = Some (True, a)"
proof -
  have len: "buffer_remaining (data_trunk q) = length (ip_bytes a) + (if combo_addr_port a \<noteq> 0 then 2 else 0)"
    using length_buffer_bytes[OF assms(1)] assms(3) by (simp add: port_bytes_def split: if_splits)
  then have rd: "buffer_read (length (ip_bytes a)) (data_trunk q) = Some (ip_bytes a)"
    using buffer_read_wf[OF assms(1), of "length (ip_bytes a)"] assms(3) by simp
  have n: "(if 4 = buffer_remaining (data_trunk q) \<or> 6 = buffer_remaining (data_trunk q) then 4 else INET6_ADDRLEN) = length (ip_bytes a)"
    "length (ip_bytes a) = 4 \<or> length (ip_bytes a) = 16"
    unfolding len by (cases a; simp add: INET6_ADDRLEN_def)+
  have port: "combo_addr_set_port a 0 = a" if "combo_addr_port a = 0" using that set_port_same[of a] by simp
  show ?thesis
    using n(2) read_port_ok[OF assms(1,2), of "ip_bytes a" a] assms(3) port
    unfolding read_sna_from_packet_def Let_def n(1) rd unfolding len
    by (auto simp: ip_of_bytes INET6_ADDRLEN_def)
qed

text \<open>A packet without children arrives with its data.\<close>

lemma received_leaf:
  assumes "received (G2_Packet p []) t" "\<not> is_literal p"
  shows "wf_buff (data_trunk t)" "buffer_bytes (data_trunk t) = buffer_bytes (data_trunk p)"
    "big_endian t = big_endian p" "\<not> is_compound t"
  using assms by (auto simp: received_def prep_flags_def prepared_hdr_def Let_def)

text \<open>
  A packet without a father between two hubs: it is written to the buffer \<open>t\<close>, and \<open>g2_packet_decode\<close>, which reads the child packets of a
  received packet, reads what is in the buffer into the packet \<open>c\<close>.
\<close>

definition over_wire :: "pointer_buff \<Rightarrow> g2_packet \<Rightarrow> g2_ptree \<Rightarrow> g2_packet option" where
  "over_wire t c q = do {
     (done, q, t) \<leftarrow> g2_packet_serialize_to_buff_p q t;
     (ok, s, c) \<leftarrow> g2_packet_decode (buffer_flip t) c;
     if done \<and> ok then Some c else None }"

definition wire_ready :: "nat \<Rightarrow> pointer_buff \<Rightarrow> g2_packet \<Rightarrow> bool" where
  "wire_ready n t c \<longleftrightarrow> wf_buff t \<and> pos t = 0 \<and> n \<le> buffer_remaining t \<and>
     length (pd c) = PD_OUT_SIZE \<and> packet_decode c = CHECK_CONTROLL_BYTE"

lemma over_wire_received:
  assumes "tree_ok q" "can_prep 0 q" "packet_encode (hdr q) = DECIDE_ENCODE" "known_type q"
    and "wire_ready n t c" "psize q \<le> n"
  shows "\<exists>c'. over_wire t c q = Some c' \<and> received q c' \<and> packet_type c' = packet_type (hdr q)"
proof -
  have t: "wf_buff t" "pos t = 0" "psize q \<le> buffer_remaining t" "length (pd c) = PD_OUT_SIZE" "packet_decode c = CHECK_CONTROLL_BYTE"
    using assms(5,6) by (auto simp: wire_ready_def)
  show ?thesis using encode_decode[OF assms(1-4) t] by (auto simp: over_wire_def)
qed

text \<open>A small packet without children, and what arrives of it.\<close>

definition small_leaf :: "g2_ptype \<times> byte list \<Rightarrow> g2_ptree \<Rightarrow> bool" where
  "small_leaf = (\<lambda>(ty, bs) q. children q = [] \<and> wf_buff (data_trunk (hdr q)) \<and> buffer_bytes (data_trunk (hdr q)) = bs \<and>
     packet_type (hdr q) = ty \<and> \<not> is_literal (hdr q) \<and> \<not> big_endian (hdr q) \<and>
     ty < PT_MAXIMUM \<and> ty \<noteq> PT_UNKNOWN \<and> length bs \<le> 18)"

definition arrived :: "g2_ptype \<times> byte list \<Rightarrow> g2_packet \<Rightarrow> bool" where
  "arrived = (\<lambda>(ty, bs) p. packet_type p = ty \<and> wf_buff (data_trunk p) \<and> buffer_bytes (data_trunk p) = bs \<and>
     \<not> big_endian p \<and> \<not> is_compound p)"

lemma small_leaf_ok:
  assumes "small_leaf x q"
  shows "tree_ok q" "known_type q" "inner_size q \<le> 18" "psize q \<le> 28" "depth_ok 1 q"
proof -
  obtain p where q: "q = G2_Packet p []" using assms by (cases q) (auto simp: small_leaf_def split_beta)
  have ok: "pkt_ok p" using assms by (auto simp: q small_leaf_def pkt_ok_def split_beta)
  then show t: "tree_ok q" "known_type q" "inner_size q \<le> 18" "depth_ok 1 q"
    using assms by (auto simp: q small_leaf_def known_type_def with_inner_def split_beta)
  then show "psize q \<le> 28" using name_len_bounds[OF ok] by (simp add: psize_eq q len_len_def)
qed

lemma small_leaf_arrives:
  assumes "small_leaf x q" "received q p \<and> packet_type p = packet_type (hdr q)"
  shows "arrived x p"
proof -
  obtain h where q: "q = G2_Packet h []" "\<not> is_literal h" using assms by (cases q) (auto simp: small_leaf_def split_beta)
  show ?thesis
    using received_leaf[OF assms(2)[THEN conjunct1, unfolded q(1)] q(2)] assms by (auto simp: q small_leaf_def arrived_def split_beta)
qed

text \<open>A packet that has nothing but a few small children.\<close>

definition small_head :: "g2_ptype \<Rightarrow> g2_packet \<Rightarrow> bool" where
  "small_head ty p \<longleftrightarrow> packet_type p = ty \<and> ty < PT_MAXIMUM \<and> ty \<noteq> PT_UNKNOWN \<and> \<not> is_literal p \<and>
     packet_encode p = DECIDE_ENCODE \<and> data_trunk p = INIT_PBUF"

lemma small_sizes:
  assumes "list_all2 small_leaf xs cs" "length cs \<le> 4"
  shows "sum_list (map psize cs) \<le> 112" "list_all tree_ok cs" "list_all known_type cs" "list_all (depth_ok 1) cs"
proof -
  have leaf: "tree_ok c \<and> known_type c \<and> depth_ok 1 c \<and> psize c \<le> 28" if "c \<in> set cs" for c
    using assms(1) that small_leaf_ok by (metis list_all2_conv_all_nth in_set_conv_nth)
  then show "list_all tree_ok cs" "list_all known_type cs" "list_all (depth_ok 1) cs"
    by (auto simp: list_all_iff)
  have "sum_list (map psize cs) \<le> sum_list (map (\<lambda>_. 28) cs)"
    using leaf by (intro sum_list_mono) auto
  then show "sum_list (map psize cs) \<le> 112" using assms(2) by (simp add: sum_list_const_mult[symmetric] sum_list_triv)
qed

text \<open>A walk over the children of a packet that arrived.\<close>

definition walks :: "(g2_packet \<Rightarrow> 'a \<Rightarrow> 'a) \<Rightarrow> g2_packet \<Rightarrow> (g2_ptype \<times> byte list) list \<Rightarrow> bool" where
  "walks decide c xs \<longleftrightarrow> (\<forall>g st. length (pd g) = PD_OUT_SIZE \<longrightarrow> (\<exists>f ps. list_all2 arrived xs ps \<and>
     child_loop decide g c st = Some (True, f, fold decide ps st) \<and> packet_decode f = DECODE_FINISHED))"

lemma walksD:
  assumes "walks decide c xs" "length (pd g) = PD_OUT_SIZE"
  obtains f ps where "list_all2 arrived xs ps" "child_loop decide g c st = Some (True, f, fold decide ps st)"
    "packet_decode f = DECODE_FINISHED"
  using assms unfolding walks_def by blast

lemma small_tree_ok:
  assumes p: "small_head ty p" and cs: "list_all2 small_leaf xs cs" "cs \<noteq> []" "length cs \<le> 4"
  shows "tree_ok (G2_Packet p cs)" "inner_size (G2_Packet p cs) \<le> MAX_INNER" "known_type (G2_Packet p cs)"
    "can_prep 0 (G2_Packet p cs)" "psize (G2_Packet p cs) \<le> 128" "list_all known_type cs" "\<not> is_literal p"
proof -
  let ?q = "G2_Packet p cs"
  note sz = small_sizes[OF cs(1,3)]
  have ok: "pkt_ok p" "\<not> is_literal p" "buffer_bytes (data_trunk p) = []"
    using p by (simp_all add: small_head_def pkt_ok_def wf_buff_def INIT_PBUF_def buffer_bytes_def SIZE_MAX_def)
  have n: "inner_size ?q \<le> 112" using sz ok by (simp add: with_inner_def)
  then show "tree_ok ?q" "inner_size ?q \<le> MAX_INNER" "known_type ?q" "can_prep 0 ?q" "psize ?q \<le> 128" "list_all known_type cs" "\<not> is_literal p"
    using sz ok p name_len_bounds[OF ok(1)]
    by (simp_all add: known_type_def small_head_def can_prep_def psize_eq len_len_def)
qed

text \<open>Such a packet, taken out of a datagram, can be walked, and is not meant for someone else.\<close>

lemma small_tree_walks:
  assumes p: "small_head ty p" and cs: "list_all2 small_leaf xs cs" "cs \<noteq> []" "length cs \<le> 4" and c: "extracted (G2_Packet p cs) c"
  shows "packet_type c = ty" "is_compound c" "walks decide c xs"
proof -
  let ?q = "G2_Packet p cs"
  note ok = small_tree_ok[OF p cs]
  have q: "\<not> is_literal (hdr ?q)" "children ?q \<noteq> []" "list_all known_type (children ?q)" using ok(6,7) cs(2) by simp_all
  show "packet_type c = ty" using c p by (simp add: extracted_def small_head_def)
  show "is_compound c" using c inner_size_children[OF q(1,2)] q by (simp add: extracted_def prep_flags_def)
  show "walks decide c xs" unfolding walks_def
  proof (intro allI impI)
    fix g :: g2_packet and st assume g: "length (pd g) = PD_OUT_SIZE"
    from extracted_children[OF ok(1,2) q c g, of decide st]
    obtain f' ps where r: "list_all2 (\<lambda>c p. received c p \<and> packet_type p = packet_type (hdr c)) cs ps"
      "child_loop decide g c st = Some (True, f', fold decide (filter (\<lambda>p. \<not> is_compound p) ps) st)"
      "packet_decode f' = DECODE_FINISHED" by auto
    have ps: "list_all2 arrived xs ps" by (rule list_all2_trans[OF small_leaf_arrives cs(1) r(1)])
    then have "filter (\<lambda>p. \<not> is_compound p) ps = ps"
      by (auto simp: filter_id_conv list_all2_conv_all_nth in_set_conv_nth arrived_def split_beta)
    then show "\<exists>f ps. list_all2 arrived xs ps \<and> child_loop decide g c st = Some (True, f, fold decide ps st) \<and> packet_decode f = DECODE_FINISHED"
      using ps r(2,3) by auto
  qed
qed

lemma small_tree_local:
  assumes p: "small_head ty p" and cs: "list_all2 small_leaf ((PT_SNA, x) # xs) cs" "cs \<noteq> []" "length cs \<le> 4"
    and c: "extracted (G2_Packet p cs) c"
  shows "g2_packet_needs_routing our_guid c = Some False"
proof -
  obtain c0 cs' where cc: "cs = c0 # cs'" "small_leaf (PT_SNA, x) c0" using cs(1) by (auto simp: list_all2_Cons1)
  note ok = small_tree_ok[OF p cs] and ok0 = small_leaf_ok[OF cc(2)]
  let ?b = "create_control_byte (prepared_hdr (prep_flags c0) (inner_size c0))"
  have "name_len (hdr c0) = g2_ptype_names_length ! PT_SNA" using cc(2) by (simp add: small_leaf_def name_len_def)
  also have "g2_ptype_names_length ! PT_SNA = 3" by code_simp
  finally have "ctl_tl ?b = 3" using control_prepared(3)[OF prep_flags_ok[OF ok0(1)]] by simp
  moreover have "ctl_tl 0x48 = 2" by code_simp
  ultimately have b: "?b \<noteq> 0x48" by (metis numeral_eq_iff semiring_norm(89))
  obtain r where r: "wire (prep_tree c0) = ?b # r"
    using wire_prep_header[OF ok0(1)] ok0(3) by (simp add: wire_header_def)
  have "payload (prep_tree (G2_Packet p cs)) = ?b # r @ drop (length (wire (prep_tree c0))) (payload (prep_tree (G2_Packet p cs)))"
    using ok(7) by (simp add: Let_def cc(1) r)
  then obtain r' where bytes: "wf_buff (data_trunk c)" "buffer_bytes (data_trunk c) = ?b # r'"
    using c by (auto simp: extracted_def)
  have "take 4 d \<noteq> [0x48, 0x10, 0x54, 0x4F]" if "buffer_read 20 (data_trunk c) = Some d" "\<not> buffer_remaining (data_trunk c) < 20" for d
    using that buffer_read_wf[OF bytes(1), of 20] bytes(2) b by auto
  moreover have "buffer_read 20 (data_trunk c) \<noteq> None" if "\<not> buffer_remaining (data_trunk c) < 20"
    using that buffer_read_wf[OF bytes(1), of 20] by simp
  ultimately show ?thesis
    by (cases "buffer_remaining (data_trunk c) < 20"; cases "buffer_read 20 (data_trunk c)")
      (simp_all add: g2_packet_needs_routing_def g2_packet_has_TO_def)
qed

subsection \<open>The handlers\<close>

definition stack_ok :: "key_env \<Rightarrow> bool" where
  "stack_ok env \<longleftrightarrow> (\<forall>i. length (pd (stack env i)) = PD_OUT_SIZE)"

lemma stack_okD: "stack_ok env \<Longrightarrow> length (pd (stack env i)) = PD_OUT_SIZE"
  by (simp add: stack_ok_def)

lemmas PT_defs = PT_QKR_def PT_QKA_def PT_SNA_def PT_QNA_def PT_QK_def PT_CACHED_def PT_RNA_def PT_REF_def PT_MAXIMUM_def PT_UNKNOWN_def

lemma filled_leaf:
  assumes "filled p bs q" "packet_type p < PT_MAXIMUM" "packet_type p \<noteq> PT_UNKNOWN" "\<not> is_literal p" "length bs \<le> 18"
  shows "small_leaf (packet_type p, bs) (G2_Packet q [])"
  using assms by (simp add: filled_def small_leaf_def)

lemma link_sna_leaf:
  "small_leaf (PT_SNA, ip_bytes a) (G2_Packet (link_sna_to_packet ((g2_packet_init_on_stack g)\<lparr>packet_type := PT_SNA\<rparr>) a) [])"
  using ip_length_le[of a]
  by (simp add: link_sna_to_packet_def small_leaf_def length_ip_bytes[symmetric] g2_packet_init_on_stack_def buffer_clear_def
      wf_buff_def buffer_bytes_def PT_defs SIZE_MAX_def)

definition sna_part :: "combo_addr \<Rightarrow> combo_addr option \<Rightarrow> (g2_ptype \<times> byte list) list" where
  "sna_part a send = (case send of None \<Rightarrow> [] | Some s \<Rightarrow> if combo_addr_eq_ip a s then [] else [(PT_SNA, ip_bytes s)])"

lemma send_qka_ok:
  assumes "combo_addr_is_public a" "combo_addr_port a \<noteq> 0" "stack_ok env"
  shows "\<exists>p cs. g2_packet_send_qka env a send frm st = Some (st\<lparr>udp_sent := udp_sent st @ [(a, frm, G2_Packet p cs)]\<rparr>) \<and>
    small_head PT_QKA p \<and> list_all2 small_leaf (sna_part a send @ [(PT_QK, le_bytes 4 (unat (g2_qk_generate (qk_salts st) a)))]) cs"
proof -
  let ?key = "g2_qk_generate (qk_salts st) a"
  let ?k = "g2_packet_init_on_stack (stack env 1)"
  have "length (pd ?k) = PD_OUT_SIZE" using stack_okD[OF assms(3)] by (simp add: g2_packet_init_on_stack_def)
  from key_packet_ok[OF this, of "key_malloc env" ?key] obtain kp where
    kp: "key_packet (key_malloc env) ?k ?key = Some (Some kp)" "filled (?k\<lparr>packet_type := PT_QK\<rparr>) (le_bytes 4 (unat ?key)) kp" by blast
  have "small_leaf (PT_QK, le_bytes 4 (unat ?key)) (G2_Packet kp [])"
    using filled_leaf[OF kp(2)] by (simp add: g2_packet_init_on_stack_def PT_defs)
  moreover have "small_head PT_QKA ((g2_packet_init_on_stack (stack env 0))\<lparr>big_endian := False, packet_type := PT_QKA\<rparr>)"
    by (simp add: small_head_def g2_packet_init_on_stack_def PT_defs)
  ultimately show ?thesis
    using assms(1,2) kp(1) link_sna_leaf
    by (auto simp: g2_packet_send_qka_def sna_part_def split: option.splits)
qed

lemma QKR_SNA_read:
  assumes "arrived (PT_SNA, ip_bytes a) p"
  shows "QKR_packet_dict g p (Some rdata) = Some (rdata\<lparr>r_sending_na := combo_addr_set_port a 0, r_sending_na_valid := True\<rparr>)"
proof -
  have "ip_bytes a = ip_bytes (combo_addr_set_port a 0)" "combo_addr_port (combo_addr_set_port a 0) = 0" by (cases a; simp)+
  then show ?thesis
    using assms read_sna_ok[of p "combo_addr_set_port a 0" "r_sending_na rdata"]
    by (simp add: arrived_def QKR_packet_dict_def handle_QKR_SNA_def skip_unexpected_child_def PT_defs)
qed

lemma QKA_SNA_read:
  assumes "arrived (PT_SNA, ip_bytes a) p"
  shows "QKA_packet_dict g p (Some rdata) = Some (rdata\<lparr>sending_na := combo_addr_set_port a 0, sending_na_valid := True\<rparr>)"
proof -
  have "ip_bytes a = ip_bytes (combo_addr_set_port a 0)" "combo_addr_port (combo_addr_set_port a 0) = 0" by (cases a; simp)+
  then show ?thesis
    using assms read_sna_ok[of p "combo_addr_set_port a 0" "sending_na rdata"]
    by (simp add: arrived_def QKA_packet_dict_def handle_QKA_SNA_def skip_unexpected_child_def PT_defs)
qed

lemma QKA_QK_read:
  assumes "arrived (PT_QK, le_bytes 4 (unat key)) p"
  shows "QKA_packet_dict g p (Some rdata) = Some (rdata\<lparr>query_key := key, query_key_valid := True\<rparr>)"
proof -
  have p: "wf_buff (data_trunk p)" "buffer_bytes (data_trunk p) = le_bytes 4 (unat key)" using assms by (simp_all add: arrived_def)
  have "buffer_remaining (data_trunk p) = 4" using length_buffer_bytes[OF p(1)] p(2) by simp
  then show ?thesis
    using assms buffer_read_wf[OF p(1), of 4] p(2)
    by (simp add: arrived_def QKA_packet_dict_def handle_QKA_QK_def skip_unexpected_child_def PT_defs le_value_u32)
qed

text \<open>What a leaf is told: its own address, whose key it is, and the key.\<close>

definition says :: "g2_ptree \<Rightarrow> (g2_ptype \<times> byte list) list" where
  "says q = map (\<lambda>c. (packet_type (hdr c), buffer_bytes (data_trunk (hdr c)))) (children q)"

lemma QKA_for_leaf_ok:
  assumes "stack_ok env" "\<forall>i. have_packet env i"
  shows "\<exists>qka. QKA_for_leaf env b rdata = Some (Some qka) \<and> packet_type (hdr qka) = PT_QKA \<and>
    says qka = [(PT_SNA, ip_bytes (sending_na rdata) @ (if combo_addr_port (sending_na rdata) \<noteq> 0 then port_bytes (sending_na rdata) else [])),
      (PT_QNA, ip_bytes b @ port_bytes b), (PT_QK, le_bytes 4 (unat (query_key rdata)))]"
proof -
  let ?new = "g2_packet_calloc (stack env 0)" and ?m = "key_malloc env"
  have len: "length (pd (?new\<lparr>packet_type := ty\<rparr>)) = PD_OUT_SIZE" "length (pd ?new) = PD_OUT_SIZE" for ty
    by (simp_all add: g2_packet_calloc_def g2_packet_init_def)
  from write_na_ok[OF len(1)[of PT_QNA], of ?m b] write_sna_ok[OF len(1)[of PT_SNA], of ?m "sending_na rdata"]
    key_packet_ok[OF len(2), of ?m "query_key rdata"]
  show ?thesis using assms(2) by (auto simp: QKA_for_leaf_def says_def filled_def)
qed

text \<open>The first step: the hub of a leaf asks another hub for its key.\<close>

lemma handle_QKR_connec_asks:
  assumes "r_queried_na_valid rdata" "combo_addr_is_public (r_queried_na rdata)" "combo_addr_port (r_queried_na rdata) \<noteq> 0"
    "g2_qk_lookup (r_queried_na rdata) (qk_keys st) = None"
  shows "\<exists>frm p cs. handle_QKR_connec env c rdata st = Some (False, st\<lparr>last_data_active := insert c (last_data_active st),
      udp_sent := udp_sent st @ [(r_queried_na rdata, frm, G2_Packet p cs)]\<rparr>) \<and>
    small_head PT_QKR p \<and> list_all2 small_leaf [(PT_SNA, ip_bytes (remote_host (con_of st c)))] cs"
proof -
  let ?p = "(g2_packet_init_on_stack (stack env 0))\<lparr>packet_type := PT_QKR, big_endian := False\<rparr>"
  have "small_head PT_QKR ?p" by (simp add: small_head_def g2_packet_init_on_stack_def PT_defs)
  then show ?thesis
    using assms link_sna_leaf[of "remote_host (con_of st c)" "stack env 1"]
    by (simp add: handle_QKR_connec_def Let_def con_of_def) blast
qed

text \<open>The second step: the other hub answers.\<close>

lemma handle_QKR_answers:
  assumes "our_server_upeer env" "stack_ok env" "is_compound r" "walks (QKR_packet_dict (stack env 4)) r [(PT_SNA, ip_bytes leaf)]"
  shows "handle_QKR env \<lparr>connec = None, src_addr = a, dst_addr = b\<rparr> r st =
    map_option (Pair False) (g2_packet_send_qka env a (Some (combo_addr_set_port leaf 0)) b st)"
proof -
  let ?rd = "\<lparr>r_requesting_na = stack_na env 0, r_queried_na = stack_na env 1, r_sending_na = stack_na env 2, r_refresh = False,
    r_requesting_na_valid = False, r_queried_na_valid = False, r_sending_na_valid = False\<rparr>"
  obtain f ps where w: "list_all2 arrived [(PT_SNA, ip_bytes leaf)] ps" "packet_decode f = DECODE_FINISHED"
    "child_loop (QKR_packet_dict (stack env 4)) (stack env 3) r (Some ?rd) = Some (True, f, fold (QKR_packet_dict (stack env 4)) ps (Some ?rd))"
    by (rule walksD[OF assms(4) stack_okD[OF assms(2)], where st = "Some ?rd"]) blast
  from w(1) obtain p where p: "ps = [p]" "arrived (PT_SNA, ip_bytes leaf) p" by (auto simp: list_all2_Cons1)
  show ?thesis
    using assms(1,3) w(2,3) p(1) QKR_SNA_read[OF p(2)]
    by (cases "g2_packet_send_qka env a (Some (combo_addr_set_port leaf 0)) b st") (simp_all add: handle_QKR_def)
qed

text \<open>The third step: the key arrives, is kept and passed on.\<close>

lemma QKA_walk:
  assumes "list_all2 arrived [(PT_SNA, ip_bytes leaf), (PT_QK, le_bytes 4 (unat key))] ps"
  shows "fold (QKA_packet_dict g) ps (Some rdata) =
    Some (rdata\<lparr>sending_na := combo_addr_set_port leaf 0, query_key := key, query_key_valid := True, sending_na_valid := True\<rparr>)"
  using assms by (auto simp: list_all2_Cons1 QKA_SNA_read QKA_QK_read)

lemma handle_QKA_keeps:
  assumes env: "stack_ok env" "\<forall>i. have_packet env i" "stamp_ok (time_now env)"
    and r: "is_compound r" "walks (QKA_packet_dict (stack env 4)) r [(PT_SNA, ip_bytes leaf), (PT_QK, le_bytes 4 (unat key))]"
    and b: "combo_addr_is_public b" "g2_qk_lookup b (qk_keys st) = None" "free_list (qk_keys st) \<noteq> []" "qk_cache_ok (qk_keys st)"
    and reg: "reg_ok (con_reg st)" "registry (con_of st c)" "remote_host (con_of st c) = leaf"
  shows "\<exists>st' c' qka. handle_QKA env \<lparr>connec = None, src_addr = b, dst_addr = a\<rparr> r st = Some (False, st') \<and> target st' = target st \<and>
    qk_cache_ok (qk_keys st') \<and> g2_qk_lookup b (qk_keys st') = Some key \<and>
    con_sent st' = con_sent st @ [(c', qka)] \<and> registry (con_of st c') \<and> combo_addr_eq_ip (remote_host (con_of st c')) leaf \<and>
    packet_type (hdr qka) = PT_QKA \<and>
    says qka = [(PT_SNA, ip_bytes leaf), (PT_QNA, ip_bytes b @ port_bytes b), (PT_QK, le_bytes 4 (unat key))]"
proof -
  let ?rd = "\<lparr>queried_na = stack_na env 0, sending_na = stack_na env 1, query_key = 0, cached = False,
    query_key_valid = False, queried_na_valid = False, sending_na_valid = False\<rparr>"
  let ?rd' = "?rd\<lparr>sending_na := combo_addr_set_port leaf 0, query_key := key, query_key_valid := True, sending_na_valid := True\<rparr>"
  let ?parg = "\<lparr>connec = None, src_addr = b, dst_addr = a\<rparr>"
  obtain f ps where w: "list_all2 arrived [(PT_SNA, ip_bytes leaf), (PT_QK, le_bytes 4 (unat key))] ps" "packet_decode f = DECODE_FINISHED"
    "child_loop (QKA_packet_dict (stack env 4)) (stack env 3) r (Some ?rd) = Some (True, f, fold (QKA_packet_dict (stack env 4)) ps (Some ?rd))"
    by (rule walksD[OF r(2) stack_okD[OF env(1)], where st = "Some ?rd"]) blast
  have lookup: "g2_qk_lookup b k = map_option qk (qk_find k b)" for k
    using b(1) by (simp add: g2_qk_lookup_def qk_find_lookup Let_def)
  obtain k where k: "g2_qk_add key b (time_now env) (qk_keys st) = Some k" "qk_cache_ok k" "g2_qk_lookup b k = Some key"
    using qk_add_ok[OF b(4,1) env(3), of key] b(2,3) by (auto simp: add_spec_def lookup)
  obtain qka where qka: "QKA_for_leaf env b ?rd' = Some (Some qka)" "packet_type (hdr qka) = PT_QKA"
    "says qka = [(PT_SNA, ip_bytes leaf), (PT_QNA, ip_bytes b @ port_bytes b), (PT_QK, le_bytes 4 (unat key))]"
    using QKA_for_leaf_ok[OF env(1,2), of b ?rd'] by (cases leaf) auto
  have "combo_addr_eq_ip (remote_host (con_of st c)) (combo_addr_set_port leaf 0)" using reg(3) by (cases leaf) simp_all
  then obtain c' where c': "registry (con_of st c')" "combo_addr_eq_ip (remote_host (con_of st c')) (combo_addr_set_port leaf 0)"
    "g2_conreg_for_ip (combo_addr_set_port leaf 0) (QKA_SNA_callback env ?parg ?rd') (con_reg st) (Some (con_sent st)) =
       Some (QKA_SNA_callback env ?parg ?rd' c' (Some (con_sent st)))"
    using for_ip_ok[OF reg(1), of "combo_addr_set_port leaf 0" "QKA_SNA_callback env ?parg ?rd'" "Some (con_sent st)"] reg(2)
    unfolding con_of_def by metis
  have "combo_addr_eq_ip (remote_host (con_of st c')) leaf" using c'(2) by (cases leaf; cases "remote_host (con_of st c')") simp_all
  moreover have "handle_QKA env ?parg r st = Some (False, st\<lparr>qk_keys := k, con_sent := con_sent st @ [(c', qka)]\<rparr>)"
    using r(1) w(2,3) QKA_walk[OF w(1), of "stack env 4" ?rd] k(1) c'(3) qka(1)
    by (simp add: handle_QKA_def QKA_SNA_callback_def)
  ultimately show ?thesis using k(2,3) c'(1) qka(2,3) by auto
qed

text \<open>Both steps from the packet of a datagram, through the dispatch.\<close>

lemma QKR_datagram:
  assumes env: "stack_ok env" "our_server_upeer env"
    and q: "small_head PT_QKR p" "list_all2 small_leaf [(PT_SNA, ip_bytes leaf)] cs" "cs \<noteq> []" "length cs \<le> 4" "extracted (G2_Packet p cs) r"
    and a: "combo_addr_is_public a" "combo_addr_port a \<noteq> 0" "\<not> combo_addr_eq_ip a leaf"
  shows "\<exists>st' qka. decide_spec_udp env guid route other a b r st = Some (False, [], st') \<and>
    udp_sent st' = udp_sent st @ [(a, b, qka)] \<and> qk_salts st' = qk_salts st \<and>
    (\<exists>p2 cs2. qka = G2_Packet p2 cs2 \<and> small_head PT_QKA p2 \<and>
      list_all2 small_leaf [(PT_SNA, ip_bytes leaf), (PT_QK, le_bytes 4 (unat (g2_qk_generate (qk_salts st) a)))] cs2)"
proof -
  note r = small_tree_walks[OF q] and local = small_tree_local[OF q]
  have "sna_part a (Some (combo_addr_set_port leaf 0)) = [(PT_SNA, ip_bytes leaf)]"
    using a(3) by (cases leaf; cases a) (simp_all add: sna_part_def)
  then obtain p2 cs2 where 2: "handle_QKR env \<lparr>connec = None, src_addr = a, dst_addr = b\<rparr> r (st\<lparr>target := []\<rparr>) =
      Some (False, st\<lparr>target := [], udp_sent := udp_sent st @ [(a, b, G2_Packet p2 cs2)]\<rparr>)"
    "small_head PT_QKA p2" "list_all2 small_leaf [(PT_SNA, ip_bytes leaf), (PT_QK, le_bytes 4 (unat (g2_qk_generate (qk_salts st) a)))] cs2"
    using send_qka_ok[OF a(1,2) env(1), of "Some (combo_addr_set_port leaf 0)" b "st\<lparr>target := []\<rparr>"]
    unfolding handle_QKR_answers[OF env(2,1) r(2,3)] by auto
  then have "decide_spec_udp env guid route other a b r st =
      Some (False, [], st\<lparr>udp_sent := udp_sent st @ [(a, b, G2_Packet p2 cs2)]\<rparr>)"
    using r(1) local by (cases st) (simp add: decide_spec_udp_def udp_action_def)
  then show ?thesis using 2(2,3) by auto
qed

lemma QKA_datagram:
  assumes env: "stack_ok env" "\<forall>i. have_packet env i" "stamp_ok (time_now env)"
    and q: "small_head PT_QKA p" "list_all2 small_leaf [(PT_SNA, ip_bytes leaf), (PT_QK, le_bytes 4 (unat key))] cs" "cs \<noteq> []" "length cs \<le> 4"
      "extracted (G2_Packet p cs) r"
    and b: "combo_addr_is_public b" "g2_qk_lookup b (qk_keys st) = None" "free_list (qk_keys st) \<noteq> []" "qk_cache_ok (qk_keys st)"
    and reg: "reg_ok (con_reg st)" "registry (con_of st c)" "remote_host (con_of st c) = leaf"
  shows "\<exists>st' c' qka. decide_spec_udp env guid route other b a r st = Some (False, [], st') \<and>
    g2_qk_lookup b (qk_keys st') = Some key \<and>
    con_sent st' = con_sent st @ [(c', qka)] \<and> registry (con_of st c') \<and> combo_addr_eq_ip (remote_host (con_of st c')) leaf \<and>
    says qka = [(PT_SNA, ip_bytes leaf), (PT_QNA, ip_bytes b @ port_bytes b), (PT_QK, le_bytes 4 (unat key))]"
proof -
  note r = small_tree_walks[OF q] and local = small_tree_local[OF q]
  have co: "con_of (st\<lparr>target := []\<rparr>) = con_of st" by (simp add: con_of_def fun_eq_iff)
  obtain st' c' qka where 3: "handle_QKA env \<lparr>connec = None, src_addr = b, dst_addr = a\<rparr> r (st\<lparr>target := []\<rparr>) = Some (False, st')"
    "target st' = []" "g2_qk_lookup b (qk_keys st') = Some key" "con_sent st' = con_sent st @ [(c', qka)]"
    "registry (con_of st c')" "combo_addr_eq_ip (remote_host (con_of st c')) leaf"
    "says qka = [(PT_SNA, ip_bytes leaf), (PT_QNA, ip_bytes b @ port_bytes b), (PT_QK, le_bytes 4 (unat key))]"
    using handle_QKA_keeps[OF env r(2,3) b(1), of "st\<lparr>target := []\<rparr>" c a] b(2-4) reg unfolding co by auto
  have "decide_spec_udp env guid route other b a r st = Some (False, [], st'\<lparr>target := target st\<rparr>)"
    using r(1) local 3(1,2) by (simp add: decide_spec_udp_def udp_action_def PT_defs)
  then show ?thesis using 3(3-7) by (intro exI[of _ "st'\<lparr>target := target st\<rparr>"] exI[of _ c'] exI[of _ qka]) simp
qed

section \<open>The properties\<close>

lemma leaf_over_wire:
  assumes q: "filled p bs q" "packet_encode p = DECIDE_ENCODE" "\<not> is_literal p" "packet_type p < PT_MAXIMUM" "packet_type p \<noteq> PT_UNKNOWN"
      "length bs \<le> 18"
    and t: "wire_ready 28 t c"
  shows "\<exists>c'. over_wire t c (G2_Packet q []) = Some c' \<and> arrived (packet_type p, bs) c'"
proof -
  let ?q = "G2_Packet q []"
  have leaf: "small_leaf (packet_type p, bs) ?q" by (rule filled_leaf[OF q(1,4,5,3,6)])
  note ok = small_leaf_ok[OF leaf]
  have "can_prep 0 ?q" "packet_encode (hdr ?q) = DECIDE_ENCODE" using ok(3) q by (simp_all add: can_prep_def filled_def)
  from over_wire_received[OF ok(1) this ok(2) t ok(4)] show ?thesis using small_leaf_arrives[OF leaf] by blast
qed

text \<open>
  C37: An address that is written to a packet, with its port or, in a sending address, with the port if there is one, is read
  again from the packet that was received.
\<close>

theorem address_over_wire:
  assumes p: "length (pd p) = PD_OUT_SIZE" "packet_encode p = DECIDE_ENCODE" "\<not> is_literal p" "packet_type p < PT_MAXIMUM" "packet_type p \<noteq> PT_UNKNOWN"
    and t: "wire_ready 28 t c"
  shows "(\<exists>q c'. write_na_to_packet malloc p a = Some (True, q) \<and> over_wire t c (G2_Packet q []) = Some c' \<and>
      packet_type c' = packet_type p \<and> read_na_from_packet c' b = Some (True, a)) \<and>
    (\<exists>q c'. write_sna_to_packet malloc p a = Some (True, q) \<and> over_wire t c (G2_Packet q []) = Some c' \<and>
      packet_type c' = packet_type p \<and> read_sna_from_packet c' b = Some (True, a))"
proof
  have len: "length (ip_bytes a @ port_bytes a) \<le> 18"
    "length (ip_bytes a @ (if combo_addr_port a \<noteq> 0 then port_bytes a else [])) \<le> 18"
    using ip_length_le[of a] by (simp_all add: port_bytes_def)
  obtain q where q: "write_na_to_packet malloc p a = Some (True, q)" "filled p (ip_bytes a @ port_bytes a) q"
    using write_na_ok[OF p(1)] by blast
  obtain c' where "over_wire t c (G2_Packet q []) = Some c'" "arrived (packet_type p, ip_bytes a @ port_bytes a) c'"
    using leaf_over_wire[OF q(2) p(2-5) len(1) t] by blast
  then show "\<exists>q c'. write_na_to_packet malloc p a = Some (True, q) \<and> over_wire t c (G2_Packet q []) = Some c' \<and>
      packet_type c' = packet_type p \<and> read_na_from_packet c' b = Some (True, a)"
    using q(1) read_na_ok[of c' a b] by (auto simp: arrived_def)
  obtain s where s: "write_sna_to_packet malloc p a = Some (True, s)"
    "filled p (ip_bytes a @ (if combo_addr_port a \<noteq> 0 then port_bytes a else [])) s"
    using write_sna_ok[OF p(1)] by blast
  obtain c' where "over_wire t c (G2_Packet s []) = Some c'"
    "arrived (packet_type p, ip_bytes a @ (if combo_addr_port a \<noteq> 0 then port_bytes a else [])) c'"
    using leaf_over_wire[OF s(2) p(2-5) len(2) t] by blast
  then show "\<exists>q c'. write_sna_to_packet malloc p a = Some (True, q) \<and> over_wire t c (G2_Packet q []) = Some c' \<and>
      packet_type c' = packet_type p \<and> read_sna_from_packet c' b = Some (True, a)"
    using s(1) read_sna_ok[of c' a b] by (auto simp: arrived_def)
qed

definition blank_packet :: g2_packet where
  "blank_packet = \<lparr>plength = 7, type_length = 1, length_length = 2, packet_type = PT_QNA, big_endian = True, is_compound = True,
     c_reserved = False, packet_decode = CHECK_CONTROLL_BYTE, packet_encode = DECIDE_ENCODE, more_bytes_needed = True, is_freeable = False,
     data_trunk_is_freeable = False, is_literal = False, pd = replicate PD_OUT_SIZE 0xAA, data_trunk = INIT_PBUF\<rparr>"

definition blank_buffer :: pointer_buff where
  "blank_buffer = \<lparr>pos = 0, limit = 200, capacity = 200, data = Some (replicate 200 0)\<rparr>"

lemma blank_ready: "n \<le> 200 \<Longrightarrow> wire_ready n blank_buffer blank_packet"
  by (simp add: wire_ready_def blank_buffer_def blank_packet_def wf_buff_def buffer_remaining_def SIZE_MAX_def)

theorem address_over_wire_witness:
  "\<exists>q c'. write_na_to_packet (\<lambda>_. None) blank_packet (In6 1 2 3 4 6346) = Some (True, q) \<and>
     over_wire blank_buffer blank_packet (G2_Packet q []) = Some c' \<and> read_na_from_packet c' (In 0 0) = Some (True, In6 1 2 3 4 6346)"
proof -
  have p: "length (pd blank_packet) = PD_OUT_SIZE" "packet_encode blank_packet = DECIDE_ENCODE" "\<not> is_literal blank_packet"
    "packet_type blank_packet < PT_MAXIMUM" "packet_type blank_packet \<noteq> PT_UNKNOWN"
    by (simp_all add: blank_packet_def PT_defs)
  have t: "wire_ready 28 blank_buffer blank_packet" by (rule blank_ready) simp
  show ?thesis using address_over_wire[OF p t, of "\<lambda>_. None" "In6 1 2 3 4 6346" "In 0 0"] by blast
qed

text \<open>One packet from a hub to another, in a datagram.\<close>

lemma small_tree_hop:
  assumes p: "small_head ty p" and cs: "list_all2 small_leaf xs cs" "cs \<noteq> []" "length cs \<le> 4"
    and env: "udp_ready u" "has_socket u dest" "udp_ready u'" and d: "wf_buff d" "500 \<le> capacity d"
    and dest: "combo_addr_is_public dest" "combo_addr_port dest \<noteq> 0" and src: "combo_addr_is_public a"
  shows "\<exists>w1 dg e c. g2_udp_send u wc dest frm [G2_Packet p cs] w = Some w1 \<and> on_wire w1 = on_wire w @ [(dest, dg)] \<and>
    udp_recv d dg = Some e \<and> extracted (G2_Packet p cs) c \<and>
    (\<forall>st'. decide_spec rst a dest c st = Some (False, [], st') \<longrightarrow> handle_udp_packet u' rst e a dest fd w' st = Some (w', st'))"
proof -
  let ?q = "G2_Packet p cs"
  note ok = small_tree_ok[OF p cs]
  have pub: "\<not> combo_addr_is_forbidden dest" "\<not> combo_addr_is_forbidden a"
    using forbidden_not_public dest(1) src by blast+
  have size: "psize ?q \<le> 320" using ok(5) by simp
  obtain sq w1 where 1: "g2_udp_send u wc dest frm [?q] w = Some w1"
    "on_wire w1 = on_wire w @ [(dest, gnd_header sq 1 1 0 @ wire (prep_tree ?q))]"
    using udp_send_one[OF ok(1,4) size pub(1) dest(2) env(1,2)] by blast
  have "length (gnd_header sq 1 1 0 @ wire (prep_tree ?q)) \<le> capacity d"
    using wire_prep_tree[OF ok(1,2)] ok(5) d(2) by simp
  then obtain e where e: "udp_recv d (gnd_header sq 1 1 0 @ wire (prep_tree ?q)) = Some e" "wf_buff e"
    "buffer_bytes e = gnd_header sq 1 1 0 @ wire (prep_tree ?q)"
    using udp_recv_ok[OF d(1)] by blast
  from handle_one[OF ok(1-3) e(2,3) pub(2) env(3), of rst dest fd w' st]
  obtain c where "extracted ?q c" "\<forall>st'. decide_spec rst a dest c st = Some (False, [], st') \<longrightarrow>
      handle_udp_packet u' rst e a dest fd w' st = Some (w', st')" by auto
  then show ?thesis using 1 e(1) by blast
qed

text \<open>
  C36: A leaf asks its hub for the key of a hub at the public address \<open>b\<close> with a port.  The request has been read, the key is not in the cache
  and the cache has room.  The hub sends a request in a datagram to \<open>b\<close>, which
  sees it come from a public address \<open>a\<close> with a port and another IP than the leaf's, and answers with a key; the answer arrives in a datagram,
  the key is in the cache, it is passed on to a connection of the registry with the leaf's IP, and the hub at \<open>b\<close> accepts it from \<open>a\<close>.
  Memory can be had, both hubs have sockets to send from, and no datagram is lost.
\<close>

theorem key_exchange:
  assumes env: "stack_ok envA" "stack_ok envB" "our_server_upeer envB" "\<forall>i. have_packet envA i" "stamp_ok (time_now envA)"
    and ask: "r_queried_na_valid rdata" "r_queried_na rdata = b" "combo_addr_is_public b" "combo_addr_port b \<noteq> 0"
    and keys: "g2_qk_lookup b (qk_keys stA) = None" "free_list (qk_keys stA) \<noteq> []" "qk_cache_ok (qk_keys stA)"
    and reg: "reg_ok (con_reg stA)" "registry (con_of stA c)" "remote_host (con_of stA c) = leaf" "\<not> combo_addr_eq_ip a leaf"
    and a: "combo_addr_is_public a" "combo_addr_port a \<noteq> 0" "act_salt (qk_salts stB) < TIME_SLOT_COUNT"
    and udp: "udp_ready uA" "udp_ready uB" "has_socket uA b" "has_socket uB a"
    and buf: "wf_buff dA" "500 \<le> capacity dA" "wf_buff dB" "500 \<le> capacity dB"
  shows "\<exists>stA1 frm qkr wA1 dg1 e1 stB1 qka wB1 dg2 e2 stA2 key c' qka'.
    handle_QKR_connec envA c rdata stA = Some (False, stA1) \<and> udp_sent stA1 = udp_sent stA @ [(b, frm, qkr)] \<and>
    g2_udp_send uA wcA b frm [qkr] wA = Some wA1 \<and> on_wire wA1 = on_wire wA @ [(b, dg1)] \<and> udp_recv dB dg1 = Some e1 \<and>
    handle_udp_packet uB (rB\<lparr>decide_spec := decide_spec_udp envB guidB routeB otherB\<rparr>) e1 a b fdB wB stB = Some (wB, stB1) \<and>
    udp_sent stB1 = udp_sent stB @ [(a, b, qka)] \<and>
    g2_udp_send uB wcB a b [qka] wB = Some wB1 \<and> on_wire wB1 = on_wire wB @ [(a, dg2)] \<and> udp_recv dA dg2 = Some e2 \<and>
    handle_udp_packet uA (rA\<lparr>decide_spec := decide_spec_udp envA guidA routeA otherA\<rparr>) e2 b a fdA wA1 stA1 = Some (wA1, stA2) \<and>
    g2_qk_lookup b (qk_keys stA2) = Some key \<and> g2_qk_check (qk_salts stB1) a key \<and>
    con_sent stA2 = con_sent stA @ [(c', qka')] \<and> registry (con_of stA c') \<and> combo_addr_eq_ip (remote_host (con_of stA c')) leaf \<and>
    says qka' = [(PT_SNA, ip_bytes leaf), (PT_QNA, ip_bytes b @ port_bytes b), (PT_QK, le_bytes 4 (unat key))]"
proof -
  let ?rA = "rA\<lparr>decide_spec := decide_spec_udp envA guidA routeA otherA\<rparr>"
  let ?rB = "rB\<lparr>decide_spec := decide_spec_udp envB guidB routeB otherB\<rparr>"
  obtain frm p1 cs1 where 1: "handle_QKR_connec envA c rdata stA = Some (False, stA\<lparr>last_data_active := insert c (last_data_active stA),
      udp_sent := udp_sent stA @ [(b, frm, G2_Packet p1 cs1)]\<rparr>)"
    "small_head PT_QKR p1" "list_all2 small_leaf [(PT_SNA, ip_bytes leaf)] cs1"
    using handle_QKR_connec_asks[of rdata stA envA c] ask keys(1) reg(3) by auto
  define stA1 where "stA1 = stA\<lparr>last_data_active := insert c (last_data_active stA), udp_sent := udp_sent stA @ [(b, frm, G2_Packet p1 cs1)]\<rparr>"
  have cs1: "cs1 \<noteq> []" "length cs1 \<le> 4" using 1(3) list_all2_lengthD[OF 1(3)] by auto
  obtain wA1 dg1 e1 c1 where h1: "g2_udp_send uA wcA b frm [G2_Packet p1 cs1] wA = Some wA1" "on_wire wA1 = on_wire wA @ [(b, dg1)]"
    "udp_recv dB dg1 = Some e1" "extracted (G2_Packet p1 cs1) c1"
    "\<forall>st'. decide_spec ?rB a b c1 stB = Some (False, [], st') \<longrightarrow> handle_udp_packet uB ?rB e1 a b fdB wB stB = Some (wB, st')"
    using small_tree_hop[OF 1(2,3) cs1 udp(1,3,2) buf(3,4) ask(3,4) a(1), of wcA frm wA ?rB stB fdB wB] by (elim exE conjE)
  let ?key = "g2_qk_generate (qk_salts stB) a"
  obtain stB1 qka p2 cs2 where 2: "decide_spec_udp envB guidB routeB otherB a b c1 stB = Some (False, [], stB1)"
    "udp_sent stB1 = udp_sent stB @ [(a, b, qka)]" "qk_salts stB1 = qk_salts stB"
    and q2: "qka = G2_Packet p2 cs2" "small_head PT_QKA p2"
      "list_all2 small_leaf [(PT_SNA, ip_bytes leaf), (PT_QK, le_bytes 4 (unat ?key))] cs2"
    using QKR_datagram[OF env(2,3) 1(2,3) cs1 h1(4) a(1,2) reg(4), of guidB routeB otherB b stB]
    by (elim exE conjE)
  have cs2: "cs2 \<noteq> []" "length cs2 \<le> 4" using q2(3) list_all2_lengthD[OF q2(3)] by auto
  obtain wB1 dg2 e2 c2 where h2: "g2_udp_send uB wcB a b [qka] wB = Some wB1" "on_wire wB1 = on_wire wB @ [(a, dg2)]"
    "udp_recv dA dg2 = Some e2" "extracted (G2_Packet p2 cs2) c2"
    "\<forall>st'. decide_spec ?rA b a c2 stA1 = Some (False, [], st') \<longrightarrow> handle_udp_packet uA ?rA e2 b a fdA wA1 stA1 = Some (wA1, st')"
    using small_tree_hop[OF q2(2,3) cs2 udp(2,4,1) buf(1,2) a(1,2) ask(3), of wcB b wB ?rA stA1 fdA wA1] unfolding q2(1) by (elim exE conjE)
  have st: "qk_keys stA1 = qk_keys stA" "con_reg stA1 = con_reg stA" "con_sent stA1 = con_sent stA" "con_of stA1 = con_of stA"
    by (simp_all add: stA1_def con_of_def fun_eq_iff)
  obtain stA2 c' qka' where 3: "decide_spec_udp envA guidA routeA otherA b a c2 stA1 = Some (False, [], stA2)"
    "g2_qk_lookup b (qk_keys stA2) = Some ?key" "con_sent stA2 = con_sent stA @ [(c', qka')]"
    "registry (con_of stA c')" "combo_addr_eq_ip (remote_host (con_of stA c')) leaf"
    "says qka' = [(PT_SNA, ip_bytes leaf), (PT_QNA, ip_bytes b @ port_bytes b), (PT_QK, le_bytes 4 (unat ?key))]"
    using QKA_datagram[OF env(1,4,5) q2(2,3) cs2 h2(4) ask(3), of stA1 c guidA routeA otherA a, unfolded st, OF keys reg(1-3)]
    by (elim exE conjE)
  have r1: "handle_udp_packet uB ?rB e1 a b fdB wB stB = Some (wB, stB1)" using h1(5) 2(1) by simp
  have r2: "handle_udp_packet uA ?rA e2 b a fdA wA1 stA1 = Some (wA1, stA2)" using h2(5) 3(1) by simp
  have "g2_qk_check (qk_salts stB1) a ?key" unfolding 2(3) by (rule check_generated[OF a(3) refl])
  moreover have "udp_sent stA1 = udp_sent stA @ [(b, frm, G2_Packet p1 cs1)]" by (simp add: stA1_def)
  ultimately show ?thesis
    using 1(1)[folded stA1_def] h1(1-3) r1 2(2) h2(1-3) r2 3(2-6)
    by (intro exI[of _ stA1] exI[of _ frm] exI[of _ "G2_Packet p1 cs1"] exI[of _ wA1] exI[of _ dg1] exI[of _ e1] exI[of _ stB1] exI[of _ qka]
        exI[of _ wB1] exI[of _ dg2] exI[of _ e2] exI[of _ stA2] exI[of _ ?key] exI[of _ c'] exI[of _ qka'] conjI)
qed

definition example_env :: key_env where
  "example_env = \<lparr>key_malloc = \<lambda>_. None, have_packet = \<lambda>_. True, stack = \<lambda>_. blank_packet, stack_na = \<lambda>_. In 1 1, sockname = \<lambda>_. None,
     bind_ip4 = In 0 6346, bind_ip6 = In6 0 0 0 0 6346, our_server_upeer = True, time_now = 100\<rparr>"

definition example_state :: "conreg \<Rightarrow> key_state" where
  "example_state r = \<lparr>qk_salts = g2_qk_s example_qk, qk_keys = qk_init 7, con_reg = r, last_data_active = {}, udp_sent = [], con_sent = [], target = []\<rparr>"

definition example_request :: "combo_addr \<Rightarrow> QKR_data" where
  "example_request b = \<lparr>r_requesting_na = In 1 1, r_queried_na = b, r_sending_na = In 1 1, r_refresh = False,
     r_requesting_na_valid = False, r_queried_na_valid = True, r_sending_na_valid = False\<rparr>"

definition example_udp :: udp_env where
  "example_udp = \<lparr>sendto = \<lambda>_ _ bs. int (length bs), udp_malloc = \<lambda>n. Some (replicate n 0), sequence_seed = 5,
     udp_sos = [(In 0 6346, 3), (In6 0 0 0 0 6346, 4)],
     udp_get_lsbuf = Some \<lparr>pos = 0, limit = 0, capacity = 4072, data = Some (replicate 4072 0xAA)\<rparr>, g_packet_store = blank_packet\<rparr>"

definition example_recv :: norm_buff where
  "example_recv = \<lparr>pos = 0, limit = 0, capacity = 4072, data = Some (replicate 4072 0x55)\<rparr>"

definition example_rest :: "key_env \<Rightarrow> key_state udp_rest" where
  "example_rest env = \<lparr>g2_udp_reas_add = \<lambda>_ _ _ _ s. (None, s), inflate_extract = \<lambda>_ _. None,
     decide_spec = decide_spec_udp env (replicate 16 1) (\<lambda>_ _ _ _. None) (\<lambda>_ _ _ _. None), writeout_deflated = \<lambda>_ _ _ _ _ _. None\<rparr>"

lemma example_udp_ready: "udp_ready example_udp" "has_socket example_udp (In x y)" "wf_buff example_recv" "500 \<le> capacity example_recv"
  by (simp_all add: udp_ready_def has_socket_def example_udp_def example_recv_def blank_packet_def wf_buff_def SIZE_MAX_def)

theorem key_exchange_witness:
  "\<exists>r stA1 frm qkr wA1 dg1 e1 stB1 qka wB1 dg2 e2 stA2 key qka'.
    handle_QKR_connec example_env 3 (example_request (In (htonl 0x08080808) 6346)) (example_state r) = Some (False, stA1) \<and>
    udp_sent stA1 = [(In (htonl 0x08080808) 6346, frm, qkr)] \<and>
    g2_udp_send example_udp (\<lambda>_ _ _ _ _ _. None) (In (htonl 0x08080808) 6346) frm [qkr]
      \<lparr>internal_sequence = replicate 16 7, on_wire = []\<rparr> = Some wA1 \<and>
    on_wire wA1 = [(In (htonl 0x08080808) 6346, dg1)] \<and> udp_recv example_recv dg1 = Some e1 \<and>
    handle_udp_packet example_udp (example_rest example_env) e1 (In (htonl 0x08080404) 6346) (In (htonl 0x08080808) 6346) 3
      \<lparr>internal_sequence = replicate 16 9, on_wire = []\<rparr> (example_state r) = Some (\<lparr>internal_sequence = replicate 16 9, on_wire = []\<rparr>, stB1) \<and>
    udp_sent stB1 = [(In (htonl 0x08080404) 6346, In (htonl 0x08080808) 6346, qka)] \<and>
    g2_udp_send example_udp (\<lambda>_ _ _ _ _ _. None) (In (htonl 0x08080404) 6346) (In (htonl 0x08080808) 6346) [qka]
      \<lparr>internal_sequence = replicate 16 9, on_wire = []\<rparr> = Some wB1 \<and>
    on_wire wB1 = [(In (htonl 0x08080404) 6346, dg2)] \<and> udp_recv example_recv dg2 = Some e2 \<and>
    handle_udp_packet example_udp (example_rest example_env) e2 (In (htonl 0x08080808) 6346) (In (htonl 0x08080404) 6346) 3 wA1 stA1 =
      Some (wA1, stA2) \<and>
    g2_qk_lookup (In (htonl 0x08080808) 6346) (qk_keys stA2) = Some key \<and> g2_qk_check (qk_salts stB1) (In (htonl 0x08080404) 6346) key \<and>
    con_sent stA2 = [(3, qka')]"
proof -
  let ?a = "In (htonl 0x08080404) 6346" and ?b = "In (htonl 0x08080808) 6346"
  obtain r0 where r0: "conreg_start r0" "cons r0 = idle_con" using example_start by blast
  obtain r where r: "reg_ok r" "cons r = idle_con(3 := (idle_con 3)\<lparr>registry := True\<rparr>)"
    using reg_add_ok[OF reg_ok_start[OF r0(1)], of 3] r0(2) by (auto simp: idle_con_def)
  let ?st = "example_state r"
  have env: "stack_ok example_env" "our_server_upeer example_env" "\<forall>i. have_packet example_env i" "stamp_ok (time_now example_env)"
    by (simp_all add: example_env_def stack_ok_def blank_packet_def stamp_ok_def)
  have pub: "combo_addr_is_public ?a" "combo_addr_is_public ?b" by code_simp+
  have ask: "r_queried_na_valid (example_request ?b)" "r_queried_na (example_request ?b) = ?b" "combo_addr_port ?b \<noteq> 0" "combo_addr_port ?a \<noteq> 0"
    by (simp_all add: example_request_def)
  have free: "free_list (qk_keys ?st) \<noteq> []" by (simp add: example_state_def qk_init_def) (simp add: QK_CACHE_SIZE_def)
  have none0: "g2_qk_lookup ?b (qk_keys ?st) = None"
    by (simp add: example_state_def g2_qk_lookup_def qk_ht_lookup_def chain_find_def qk_init_def qk_ht_index_less)
  have keys: "qk_cache_ok (qk_keys ?st)" "act_salt (qk_salts ?st) < TIME_SLOT_COUNT"
    using qk_init_cache_ok by (simp_all add: example_state_def example_qk_def TIME_SLOT_COUNT_def)
  have host: "combo_addr_eq_ip (remote_host (con_of ?st c)) (In 3 5) \<Longrightarrow> registry (con_of ?st c) \<Longrightarrow> c = 3" for c
    using r(2) by (auto simp: con_of_def example_state_def idle_con_def split: if_splits)
  have reg: "reg_ok (con_reg ?st)" "registry (con_of ?st 3)" "remote_host (con_of ?st 3) = In 3 5" "\<not> combo_addr_eq_ip ?a (In 3 5)"
    using r by (simp_all add: example_state_def con_of_def idle_con_def htonl_def)
  note u = example_udp_ready
  have rest: "(example_rest example_env)\<lparr>decide_spec := decide_spec_udp example_env (replicate 16 1) (\<lambda>_ _ _ _. None) (\<lambda>_ _ _ _. None)\<rparr> =
    example_rest example_env" by (simp add: example_rest_def)
  have none: "udp_sent ?st = []" "con_sent ?st = []" "on_wire \<lparr>internal_sequence = replicate 16 7, on_wire = []\<rparr> = []"
    "on_wire \<lparr>internal_sequence = replicate 16 9, on_wire = []\<rparr> = []" by (simp_all add: example_state_def)
  from key_exchange[OF env(1,1,2,3,4) ask(1,2) pub(2) ask(3) none0 free keys(1) reg pub(1) ask(4) keys(2) u(1,1,2,2) u(3,4,3,4),
      where wcA = "\<lambda>_ _ _ _ _ _. None" and wA = "\<lparr>internal_sequence = replicate 16 7, on_wire = []\<rparr>" and rA = "example_rest example_env"
        and guidA = "replicate 16 1" and routeA = "\<lambda>_ _ _ _. None" and otherA = "\<lambda>_ _ _ _. None" and fdA = 3
        and wB = "\<lparr>internal_sequence = replicate 16 9, on_wire = []\<rparr>" and wcB = "\<lambda>_ _ _ _ _ _. None" and rB = "example_rest example_env"
        and guidB = "replicate 16 1" and routeB = "\<lambda>_ _ _ _. None" and otherB = "\<lambda>_ _ _ _. None" and fdB = 3] host
  show ?thesis unfolding rest none append_Nil by blast
qed

end
