(* ===== verification/Timer.thy ===== *)
theory Timer
  imports Timed_Cache
begin

text \<open>
  The timer of \<^verbatim>\<open>timeout.c\<close>: timeouts in a red-black tree ordered by time, and the thread that runs those that
  have expired.  An address of a timeout is also the address of its node.  What the function of a timeout does, with the tree
  unlocked, is a parameter, and so is the clock.
\<close>

definition DSEC2NSEC :: int where "DSEC2NSEC = 100 * 1000 * 1000"
definition ONESEC_AS_NSEC :: int where "ONESEC_AS_NSEC = 1 * 1000 * 1000 * 1000"

record timespec =
  tv_sec :: int
  tv_nsec :: int

record timeout =
  to_time :: timespec
  rearm_in_progress :: bool

text \<open>\<open>wakeup\<close>, the timeouts, the thread's idea of the time, how often the thread was woken and how often the clock was read.\<close>

record timers =
  wakeup_tree :: rb_mem
  wakeup_time :: timespec
  wakeup_abort :: bool
  timeouts :: "ptr \<Rightarrow> timeout"
  local_time_now :: int
  broadcasts :: nat
  clock_reads :: nat

subsection \<open>Times\<close>

definition to2sec :: "u32 \<Rightarrow> int" where
  "to2sec timeout = uint timeout div 10"

definition to2nsec :: "u32 \<Rightarrow> int" where
  "to2nsec timeout = (uint timeout mod 10) * DSEC2NSEC"

definition usec2nsec :: "int \<Rightarrow> int" where
  "usec2nsec usec = usec * 1000"

definition timespec_after :: "timespec \<Rightarrow> timespec \<Rightarrow> bool" where
  "timespec_after a b = (if tv_sec a > tv_sec b then True else if tv_nsec a \<ge> tv_nsec b then True else False)"

text \<open>The times are in the timeouts, so that their addresses differ as those of the timeouts.\<close>

definition timespec_cmp :: "timers \<Rightarrow> ptr \<Rightarrow> ptr \<Rightarrow> int" where
  "timespec_cmp w p q =
     (let a = to_time (timeouts w p); b = to_time (timeouts w q); ret = tv_sec a - tv_sec b
      in if ret \<noteq> 0 then ret
         else let ret = tv_nsec a - tv_nsec b in if ret \<noteq> 0 then ret else int p - int q)"

definition timespec_fill_local :: "timers \<Rightarrow> timespec" where
  "timespec_fill_local w = \<lparr>tv_sec = local_time_now w, tv_nsec = 0\<rparr>"

text \<open>\<open>gettimeofday\<close> gives seconds and microseconds or fails.\<close>

type_synonym clock = "nat \<Rightarrow> (int \<times> int) option"

definition timespec_fill :: "clock \<Rightarrow> timespec \<Rightarrow> timers \<Rightarrow> bool \<times> timespec \<times> timers" where
  "timespec_fill clock t w =
     (let x = clock (clock_reads w); w = w\<lparr>clock_reads := Suc (clock_reads w)\<rparr>
      in case x of
           None \<Rightarrow> (False, t, w)
         | Some (s, us) \<Rightarrow> (True, \<lparr>tv_sec = s, tv_nsec = usec2nsec us\<rparr>, w))"

definition timespec_add :: "timespec \<Rightarrow> u32 \<Rightarrow> timespec" where
  "timespec_add t timeout =
     (let t = t\<lparr>tv_sec := tv_sec t + to2sec timeout, tv_nsec := tv_nsec t + to2nsec timeout\<rparr>
      in if tv_nsec t \<ge> ONESEC_AS_NSEC then t\<lparr>tv_sec := tv_sec t + 1, tv_nsec := tv_nsec t - ONESEC_AS_NSEC\<rparr> else t)"

subsection \<open>The tree\<close>

definition timeout_nearest :: "timers \<Rightarrow> ptr option" where
  "timeout_nearest w = rb_first (wakeup_tree w)"

definition timeout_rb_insert :: "ptr \<Rightarrow> timers \<Rightarrow> (bool \<times> timers) option" where
  "timeout_rb_insert t w = do {
     place \<leftarrow> descend (timespec_cmp w t) (wakeup_tree w) 0 Root;
     (case place of
        None \<Rightarrow> Some (False, w)
      | Some (parent, p) \<Rightarrow> do {
          m \<leftarrow> rb_link_node t parent p (wakeup_tree w);
          m \<leftarrow> rb_insert_color t m;
          Some (True, w\<lparr>wakeup_tree := m\<rparr>) }) }"

definition set_timeout :: "ptr \<Rightarrow> (timeout \<Rightarrow> timeout) \<Rightarrow> timers \<Rightarrow> timers" where
  "set_timeout p f w = w\<lparr>timeouts := (timeouts w)(p := f (timeouts w p))\<rparr>"

text \<open>\<open>rb_erase\<close> and \<open>RB_CLEAR_NODE\<close>.\<close>

definition unlink :: "ptr \<Rightarrow> timers \<Rightarrow> timers option" where
  "unlink p w = do {
     m \<leftarrow> rb_erase p (wakeup_tree w);
     m \<leftarrow> RB_CLEAR_NODE p m;
     Some (w\<lparr>wakeup_tree := m\<rparr>) }"

definition wake :: "bool \<Rightarrow> ptr \<Rightarrow> timers \<Rightarrow> timers" where
  "wake inserted p w =
     (if inserted \<and> \<not> timespec_after (to_time (timeouts w p)) (wakeup_time w)
      then w\<lparr>broadcasts := Suc (broadcasts w)\<rparr> else w)"

subsection \<open>Operations\<close>

definition INIT_TIMEOUT :: "ptr \<Rightarrow> timers \<Rightarrow> timers option" where
  "INIT_TIMEOUT p w = do {
     m \<leftarrow> RB_CLEAR_NODE p (wakeup_tree w);
     Some (set_timeout p (rearm_in_progress_update (\<lambda>_. False)) (w\<lparr>wakeup_tree := m\<rparr>)) }"

definition timeout_add :: "ptr \<Rightarrow> u32 \<Rightarrow> timers \<Rightarrow> (bool \<times> timers) option" where
  "timeout_add new_timeout timeout w = do {
     let now = timespec_add (timespec_fill_local w) timeout;
     empty \<leftarrow> RB_EMPTY_NODE (wakeup_tree w) new_timeout;
     if empty \<and> \<not> rearm_in_progress (timeouts w new_timeout) then do {
       (ret_val, w) \<leftarrow> timeout_rb_insert new_timeout (set_timeout new_timeout (to_time_update (\<lambda>_. now)) w);
       Some (ret_val, wake ret_val new_timeout w) }
     else Some (False, w) }"

text \<open>\<open>locked\<close>: somebody else holds the lock of the timeout.\<close>

definition timeout_advance :: "bool \<Rightarrow> ptr \<Rightarrow> u32 \<Rightarrow> timers \<Rightarrow> (bool \<times> timers) option" where
  "timeout_advance locked timeout advancement w = do {
     let now = timespec_add (timespec_fill_local w) advancement;
     if locked then Some (False, w)
     else do {
       empty \<leftarrow> RB_EMPTY_NODE (wakeup_tree w) timeout;
       if empty \<or> rearm_in_progress (timeouts w timeout) then Some (False, w)
       else do {
         w \<leftarrow> unlink timeout w;
         (ret_val, w) \<leftarrow> timeout_rb_insert timeout (set_timeout timeout (to_time_update (\<lambda>_. now)) w);
         Some (ret_val, wake ret_val timeout w) } } }"

text \<open>While the timeout is being armed again, cancelling it waits for the other thread: alone it does not return.\<close>

definition timeout_cancel :: "ptr \<Rightarrow> timers \<Rightarrow> (bool \<times> timers) option" where
  "timeout_cancel who_to_cancel w =
     (if rearm_in_progress (timeouts w who_to_cancel) then None
      else do {
        empty \<leftarrow> RB_EMPTY_NODE (wakeup_tree w) who_to_cancel;
        if \<not> empty then do { w \<leftarrow> unlink who_to_cancel w; Some (True, w) } else Some (False, w) })"

definition timeout_timer_task_abort :: "timers \<Rightarrow> timers" where
  "timeout_timer_task_abort w = w\<lparr>wakeup_abort := True, broadcasts := Suc (broadcasts w)\<rparr>"

subsection \<open>The thread\<close>

text \<open>
  The function of a timeout, if it has one: it may do whatever it wants to the timers and to the rest of the program, and returns
  in how many tenths of a second it wants to be called again, zero for never.
\<close>

type_synonym 's timeout_fun = "ptr \<Rightarrow> (timers \<times> 's \<Rightarrow> (u32 \<times> timers \<times> 's) option) option"

definition run_timeout :: "'s timeout_fun \<Rightarrow> ptr \<Rightarrow> timers \<times> 's \<Rightarrow> (u32 \<times> timers \<times> 's) option" where
  "run_timeout funs t = (\<lambda>(w, s). case funs t of None \<Rightarrow> Some (0, w, s) | Some f \<Rightarrow> f (w, s))"

definition rearm :: "ptr \<Rightarrow> u32 \<Rightarrow> timers \<Rightarrow> timers option" where
  "rearm t ret w = do {
     let w = set_timeout t (rearm_in_progress_update (\<lambda>_. True)) w;
     empty \<leftarrow> RB_EMPTY_NODE (wakeup_tree w) t;
     w \<leftarrow> (if empty
        then map_option snd (timeout_rb_insert t (set_timeout t (to_time_update (\<lambda>_. timespec_add (timespec_fill_local w) ret)) w))
        else Some w);
     Some (set_timeout t (rearm_in_progress_update (\<lambda>_. False)) w) }"

definition kick_one :: "'s timeout_fun \<Rightarrow> timespec \<Rightarrow> ptr \<Rightarrow> int \<Rightarrow> timers \<times> 's \<Rightarrow> (int \<times> timers \<times> 's) option" where
  "kick_one funs now t ret_val = (\<lambda>(w, s). do {
     let w = w\<lparr>local_time_now := tv_sec now\<rparr>;
     empty \<leftarrow> RB_EMPTY_NODE (wakeup_tree w) t;
     if empty then Some (ret_val, w, s)
     else do {
       w \<leftarrow> unlink t w;
       (ret, w, s) \<leftarrow> run_timeout funs t (w, s);
       w \<leftarrow> (if ret \<noteq> 0 then rearm t ret w else Some w);
       Some (0, w, s) } })"

partial_function (option) kick_loop ::
    "clock \<Rightarrow> 's timeout_fun \<Rightarrow> timespec \<Rightarrow> int \<Rightarrow> timers \<times> 's \<Rightarrow> (int \<times> timespec \<times> timers \<times> 's) option" where
  "kick_loop clock funs now ret_val st = do {
     t \<leftarrow> timeout_nearest (fst st);
     if t = 0 \<or> timespec_after (to_time (timeouts (fst st) t)) now then Some (ret_val, now, st)
     else do {
       (ret_val, w, s) \<leftarrow> kick_one funs now t ret_val st;
       let (_, now, w) = timespec_fill clock now w;
       kick_loop clock funs now ret_val (w, s) } }"

definition kick_timeouts :: "clock \<Rightarrow> 's timeout_fun \<Rightarrow> timers \<times> 's \<Rightarrow> (int \<times> timers \<times> 's) option" where
  "kick_timeouts clock funs = (\<lambda>(w, s).
     let (ok, now, w) = timespec_fill clock (wakeup_time w) w
     in if \<not> ok then Some (1, w, s)
        else do {
          (ret_val, now, w, s) \<leftarrow> kick_loop clock funs now 1 (w\<lparr>local_time_now := tv_sec now\<rparr>, s);
          Some (ret_val, w\<lparr>wakeup_time := now\<rparr>, s) })"

text \<open>One round of \<open>timeout_timer_task\<close>; \<open>waited\<close> is what \<open>pthread_cond_timedwait\<close> returns.\<close>

datatype wait_result = Woken | Timed_Out | Wait_Failed

definition timer_round :: "clock \<Rightarrow> 's timeout_fun \<Rightarrow> wait_result \<Rightarrow> timers \<times> 's \<Rightarrow> (timers \<times> 's) option" where
  "timer_round clock funs waited = (\<lambda>(w, s).
     let w = w\<lparr>wakeup_time := \<lparr>tv_sec = tv_sec (wakeup_time w) + 1, tv_nsec = 0\<rparr>\<rparr>
     in if waited = Woken \<and> wakeup_abort w then Some (w, s)
        else if waited \<noteq> Wait_Failed then map_option snd (kick_timeouts clock funs (w, s))
        else Some (w\<lparr>wakeup_abort := True\<rparr>, s))"

end
