(* ===== verification/Timer_Correct.thy ===== *)
theory Timer_Correct
  imports Timer
begin

text \<open>
  The timer as a map from timeouts to their times: the operations, what the thread runs, and what it does not run.
\<close>

subsection \<open>The invariant\<close>

definition ns :: "timespec \<Rightarrow> int" where
  "ns t = tv_sec t * ONESEC_AS_NSEC + tv_nsec t"

definition normal :: "timespec \<Rightarrow> bool" where
  "normal t \<longleftrightarrow> 0 \<le> tv_nsec t \<and> tv_nsec t < ONESEC_AS_NSEC"

definition time_of :: "timers \<Rightarrow> ptr \<Rightarrow> timespec" where
  "time_of w p = to_time (timeouts w p)"

text \<open>Of the timeouts \<open>P\<close>, those in \<open>xs\<close> are in the tree in this order, the earliest first; the others are in no tree.\<close>

definition timer_ok :: "ptr set \<Rightarrow> ptr list \<Rightarrow> timers \<Rightarrow> bool" where
  "timer_ok P xs w \<longleftrightarrow> (\<exists>t. rep (wakeup_tree w) t \<and> rbt t \<and> labels t = xs) \<and> set xs \<subseteq> P \<and> 0 \<notin> P \<and>
     (\<forall>p\<in>P. nodes (wakeup_tree w) p \<noteq> None \<and> (RB_EMPTY_NODE (wakeup_tree w) p = Some (p \<notin> set xs))) \<and>
     newest_first (\<lambda>p. - ns (time_of w p)) xs \<and> (\<forall>p\<in>set xs. normal (time_of w p))"

lemma timer_okD:
  assumes "timer_ok P xs w"
  shows "set xs \<subseteq> P" "0 \<notin> P" "\<And>p. p \<in> P \<Longrightarrow> RB_EMPTY_NODE (wakeup_tree w) p = Some (p \<notin> set xs)"
    "newest_first (\<lambda>p. - ns (time_of w p)) xs" "\<And>p. p \<in> set xs \<Longrightarrow> normal (time_of w p)" "distinct xs"
  using assms by (auto simp: timer_ok_def Rb_Heap.rep_def)

lemma timer_not_null: "timer_ok P xs w \<Longrightarrow> p \<in> P \<Longrightarrow> p \<noteq> 0"
  using timer_okD(2) by metis

lemma in_tree_not_empty: "rep m t \<Longrightarrow> p \<in> set (labels t) \<Longrightarrow> RB_EMPTY_NODE m p = Some False"
  using find_node[of p t] not_empty_node[of m] by auto

lemma empty_node_cong: "nodes m' p = nodes m p \<Longrightarrow> RB_EMPTY_NODE m' p = RB_EMPTY_NODE m p"
  by (simp add: RB_EMPTY_NODE_def deref_def)

text \<open>A changed tree: the nodes outside of the new one are as they were, apart from one that is cleared.\<close>

lemma timer_ok_tree:
  assumes "timer_ok P xs w" "rep m t" "rbt t" "set (labels t) \<subseteq> P"
    and "\<And>p. p \<in> P \<Longrightarrow> p \<notin> set (labels t) \<Longrightarrow> nodes m p \<noteq> None \<and> RB_EMPTY_NODE m p = Some True"
    and "newest_first (\<lambda>p. - ns (time_of w p)) (labels t)" "\<And>p. p \<in> set (labels t) \<Longrightarrow> normal (time_of w p)"
  shows "timer_ok P (labels t) (w\<lparr>wakeup_tree := m\<rparr>)"
proof -
  have "nodes m p \<noteq> None \<and> RB_EMPTY_NODE m p = Some (p \<notin> set (labels t))" if "p \<in> P" for p
    using assms(5)[OF that] rep_nodes[OF assms(2)] in_tree_not_empty[OF assms(2)] by (cases "p \<in> set (labels t)") auto
  moreover have "time_of (w\<lparr>wakeup_tree := m\<rparr>) = time_of w" by (simp add: time_of_def fun_eq_iff)
  ultimately show ?thesis using assms timer_okD(2)[OF assms(1)] by (auto simp: timer_ok_def)
qed

lemma cleared_empty:
  assumes "RB_CLEAR_NODE p m = Some m'"
  shows "RB_EMPTY_NODE m' p = Some True" "nodes m' p \<noteq> None" "q \<noteq> p \<Longrightarrow> nodes m' q = nodes m q"
  using assms by (auto simp: RB_CLEAR_NODE_def rb_set_parent_color_def upd_node_def RB_EMPTY_NODE_def deref_def split: if_splits option.splits)

lemma newest_first_remove1: "newest_first f xs \<Longrightarrow> distinct xs \<Longrightarrow> newest_first f (remove1 p xs)"
  by (auto simp: newest_first_def distinct_remove1_removeAll removeAll_filter_not_eq intro: sorted_wrt_filter)

lemma unlink_ok:
  assumes "timer_ok P xs w" "p \<in> set xs"
  shows "\<exists>m. unlink p w = Some (w\<lparr>wakeup_tree := m\<rparr>) \<and> timer_ok P (remove1 p xs) (w\<lparr>wakeup_tree := m\<rparr>)"
proof -
  note ok = timer_okD[OF assms(1)]
  obtain t where t: "rep (wakeup_tree w) t" "rbt t" "labels t = xs" using assms(1) by (auto simp: timer_ok_def)
  obtain m1 t' where m1: "rb_erase p (wakeup_tree w) = Some m1" "becomes (wakeup_tree w) m1 t'" "rbt t'" "labels t' = remove1 p xs"
    using rb_erase_correct[OF t(1,2), of p] assms(2) t(3) by auto
  have p: "p \<noteq> 0" "p \<notin> set (labels t')" using timer_not_null[OF assms(1)] ok(1,6) assms(2) m1(4) by auto
  then have "nodes m1 p \<noteq> None" using m1(2) rep_nodes[OF t(1)] assms(2) t(3) by (simp add: becomes_def)
  then obtain m where m: "RB_CLEAR_NODE p m1 = Some m" "rep m t'"
    using clear_node[OF _ p becomes_rep[OF m1(2)]] by auto
  have "timer_ok P (labels t') (w\<lparr>wakeup_tree := m\<rparr>)"
  proof (rule timer_ok_tree[OF assms(1) m(2) m1(3)])
    fix q assume q: "q \<in> P" "q \<notin> set (labels t')"
    show "nodes m q \<noteq> None \<and> RB_EMPTY_NODE m q = Some True"
    proof (cases "q = p")
      case True
      then show ?thesis using cleared_empty[OF m(1)] by simp
    next
      case False
      then have "nodes m q = nodes (wakeup_tree w) q" "q \<notin> set xs"
        using cleared_empty(3)[OF m(1) False] m1(2,4) q(2) ok(6) by (auto simp: becomes_def)
      then show ?thesis using assms(1) q(1) empty_node_cong[of m q "wakeup_tree w"] by (auto simp: timer_ok_def)
    qed
  qed (use ok m1(4) in \<open>auto simp: newest_first_remove1 dest: notin_set_remove1\<close>)
  then show ?thesis using m1(1,4) m(1) by (auto simp: unlink_def)
qed

lemma timer_ok_set:
  assumes "timer_ok P xs w" "p \<notin> set xs"
  shows "timer_ok P xs (set_timeout p f w)"
proof -
  have "time_of (set_timeout p f w) q = time_of w q" if "q \<in> set xs" for q
    using that assms(2) by (auto simp: time_of_def set_timeout_def)
  then show ?thesis using assms(1)
    by (auto simp: timer_ok_def set_timeout_def newest_first_def elim!: sorted_wrt_mono_rel[rotated])
qed

lemma ns_less: "normal a \<Longrightarrow> normal b \<Longrightarrow> tv_sec a < tv_sec b \<Longrightarrow> ns a < ns b"
  by (auto simp: normal_def ns_def ONESEC_AS_NSEC_def)

lemma cmp_time:
  assumes "normal (time_of w p)" "normal (time_of w q)"
  shows "timespec_cmp w p q < 0 \<Longrightarrow> ns (time_of w p) \<le> ns (time_of w q)"
    "timespec_cmp w p q > 0 \<Longrightarrow> ns (time_of w q) \<le> ns (time_of w p)" "timespec_cmp w p q = 0 \<Longrightarrow> p = q"
  using ns_less[OF assms] ns_less[OF assms(2,1)]
  by (auto simp: timespec_cmp_def time_of_def Let_def ns_def split: if_splits)

lemma rb_insert_ok:
  assumes "timer_ok P xs w" "p \<in> P" "p \<notin> set xs" "normal (time_of w p)"
  shows "\<exists>m ys zs. timeout_rb_insert p w = Some (True, w\<lparr>wakeup_tree := m\<rparr>) \<and> xs = ys @ zs \<and>
    timer_ok P (ys @ p # zs) (w\<lparr>wakeup_tree := m\<rparr>)"
proof -
  note ok = timer_okD[OF assms(1)]
  obtain t where t: "rep (wakeup_tree w) t" "rbt t" "labels t = xs" using assms(1) by (auto simp: timer_ok_def)
  have "timespec_cmp w p q \<noteq> 0" if "q \<in> set xs" for q
    using cmp_time(3)[OF assms(4) ok(5)[OF that]] assms(3) that by auto
  then obtain \<rho> where \<rho>: "fill \<rho> Tip = t" "came_by (timespec_cmp w p) \<rho>"
      "descend (timespec_cmp w p) (wakeup_tree w) 0 Root = Some (Some (up \<rho>, link_of \<rho>))"
    using descend_correct[of "wakeup_tree w" "[]" t "timespec_cmp w p"] t by auto
  have xs: "xs = before \<rho> @ after \<rho>" using \<rho>(1) t(3) by auto
  have "p \<noteq> 0" "nodes (wakeup_tree w) p \<noteq> None" using timer_not_null[OF assms(1,2)] assms(1,2) by (simp_all add: timer_ok_def)
  then obtain m1 m t' where m: "rb_link_node p (up \<rho>) (link_of \<rho>) (wakeup_tree w) = Some m1" "rb_insert_color p m1 = Some m"
    "becomes (wakeup_tree w) m t'" "rbt t'" "labels t' = before \<rho> @ p # after \<rho>"
    using rb_insert_correct[of "wakeup_tree w" \<rho> p] t \<rho>(1) assms(3) xs by auto
  have place: "(\<forall>x\<in>set (before \<rho>). - ns (time_of w p) \<le> - ns (time_of w x)) \<and> (\<forall>x\<in>set (after \<rho>). - ns (time_of w x) \<le> - ns (time_of w p))"
  proof (rule place_of[OF \<rho>(2)])
    show "newest_first (\<lambda>p. - ns (time_of w p)) (before \<rho> @ after \<rho>)" using ok(4) xs by simp
  qed (use cmp_time(1,2)[OF assms(4) ok(5)] xs in auto)
  have "timer_ok P (labels t') (w\<lparr>wakeup_tree := m\<rparr>)"
  proof (rule timer_ok_tree[OF assms(1) becomes_rep[OF m(3)] m(4)])
    fix q assume q: "q \<in> P" "q \<notin> set (labels t')"
    then have "nodes m q = nodes (wakeup_tree w) q" "q \<notin> set xs" using m(3,5) xs by (auto simp: becomes_def)
    then show "nodes m q \<noteq> None \<and> RB_EMPTY_NODE m q = Some True"
      using assms(1) q(1) empty_node_cong[of m q "wakeup_tree w"] by (auto simp: timer_ok_def)
  next
    show "newest_first (\<lambda>p. - ns (time_of w p)) (labels t')"
      using place ok(4) unfolding xs m(5) by (auto simp: newest_first_append newest_first_Cons)
  qed (use ok(1,5) assms(2,4) m(5) xs in auto)
  moreover have "timeout_rb_insert p w = Some (True, w\<lparr>wakeup_tree := m\<rparr>)" by (simp add: timeout_rb_insert_def \<rho>(3) m(1,2))
  ultimately show ?thesis using xs m(5) by auto
qed

subsection \<open>The operations on the map\<close>

definition armed :: "ptr set \<Rightarrow> timers \<Rightarrow> ptr \<rightharpoonup> timespec" where
  "armed P w p = (if p \<in> P \<and> RB_EMPTY_NODE (wakeup_tree w) p = Some False then Some (time_of w p) else None)"

definition idle :: "ptr set \<Rightarrow> timers \<Rightarrow> bool" where
  "idle P w \<longleftrightarrow> (\<forall>p\<in>P. \<not> rearm_in_progress (timeouts w p))"

definition timer_state :: "ptr set \<Rightarrow> timers \<Rightarrow> bool" where
  "timer_state P w \<longleftrightarrow> idle P w \<and> (\<exists>xs. timer_ok P xs w)"

lemma idleD: "idle P w \<Longrightarrow> p \<in> P \<Longrightarrow> \<not> rearm_in_progress (timeouts w p)"
  by (simp add: idle_def)

lemma armed_ok:
  assumes "timer_ok P xs w"
  shows "armed P w = (\<lambda>p. if p \<in> set xs then Some (time_of w p) else None)"
  using timer_okD(1,3)[OF assms] by (auto simp: armed_def fun_eq_iff)

lemma due: "timespec_add (timespec_fill_local w) n = \<lparr>tv_sec = local_time_now w + uint n div 10, tv_nsec = uint n mod 10 * DSEC2NSEC\<rparr>"
  by (simp add: timespec_add_def timespec_fill_local_def to2sec_def to2nsec_def DSEC2NSEC_def ONESEC_AS_NSEC_def Let_def)

lemma due_normal: "normal (timespec_add (timespec_fill_local w) n)"
  by (simp add: due normal_def DSEC2NSEC_def ONESEC_AS_NSEC_def)

lemma wake_frame [simp]:
  "timer_ok P xs (wake b p w) = timer_ok P xs w" "idle P (wake b p w) = idle P w" "time_of (wake b p w) = time_of w"
  "local_time_now (wake b p w) = local_time_now w"
  by (simp_all add: wake_def timer_ok_def idle_def time_of_def fun_eq_iff)

lemma set_time [simp]:
  "time_of (set_timeout p (to_time_update (\<lambda>_. t)) w) = (time_of w)(p := t)" "idle P (set_timeout p (to_time_update (\<lambda>_. t)) w) = idle P w"
  "time_of (w\<lparr>wakeup_tree := m\<rparr>) = time_of w" "idle P (w\<lparr>wakeup_tree := m\<rparr>) = idle P w"
  "wakeup_tree (set_timeout p f w) = wakeup_tree w"
  by (auto simp: time_of_def set_timeout_def idle_def fun_eq_iff)

lemma clock_frame [simp]:
  "timer_ok P xs (w\<lparr>clock_reads := n\<rparr>) = timer_ok P xs w" "idle P (w\<lparr>clock_reads := n\<rparr>) = idle P w"
  "time_of (w\<lparr>clock_reads := n\<rparr>) = time_of w" "armed P (w\<lparr>clock_reads := n\<rparr>) = armed P w"
  "timer_ok P xs (w\<lparr>local_time_now := i\<rparr>) = timer_ok P xs w" "idle P (w\<lparr>local_time_now := i\<rparr>) = idle P w"
  "time_of (w\<lparr>local_time_now := i\<rparr>) = time_of w" "armed P (w\<lparr>local_time_now := i\<rparr>) = armed P w"
  "timer_ok P xs (w\<lparr>wakeup_time := t\<rparr>) = timer_ok P xs w" "idle P (w\<lparr>wakeup_time := t\<rparr>) = idle P w"
  "armed P (w\<lparr>wakeup_time := t\<rparr>) = armed P w"
  by (simp_all add: timer_ok_def idle_def armed_def time_of_def fun_eq_iff)

text \<open>Arming a timeout that is in no tree.\<close>

lemma arm_ok:
  assumes "timer_ok P xs w" "p \<in> P" "p \<notin> set xs" "normal t"
  shows "\<exists>w' ys zs. timeout_rb_insert p (set_timeout p (to_time_update (\<lambda>_. t)) w) = Some (True, w') \<and>
    xs = ys @ zs \<and> timer_ok P (ys @ p # zs) w' \<and>
    armed P w' = (armed P w)(p \<mapsto> t) \<and> timeouts w' = timeouts (set_timeout p (to_time_update (\<lambda>_. t)) w) \<and>
    local_time_now w' = local_time_now w \<and> clock_reads w' = clock_reads w"
proof -
  let ?w = "set_timeout p (to_time_update (\<lambda>_. t)) w"
  have "timer_ok P xs ?w" by (rule timer_ok_set[OF assms(1,3)])
  from rb_insert_ok[OF this assms(2,3)] assms(4) obtain m ys zs where m:
    "timeout_rb_insert p ?w = Some (True, ?w\<lparr>wakeup_tree := m\<rparr>)" "xs = ys @ zs" "timer_ok P (ys @ p # zs) (?w\<lparr>wakeup_tree := m\<rparr>)" by auto
  have "armed P (?w\<lparr>wakeup_tree := m\<rparr>) = (armed P w)(p \<mapsto> t)"
    unfolding armed_ok[OF m(3)] armed_ok[OF assms(1)] m(2) by (auto simp: fun_eq_iff)
  then show ?thesis using m by (auto simp: set_timeout_def)
qed

lemma disarm_ok:
  assumes "timer_ok P xs w" "p \<in> set xs"
  shows "\<exists>m. unlink p w = Some (w\<lparr>wakeup_tree := m\<rparr>) \<and> timer_ok P (remove1 p xs) (w\<lparr>wakeup_tree := m\<rparr>) \<and>
    armed P (w\<lparr>wakeup_tree := m\<rparr>) = (armed P w)(p := None)"
proof -
  obtain m where m: "unlink p w = Some (w\<lparr>wakeup_tree := m\<rparr>)" "timer_ok P (remove1 p xs) (w\<lparr>wakeup_tree := m\<rparr>)"
    using unlink_ok[OF assms] by blast
  have "armed P (w\<lparr>wakeup_tree := m\<rparr>) = (armed P w)(p := None)"
    unfolding armed_ok[OF m(2)] armed_ok[OF assms(1)] using timer_okD(6)[OF assms(1)] by (auto simp: fun_eq_iff)
  then show ?thesis using m by blast
qed

lemma nearest_ok: "timer_ok P xs w \<Longrightarrow> timeout_nearest w = Some (if xs = [] then 0 else hd xs)"
  using first_last_correct(1) by (auto simp: timer_ok_def timeout_nearest_def)

lemma armed_wake [simp]: "armed P (wake b p w) = armed P w"
  by (simp add: armed_def wake_def time_of_def fun_eq_iff)

text \<open>The operations.\<close>

lemma add_arms:
  assumes "timer_ok P xs w" "idle P w" "p \<in> P"
  shows "\<exists>w'. timeout_add p n w = Some (armed P w p = None, w') \<and> timer_state P w' \<and>
    armed P w' = (if armed P w p = None then (armed P w)(p \<mapsto> timespec_add (timespec_fill_local w) n) else armed P w) \<and>
    local_time_now w' = local_time_now w"
proof (cases "p \<in> set xs")
  case False
  let ?t = "timespec_add (timespec_fill_local w) n"
  obtain w' ys zs where w': "timeout_rb_insert p (set_timeout p (to_time_update (\<lambda>_. ?t)) w) = Some (True, w')" "timer_ok P (ys @ p # zs) w'"
    "armed P w' = (armed P w)(p \<mapsto> ?t)" "timeouts w' = timeouts (set_timeout p (to_time_update (\<lambda>_. ?t)) w)"
    "local_time_now w' = local_time_now w"
    using arm_ok[OF assms(1,3) False due_normal] by blast
  have "idle P w'" using assms(2) w'(4) by (simp add: idle_def set_timeout_def)
  with w' False idleD[OF assms(2,3)] timer_okD(3)[OF assms(1,3)] show ?thesis
    by (auto simp: timeout_add_def timer_state_def armed_ok[OF assms(1)])
qed (use assms timer_okD(3)[OF assms(1,3)] in \<open>auto simp: timeout_add_def timer_state_def armed_ok[OF assms(1)]\<close>)

lemma advance_arms:
  assumes "timer_ok P xs w" "idle P w" "p \<in> P"
  shows "\<exists>w'. timeout_advance False p n w = Some (armed P w p \<noteq> None, w') \<and> timer_state P w' \<and>
    armed P w' = (if armed P w p = None then armed P w else (armed P w)(p \<mapsto> timespec_add (timespec_fill_local w) n))"
proof (cases "p \<in> set xs")
  case True
  let ?t = "timespec_add (timespec_fill_local w) n"
  obtain m where m: "unlink p w = Some (w\<lparr>wakeup_tree := m\<rparr>)" "timer_ok P (remove1 p xs) (w\<lparr>wakeup_tree := m\<rparr>)"
    "armed P (w\<lparr>wakeup_tree := m\<rparr>) = (armed P w)(p := None)" using disarm_ok[OF assms(1) True] by blast
  have "p \<notin> set (remove1 p xs)" using timer_okD(6)[OF assms(1)] by simp
  from arm_ok[OF m(2) assms(3) this due_normal[of w n]] obtain w' ys zs where
    w': "timeout_rb_insert p (set_timeout p (to_time_update (\<lambda>_. ?t)) (w\<lparr>wakeup_tree := m\<rparr>)) = Some (True, w')" "timer_ok P (ys @ p # zs) w'"
    "armed P w' = (armed P w)(p \<mapsto> ?t)" "timeouts w' = timeouts (set_timeout p (to_time_update (\<lambda>_. ?t)) (w\<lparr>wakeup_tree := m\<rparr>))"
    unfolding m(3) by auto
  have "idle P w'" using assms(2) w'(4) by (simp add: idle_def set_timeout_def)
  with w' True m(1) idleD[OF assms(2,3)] timer_okD(3)[OF assms(1,3)] show ?thesis
    by (auto simp: timeout_advance_def timer_state_def armed_ok[OF assms(1)])
qed (use assms timer_okD(3)[OF assms(1,3)] in \<open>auto simp: timeout_advance_def timer_state_def armed_ok[OF assms(1)]\<close>)

lemma cancel_disarms:
  assumes "timer_ok P xs w" "idle P w" "p \<in> P"
  shows "\<exists>w'. timeout_cancel p w = Some (armed P w p \<noteq> None, w') \<and> timer_state P w' \<and> armed P w' = (armed P w)(p := None)"
proof (cases "p \<in> set xs")
  case True
  from disarm_ok[OF assms(1) True] show ?thesis using assms(2) idleD[OF assms(2,3)] True timer_okD(3)[OF assms(1,3)]
    by (auto simp: timeout_cancel_def timer_state_def armed_ok[OF assms(1)])
next
  case False
  then have "(armed P w)(p := None) = armed P w" by (auto simp: fun_eq_iff armed_ok[OF assms(1)])
  then show ?thesis using False assms idleD[OF assms(2,3)] timer_okD(3)[OF assms(1,3)]
    by (auto simp: timeout_cancel_def timer_state_def armed_ok[OF assms(1)])
qed

lemma nearest_least:
  assumes "timer_ok P xs w"
  shows "\<exists>q. timeout_nearest w = Some q \<and> (if q = 0 then armed P w = Map.empty
      else \<exists>t. armed P w q = Some t \<and> (\<forall>r t'. armed P w r = Some t' \<longrightarrow> ns t \<le> ns t'))"
proof -
  note d = timer_okD[OF assms]
  have "hd xs \<noteq> 0" if "xs \<noteq> []" using d(1) timer_not_null[OF assms] hd_in_set[OF that] by blast
  moreover have "ns (time_of w (hd xs)) \<le> ns (time_of w r)" if "r \<in> set xs" for r
    using d(4) that by (cases xs) (auto simp: newest_first_Cons)
  ultimately show ?thesis using nearest_ok[OF assms] by (cases "xs = []") (auto simp: armed_ok[OF assms])
qed

subsection \<open>Expired timeouts\<close>

lemma set_rearm [simp]:
  "timer_ok P xs (set_timeout p (rearm_in_progress_update f) w) = timer_ok P xs w"
  "armed P (set_timeout p (rearm_in_progress_update f) w) = armed P w"
  "time_of (set_timeout p (rearm_in_progress_update f) w) = time_of w"
  "timespec_fill_local (set_timeout p f' w) = timespec_fill_local w"
  "clock_reads (set_timeout p f' w) = clock_reads w"
proof -
  have t: "time_of (set_timeout p (rearm_in_progress_update f) w) = time_of w" by (auto simp: time_of_def set_timeout_def fun_eq_iff)
  then show "timer_ok P xs (set_timeout p (rearm_in_progress_update f) w) = timer_ok P xs w"
    "armed P (set_timeout p (rearm_in_progress_update f) w) = armed P w"
    "time_of (set_timeout p (rearm_in_progress_update f) w) = time_of w"
    by (simp_all add: timer_ok_def armed_def fun_eq_iff)
qed (simp_all add: set_timeout_def timespec_fill_local_def)

lemma rearm_ok:
  assumes "timer_ok P xs w" "idle P w" "p \<in> P" "p \<notin> set xs"
  shows "\<exists>w' ys zs. rearm p n w = Some w' \<and> xs = ys @ zs \<and> timer_ok P (ys @ p # zs) w' \<and> idle P w' \<and>
    armed P w' = (armed P w)(p \<mapsto> timespec_add (timespec_fill_local w) n) \<and> clock_reads w' = clock_reads w"
proof -
  let ?w = "set_timeout p (rearm_in_progress_update (\<lambda>_. True)) w"
  let ?t = "timespec_add (timespec_fill_local w) n"
  have "timer_ok P xs ?w" using assms(1) by simp
  from arm_ok[OF this assms(3,4) due_normal[of w n]] obtain w' ys zs where
    w': "timeout_rb_insert p (set_timeout p (to_time_update (\<lambda>_. ?t)) ?w) = Some (True, w')" "xs = ys @ zs" "timer_ok P (ys @ p # zs) w'"
    "armed P w' = (armed P w)(p \<mapsto> ?t)" "timeouts w' = timeouts (set_timeout p (to_time_update (\<lambda>_. ?t)) ?w)" "clock_reads w' = clock_reads w"
    by auto
  let ?w' = "set_timeout p (rearm_in_progress_update (\<lambda>_. False)) w'"
  have "rearm p n w = Some ?w'"
    using w'(1) assms(4) timer_okD(3)[OF assms(1,3)] by (simp add: rearm_def Let_def)
  moreover have "idle P ?w'" using assms(2) w'(5) by (auto simp: idle_def set_timeout_def)
  ultimately show ?thesis using w' by (intro exI[of _ ?w'] exI[of _ ys] exI[of _ zs]) simp
qed

text \<open>Functions that are recorded and want to be called again after a while.\<close>

definition recorded :: "(ptr \<Rightarrow> u32) \<Rightarrow> ptr list timeout_fun" where
  "recorded again p = Some (\<lambda>(w, log). Some (again p, w, log @ [p]))"

lemma kick_one_ok:
  assumes "timer_ok P (p # xs) w" "idle P w"
  shows "\<exists>w' ys zs. kick_one (recorded again) now p r (w, log) = Some (0, w', log @ [p]) \<and> xs = ys @ zs \<and>
    timer_ok P (if again p = 0 then xs else ys @ p # zs) w' \<and> idle P w' \<and> clock_reads w' = clock_reads w \<and>
    armed P w' = (armed P w)(p := if again p = 0 then None
      else Some \<lparr>tv_sec = tv_sec now + uint (again p) div 10, tv_nsec = uint (again p) mod 10 * DSEC2NSEC\<rparr>)"
proof -
  let ?w = "w\<lparr>local_time_now := tv_sec now\<rparr>"
  have ok: "timer_ok P (p # xs) ?w" "p \<in> P" "p \<notin> set xs" "idle P ?w"
    using assms timer_okD(1,6)[OF assms(1)] by auto
  obtain m where m: "unlink p ?w = Some (?w\<lparr>wakeup_tree := m\<rparr>)" "timer_ok P xs (?w\<lparr>wakeup_tree := m\<rparr>)"
    "armed P (?w\<lparr>wakeup_tree := m\<rparr>) = (armed P w)(p := None)"
    using disarm_ok[OF ok(1), of p] by auto
  have e: "RB_EMPTY_NODE (wakeup_tree ?w) p = Some False" using timer_okD(3)[OF ok(1,2)] by simp
  show ?thesis
  proof (cases "again p = 0")
    case True
    with m e ok(4) show ?thesis
      by (intro exI[of _ "?w\<lparr>wakeup_tree := m\<rparr>"] exI[of _ "[]"] exI[of _ xs]) (simp add: kick_one_def run_timeout_def recorded_def)
  next
    case False
    have "idle P (?w\<lparr>wakeup_tree := m\<rparr>)" using ok(4) by simp
    from rearm_ok[OF m(2) this ok(2,3), of "again p"] obtain w' ys zs where
      w': "rearm p (again p) (?w\<lparr>wakeup_tree := m\<rparr>) = Some w'" "xs = ys @ zs" "timer_ok P (ys @ p # zs) w'" "idle P w'"
      "armed P w' = (armed P w)(p \<mapsto> \<lparr>tv_sec = tv_sec now + uint (again p) div 10, tv_nsec = uint (again p) mod 10 * DSEC2NSEC\<rparr>)"
      "clock_reads w' = clock_reads w"
      unfolding due m(3) by auto
    then show ?thesis using False m(1) e
      by (intro exI[of _ w'] exI[of _ ys] exI[of _ zs]) (simp add: kick_one_def run_timeout_def recorded_def)
  qed
qed

text \<open>The clock while it shows the second \<open>S\<close>, but not its very beginning.\<close>

definition clock_in :: "clock \<Rightarrow> int \<Rightarrow> bool" where
  "clock_in clock S \<longleftrightarrow> (\<forall>i. \<exists>us>0. clock i = Some (S, us))"

lemma clock_fill:
  assumes "clock_in clock S"
  obtains now where "timespec_fill clock t w = (True, now, w\<lparr>clock_reads := Suc (clock_reads w)\<rparr>)" "tv_sec now = S" "tv_nsec now > 0"
proof -
  from assms obtain us where us: "us > 0" "clock (clock_reads w) = Some (S, us)" unfolding clock_in_def by blast
  show thesis by (rule that[of "\<lparr>tv_sec = S, tv_nsec = usec2nsec us\<rparr>"]) (use us in \<open>simp_all add: timespec_fill_def usec2nsec_def\<close>)
qed

definition whole :: "timers \<Rightarrow> ptr list \<Rightarrow> bool" where
  "whole w xs \<longleftrightarrow> (\<forall>p\<in>set xs. tv_nsec (time_of w p) = 0)"

definition expired :: "int \<Rightarrow> timers \<Rightarrow> ptr list \<Rightarrow> ptr list" where
  "expired S w xs = filter (\<lambda>p. tv_sec (time_of w p) \<le> S) xs"

lemma none_expired:
  assumes "timer_ok P (p # xs) w" "whole w (p # xs)" "tv_sec (time_of w p) > S"
  shows "expired S w (p # xs) = []"
proof -
  have "tv_sec (time_of w p) \<le> tv_sec (time_of w q)" if "q \<in> set xs" for q
    using timer_okD(4)[OF assms(1)] assms(2) that by (auto simp: newest_first_Cons ns_def whole_def ONESEC_AS_NSEC_def)
  then show ?thesis using assms(3) by (fastforce simp: expired_def filter_empty_conv)
qed

text \<open>What is armed after the timeouts \<open>ps\<close> have run.\<close>

definition after_run :: "(ptr \<Rightarrow> u32) \<Rightarrow> int \<Rightarrow> ptr list \<Rightarrow> (ptr \<rightharpoonup> timespec) \<Rightarrow> (ptr \<rightharpoonup> timespec)" where
  "after_run again S ps M = (\<lambda>p. if p \<in> set ps
     then if again p = 0 then None else Some \<lparr>tv_sec = S + uint (again p) div 10, tv_nsec = 0\<rparr>
     else M p)"

lemma kick_step:
  assumes "timer_ok P (p # xs) w" "idle P w" "whole w (p # xs)" "tv_sec now = S" "tv_sec (time_of w p) \<le> S"
    and again: "uint (again p) mod 10 = 0"
  shows "\<exists>w' xs'. kick_one (recorded again) now p r (w, log) = Some (0, w', log @ [p]) \<and> timer_ok P xs' w' \<and> idle P w' \<and> whole w' xs' \<and>
    expired S w (p # xs) = p # expired S w' xs' \<and> armed P w' = after_run again S [p] (armed P w)"
proof -
  obtain w' ys zs where w': "kick_one (recorded again) now p r (w, log) = Some (0, w', log @ [p])" "xs = ys @ zs"
    "timer_ok P (if again p = 0 then xs else ys @ p # zs) w'" "idle P w'"
    "armed P w' = (armed P w)(p := if again p = 0 then None else Some \<lparr>tv_sec = S + uint (again p) div 10, tv_nsec = 0\<rparr>)"
    using kick_one_ok[OF assms(1,2), of again now r log] again assms(4) by auto
  define xs' where "xs' = (if again p = 0 then xs else ys @ p # zs)"
  have ok: "timer_ok P xs' w'" using w'(3) by (simp add: xs'_def)
  have p: "p \<notin> set xs" using timer_okD(6)[OF assms(1)] by simp
  have same: "time_of w' q = time_of w q" if "q \<in> set xs" for q
    using fun_cong[OF w'(5), of q] that p w'(2) by (auto simp: armed_ok[OF ok] armed_ok[OF assms(1)] xs'_def split: if_splits)
  have new: "time_of w' p = \<lparr>tv_sec = S + uint (again p) div 10, tv_nsec = 0\<rparr>" if "again p \<noteq> 0"
    using fun_cong[OF w'(5), of p] that by (simp add: armed_ok[OF ok] xs'_def)
  have "uint (again p) div 10 > 0" if "again p \<noteq> 0"
  proof -
    have "0 < uint (again p)" using that uint_ge_0[of "again p"] by (simp add: less_le unsigned_eq_0_iff)
    then show ?thesis using again by presburger
  qed
  then have late: "\<not> tv_sec (time_of w' p) \<le> S" if "again p \<noteq> 0" using new that by auto
  have "expired S w' xs' = expired S w' xs" using late by (cases "again p = 0") (auto simp: xs'_def w'(2) expired_def)
  also have "\<dots> = expired S w xs" using same by (auto simp: expired_def intro: filter_cong)
  finally have "expired S w (p # xs) = p # expired S w' xs'" using assms(5) by (simp add: expired_def)
  moreover have "whole w' xs'"
    using assms(3) same new by (auto simp: whole_def xs'_def w'(2) split: if_splits)
  moreover have "armed P w' = after_run again S [p] (armed P w)" using w'(5) by (auto simp: after_run_def fun_eq_iff)
  ultimately show ?thesis using w'(1,4) ok by blast
qed

lemma kick_loop_ok:
  assumes "timer_ok P xs w" "idle P w" "whole w xs" "tv_sec now = S" "tv_nsec now > 0"
    and clock: "clock_in clock S" and again: "\<forall>p. uint (again p) mod 10 = 0"
  shows "\<exists>w' now'. kick_loop clock (recorded again) now r (w, log) =
      Some (if expired S w xs = [] then r else 0, now', w', log @ expired S w xs) \<and>
    timer_state P w' \<and> armed P w' = after_run again S (expired S w xs) (armed P w)"
  using assms(1-5)
proof (induction "expired S w xs" arbitrary: xs w now r log)
  case Nil
  have "timeout_nearest w = Some 0 \<or> (\<exists>p. timeout_nearest w = Some p \<and> timespec_after (time_of w p) now)"
    using Nil nearest_ok[OF Nil(2)] by (cases xs) (auto simp: expired_def timespec_after_def split: if_splits)
  then have "kick_loop clock (recorded again) now r (w, log) = Some (r, now, w, log)"
    by (subst kick_loop.simps) (auto simp: time_of_def)
  moreover have "after_run again S [] (armed P w) = armed P w" by (simp add: after_run_def)
  ultimately show ?case using Nil by (auto simp: timer_state_def)
next
  case (Cons e es)
  obtain p ys where xs: "xs = p # ys" using Cons(2) by (cases xs) (auto simp: expired_def)
  have exp: "tv_sec (time_of w p) \<le> S" using none_expired[of P p ys w S] Cons(2-5) by (force simp: xs)
  obtain w1 xs1 where w1: "kick_one (recorded again) now p r (w, log) = Some (0, w1, log @ [p])" "timer_ok P xs1 w1" "idle P w1" "whole w1 xs1"
    "expired S w (p # ys) = p # expired S w1 xs1" "armed P w1 = after_run again S [p] (armed P w)"
    using kick_step[of P p ys w now S again r log] Cons(3-6) exp again by (auto simp: xs)
  obtain now1 where now1: "timespec_fill clock now w1 = (True, now1, w1\<lparr>clock_reads := Suc (clock_reads w1)\<rparr>)" "tv_sec now1 = S" "tv_nsec now1 > 0"
    using clock_fill[OF clock, of now w1] by blast
  define w2 where "w2 = w1\<lparr>clock_reads := Suc (clock_reads w1)\<rparr>"
  have w2: "timer_ok P xs1 w2" "idle P w2" "whole w2 xs1" "armed P w2 = armed P w1" "expired S w2 xs1 = expired S w1 xs1"
    using w1(2-4) by (simp_all add: w2_def whole_def expired_def)
  have es: "es = expired S w2 xs1" "e = p" using Cons(2) w1(5) w2(5) by (simp_all add: xs)
  obtain w' now' where w': "kick_loop clock (recorded again) now1 0 (w2, log @ [p]) = Some (0, now', w', log @ p # expired S w2 xs1)"
    "timer_state P w'" "armed P w' = after_run again S (expired S w2 xs1) (armed P w2)"
    using Cons(1)[OF es(1) w2(1-3) now1(2,3), of 0 "log @ [p]"] by auto
  have "p \<noteq> 0" using timer_not_null[OF Cons(3)] timer_okD(1)[OF Cons(3)] by (simp add: xs)
  moreover have "\<not> timespec_after (to_time (timeouts w p)) now"
    using exp Cons(5-7) by (auto simp: timespec_after_def time_of_def whole_def xs)
  ultimately have "kick_loop clock (recorded again) now r (w, log) = Some (0, now', w', log @ p # expired S w2 xs1)"
    using nearest_ok[OF Cons(3)] w1(1) now1(1) w'(1) by (subst kick_loop.simps) (simp add: xs w2_def)
  moreover have "after_run again S (expired S w2 xs1) (armed P w2) = after_run again S (p # expired S w2 xs1) (armed P w)"
    by (auto simp: w2(4) w1(6) after_run_def fun_eq_iff)
  ultimately show ?case using w'(2,3) Cons(2) es by (auto simp: xs)
qed

section \<open>The properties\<close>

text \<open>
  C38: The timer is a map from timeouts to times: adding a timeout sets its time unless it is armed already, advancing sets it
  if it is armed, cancelling takes it out, each tells whether it did so, and the nearest timeout has the least time.
\<close>

theorem timer_correct:
  assumes "timer_state P w" "p \<in> P"
  shows "(\<exists>w'. timeout_add p n w = Some (armed P w p = None, w') \<and> timer_state P w' \<and>
      armed P w' = (if armed P w p = None then (armed P w)(p \<mapsto> timespec_add (timespec_fill_local w) n) else armed P w)) \<and>
    (\<exists>w'. timeout_advance False p n w = Some (armed P w p \<noteq> None, w') \<and> timer_state P w' \<and>
      armed P w' = (if armed P w p = None then armed P w else (armed P w)(p \<mapsto> timespec_add (timespec_fill_local w) n))) \<and>
    (\<exists>w'. timeout_cancel p w = Some (armed P w p \<noteq> None, w') \<and> timer_state P w' \<and> armed P w' = (armed P w)(p := None)) \<and>
    (\<exists>q. timeout_nearest w = Some q \<and> (if q = 0 then armed P w = Map.empty
      else \<exists>t. armed P w q = Some t \<and> (\<forall>r t'. armed P w r = Some t' \<longrightarrow> ns t \<le> ns t')))"
proof -
  obtain xs where "timer_ok P xs w" "idle P w" using assms(1) by (auto simp: timer_state_def)
  then show ?thesis using add_arms advance_arms cancel_disarms nearest_least assms(2) by (intro conjI) blast+
qed

text \<open>Two timeouts of which none is armed, at second 100.\<close>

definition example_timers :: timers where
  "example_timers = \<lparr>wakeup_tree = \<lparr>nodes = [3 \<mapsto> \<lparr>pc_parent = 3, pc_color = RB_RED, rb_right = 0, rb_left = 0\<rparr>,
       4 \<mapsto> \<lparr>pc_parent = 4, pc_color = RB_RED, rb_right = 0, rb_left = 0\<rparr>], rb_root = 0\<rparr>,
     wakeup_time = \<lparr>tv_sec = 100, tv_nsec = 0\<rparr>, wakeup_abort = False,
     timeouts = \<lambda>_. \<lparr>to_time = \<lparr>tv_sec = 0, tv_nsec = 0\<rparr>, rearm_in_progress = False\<rparr>, local_time_now = 100, broadcasts = 0, clock_reads = 0\<rparr>"

lemma example_timer_ok: "timer_ok {3, 4} [] example_timers" "idle {3, 4} example_timers"
proof -
  have "rep (wakeup_tree example_timers) Tip \<and> rbt Tip \<and> labels Tip = []"
    by (simp add: example_timers_def Rb_Heap.rep_def rbt_Tip)
  then have "\<exists>t. rep (wakeup_tree example_timers) t \<and> rbt t \<and> labels t = []" by blast
  then show "timer_ok {3, 4} [] example_timers"
    by (auto simp: timer_ok_def newest_first_def) (simp_all add: example_timers_def RB_EMPTY_NODE_def deref_def)
  show "idle {3, 4} example_timers" by (simp add: idle_def example_timers_def)
qed

lemma example_timer_state: "timer_state {3, 4} example_timers" "armed {3, 4} example_timers = Map.empty" "local_time_now example_timers = 100"
  using example_timer_ok armed_ok[OF example_timer_ok(1)] by (auto simp: timer_state_def fun_eq_iff) (simp add: example_timers_def)

theorem timer_correct_witness:
  "\<exists>w. timeout_add 3 57 example_timers = Some (True, w) \<and> armed {3, 4} w = [3 \<mapsto> \<lparr>tv_sec = 105, tv_nsec = 700000000\<rparr>]"
  using timer_correct[OF example_timer_state(1), of 3 57]
  by (auto simp: example_timer_state(2,3) due DSEC2NSEC_def)

lemma example_armed:
  "\<exists>w. timer_state {3, 4} w \<and> armed {3, 4} w = [3 \<mapsto> \<lparr>tv_sec = 105, tv_nsec = 0\<rparr>, 4 \<mapsto> \<lparr>tv_sec = 103, tv_nsec = 0\<rparr>]"
proof -
  obtain w where w: "timer_state {3, 4} w" "armed {3, 4} w = [3 \<mapsto> \<lparr>tv_sec = 105, tv_nsec = 0\<rparr>]" "local_time_now w = 100"
    using add_arms[OF example_timer_ok, of 3 50] by (auto simp: example_timer_state(2,3) due)
  then obtain xs where "timer_ok {3, 4} xs w" "idle {3, 4} w" by (auto simp: timer_state_def)
  from add_arms[OF this, of 4 30] w show ?thesis by (auto simp: due)
qed

text \<open>
  C39: If all timeouts are due at whole seconds, as most of the program are, their functions leave the timers alone, and the clock stays within a second, the thread
  runs exactly the timeouts that have expired, each once and in the order of their times; those that ask for it are armed
  again, relative to that second, and the others are not armed any more.
\<close>

theorem kick_runs_expired:
  assumes "timer_state P w" "\<forall>p t. armed P w p = Some t \<longrightarrow> tv_nsec t = 0"
    and "clock_in clock S" "\<forall>p. uint (again p) mod 10 = 0"
  shows "\<exists>w' ps. kick_timeouts clock (recorded again) (w, log) = Some (if ps = [] then 1 else 0, w', log @ ps) \<and>
    timer_state P w' \<and> distinct ps \<and> set ps = {p. \<exists>t. armed P w p = Some t \<and> tv_sec t \<le> S} \<and>
    sorted_wrt (\<lambda>p q. ns (the (armed P w p)) \<le> ns (the (armed P w q))) ps \<and> armed P w' = after_run again S ps (armed P w)"
proof -
  obtain xs where ok: "timer_ok P xs w" and idle: "idle P w" using assms(1) by (auto simp: timer_state_def)
  note a = armed_ok[OF ok]
  obtain now where now: "timespec_fill clock (wakeup_time w) w = (True, now, w\<lparr>clock_reads := Suc (clock_reads w)\<rparr>)"
    "tv_sec now = S" "tv_nsec now > 0" using clock_fill[OF assms(3)] by blast
  define w1 where "w1 = w\<lparr>clock_reads := Suc (clock_reads w), local_time_now := S\<rparr>"
  have w1: "timer_ok P xs w1" "idle P w1" "armed P w1 = armed P w" "time_of w1 = time_of w"
    using ok idle by (simp_all add: w1_def)
  have "tv_nsec (time_of w p) = 0" if "p \<in> set xs" for p using assms(2)[rule_format, of p] that by (simp add: a)
  then have "whole w1 xs" by (simp add: whole_def w1(4))
  from kick_loop_ok[OF w1(1,2) this now(2,3) assms(3,4), of 1 log] obtain w' now' where
    w': "kick_loop clock (recorded again) now 1 (w1, log) = Some (if expired S w1 xs = [] then 1 else 0, now', w', log @ expired S w1 xs)"
    "timer_state P w'" "armed P w' = after_run again S (expired S w1 xs) (armed P w)" unfolding w1(3) by blast
  have "kick_timeouts clock (recorded again) (w, log) =
      Some (if expired S w1 xs = [] then 1 else 0, w'\<lparr>wakeup_time := now'\<rparr>, log @ expired S w1 xs)"
    using now(1,2) w'(1) by (simp add: kick_timeouts_def w1_def)
  moreover have "sorted_wrt (\<lambda>p q. ns (the (armed P w p)) \<le> ns (the (armed P w q))) xs"
    using timer_okD(4)[OF ok] by (auto simp: newest_first_def a elim!: sorted_wrt_mono_rel[rotated])
  then have "sorted_wrt (\<lambda>p q. ns (the (armed P w p)) \<le> ns (the (armed P w q))) (expired S w1 xs)"
    unfolding expired_def by (rule sorted_wrt_filter)
  moreover have "distinct (expired S w1 xs)" "set (expired S w1 xs) = {p. \<exists>t. armed P w p = Some t \<and> tv_sec t \<le> S}"
    using timer_okD(6)[OF ok] by (auto simp: expired_def a w1(4))
  ultimately show ?thesis using w'(2,3) by (intro exI[of _ "w'\<lparr>wakeup_time := now'\<rparr>"] exI[of _ "expired S w1 xs"]) (simp add: timer_state_def)
qed

theorem kick_runs_expired_witness:
  "\<exists>w w'. armed {3, 4} w = [3 \<mapsto> \<lparr>tv_sec = 105, tv_nsec = 0\<rparr>, 4 \<mapsto> \<lparr>tv_sec = 103, tv_nsec = 0\<rparr>] \<and>
     kick_timeouts (\<lambda>_. Some (104, 7)) (recorded (\<lambda>_. 100)) (w, []) = Some (0, w', [4]) \<and>
     armed {3, 4} w' = [3 \<mapsto> \<lparr>tv_sec = 105, tv_nsec = 0\<rparr>, 4 \<mapsto> \<lparr>tv_sec = 114, tv_nsec = 0\<rparr>]"
proof -
  obtain w where w: "timer_state {3, 4} w" "armed {3, 4} w = [3 \<mapsto> \<lparr>tv_sec = 105, tv_nsec = 0\<rparr>, 4 \<mapsto> \<lparr>tv_sec = 103, tv_nsec = 0\<rparr>]"
    using example_armed by blast
  have whole: "\<forall>p t. armed {3, 4} w p = Some t \<longrightarrow> tv_nsec t = 0" by (auto simp: w(2) split: if_splits)
  have clock: "clock_in (\<lambda>_. Some (104, 7)) 104" by (simp add: clock_in_def)
  have again: "\<forall>p. uint ((\<lambda>_::ptr. 100 :: u32) p) mod 10 = 0" by simp
  obtain w' ps where k: "kick_timeouts (\<lambda>_. Some (104, 7)) (recorded (\<lambda>_. 100)) (w, []) = Some (if ps = [] then 1 else 0, w', ps)"
    "distinct ps" "set ps = {p. \<exists>t. armed {3, 4} w p = Some t \<and> tv_sec t \<le> 104}"
    "armed {3, 4} w' = after_run (\<lambda>_. 100) 104 ps (armed {3, 4} w)"
    using kick_runs_expired[OF w(1) whole clock again, of "[]"] unfolding append_Nil by blast
  have "set ps = {4}" unfolding k(3) w(2) by (auto split: if_splits)
  with k(2) have "ps = [4]" by (cases ps; cases "tl ps") auto
  with k(1,4) w(2) show ?thesis by (intro exI[of _ w] exI[of _ w']) (auto simp: after_run_def fun_eq_iff)
qed

text \<open>
  C40: A timeout that is due at a fraction of a second keeps itself and all later ones from running, however long ago it
  expired, as long as the clock shows a smaller fraction of whatever second.
\<close>

theorem timer_late:
  assumes "timer_state P w" "timeout_nearest w = Some p" "armed P w p = Some t"
    and "clock (clock_reads w) = Some (S, us)" "usec2nsec us \<le> tv_nsec t"
  shows "\<exists>w'. kick_timeouts clock funs (w, s) = Some (1, w', s) \<and> armed P w' = armed P w"
proof -
  have "to_time (timeouts w p) = t" using assms(3) by (auto simp: armed_def time_of_def split: if_splits)
  then have "timespec_after (to_time (timeouts w p)) \<lparr>tv_sec = S, tv_nsec = usec2nsec us\<rparr>" using assms(5) by (simp add: timespec_after_def)
  moreover have "timeout_nearest (w\<lparr>clock_reads := i, local_time_now := S\<rparr>) = Some p" for i using assms(2) by (simp add: timeout_nearest_def)
  ultimately show ?thesis
    using assms(4) by (simp add: kick_timeouts_def timespec_fill_def) (subst kick_loop.simps, simp)
qed

theorem timer_late_witness:
  "\<exists>w w'. armed {3, 4} w = [3 \<mapsto> \<lparr>tv_sec = 100, tv_nsec = 500000000\<rparr>] \<and>
     kick_timeouts (\<lambda>_. Some (1000000, 400000)) (recorded (\<lambda>_. 0)) (w, []) = Some (1, w', [])"
proof -
  obtain w where w: "timer_state {3, 4} w" "armed {3, 4} w = [3 \<mapsto> \<lparr>tv_sec = 100, tv_nsec = 500000000\<rparr>]"
    using add_arms[OF example_timer_ok, of 3 5] by (auto simp: example_timer_state(2,3) due DSEC2NSEC_def)
  then obtain xs where ok: "timer_ok {3, 4} xs w" by (auto simp: timer_state_def)
  have near: "timeout_nearest w = Some 3"
    using nearest_least[OF ok] w(2) by (auto split: if_splits)
  show ?thesis
    using timer_late[OF w(1) near, of _ "\<lambda>_. Some (1000000, 400000)" 1000000 400000 "recorded (\<lambda>_. 0)" "[]"] w(2)
    by (auto simp: usec2nsec_def)
qed

end
