(* ===== verification/Mem_Ops.thy ===== *)
theory Mem_Ops
  imports Mem_Words
begin

text \<open>
  The memory routines of \<^verbatim>\<open>lib/generic\<close> that combine two blocks: \<open>memand\<close> and \<open>memneg\<close>, which have
  the same shape, and \<open>memxorcpy\<close>.  All of them handle short blocks byte by byte; for longer ones
  they align the destination, work on words as far as possible (directly, or, if the source cannot
  be aligned and the machine cannot read there, by shifting two neighbouring words together), and
  finish byte by byte.  \<open>unaligned_ok\<close> is the build parameter \<open>UNALIGNED_OK\<close>; the machine has 64
  bits and is little endian.
\<close>

definition SOST :: nat where "SOST = 8"
definition SYSTEM_MIN_BYTES_WORK :: nat where "SYSTEM_MIN_BYTES_WORK = 64"

definition ALIGN_DIFF :: "nat \<Rightarrow> nat \<Rightarrow> nat" where
  "ALIGN_DIFF x n = (x + n - 1) div n * n - x"

definition ALIGN_DOWN :: "nat \<Rightarrow> nat \<Rightarrow> nat" where
  "ALIGN_DOWN x n = x div n * n"

definition ALIGN_DOWN_DIFF :: "nat \<Rightarrow> nat \<Rightarrow> nat" where
  "ALIGN_DOWN_DIFF x n = x mod n"

subsection \<open>The loops\<close>

fun byte_loop :: "(byte \<Rightarrow> byte \<Rightarrow> byte) \<Rightarrow> nat \<Rightarrow> nat \<Rightarrow> nat \<Rightarrow> memory \<Rightarrow> memory" where
  "byte_loop f 0 d s m = m"
| "byte_loop f (Suc n) d s m = byte_loop f n (d + 1) (s + 1) (m(d := f (m d) (m s)))"

fun word_loop :: "(u64 \<Rightarrow> u64 \<Rightarrow> u64) \<Rightarrow> nat \<Rightarrow> nat \<Rightarrow> nat \<Rightarrow> memory \<Rightarrow> memory" where
  "word_loop F 0 d s m = m"
| "word_loop F (Suc n) d s m =
     word_loop F n (d + SOST) (s + SOST) (store64 m d (F (load64 m d) (load64 m s)))"

fun skim_loop ::
    "(u64 \<Rightarrow> u64 \<Rightarrow> u64) \<Rightarrow> nat \<Rightarrow> nat \<Rightarrow> nat \<Rightarrow> u64 \<Rightarrow> nat \<Rightarrow> nat \<Rightarrow> memory \<Rightarrow> memory" where
  "skim_loop F 0 d src_sizet c_ex shift1 shift2 m = m"
| "skim_loop F (Suc n) d src_sizet c_ex shift1 shift2 m =
     (let c = c_ex; c_ex = load64 m src_sizet;
          c = drop_bit shift1 c OR push_bit shift2 c_ex
      in skim_loop F n (d + SOST) (src_sizet + SOST) c_ex shift1 shift2
           (store64 m d (F (load64 m d) c)))"

text \<open>The common body; \<open>f\<close> and \<open>F\<close> compute a byte and a word of the destination.\<close>

definition mem_apply ::
    "bool \<Rightarrow> (byte \<Rightarrow> byte \<Rightarrow> byte) \<Rightarrow> (u64 \<Rightarrow> u64 \<Rightarrow> u64) \<Rightarrow> nat \<Rightarrow> nat \<Rightarrow> nat \<Rightarrow> memory \<Rightarrow> memory" where
  "mem_apply unaligned_ok f F dst src len m =
     (if SYSTEM_MIN_BYTES_WORK > len then byte_loop f len dst src m
      else
        (let i = ALIGN_DIFF dst SOST;
             len = len - i;
             m = byte_loop f i dst src m;
             dst = dst + i; src = src + i;
             i = ALIGN_DOWN_DIFF dst (SOST * 2) XOR ALIGN_DOWN_DIFF src (SOST * 2)
         in
          if i AND (SOST - 1) = 0 \<or> unaligned_ok then
            (let small_len = len div SOST; len = len mod SOST;
                 m = word_loop F small_len dst src m
             in byte_loop f len (dst + small_len * SOST) (src + small_len * SOST) m)
          else
            (let cycles = len div SOST - 1;
                 shift1 = ALIGN_DOWN_DIFF src SOST;
                 shift2 = SOST - shift1;
                 src_sizet = ALIGN_DOWN src SOST;
                 m = skim_loop F cycles dst (src_sizet + SOST) (load64 m src_sizet)
                       (shift1 * 8) (shift2 * 8) m
             in byte_loop f (len - cycles * SOST) (dst + cycles * SOST) (src + cycles * SOST) m)))"

text \<open>\<open>0\<close> is the null pointer; the result is the memory (the return value is always \<open>dst\<close>).\<close>

definition memand :: "bool \<Rightarrow> nat \<Rightarrow> nat \<Rightarrow> nat \<Rightarrow> memory \<Rightarrow> memory" where
  "memand unaligned_ok dst src len m =
     (if dst = 0 \<or> src = 0 then m else mem_apply unaligned_ok (AND) (AND) dst src len m)"

definition memneg :: "bool \<Rightarrow> nat \<Rightarrow> nat \<Rightarrow> nat \<Rightarrow> memory \<Rightarrow> memory" where
  "memneg unaligned_ok dst src len m =
     (if dst = 0 then m
      else
        (let src = (if src = 0 then dst else src)
         in mem_apply unaligned_ok (\<lambda>d s. NOT s) (\<lambda>d s. NOT s) dst src len m))"

subsection \<open>Two sources\<close>

text \<open>
  \<open>memxorcpy\<close> writes the exclusive or of two sources.  The loops on whole words do not advance the
  destination (\<open>*dst_sizet = ...\<close>), the one that shifts words together does.  Shifting a word by its
  width is undefined in C: the result is then \<open>None\<close>.
\<close>

fun xor_bytes :: "nat \<Rightarrow> nat \<Rightarrow> nat \<Rightarrow> nat \<Rightarrow> memory \<Rightarrow> memory" where
  "xor_bytes 0 d s1 s2 m = m"
| "xor_bytes (Suc n) d s1 s2 m = xor_bytes n (d + 1) (s1 + 1) (s2 + 1) (m(d := m s1 XOR m s2))"

fun xor_words :: "nat \<Rightarrow> nat \<Rightarrow> nat \<Rightarrow> nat \<Rightarrow> memory \<Rightarrow> memory" where
  "xor_words 0 d s1 s2 m = m"
| "xor_words (Suc n) d s1 s2 m =
     xor_words n d (s1 + SOST) (s2 + SOST) (store64 m d (load64 m s1 XOR load64 m s2))"

fun xor_words2 :: "nat \<Rightarrow> nat \<Rightarrow> nat \<Rightarrow> memory \<Rightarrow> memory" where
  "xor_words2 0 d s m = m"
| "xor_words2 (Suc n) d s m = xor_words2 n d (s + SOST) (store64 m d (load64 m d XOR load64 m s))"

fun xor_skim ::
    "nat \<Rightarrow> nat \<Rightarrow> nat \<Rightarrow> u64 \<Rightarrow> nat \<Rightarrow> nat \<Rightarrow> nat \<Rightarrow> u64 \<Rightarrow> nat \<Rightarrow> nat \<Rightarrow> memory \<Rightarrow> memory" where
  "xor_skim 0 d s1 c_ex1 shift11 shift12 s2 c_ex2 shift21 shift22 m = m"
| "xor_skim (Suc n) d s1 c_ex1 shift11 shift12 s2 c_ex2 shift21 shift22 m =
     (let c1 = c_ex1; c2 = c_ex2;
          c_ex1 = load64 m s1; c_ex2 = load64 m s2;
          c1 = drop_bit shift11 c1 OR push_bit shift12 c_ex1;
          c2 = drop_bit shift21 c2 OR push_bit shift22 c_ex2
      in xor_skim n (d + SOST) (s1 + SOST) c_ex1 shift11 shift12 (s2 + SOST) c_ex2 shift21 shift22
           (store64 m d (c1 XOR c2)))"

definition xor_skimmed :: "nat \<Rightarrow> nat \<Rightarrow> nat \<Rightarrow> nat \<Rightarrow> memory \<Rightarrow> memory option" where
  "xor_skimmed cycles dst src1 src2 m =
     (let shift21 = ALIGN_DOWN_DIFF src2 SOST * 8;
          shift22 = (SOST - ALIGN_DOWN_DIFF src2 SOST) * 8;
          src_sizet2 = ALIGN_DOWN src2 SOST
      in if dst = src1 then
           (if shift22 \<ge> 64 then None
            else Some (skim_loop (XOR) cycles dst (src_sizet2 + SOST) (load64 m src_sizet2) shift21 shift22 m))
         else
           (let shift11 = ALIGN_DOWN_DIFF src1 SOST * 8;
                shift12 = (SOST - ALIGN_DOWN_DIFF src1 SOST) * 8;
                src_sizet1 = ALIGN_DOWN src1 SOST
            in if shift12 \<ge> 64 \<or> shift22 \<ge> 64 then None
               else Some (xor_skim cycles dst
                      (src_sizet1 + SOST) (load64 m src_sizet1) shift11 shift12
                      (src_sizet2 + SOST) (load64 m src_sizet2) shift21 shift22 m)))"

definition memxorcpy :: "bool \<Rightarrow> nat \<Rightarrow> nat \<Rightarrow> nat \<Rightarrow> nat \<Rightarrow> memory \<Rightarrow> memory option" where
  "memxorcpy unaligned_ok dst src1 src2 len m =
     (if dst = 0 \<or> src1 = 0 \<or> src2 = 0 then Some m
      else if SYSTEM_MIN_BYTES_WORK > len then Some (xor_bytes len dst src1 src2 m)
      else
        (let i = ALIGN_DIFF dst SOST;
             len = len - i;
             m = xor_bytes i dst src1 src2 m;
             dst = dst + i; src1 = src1 + i; src2 = src2 + i;
             i = ALIGN_DOWN_DIFF dst (SOST * 2) XOR
                   (ALIGN_DOWN_DIFF src1 (SOST * 2) OR ALIGN_DOWN_DIFF src2 (SOST * 2));
             small_len = len div SOST
         in
          if i AND (SOST - 1) = 0 then
            Some (xor_bytes (len mod SOST) dst (src1 + small_len * SOST) (src2 + small_len * SOST)
                    (xor_words small_len dst src1 src2 m))
          else if unaligned_ok then
            (if dst = src1 then
               Some (xor_bytes (len mod SOST) dst dst (src2 + small_len * SOST)
                       (xor_words2 small_len dst src2 m))
             else
               Some (xor_bytes (len mod SOST) dst (src1 + small_len * SOST) (src2 + small_len * SOST)
                       (xor_words small_len dst src1 src2 m)))
          else
            (let cycles = small_len - 1
             in map_option
                  (xor_bytes (len - cycles * SOST) (dst + cycles * SOST)
                     (src1 + cycles * SOST) (src2 + cycles * SOST))
                  (xor_skimmed cycles dst src1 src2 m))))"

subsection \<open>What is meant\<close>

definition applied :: "(byte \<Rightarrow> byte \<Rightarrow> byte) \<Rightarrow> nat \<Rightarrow> nat \<Rightarrow> nat \<Rightarrow> memory \<Rightarrow> memory" where
  "applied f d s n m = (\<lambda>x. if d \<le> x \<and> x < d + n then f (m x) (m (s + (x - d))) else m x)"

text \<open>The two blocks are the same or do not overlap.\<close>

definition separate :: "nat \<Rightarrow> nat \<Rightarrow> nat \<Rightarrow> bool" where
  "separate d s n \<longleftrightarrow> d = s \<or> s + n \<le> d \<or> d + n \<le> s"

lemma applied_0 [simp]: "applied f d s 0 m = m"
  by (rule ext) (auto simp: applied_def)

lemma separate_first: "separate d s (k + n) \<Longrightarrow> separate d s k"
  and separate_le: "separate d s n \<Longrightarrow> k \<le> n \<Longrightarrow> separate d s k"
  and separate_rest: "separate d s (k + n) \<Longrightarrow> separate (d + k) (s + k) n"
  by (auto simp: separate_def)

lemma applied_append:
  assumes "separate d s (k + n)"
  shows "applied f (d + k) (s + k) n (applied f d s k m) = applied f d s (k + n) m"
proof
  fix x
  consider "x < d + k" | "d + k \<le> x" "x < d + k + n" | "d + k + n \<le> x" by linarith
  then show "applied f (d + k) (s + k) n (applied f d s k m) x = applied f d s (k + n) m x"
  proof cases
    case 2
    then have e: "s + k + (x - (d + k)) = s + (x - d)" by simp
    have "\<not> (d \<le> s + (x - d) \<and> s + (x - d) < d + k)"
      using 2 assms by (auto simp: separate_def)
    then show ?thesis using 2 unfolding applied_def e by auto
  qed (auto simp: applied_def)
qed

lemma byte_loop_applied: "separate d s n \<Longrightarrow> byte_loop f n d s m = applied f d s n m"
proof (induction n arbitrary: d s m)
  case (Suc n)
  have sep: "separate d s (1 + n)" using Suc.prems by simp
  have "m(d := f (m d) (m s)) = applied f d s 1 m" by (rule ext) (auto simp: applied_def)
  then show ?case
    using Suc.IH[OF separate_rest[OF sep]] applied_append[OF sep] by simp
qed simp

text \<open>The test for a common alignment looks at more bits than it needs.\<close>

lemma same_offset:
  "(ALIGN_DOWN_DIFF x (SOST * 2) XOR ALIGN_DOWN_DIFF y (SOST * 2)) AND (SOST - 1) = 0 \<longleftrightarrow> x mod 8 = y mod 8"
proof -
  have seven: "SOST - 1 = mask 3" "SOST * 2 = 2 ^ 4" "(8::nat) = 2 ^ 3" by (simp_all add: SOST_def mask_eq_exp_minus_1)
  have "(ALIGN_DOWN_DIFF x (SOST * 2) XOR ALIGN_DOWN_DIFF y (SOST * 2)) AND (SOST - 1) =
      take_bit 3 (take_bit 4 x XOR take_bit 4 y)"
    unfolding ALIGN_DOWN_DIFF_def seven take_bit_eq_mask[symmetric] take_bit_eq_mod ..
  also have "\<dots> = take_bit 3 x XOR take_bit 3 y" by simp
  finally show ?thesis unfolding seven(3) take_bit_eq_mod[symmetric]
    by (simp add: bit_eq_iff bit_xor_iff)
qed

lemma aligned_together:
  assumes "x mod 8 = 0"
  shows "(ALIGN_DOWN_DIFF x (SOST * 2) XOR (ALIGN_DOWN_DIFF y (SOST * 2) OR ALIGN_DOWN_DIFF z (SOST * 2))) AND (SOST - 1) = 0
    \<longleftrightarrow> y mod 8 = 0 \<and> z mod 8 = 0"
proof -
  have seven: "SOST - 1 = mask 3" "SOST * 2 = 2 ^ 4" "(8::nat) = 2 ^ 3" by (simp_all add: SOST_def mask_eq_exp_minus_1)
  have "take_bit 3 x = 0" using assms unfolding seven(3) take_bit_eq_mod[symmetric] .
  then have "take_bit 3 (take_bit 4 x XOR (take_bit 4 y OR take_bit 4 z)) = take_bit 3 y OR take_bit 3 z"
    by simp
  then show ?thesis unfolding ALIGN_DOWN_DIFF_def seven take_bit_eq_mask[symmetric] take_bit_eq_mod[symmetric]
    by (simp add: bit_eq_iff bit_or_iff) blast
qed

subsection \<open>Word loops\<close>

text \<open>An operation on words that works on every lane like an operation on bytes.\<close>

locale lanewise =
  fixes f :: "byte \<Rightarrow> byte \<Rightarrow> byte" and F :: "u64 \<Rightarrow> u64 \<Rightarrow> u64"
  assumes lanes: "k < 8 \<Longrightarrow> lane (F v w) k = f (lane v k) (lane w k)"
begin

lemma store_applied:
  assumes "\<And>k. k < 8 \<Longrightarrow> lane c k = m (s + k)"
  shows "store64 m d (F (load64 m d) c) = applied f d s SOST m"
proof
  fix x
  show "store64 m d (F (load64 m d) c) x = applied f d s SOST m x"
  proof (cases "d \<le> x \<and> x < d + 8")
    case True
    then have "x - d < 8" "d + (x - d) = x" by auto
    then have "lane (F (load64 m d) c) (x - d) = f (m x) (m (s + (x - d)))"
      using assms[of "x - d"] lanes[of "x - d"] lane_load64[of "x - d" m d] by simp
    then show ?thesis using True by (simp add: store64_def applied_def SOST_def)
  next
    case False
    then show ?thesis by (auto simp: store64_def applied_def SOST_def)
  qed
qed

lemma word_loop_applied: "separate d s (n * SOST) \<Longrightarrow> word_loop F n d s m = applied f d s (n * SOST) m"
proof (induction n arbitrary: d s m)
  case (Suc n)
  have sep: "separate d s (SOST + n * SOST)" using Suc.prems by simp
  have "store64 m d (F (load64 m d) (load64 m s)) = applied f d s SOST m"
    by (rule store_applied) (rule lane_load64)
  then show ?case
    using Suc.IH[OF separate_rest[OF sep]] applied_append[OF sep] by simp
qed simp

lemma skim_loop_applied:
  assumes "0 < k" "k < 8" and "separate d (a + k) (n * SOST + SOST)" and "d \<noteq> a + k"
    and "\<And>j. k \<le> j \<Longrightarrow> j < 8 \<Longrightarrow> lane c_ex j = m (a + j)"
  shows "skim_loop F n d (a + SOST) c_ex (k * 8) ((SOST - k) * 8) m = applied f d (a + k) (n * SOST) m"
  using assms(3-)
proof (induction n arbitrary: d a c_ex m)
  case (Suc n)
  let ?w = "load64 m (a + SOST)"
  let ?c = "drop_bit (k * 8) c_ex OR push_bit ((SOST - k) * 8) ?w"
  have lane_c: "lane ?c j = m (a + k + j)" if j: "j < 8" for j
  proof -
    have "lane ?c j = lane (drop_bit (k * 8) (load64 m a) OR push_bit ((8 - k) * 8) (load64 m (a + 8))) j"
    proof (rule bit_word_eqI)
      fix n assume n: "n < LENGTH(8)"
      have "bit (drop_bit (k * 8) c_ex) (8 * j + n) = bit (drop_bit (k * 8) (load64 m a)) (8 * j + n)"
      proof (cases "k + j < 8")
        case True
        have "bit (lane c_ex (k + j)) n = bit (lane (load64 m a) (k + j)) n"
          using Suc.prems(3)[of "k + j"] lane_load64[OF True, of m a] True by simp
        then show ?thesis using n by (simp add: bit_lane bit_drop_bit_eq algebra_simps)
      next
        case False
        then have "64 \<le> k * 8 + (8 * j + n)" by simp
        then have "\<not> bit x (k * 8 + (8 * j + n))" for x :: u64 using bit_imp_le_length[of x] by fastforce
        then show ?thesis by (simp add: bit_drop_bit_eq)
      qed
      then show "bit (lane ?c j) n = bit (lane (drop_bit (k * 8) (load64 m a) OR push_bit ((8 - k) * 8) (load64 m (a + 8))) j) n"
        by (simp add: bit_lane bit_or_iff SOST_def)
    qed
    then show ?thesis using lane_skim[OF assms(1,2) j] by simp
  qed
  let ?m = "store64 m d (F (load64 m d) ?c)"
  have m: "?m = applied f d (a + k) SOST m" using lane_c by (rule store_applied)
  have sep: "separate d (a + k) (SOST + (n * SOST + SOST))" using Suc.prems(1) by (simp add: algebra_simps)
  have ne: "d + SOST \<noteq> a + SOST + k" using Suc.prems(2) by simp
  have keep: "lane ?w j = ?m (a + SOST + j)" if "k \<le> j" "j < 8" for j
  proof -
    have "\<not> (d \<le> a + SOST + j \<and> a + SOST + j < d + SOST)"
      using sep Suc.prems(2) that assms(1,2) by (auto simp: separate_def SOST_def)
    then show ?thesis using lane_load64[OF that(2), of m "a + SOST"] by (auto simp: m applied_def)
  qed
  have "separate (d + SOST) (a + SOST + k) (n * SOST + SOST)"
    using separate_rest[OF sep] by (simp add: add.commute add.left_commute)
  from Suc.IH[OF this ne keep]
  have "skim_loop F (Suc n) d (a + SOST) c_ex (k * 8) ((SOST - k) * 8) m =
      applied f (d + SOST) (a + SOST + k) (n * SOST) ?m"
    by (simp add: Let_def)
  also have "a + SOST + k = a + k + SOST" by simp
  also have "applied f (d + SOST) (a + k + SOST) (n * SOST) ?m = applied f d (a + k) (SOST + n * SOST) m"
    unfolding m using Suc.prems(1) by (intro applied_append) (auto simp: separate_def)
  finally show ?case by simp
qed simp

lemma mem_apply_applied:
  assumes sep: "separate dst src len"
  shows "mem_apply unaligned_ok f F dst src len m = applied f dst src len m"
proof (cases "SYSTEM_MIN_BYTES_WORK > len")
  case True
  then show ?thesis using byte_loop_applied[OF sep] by (simp add: mem_apply_def)
next
  case False
  define i where "i = ALIGN_DIFF dst SOST"
  define n where "n = len - i"
  define d where "d = dst + i"
  define s where "s = src + i"
  define m1 where "m1 = byte_loop f i dst src m"
  have i8: "i < 8" "d mod 8 = 0" "64 \<le> len"
    using False by (auto simp: i_def d_def ALIGN_DIFF_def SOST_def SYSTEM_MIN_BYTES_WORK_def)
  then have len: "len = i + n" "56 < n" by (auto simp: n_def)
  have m1: "m1 = applied f dst src i m"
    unfolding m1_def using sep len(1) by (intro byte_loop_applied) (auto simp: separate_def)
  have sep1: "separate d s n" using sep len(1) by (auto simp: d_def s_def separate_def)
  have fin: "applied f d s n m1 = applied f dst src len m"
    unfolding m1 d_def s_def len(1) using sep len(1) by (intro applied_append) simp
  have tail: "byte_loop f (n - k) (d + k) (s + k) (applied f d s k m1) = applied f d s n m1" if "k \<le> n" for k
  proof -
    have e: "n = k + (n - k)" using that by simp
    then have "separate d s (k + (n - k))" using sep1 by simp
    then show ?thesis
      using byte_loop_applied[OF separate_rest] applied_append e by metis
  qed
  show ?thesis
  proof (cases "(ALIGN_DOWN_DIFF d (SOST * 2) XOR ALIGN_DOWN_DIFF s (SOST * 2)) AND (SOST - 1) = 0 \<or> unaligned_ok")
    case True
    let ?k = "n div SOST * SOST"
    have "n mod SOST = n - ?k" "?k \<le> n" by (simp_all add: minus_div_mult_eq_mod)
    moreover have "word_loop F (n div SOST) d s m1 = applied f d s ?k m1"
      using sep1 \<open>?k \<le> n\<close> by (intro word_loop_applied) (rule separate_le)
    ultimately have "byte_loop f (n mod SOST) (d + ?k) (s + ?k) (word_loop F (n div SOST) d s m1) = applied f dst src len m"
      using tail[of ?k] fin by simp
    then show ?thesis
      using False True unfolding mem_apply_def Let_def i_def[symmetric] d_def[symmetric] s_def[symmetric]
        n_def[symmetric] m1_def[symmetric] by simp
  next
    case skim: False
    let ?c = "n div SOST - 1" and ?k = "s mod 8" and ?a = "s div 8 * 8"
    have "d mod 8 \<noteq> s mod 8" using skim same_offset by blast
    then have k: "0 < ?k" "?k < 8" "?a + ?k = s" using i8(2) by simp_all
    have c: "?c * SOST + SOST \<le> n" using len(2) by (simp add: SOST_def)
    have "skim_loop F ?c d (?a + SOST) (load64 m1 ?a) (?k * 8) ((SOST - ?k) * 8) m1 = applied f d (?a + ?k) (?c * SOST) m1"
      using k(1,2)
    proof (rule skim_loop_applied)
      show "separate d (?a + ?k) (?c * SOST + SOST)" using sep1 c k(3) by (auto simp: separate_def)
      show "d \<noteq> ?a + ?k" using k i8(2) by auto
    qed (rule lane_load64)
    then have "byte_loop f (n - ?c * SOST) (d + ?c * SOST) (s + ?c * SOST)
        (skim_loop F ?c d (?a + SOST) (load64 m1 ?a) (?k * 8) ((SOST - ?k) * 8) m1) = applied f dst src len m"
      using tail[of "?c * SOST"] fin c k(3) by simp
    then show ?thesis
      using False skim unfolding mem_apply_def Let_def i_def[symmetric] d_def[symmetric] s_def[symmetric]
        n_def[symmetric] m1_def[symmetric] by (simp add: ALIGN_DOWN_DIFF_def ALIGN_DOWN_def SOST_def)
  qed
qed

end

interpretation and_lanes: lanewise "(AND)" "(AND)"
  by unfold_locales (rule lane_and)

interpretation not_lanes: lanewise "\<lambda>d s. NOT s" "\<lambda>d s. NOT s"
  by unfold_locales (rule lane_not)

interpretation xor_lanes: lanewise "(XOR)" "(XOR)"
  by unfold_locales (rule lane_xor)

subsection \<open>The properties\<close>

text \<open>
  C16: \<open>memand\<close> replaces every byte of the destination block by its conjunction with the byte of the
  source block, and nothing else, for every length and every alignment of the two pointers.
\<close>

theorem memand_correct:
  assumes "separate dst src len" "dst \<noteq> 0" "src \<noteq> 0"
  shows "memand unaligned_ok dst src len m =
    (\<lambda>x. if dst \<le> x \<and> x < dst + len then m x AND m (src + (x - dst)) else m x)"
  using assms and_lanes.mem_apply_applied[OF assms(1)] by (simp add: memand_def applied_def)

theorem memand_correct_witness: "memand False 3 201 100 (\<lambda>x. word_of_nat x) 4 = 4 AND 202"
  using memand_correct[of 3 201 100 False "\<lambda>x. word_of_nat x"] by (simp add: separate_def)

text \<open>
  \<open>memneg\<close> writes the complement of every byte of the source block (of the destination block
  itself, if the source is the null pointer) to the destination block, and nothing else.
\<close>

theorem memneg_correct:
  assumes "separate dst src len" "dst \<noteq> 0"
  shows "memneg unaligned_ok dst src len m =
    (\<lambda>x. if dst \<le> x \<and> x < dst + len then NOT (m ((if src = 0 then dst else src) + (x - dst))) else m x)"
proof -
  have "separate dst (if src = 0 then dst else src) len" using assms(1) by (simp add: separate_def)
  from not_lanes.mem_apply_applied[OF this] assms(2) show ?thesis
    by (simp add: memneg_def applied_def Let_def)
qed

theorem memneg_correct_witness: "memneg False 3 201 100 (\<lambda>x. word_of_nat x) 4 = NOT 202"
  using memneg_correct[of 3 201 100 False "\<lambda>x. word_of_nat x"] by (simp add: separate_def)

lemma xor_words_frame: "x < d \<or> d + 8 \<le> x \<Longrightarrow> xor_words n d s1 s2 m x = m x"
  by (induction n arbitrary: s1 s2 m) (auto simp: store64_def)

lemma xor_words2_frame: "x < d \<or> d + 8 \<le> x \<Longrightarrow> xor_words2 n d s m x = m x"
  by (induction n arbitrary: s m) (auto simp: store64_def)

lemma xor_bytes_frame: "x < d \<or> d + n \<le> x \<Longrightarrow> xor_bytes n d s1 s2 m x = m x"
  by (induction n arbitrary: d s1 s2 m) auto

lemma xor_tail_frame: "x < d \<or> d + 8 \<le> x \<Longrightarrow> xor_bytes (n mod SOST) d s1 s2 m x = m x"
  using mod_less_divisor[of SOST n] by (intro xor_bytes_frame) (auto simp: SOST_def)

lemma xor_bytes_two: "xor_bytes n d d s m = byte_loop (XOR) n d s m"
  by (induction n arbitrary: d s m) auto

lemma option_frame: "(case r of None \<Rightarrow> False | Some m' \<Rightarrow> P m') \<Longrightarrow> \<exists>m'. r = Some m' \<and> P m'"
  by (cases r) auto

text \<open>
  C17: \<open>memxorcpy\<close> with an aligned destination and a block of at least 64 bytes: on a machine with
  unaligned access, and on every machine if both sources are aligned, all but the first eight
  bytes of the destination block keep their old contents.  The loops never advance the destination.
\<close>

theorem memxorcpy_stuck:
  assumes "64 \<le> len" "dst mod 8 = 0" "unaligned_ok \<or> src1 mod 8 = 0 \<and> src2 mod 8 = 0"
  shows "\<exists>m'. memxorcpy unaligned_ok dst src1 src2 len m = Some m' \<and> (\<forall>x. x < dst \<or> dst + 8 \<le> x \<longrightarrow> m' x = m x)"
proof (rule option_frame)
  have "ALIGN_DIFF dst SOST = 0" using assms(2) by (auto simp: ALIGN_DIFF_def SOST_def)
  then show "case memxorcpy unaligned_ok dst src1 src2 len m of None \<Rightarrow> False
      | Some m' \<Rightarrow> (\<forall>x. x < dst \<or> dst + 8 \<le> x \<longrightarrow> m' x = m x)"
    using assms(1,3) aligned_together[OF assms(2), of src1 src2]
    by (auto simp: memxorcpy_def Let_def SYSTEM_MIN_BYTES_WORK_def xor_words_frame xor_words2_frame xor_tail_frame)
qed

theorem memxorcpy_stuck_witness: "\<exists>m'. memxorcpy False 8 80 160 64 (\<lambda>x. 1) = Some m' \<and> m' 16 = 1"
  using memxorcpy_stuck[of 64 8 False 80 160 "\<lambda>x. 1"] by auto

lemma ALIGN_DIFF_mod: "(x + ALIGN_DIFF x SOST) mod 8 = 0"
  by (auto simp: ALIGN_DIFF_def SOST_def)

lemma mod_same_offset: "(x + i) mod 8 = 0 \<Longrightarrow> (y + i) mod 8 = 0 \<Longrightarrow> x mod 8 = y mod (8::nat)"
proof (induction x y rule: linorder_wlog)
  case (le x y)
  then have "8 dvd (y + i) - (x + i)" by (intro dvd_diff_nat) auto
  then show ?case using le(1) mod_eq_dvd_iff_nat[of x y 8] by simp
qed simp

lemma memxorcpy_two:
  assumes "len < 64 \<or> dst mod 8 \<noteq> src mod 8" "dst \<noteq> 0" "src \<noteq> 0"
  shows "memxorcpy False dst dst src len m = Some (mem_apply False (XOR) (XOR) dst src len m)"
proof (cases "len < 64")
  case True
  then show ?thesis using assms(2,3)
    by (simp add: memxorcpy_def mem_apply_def SYSTEM_MIN_BYTES_WORK_def xor_bytes_two)
next
  case False
  define i where "i = ALIGN_DIFF dst SOST"
  have i: "(dst + i) mod 8 = 0" unfolding i_def by (rule ALIGN_DIFF_mod)
  then have s: "(src + i) mod 8 \<noteq> 0" using False assms(1) mod_same_offset[of dst i src] by linarith
  then have "\<not> 64 \<le> (SOST - ALIGN_DOWN_DIFF (src + i) SOST) * 8"
    by (auto simp: SOST_def ALIGN_DOWN_DIFF_def)
  moreover have "\<not> (ALIGN_DOWN_DIFF (dst + i) (SOST * 2) XOR
      (ALIGN_DOWN_DIFF (dst + i) (SOST * 2) OR ALIGN_DOWN_DIFF (src + i) (SOST * 2))) AND (SOST - 1) = 0"
    using aligned_together[OF i, of "dst + i" "src + i"] s by simp
  moreover have "\<not> (ALIGN_DOWN_DIFF (dst + i) (SOST * 2) XOR ALIGN_DOWN_DIFF (src + i) (SOST * 2)) AND (SOST - 1) = 0"
  proof -
    have "(dst + i) mod 8 \<noteq> (src + i) mod 8" using i s by simp
    then show ?thesis using same_offset by blast
  qed
  moreover have "\<not> SYSTEM_MIN_BYTES_WORK > len" using False by (simp add: SYSTEM_MIN_BYTES_WORK_def)
  ultimately show ?thesis
    using assms(2,3)
    by (simp only: memxorcpy_def mem_apply_def i_def[symmetric] Let_def if_False simp_thms
        xor_skimmed_def xor_bytes_two option.map if_True)
qed

text \<open>
  \<open>memxorcpy\<close> in the cases that do work as meant: short blocks, and blocks that are combined in
  place on a machine without unaligned access whose addresses differ in alignment.
\<close>

theorem memxorcpy_in_place:
  assumes "separate dst src len" "len < 64 \<or> dst mod 8 \<noteq> src mod 8" "dst \<noteq> 0" "src \<noteq> 0"
  shows "memxorcpy False dst dst src len m =
    Some (\<lambda>x. if dst \<le> x \<and> x < dst + len then m x XOR m (src + (x - dst)) else m x)"
  using xor_lanes.mem_apply_applied[OF assms(1)] memxorcpy_two[OF assms(2-)] by (simp add: applied_def)

theorem memxorcpy_in_place_witness:
  "map_option (\<lambda>m. m 4) (memxorcpy False 3 3 202 100 (\<lambda>x. word_of_nat x)) = Some (4 XOR 203)"
  using memxorcpy_in_place[of 3 202 100 "\<lambda>x. word_of_nat x"] by (simp add: separate_def)

end
