(* ===== verification/QHT_Handler.thy ===== *)
theory QHT_Handler
  imports QHT_Table_Correct Packet_Children
begin

text \<open>
  The handler of the packets that carry query hash tables, \<open>handle_QHT\<close> of \<^verbatim>\<open>G2Packet.c\<close>: a reset
  of the table, or a fragment of a patch, and the packets a hub sends to bring a neighbour up to
  date.  The main property is that a table arrives: the fragments computed from two tables, sent
  one by one and handled by the receiver, turn the one into the other.
\<close>


subsection \<open>The handlers\<close>






subsection \<open>The packets that are sent\<close>








section \<open>What the sender computes\<close>



definition frag_content :: "qht_fragment \<Rightarrow> byte list" where
  "frag_content f = drop QHT_PATCH_HEADER_BYTES (frag_data f)"




section \<open>What the receiver makes of it\<close>

text \<open>A fragment as it arrives.\<close>

definition arrived :: "qht_fragment \<Rightarrow> qht_fragment" where
  "arrived k = k\<lparr>frag_data := frag_content k\<rparr>"

lemma arrived_sel [simp]:
  "frag_nr (arrived k) = frag_nr k" "frag_count (arrived k) = frag_count k"
  "frag_comp (arrived k) = frag_comp k" "frag_data (arrived k) = frag_content k"
  by (simp_all add: arrived_def)








section \<open>The properties\<close>












end
