(* ===== verification/Spec2Isabelle.thy ===== *)
theory Spec2Isabelle
  imports Rb_Properties GUID_Cache Query_Key_Cache KHL_Properties Base_Codec_Correct
    Bitfield_RLE_Index Con_Tables Key_Exchange Timer_Correct Mem_Ops QHT_Handler Packet_Stream Packet_Roundtrip
begin

text \<open>
  A verification of the core of g2cd, a hub for the Gnutella2 network.

  \<^bold>\<open>The program.\<close>  g2cd accepts connections from leafs and other hubs, reads packets from TCP
  streams and UDP datagrams, hands them to handlers by packet type, and writes packets back.  A
  packet is a header (a control byte, a length, a type name) with an optional list of child packets
  and its own data.  Leafs upload query hash tables, bit tables in which a cleared bit says that a
  leaf may have a file for a hash value; the hub keeps them run length encoded, combines them, and
  looks hashes of queries up in them.  Queries by UDP need a query key, which the hub derives from the
  address of the sender and a ring of salts; it remembers the keys of other hubs, the addresses
  behind GUIDs and the hubs it has heard of in three caches.

  \<^bold>\<open>Theories.\<close>
  \<^item> \<open>G2_Prelude\<close>: machine types, \<open>size_t\<close> arithmetic that wraps (\<open>size_sub\<close>), the control flow of
    \<open>switch\<close> inside \<open>while\<close> with fall-through (\<open>switch\<close>, \<open>c_while\<close>, where \<open>None\<close> is undefined
    behaviour), byte sequences of numbers, and the rule collections.
  \<^item> \<open>Sec_Buffer\<close>: the buffer macros of \<^verbatim>\<open>lib/sec_buffer.h\<close> on the record \<open>pointer_buff\<close>, and the
    invariant \<open>wf_buff\<close> they keep.
  \<^item> \<open>Packet_Typer\<close>, \<open>Packet_Typer_Table\<close>, \<open>Packet_Typer_Correct\<close>: the packet types of
    \<^verbatim>\<open>G2Packet.h\<close>, the generator of the type table (\<^verbatim>\<open>G2PacketTyperGenerator.c\<close>), the table it
    prints and \<open>g2_packet_find_type\<close> of \<^verbatim>\<open>G2Packet.c\<close>; the lookup finds exactly the names of the
    list.
  \<^item> \<open>G2_Packet\<close>: the packet structure as a record and as a tree with its children, and its
    constructors and destructors.
  \<^item> \<open>Packet_Decode\<close>, \<open>Packet_Decode_Correct\<close>: the decoder of \<^verbatim>\<open>G2PacketSerializer.c\<close>, its states as
    the cases of \<open>g2_packet_extract_from_stream_b\<close> and \<open>g2_packet_decode\<close>; a reference parser of the
    header, and that both decoders follow it.
  \<^item> \<open>Packet_Stream\<close>: the stream decoder called again and again while the bytes arrive in arbitrary
    pieces, as an inductive relation on its states.
  \<^item> \<open>Packet_Encode\<close>, \<open>Packet_Encode_Correct\<close>: preparing and writing a tree of packets, the wire
    format as a function on trees, and that the encoder writes it.
  \<^item> \<open>Packet_Children\<close>: the loop of the packet handlers over the children of a packet.
  \<^item> \<open>Packet_Roundtrip\<close>: writing, reading and walking a tree gives the tree back.
  \<^item> \<open>Bitfield_RLE\<close>, \<open>Bitfield_RLE_Correct\<close>, \<open>Bitfield_RLE_Index\<close>: the run length codec of
    \<^verbatim>\<open>lib/bitfield_rle.c\<close> with its index of sync blocks: round trip, and, lookup, bounds.  The locale
    \<open>rle_sink\<close> states what a consumer of the decoded bytes promises; decoding and anding interpret it.
  \<^item> \<open>Mem_Words\<close>, \<open>Mem_Ops\<close>: memory as bytes and as machine words, and the word at a time routines
    of \<^verbatim>\<open>lib/generic\<close>: \<open>memand\<close>, \<open>memneg\<close>, \<open>memxorcpy\<close>.  The locale \<open>lanewise\<close> states that an
    operation on words acts on every byte alone; the operations of the routines interpret it.
  \<^item> \<open>QHT_Table\<close>, \<open>QHT_Table_Correct\<close>: the tables of \<^verbatim>\<open>G2QHT.c\<close>: reset, collecting the fragments of a
    patch, applying it, compressing, aggregating and computing differences.  zlib is a parameter, and so is \<open>memxorcpy\<close>, since the build
    takes a variant for the machine and the generic one is wrong; the theorems that need it assume what it is documented to do.
  \<^item> \<open>QHT_Handler\<close>: the packets that carry tables, from \<open>handle_QHT\<close> of one hub to the other.
  \<^item> \<open>Con_Registry\<close>: the connection registry of \<^verbatim>\<open>G2ConRegistry.c\<close>, a tree of hash tables, with the master
    table of all leafs and the search for the leafs a query is for (also in \<^verbatim>\<open>G2QHT.c\<close>).  \<open>Con_Registry_Correct\<close>
    has a step relation of everything that happens to it and its invariant, \<open>Con_Tables\<close> what the tables mark
    after an update and what a search finds.
  \<^item> \<open>Base_Codec\<close>, \<open>Swar\<close>, \<open>Base_Codec_Correct\<close>: base 16 and base 32, written a machine word at a time
    and read letter by letter.
  \<^item> \<open>Rb_Tree\<close>: the pointer operations of \<^verbatim>\<open>lib/rbtree.c\<close> on a memory of nodes.  \<open>Rb_Zipper\<close> has
    red-black trees as a datatype with a way from a place up to the root, and rebalancing on them;
    \<open>Rb_Heap\<close> relates memory to trees; \<open>Rb_Insert\<close>, \<open>Rb_Erase\<close> and \<open>Rb_Tree_Correct\<close> show that the
    operations refine the ones on trees, and \<open>Rb_Properties\<close> states the results.
  \<^item> \<open>Combo_Addr\<close>: addresses of \<^verbatim>\<open>lib/combo_addr.c\<close>, the filters for public addresses, comparison and
    hashing (\<^verbatim>\<open>lib/hthash.h\<close>).
  \<^item> \<open>Timed_Cache\<close>: what the three caches share, an array of entries on a free list or in a hash table and
    a tree ordered by age.  The locale \<open>timed_entries\<close> states what an entry type promises (the comparison
    agrees with the age, equal entries have the same key) and proves the operations against a map.
  \<^item> \<open>GUID_Cache\<close>: \<^verbatim>\<open>G2GUIDCache.c\<close>, the first interpretation of \<open>timed_entries\<close>.
  \<^item> \<open>Query_Key\<close>: the salts and keys of \<^verbatim>\<open>G2QueryKey.c\<close> and the GUIDs of \<^verbatim>\<open>lib/guid.c\<close>;
    \<open>Query_Key_Cache\<close>: the cache of keys, the second interpretation of \<open>timed_entries\<close>.
  \<^item> \<open>KHL_Cache\<close>, \<open>KHL_Properties\<close>: the known hubs of \<^verbatim>\<open>G2KHL.c\<close>, the third interpretation, with handing
    out hubs and the dump that keeps them over a restart.
  \<^item> \<open>Timer\<close>, \<open>Timer_Correct\<close>: the timeouts of \<^verbatim>\<open>timeout.c\<close> in a red-black tree, the thread that runs them, and
    that they behave as a map from timeouts to times.  The functions of the timeouts and the clock are parameters.
  \<^item> \<open>UDP_Datagram\<close>: packets in datagrams (\<^verbatim>\<open>G2UDP.c\<close>): the header of the transport, sequence numbers, the choice of a socket,
    sending a packet in parts, and \<open>handle_udp_packet\<close> up to the packet handlers.  Putting several parts together, deflating and inflating,
    and the system calls are parameters.
  \<^item> \<open>Key_Handlers\<close>: addresses in packets and the handlers \<open>handle_QKR\<close> and \<open>handle_QKA\<close> of \<^verbatim>\<open>G2Packet.c\<close> with the
    actions for their children, and the dispatch of packets from datagrams to them; what is sent is recorded.  \<open>Key_Exchange\<close>: addresses and keys over the wire, from the
    request of a leaf over two hubs to the answer, through the encoder, the datagrams, the stream decoder, the walk over the children, the salts,
    the cache of keys and the connection registry.

  \<^bold>\<open>How state and operations correspond.\<close>  C structures are records with the fields of the source,
  functions have the names of the source, a pointer into a buffer is an index, and an access
  outside of an object is \<open>None\<close>.  Loops are recursive functions with termination proofs; the walk
  over a run length encoded table and the loops of the decoder take as fuel the number of bytes
  left, which every round lowers; loops over pointers (rebalancing a tree, the way down to a place) and the
  loop that replaces zero bytes of a salt are partial functions whose theorems state that they return; that it suffices is part of the theorems, which state the result and
  not only what it would be.  \<open>malloc\<close> is a parameter of the functions that call it.  The machine has
  64 bits and is little endian where the code depends on it.

  \<^bold>\<open>Properties.\<close>  The first group is about packets: what is written is read back, however the stream
  is cut, and the walk over the children reads what was sent, though the handlers only get the children without children of their own.  The second is about tables:
  encoding with room to spare and decoding, the conjunction and the lookup agree with the plain table.  The third is
  about the memory routines: \<open>memand\<close> agrees with its bytewise definition, the generic \<open>memxorcpy\<close> does not.  The fourth is about the
  trees, which stay red-black trees under insertion and removal, the caches on top of them, which behave as
  maps with a rule for what is forgotten, and the life time of query keys.  The fifth is about the connections
  and the master table over their tables, and the exchange of a query key between hubs.  The sixth is about the timer, which runs exactly what has
  expired.  Some properties state what
  the code does where it does not do what it means to.

  \<^bold>\<open>Not modelled.\<close>  The handlers of the other packet types, the reassembly of packets from several datagrams and the handshake of
  connections, of which the core above is independent; threads, locks and hazard pointers, sockets, the event loop and its emulations,
  the configuration parser, logging and formatting, and the assembler variants of the library for
  single architectures: \<open>mem_spn_ff\<close>, \<open>mempopcnt\<close> and \<open>flsst\<close>, of which the build takes the variant of the machine, are what their
  descriptions say and not a translation of one of the variants.
\<close>

subsection \<open>Concrete packets\<close>

definition zero_packet :: g2_packet where
  "zero_packet =
     \<lparr>plength = 0, type_length = 0, length_length = 0, packet_type = PT_UNKNOWN,
      big_endian = False, is_compound = False, c_reserved = False,
      packet_decode = CHECK_CONTROLL_BYTE, packet_encode = DECIDE_ENCODE,
      more_bytes_needed = False, is_freeable = True, data_trunk_is_freeable = False,
      is_literal = False, pd = replicate 48 0,
      data_trunk = \<lparr>pos = 0, limit = 0, capacity = 0, data = None\<rparr>\<rparr>"

definition full_buff :: "byte list \<Rightarrow> pointer_buff" where
  "full_buff bs = \<lparr>pos = 0, limit = length bs, capacity = length bs, data = Some bs\<rparr>"

definition empty_buff :: "nat \<Rightarrow> pointer_buff" where
  "empty_buff n = \<lparr>pos = 0, limit = n, capacity = n, data = Some (replicate n 0)\<rparr>"

text \<open>A ping with the address of its sender and the relay mark: \<open>PI { UDP, RELAY }\<close>.\<close>

definition udp_child :: g2_ptree where
  "udp_child = G2_Packet (zero_packet\<lparr>packet_type := 65, data_trunk := full_buff [1, 2, 3, 4, 5, 6]\<rparr>) []"

definition relay_child :: g2_ptree where
  "relay_child = G2_Packet (zero_packet\<lparr>packet_type := 91\<rparr>) []"

definition ping :: g2_ptree where
  "ping = G2_Packet (zero_packet\<lparr>packet_type := 6\<rparr>) [udp_child, relay_child]"

lemmas example_defs = zero_packet_def full_buff_def empty_buff_def udp_child_def relay_child_def ping_def

lemma ping_facts:
  "tree_ok ping" "depth_ok 0 ping" "psize ping = 21" "inner_size ping = 17"
  "list_all known_type (children ping)"
  subgoal by (simp add: example_defs pkt_ok_def wf_buff_def PT_MAXIMUM_def PT_UNKNOWN_def SIZE_MAX_def)
  subgoal by code_simp
  subgoal by code_simp
  subgoal by code_simp
  subgoal by code_simp
  done

lemma udp_facts:
  "tree_ok udp_child" "pkt_ok (hdr udp_child)" "inner_size udp_child = 6" "psize udp_child = 11"
  "with_inner (hdr udp_child) 0 = 6" "children udp_child = []"
proof -
  show "pkt_ok (hdr udp_child)"
    by (simp add: example_defs pkt_ok_def wf_buff_def PT_MAXIMUM_def PT_UNKNOWN_def SIZE_MAX_def)
  then show "tree_ok udp_child" by (simp add: udp_child_def)
  show "inner_size udp_child = 6" "psize udp_child = 11" "with_inner (hdr udp_child) 0 = 6"
    "children udp_child = []" by code_simp+
qed

lemma ping_can_prep: "can_prep 0 ping"
  by (simp add: can_prep_def ping_facts)

lemma ping_top: "packet_encode (hdr ping) = DECIDE_ENCODE" "known_type ping" "\<not> is_literal (hdr ping)"
  "children ping \<noteq> []"
  by (simp_all add: example_defs known_type_def PT_UNKNOWN_def)

lemma wf_empty_buff: "n \<le> 1000 \<Longrightarrow> wf_buff (empty_buff n)"
  by (simp add: empty_buff_def wf_buff_def SIZE_MAX_def)

lemma wf_full_buff: "length bs \<le> 1000 \<Longrightarrow> wf_buff (full_buff bs)"
  by (simp add: full_buff_def wf_buff_def SIZE_MAX_def)

lemma empty_buff_room: "buffer_remaining (empty_buff n) = n" "pos (empty_buff n) = 0"
  by (simp_all add: empty_buff_def buffer_remaining_def)

lemma full_buff_bytes: "buffer_bytes (full_buff bs) = bs"
  by (simp add: full_buff_def buffer_bytes_def)

lemma zero_packet_fields: "length (pd zero_packet) = PD_OUT_SIZE" "packet_decode zero_packet = CHECK_CONTROLL_BYTE"
  by (simp_all add: zero_packet_def PD_OUT_SIZE_def)

section \<open>The properties\<close>

subsection \<open>Packets over the wire\<close>

text \<open>
  C1: A packet tree of known type that is encodable (at most twenty levels below the top, an
  inner length of at most \<open>0xFFFFFF\<close>) and is written to an empty buffer with enough room is
  written completely, and decoding what was written gives the packet back: type, endianness,
  length, the compound flag and the payload, with nothing left over.
\<close>

theorem packet_roundtrip:
  assumes "tree_ok q" "can_prep 0 q" "packet_encode (hdr q) = DECIDE_ENCODE" "known_type q"
    and "wf_buff t" "pos t = 0" "psize q \<le> buffer_remaining t"
    and "length (pd c) = PD_OUT_SIZE" "packet_decode c = CHECK_CONTROLL_BYTE"
  shows "\<exists>q' t' s' c'. g2_packet_serialize_to_buff_p q t = Some (True, q', t') \<and>
    packet_encode (hdr q') = ENCODE_FINISHED \<and>
    g2_packet_decode (buffer_flip t') c = Some (True, s', c') \<and> buffer_bytes s' = [] \<and>
    received q c' \<and> packet_type c' = packet_type (hdr q)"
  by (rule encode_decode[OF assms])

theorem packet_roundtrip_witness:
  "can_prep 0 ping \<and> psize ping \<le> buffer_remaining (empty_buff 64) \<and>
   (\<exists>q' t' s' c'. g2_packet_serialize_to_buff_p ping (empty_buff 64) = Some (True, q', t') \<and>
    packet_encode (hdr q') = ENCODE_FINISHED \<and>
    g2_packet_decode (buffer_flip t') zero_packet = Some (True, s', c') \<and> buffer_bytes s' = [] \<and>
    received ping c' \<and> packet_type c' = packet_type (hdr ping))"
  using packet_roundtrip[of ping "empty_buff 64" zero_packet]
  by (simp add: ping_facts ping_can_prep ping_top wf_empty_buff empty_buff_room zero_packet_fields)

text \<open>
  C2: A packet that is not literal and has children of known types, at least one, and that was received.  The loop of the handlers over its children
  ends and reads exactly the children that were sent, in order; it hands those of them that have no children of their own to the action,
  and drops the compound ones; and it leaves the father positioned at its own data.
\<close>

theorem children_roundtrip:
  assumes "tree_ok q" "inner_size q \<le> 0xFFFFFF" "\<not> is_literal (hdr q)" "children q \<noteq> []"
    and "list_all known_type (children q)"
    and "received q f" and "length (pd g) = PD_OUT_SIZE"
  shows "\<exists>f' ps. list_all2 (\<lambda>c p. received c p \<and> packet_type p = packet_type (hdr c)) (children q) ps \<and>
    child_loop decide g f st = Some (True, f', fold decide (filter (\<lambda>p. \<not> is_compound p) ps) st) \<and>
    packet_decode f' = DECODE_FINISHED \<and>
    buffer_bytes (data_trunk f') = buffer_bytes (data_trunk (hdr q))"
  by (rule received_children[OF assms])

definition received_ping :: g2_packet where
  "received_ping = zero_packet\<lparr>plength := 17, packet_type := 6, is_compound := True,
     packet_decode := GET_CHILD_PACKETS, pd := [80, 73] @ replicate 46 0,
     data_trunk := full_buff [80, 6, 85, 68, 80, 1, 2, 3, 4, 5, 6, 32, 82, 69, 76, 65, 89]\<rparr>"

lemma received_ping: "received ping received_ping"
proof -
  have "payload (prep_tree ping) = [80, 6, 85, 68, 80, 1, 2, 3, 4, 5, 6, 32, 82, 69, 76, 65, 89]"
    by code_simp
  moreover have "take (name_len (hdr ping)) (wire_name (hdr ping)) = [80, 73]" "name_len (hdr ping) = 2"
    by code_simp+
  moreover have "is_compound (prep_flags ping)" "\<not> big_endian (hdr ping)" by code_simp+
  ultimately show ?thesis
    by (simp add: received_def ping_facts received_ping_def full_buff_bytes wf_full_buff zero_packet_def)
qed

theorem children_roundtrip_witness:
  "received ping received_ping \<and>
   (\<exists>f' ps. list_all2 (\<lambda>c p. received c p \<and> packet_type p = packet_type (hdr c)) (children ping) ps \<and>
    child_loop (\<lambda>p n. n + packet_type p) zero_packet received_ping 0 =
      Some (True, f', fold (\<lambda>p n. n + packet_type p) (filter (\<lambda>p. \<not> is_compound p) ps) 0) \<and>
    packet_decode f' = DECODE_FINISHED \<and>
    buffer_bytes (data_trunk f') = buffer_bytes (data_trunk (hdr ping)))"
  using children_roundtrip[of ping received_ping zero_packet] received_ping
  by (simp add: ping_facts ping_top zero_packet_fields)

subsection \<open>The encoder\<close>

text \<open>
  C8: Gathering the lengths.  For a tree whose packets have a valid type and name the preparation
  succeeds exactly if the tree has at most twenty-one levels (depth 0 to 20) and its inner length fits
  into three bytes; the result is the number of bytes the prepared packet has on the wire, and
  every packet of the tree is ready for the encoder.  A literal packet is prepared as well, from its data alone: its children are not
  looked at and do not count, neither for the depth nor for the length.
\<close>

theorem prep_min_correct:
  assumes "tree_ok q"
  shows "fst (g2_packet_serialize_prep_min q) =
      (if can_prep 0 q then Some (length (wire (prep_tree q))) else None) \<and>
    (can_prep 0 q \<longrightarrow> snd (g2_packet_serialize_prep_min q) = prep_tree q \<and> prepared (prep_tree q))"
  using prep_spec_both(1)[OF assms, of 0] wire_prep_tree[OF assms]
  by (auto simp: g2_packet_serialize_prep_min_def can_prep_def)

theorem prep_min_correct_witness:
  "can_prep 0 ping \<and> fst (g2_packet_serialize_prep_min ping) = Some 21"
  using prep_min_correct[of ping] wire_prep_tree[of ping] by (simp add: ping_facts ping_can_prep)

text \<open>
  The preparation never touches the data of a packet: the branch that shortens the data of
  a packet with more than \<open>0xFFFFFF\<close> bytes inside (\<open>scary fixup\<close>) is never taken, such a packet
  is refused.
\<close>

theorem prep_keeps_data:
  "data_trunk (snd (prep_finish p child_size)) = data_trunk p \<and>
   (fst (prep_finish p child_size) \<noteq> None \<longrightarrow> unat (plength (snd (prep_finish p child_size))) \<le> 0xFFFFFF)"
proof -
  have "\<exists>sz. prep_length p child_size
      (if has_data p then child_size + (if child_size \<noteq> 0 then 1 else 0) + buffer_remaining (data_trunk p)
       else child_size) = (if sz \<le> 0xFFFFFF then (Some sz, p\<lparr>length_length := word_of_nat (len_len sz)\<rparr>)
       else (None, p))"
    using prep_length_ok[OF refl] by blast
  then obtain sz where sz: "prep_length p child_size
      (if has_data p then child_size + (if child_size \<noteq> 0 then 1 else 0) + buffer_remaining (data_trunk p)
       else child_size) = (if sz \<le> 0xFFFFFF then (Some sz, p\<lparr>length_length := word_of_nat (len_len sz)\<rparr>)
       else (None, p))" by blast
  have "unat (word_of_nat sz :: u32) \<le> 0xFFFFFF" if "sz \<le> 0xFFFFFF"
    using that plength_word[of sz] by simp
  then show ?thesis unfolding prep_finish_def Let_def sz by (auto simp: Let_def)
qed

theorem prep_keeps_data_witness:
  "fst (prep_finish (hdr udp_child) 0) \<noteq> None \<and> unat (plength (snd (prep_finish (hdr udp_child) 0))) \<le> 0xFFFFFF"
  using prep_keeps_data[of "hdr udp_child" 0] prep_finish_spec[of "hdr udp_child" 0]
  by (simp add: udp_facts)

text \<open>
  C3: A prepared tree is written byte for byte as its wire format says when the target has room
  for it, and the encoder then reports that it is finished; nothing outside of the room is
  written.
\<close>

theorem serialize_correct:
  assumes "prepared q" and "wf_buff t" and "length (wire q) \<le> buffer_remaining t"
  shows "\<exists>q' t'. g2_packet_serialize_to_buff_p q t = Some (True, q', t') \<and>
    packet_encode (hdr q') = ENCODE_FINISHED \<and> wf_buff t' \<and> limit t' = limit t \<and>
    pos t' = pos t + length (wire q) \<and> buffer_written t' = buffer_written t @ wire q"
  using serialize_whole[OF assms] by (auto simp: wrote_def)

theorem serialize_correct_witness:
  "\<exists>q' t'. g2_packet_serialize_to_buff_p (prep_tree ping) (empty_buff 21) = Some (True, q', t') \<and>
    packet_encode (hdr q') = ENCODE_FINISHED \<and> wf_buff t' \<and> limit t' = limit (empty_buff 21) \<and>
    pos t' = pos (empty_buff 21) + length (wire (prep_tree ping)) \<and>
    buffer_written t' = buffer_written (empty_buff 21) @ wire (prep_tree ping)"
  using serialize_correct[of "prep_tree ping" "empty_buff 21"] wire_prep_tree[of ping]
  by (simp add: ping_facts wf_empty_buff empty_buff_room del: prep_tree.simps wire.simps)

text \<open>
  C9: A packet without children can be written into any sequence of buffers: the pieces put
  into them, one behind the other, are the bytes of the packet as far as there is room, and once
  there was room for all of them the packet is finished.
\<close>

theorem serialize_resumes:
  assumes "list_all wf_buff ts" and "flat_packet q" and "packet_encode (hdr q) = SERIALIZATION_PREPARED_MIN"
  shows "\<exists>q'. serialize_seq q ts = Some (q', take (sum_list (map buffer_remaining ts)) (wire q)) \<and>
    (ts \<noteq> [] \<and> length (wire q) \<le> sum_list (map buffer_remaining ts) \<longrightarrow>
       packet_encode (hdr q') = ENCODE_FINISHED)"
proof -
  have "wire q = pending (hdr q)"
    using assms(2,3) by (cases q) (auto simp: flat_packet_def pending_prepared)
  then show ?thesis using serialize_seq_flat[OF assms(1,2)] by auto
qed

theorem serialize_resumes_witness:
  "\<exists>q'. serialize_seq (prep_tree udp_child) [empty_buff 3, empty_buff 0, empty_buff 20] =
      Some (q', take (sum_list (map buffer_remaining [empty_buff 3, empty_buff 0, empty_buff 20]))
        (wire (prep_tree udp_child))) \<and>
    packet_encode (hdr q') = ENCODE_FINISHED"
proof -
  have w: "prepared (prep_tree udp_child)" "length (wire (prep_tree udp_child)) = 11"
    using wire_prep_tree[of udp_child] by (simp_all add: udp_facts)
  moreover have "children (prep_tree udp_child) = []" by code_simp
  with w(1) have "flat_packet (prep_tree udp_child)"
    by (cases "prep_tree udp_child") (simp add: flat_packet_def flat_state_def)
  moreover have "packet_encode (hdr (prep_tree udp_child)) = SERIALIZATION_PREPARED_MIN"
    using w(1) by (cases "prep_tree udp_child") simp
  ultimately show ?thesis
    using serialize_resumes[of "[empty_buff 3, empty_buff 0, empty_buff 20]" "prep_tree udp_child"]
    by (simp add: wf_empty_buff empty_buff_room del: prep_tree.simps wire.simps)
qed

text \<open>
  A packet with children is not resumable: when the target fills up inside of the children
  the encoder forgets them.  A ping of 21 bytes written into ten bytes of room is reported as
  finished although its children are still there.
\<close>

theorem serialize_loses_children:
  "case g2_packet_serialize_to_buff_p ping (empty_buff 10) of
     None \<Rightarrow> False
   | Some (r, q, t) \<Rightarrow> r \<and> packet_encode (hdr q) = ENCODE_FINISHED \<and> children q \<noteq> [] \<and>
       buffer_remaining t = 0 \<and> length (wire (prep_tree ping)) = 21"
  by code_simp

subsection \<open>The decoder\<close>

text \<open>
  C4: Decoding a complete buffer agrees with the reference parser on every content of the buffer.
  It fails on a zero control byte, on a length that does not fit into the buffer, on a character
  that may not stand in a type and on a cut off header, and never moves behind the limit; on a good
  header it delivers the fields of the header and the payload as a window into the buffer, and moves
  behind the packet.
\<close>

theorem decode_correct:
  assumes "wf_buff s" and "length (pd t) = PD_OUT_SIZE" and "packet_decode t = CHECK_CONTROLL_BYTE"
  shows "case parse_header (length (buffer_bytes s)) (buffer_bytes s) of
      HHeader c L ty \<Rightarrow> g2_packet_decode s t =
        map_option (\<lambda>pt. (True, s\<lparr>pos := pos s + header_size c + L\<rparr>,
            decoded c L ty pt s (t\<lparr>more_bytes_needed := False\<rparr>)))
          (g2_packet_find_type (type_name ty)) \<and>
        pos s + header_size c + L \<le> limit s \<and>
        (\<forall>pt. buffer_bytes (data_trunk (decoded c L ty pt s (t\<lparr>more_bytes_needed := False\<rparr>))) =
           take L (drop (header_size c) (buffer_bytes s)))
    | _ \<Rightarrow> \<exists>s' t'. g2_packet_decode s t = Some (False, s', t') \<and> pos s \<le> pos s' \<and> pos s' \<le> limit s"
  using g2_packet_decode_spec[OF assms] decoded_trunk[OF assms(1)]
  by (auto simp: buff_advanced_def split: hparse.split)

theorem decode_correct_witness:
  "wf_buff (full_buff [8, 80, 73]) \<and>
   g2_packet_decode (full_buff [8, 80, 73]) zero_packet =
     Some (True, (full_buff [8, 80, 73])\<lparr>pos := 3\<rparr>,
       decoded 8 0 [80, 73] 6 (full_buff [8, 80, 73]) (zero_packet\<lparr>more_bytes_needed := False\<rparr>))"
proof -
  have "parse_header (Suc (Suc (Suc 0))) [8, 80, 73] = HHeader 8 0 [80, 73]" "header_size 8 = 3"
    "type_name [80, 73] = g2_ptype_names ! 6" by code_simp+
  moreover have "g2_packet_find_type (g2_ptype_names ! 6) = Some 6"
    by (rule find_type_known) (simp_all add: PT_MAXIMUM_def)
  moreover have "wf_buff (full_buff [8, 80, 73])" "pos (full_buff [8, 80, 73]) = 0"
    by (simp_all add: wf_full_buff) (simp add: full_buff_def)
  ultimately show ?thesis
    using decode_correct[of "full_buff [8, 80, 73]" zero_packet]
    by (simp add: full_buff_bytes zero_packet_fields)
qed


lemma zero_packet_fresh: "fresh_target zero_packet"
  by (simp add: fresh_target_def zero_packet_fields) (simp add: zero_packet_def INIT_PBUF_def)

definition zero_malloc :: "nat \<Rightarrow> byte list option" where
  "zero_malloc n = Some (replicate n 0)"

lemma zero_malloc: "zero_malloc n = Some m \<Longrightarrow> length m = n" "zero_malloc n \<noteq> None"
  by (auto simp: zero_malloc_def)

text \<open>The bytes of a \<open>UDP\<close> packet, and its header in two pieces.\<close>

lemma udp_bytes:
  "parse_header 100 [80, 6, 85] = HMore"
  "parse_header 100 [80, 6, 85, 68, 80, 1, 2, 3, 4, 5, 6, 32] = HHeader 80 6 [85, 68, 80]"
  "complete 100 [80, 6, 85, 68, 80, 1, 2, 3, 4, 5, 6, 32]" "\<not> complete 100 [80, 6, 85]"
  "type_name [85, 68, 80] = g2_ptype_names ! 65"
  by code_simp+

lemma udp_typed: "\<not> typer_fault 100 [80, 6, 85, 68, 80, 1, 2, 3, 4, 5, 6, 32]" "\<not> typer_fault 100 [80, 6, 85]"
  using find_type_known[of 65 "g2_ptype_names ! 65"]
  by (auto simp: typer_fault_def udp_bytes PT_MAXIMUM_def)



text \<open>
  C6: The stream decoder does not get stuck: as long as memory can be had, the header is not
  broken and its type can be looked up, every further call succeeds, and it finishes the packet as
  soon as the last byte of it has arrived.
\<close>

theorem stream_progress:
  assumes "delivered malloc mx t0 w s t" "\<not> stream_done t" and "fresh_target t0"
    and "\<And>n m. malloc n = Some m \<Longrightarrow> length m = n" "\<And>n. malloc n \<noteq> None"
    and "wf_buff s1" "buffer_bytes s1 = buffer_bytes s @ new"
    and "parse_header mx (w @ new) \<noteq> HBad" "\<not> typer_fault mx (w @ new)"
  shows "\<exists>s' t'. g2_packet_extract_from_stream_b malloc s1 t mx ev = Some (True, s', t') \<and>
    (stream_done t' \<longleftrightarrow> complete mx (w @ new))"
  using delivered_step[OF assms, of ev] delivered_state[OF _ assms(3,4)] by blast

theorem stream_progress_witness:
  "\<exists>s' t'. g2_packet_extract_from_stream_b zero_malloc
      (full_buff [80, 6, 85, 68, 80, 1, 2, 3, 4, 5, 6, 32]) zero_packet 100 False = Some (True, s', t') \<and>
    stream_done t'"
proof -
  let ?w = "[80, 6, 85, 68, 80, 1, 2, 3, 4, 5, 6, 32]"
  have "delivered zero_malloc 100 zero_packet [] (full_buff []) zero_packet"
    by (rule delivered_none) (simp_all add: wf_full_buff full_buff_bytes)
  moreover have "\<not> stream_done zero_packet" by (simp add: stream_done_def zero_packet_fields)
  ultimately have "\<exists>s' t'. g2_packet_extract_from_stream_b zero_malloc (full_buff ?w) zero_packet 100 False =
      Some (True, s', t') \<and> (stream_done t' \<longleftrightarrow> complete 100 ([] @ ?w))"
    by (rule stream_progress[OF _ _ zero_packet_fresh])
      (simp_all add: zero_malloc wf_full_buff full_buff_bytes udp_bytes udp_typed)
  then show ?thesis using udp_bytes(3) by simp
qed

text \<open>
  C7: Walking over the children of a packet, with any bytes inside, as long as the types of all children can be looked up (a name
  below the first entry of the typer table makes the typer read outside of it).  The loop of the handlers
  ends; it fails exactly if the reference finds a broken child; the packets it saw are the
  children of the reference; the action was called for those that are not compound, in order;
  and at the end the father stands at its data.
\<close>

theorem child_walk_correct:
  assumes "packet_decode source = GET_CHILD_PACKETS" "wf_buff (data_trunk source)"
    and "length (pd g) = PD_OUT_SIZE"
    and "split_children (buffer_bytes (data_trunk source)) = (cs, d)"
    and "list_all child_known cs"
  shows "\<exists>source' ps. list_all2 child_of cs ps \<and>
    child_loop decide g source st =
      Some (d \<noteq> None, source', fold decide (filter (\<lambda>p. \<not> is_compound p) ps) st) \<and>
    (d \<noteq> None \<longrightarrow> packet_decode source' = DECODE_FINISHED \<and>
       Some (buffer_bytes (data_trunk source')) = d)"
  using child_loop_spec[OF assms(1-3), of decide st] assms(4,5) unfolding walk_result_def by auto

theorem child_walk_correct_witness:
  "split_children (buffer_bytes (data_trunk received_ping)) =
     ([Child 80 6 [85, 68, 80] [1, 2, 3, 4, 5, 6], Child 32 0 [82, 69, 76, 65, 89] []], Some []) \<and>
   (\<exists>source' ps. list_all2 child_of
        [Child 80 6 [85, 68, 80] [1, 2, 3, 4, 5, 6], Child 32 0 [82, 69, 76, 65, 89] []] ps \<and>
    child_loop (\<lambda>p n. n + packet_type p) zero_packet received_ping 0 =
      Some (True, source', fold (\<lambda>p n. n + packet_type p) (filter (\<lambda>p. \<not> is_compound p) ps) 0))"
proof -
  have sp: "split_children (buffer_bytes (data_trunk received_ping)) =
     ([Child 80 6 [85, 68, 80] [1, 2, 3, 4, 5, 6], Child 32 0 [82, 69, 76, 65, 89] []], Some [])"
    by code_simp
  have "type_name [85, 68, 80] = g2_ptype_names ! 65"
    "type_name [82, 69, 76, 65, 89] = g2_ptype_names ! 91" by code_simp+
  then have kn: "list_all child_known
      [Child 80 6 [85, 68, 80] [1, 2, 3, 4, 5, 6], Child 32 0 [82, 69, 76, 65, 89] []]"
    using find_type_known[of 65 "g2_ptype_names ! 65"] find_type_known[of 91 "g2_ptype_names ! 91"]
    by (simp add: PT_MAXIMUM_def)
  have "packet_decode received_ping = GET_CHILD_PACKETS" "wf_buff (data_trunk received_ping)"
    by (simp_all add: received_ping_def wf_full_buff)
  from child_walk_correct[OF this zero_packet_fields(1) sp kn, of "\<lambda>p n. n + packet_type p" 0] sp
  show ?thesis by auto
qed

text \<open>
  The handlers never see a compound child: if all children of a packet have children of
  their own, the walk succeeds and no action is taken, whatever the handler does.  So a \<open>KHL\<close>
  with \<open>NH\<close> children that carry \<open>GU\<close> or \<open>V\<close> is silently dropped, although
  \<open>handle_KHL_NH\<close> has code for them.
\<close>

theorem compound_children_ignored:
  assumes "packet_decode source = GET_CHILD_PACKETS" "wf_buff (data_trunk source)"
    and "length (pd g) = PD_OUT_SIZE"
    and "split_children (buffer_bytes (data_trunk source)) = (cs, Some d)"
    and "list_all child_known cs"
    and "list_all (\<lambda>ch. case ch of Child c L ty bs \<Rightarrow> c AND 0x04 \<noteq> 0 \<and> L \<noteq> 0) cs"
  shows "\<exists>source'. child_loop decide g source st = Some (True, source', st)"
proof -
  have "walk_result decide g st source (cs, Some d)"
    using child_loop_spec[OF assms(1-3), of decide st] assms(4,5) by simp
  then obtain source' ps where w: "list_all2 child_of cs ps"
    "child_loop decide g source st = Some (True, source', fold decide (filter (\<lambda>p. \<not> is_compound p) ps) st)"
    unfolding walk_result_def by auto
  have "list_all is_compound ps"
    using w(1) assms(6) by (induction rule: list_all2_induct) (auto split: child.splits)
  then have "filter (\<lambda>p. \<not> is_compound p) ps = []" by (simp add: filter_empty_conv list_all_iff)
  then show ?thesis using w(2) by simp
qed

text \<open>A \<open>KHL\<close> with one hub \<open>NH\<close> that carries its version \<open>V\<close> before the address.\<close>

definition khl_with_hub :: g2_packet where
  "khl_with_hub = zero_packet\<lparr>plength := 14, packet_type := 4, is_compound := True,
     packet_decode := GET_CHILD_PACKETS,
     data_trunk := full_buff [76, 10, 78, 72, 64, 1, 86, 71, 0, 192, 168, 1, 2, 3]\<rparr>"

theorem compound_children_ignored_witness:
  "\<exists>source'. child_loop (\<lambda>p n. Suc n) zero_packet khl_with_hub 0 = Some (True, source', 0)"
proof -
  have sp: "split_children (buffer_bytes (data_trunk khl_with_hub)) =
      ([Child 76 10 [78, 72] [64, 1, 86, 71, 0, 192, 168, 1, 2, 3]], Some [])" by code_simp
  have "type_name [78, 72] = g2_ptype_names ! 30" by code_simp
  then have "list_all child_known [Child 76 10 [78, 72] [64, 1, 86, 71, 0, 192, 168, 1, 2, 3]]"
    using find_type_known[of 30 "g2_ptype_names ! 30"] by (simp add: PT_MAXIMUM_def)
  moreover have "packet_decode khl_with_hub = GET_CHILD_PACKETS" "wf_buff (data_trunk khl_with_hub)"
    by (simp_all add: khl_with_hub_def wf_full_buff)
  ultimately show ?thesis
    using compound_children_ignored[OF _ _ zero_packet_fields(1) sp] by simp
qed

text \<open>
  C11: Skipping the children of a packet ends, succeeds exactly if no child is broken, and leaves
  the packet at its own data, as long as the types of all children can be looked up (as in the walk of the handlers).
\<close>

theorem skip_child_correct:
  assumes "packet_decode s = GET_CHILD_PACKETS" "wf_buff (data_trunk s)"
    and "length (pd g) = PD_OUT_SIZE"
    and "split_children (buffer_bytes (data_trunk s)) = (cs, d)" and "list_all child_known cs"
  shows "\<exists>s'. skip_child g s = Some (d \<noteq> None, s') \<and>
    (d \<noteq> None \<longrightarrow> packet_decode s' = DECODE_FINISHED \<and> Some (buffer_bytes (data_trunk s')) = d)"
  using skip_child_spec[OF assms(1-3)] assms(4,5) by simp

theorem skip_child_correct_witness:
  "\<exists>s'. skip_child zero_packet (zero_packet\<lparr>packet_decode := GET_CHILD_PACKETS,
      data_trunk := full_buff [0, 7]\<rparr>) = Some (True, s') \<and> buffer_bytes (data_trunk s') = [7]"
proof -
  let ?s = "zero_packet\<lparr>packet_decode := GET_CHILD_PACKETS, data_trunk := full_buff [0, 7]\<rparr>"
  have "split_children (buffer_bytes (data_trunk ?s)) = ([], Some [7])"
    by (simp add: full_buff_bytes split_children.simps)
  from skip_child_correct[OF _ _ zero_packet_fields(1) this] show ?thesis
    by (auto simp: wf_full_buff)
qed

subsection \<open>The packet typer\<close>

text \<open>
  C10: The generated table and the search in it find every packet type by its name and nothing
  else: for an eight byte name whose first word is not below the first entry of the table the
  result is the number of the name in the list of packet types, \<open>PT_UNKNOWN\<close> if it is not there.
\<close>

theorem typer_correct:
  assumes "length ty = 8" and "68 \<le> load_le32 ty 0"
  shows "g2_packet_find_type ty = Some (ptype_of_name ty)"
  by (rule find_type_spec[OF assms])

theorem typer_correct_witness:
  "g2_packet_find_type [80, 73, 0, 0, 0, 0, 0, 0] = Some 6 \<and>
   g2_packet_find_type [90, 90, 90, 90, 90, 0, 0, 0] = Some PT_UNKNOWN"
proof -
  have "68 \<le> load_le32 [80, 73, 0, 0, 0, 0, 0, 0] 0" "68 \<le> load_le32 [90, 90, 90, 90, 90, 0, 0, 0] 0"
    "ptype_of_name [80, 73, 0, 0, 0, 0, 0, 0] = 6"
    "ptype_of_name [90, 90, 90, 90, 90, 0, 0, 0] = PT_UNKNOWN" by code_simp+
  then show ?thesis
    using typer_correct[of "[80, 73, 0, 0, 0, 0, 0, 0]"] typer_correct[of "[90, 90, 90, 90, 90, 0, 0, 0]"]
    by simp
qed

text \<open>
  A type name whose first word is below the first entry of the table, like the one letter
  name \<open>A\<close>, sends the search outside of the table: \<open>high = mid - 1\<close> wraps around in unsigned
  arithmetic when \<open>mid\<close> is zero.  Such a packet can be received from the network.
\<close>

theorem typer_reads_outside:
  assumes "load_le32 ty 0 < 68"
  shows "g2_packet_find_type ty = None"
  by (rule find_type_below[OF assms])

theorem typer_reads_outside_witness:
  "g2_packet_find_type [65, 0, 0, 0, 0, 0, 0, 0] = None \<and>
   parse_header 2 [4, 65] = HHeader 4 0 [65] \<and> type_name [65] = [65, 0, 0, 0, 0, 0, 0, 0]"
proof -
  have "load_le32 [65, 0, 0, 0, 0, 0, 0, 0] 0 < 68" "parse_header 2 [4, 65] = HHeader 4 0 [65]"
    "type_name [65] = [65, 0, 0, 0, 0, 0, 0, 0]" by code_simp+
  with typer_reads_outside[of "[65, 0, 0, 0, 0, 0, 0, 0]"] show ?thesis by simp
qed

subsection \<open>Buffers and packet memory\<close>

text \<open>
  Compacting a well-formed buffer never reads or writes outside of it, moves the unread
  bytes to its front, and leaves the rest of the capacity to be filled.
\<close>

theorem compact_correct:
  assumes "wf_buff x"
  shows "\<exists>y. buffer_compact x = Some y \<and> wf_buff y \<and> buffer_written y = buffer_bytes x \<and>
    limit y = capacity x"
  using buffer_compact_wf[OF assms] by metis

theorem compact_correct_witness:
  "\<exists>y. buffer_compact ((full_buff [1, 2, 3])\<lparr>pos := 1\<rparr>) = Some y \<and> wf_buff y \<and>
    buffer_written y = [2, 3] \<and> limit y = 3"
proof -
  have "wf_buff ((full_buff [1, 2, 3])\<lparr>pos := 1\<rparr>)" "buffer_bytes ((full_buff [1, 2, 3])\<lparr>pos := 1\<rparr>) = [2, 3]"
    by (simp_all add: full_buff_def wf_buff_def SIZE_MAX_def buffer_bytes_def)
  with compact_correct[of "(full_buff [1, 2, 3])\<lparr>pos := 1\<rparr>"] show ?thesis
    by (simp add: full_buff_def numeral_3_eq_3)
qed

text \<open>
  A packet that gets space for its data gets exactly the space it asked for, from its own
  header memory or from the allocator, and the buffer around it is well-formed; the space for
  literal packets does not overlap the name of a packet of unknown type.
\<close>

theorem steal_data_space_correct:
  assumes "length (pd p) = PD_OUT_SIZE" and "\<And>n m. malloc n = Some m \<Longrightarrow> length m = n"
    and "bytes \<le> SIZE_MAX"
    and "g2_packet_steal_data_space malloc p bytes = (True, q) \<or>
      g2_packet_steal_data_space_lit malloc p bytes = (True, q)"
  shows "wf_buff (data_trunk q) \<and> buffer_remaining (data_trunk q) = bytes \<and> pd q = pd p"
proof -
  have "pd q = pd p"
    using assms(4)
    by (auto simp: g2_packet_steal_data_space_def g2_packet_steal_data_space_lit_def Let_def
        split: if_splits option.splits)
  moreover have "wf_buff (data_trunk q) \<and> buffer_remaining (data_trunk q) = bytes"
    using assms(4) steal_data_space_ok[OF assms(1-3)] steal_data_space_lit_ok[OF assms(1-3)] by blast
  ultimately show ?thesis by simp
qed

theorem steal_data_space_correct_witness:
  "\<exists>q. g2_packet_steal_data_space (\<lambda>n. Some (replicate n 0)) zero_packet 10 = (True, q) \<and>
     wf_buff (data_trunk q) \<and> buffer_remaining (data_trunk q) = 10 \<and> pd q = pd zero_packet"
proof -
  obtain q where q: "g2_packet_steal_data_space (\<lambda>n. Some (replicate n 0)) zero_packet 10 = (True, q)"
    by (simp add: g2_packet_steal_data_space_def PD_OUT_SIZE_def)
  with steal_data_space_correct[of zero_packet "\<lambda>n. Some (replicate n 0)" 10 q] show ?thesis
    by (auto simp: zero_packet_fields SIZE_MAX_def)
qed

end
